(* ===== verification/Prelude.thy ===== *)
theory Prelude
  imports Main "HOL-Library.Word" "HOL-Library.While_Combinator"
begin

unbundle bit_operations_syntax

text \<open>
  Shared vocabulary of the development: the exceptions the library throws, the C++ string
  idioms (\<open>find\<close>, \<open>find_first_of\<close>, \<open>replace\<close>, the search-and-replace loop), and the
  lemmas that turn such a loop into one left-to-right scan.
\<close>

section \<open>Exceptions\<close>

text \<open>
  \<open>Error\<close> carries the code and the message of \<open>libdap::Error\<close>, \<open>InternalErr\<close> the message of
  \<open>libdap::InternalErr\<close>, and \<open>Std_Exception\<close> stands for an exception of the C++ library
  (\<open>std::out_of_range\<close>, \<open>std::invalid_argument\<close>).  A fallible routine returns
  \<open>exn + 'a\<close> with \<open>Inl\<close> for a thrown exception.
\<close>

datatype exn = Error int string | InternalErr string | Std_Exception string

type_synonym 'a result = "exn + 'a"

definition undefined_error :: int where "undefined_error = 1000"
definition unknown_error :: int where "unknown_error = 1001"
definition internal_error :: int where "internal_error = 1002"
definition no_such_file :: int where "no_such_file = 1003"
definition no_such_variable :: int where "no_such_variable = 1004"
definition malformed_expr :: int where "malformed_expr = 1005"

lemmas error_code_defs = undefined_error_def unknown_error_def internal_error_def
  no_such_file_def no_such_variable_def malformed_expr_def

text \<open>An access outside an object, or through a pointer that points to none, has no defined behaviour.\<close>

definition invalid_pointer :: exn where
  "invalid_pointer = Std_Exception ''invalid pointer''"

section \<open>Lists\<close>

lemma find_append: "find P (xs @ ys) = (case find P xs of None \<Rightarrow> find P ys | Some x \<Rightarrow> Some x)"
  by (induction xs) simp_all

section \<open>Searching and replacing in a string\<close>

text \<open>
  A search of \<open>std::string\<close> is a predicate on the suffix that starts at the candidate
  position: \<open>starts_in cs\<close> for \<open>find_first_of\<close>, \<open>starts_not_in cs\<close> for
  \<open>find_first_not_of\<close>, \<open>starts_with pat\<close> for \<open>find\<close>.
\<close>

fun find_at :: "('a list \<Rightarrow> bool) \<Rightarrow> 'a list \<Rightarrow> nat option" where
  "find_at P [] = (if P [] then Some 0 else None)"
| "find_at P (c # cs) = (if P (c # cs) then Some 0 else map_option Suc (find_at P cs))"

definition find_from :: "('a list \<Rightarrow> bool) \<Rightarrow> 'a list \<Rightarrow> nat \<Rightarrow> nat option" where
  "find_from P s i = (if i \<le> length s then map_option ((+) i) (find_at P (drop i s)) else None)"

definition starts_in :: "'a list \<Rightarrow> 'a list \<Rightarrow> bool" where
  "starts_in cs s = (case s of [] \<Rightarrow> False | c # _ \<Rightarrow> c \<in> set cs)"

definition starts_not_in :: "'a list \<Rightarrow> 'a list \<Rightarrow> bool" where
  "starts_not_in cs s = (case s of [] \<Rightarrow> False | c # _ \<Rightarrow> c \<notin> set cs)"

definition starts_with :: "'a list \<Rightarrow> 'a list \<Rightarrow> bool" where
  "starts_with pat s \<longleftrightarrow> take (length pat) s = pat"

definition substr :: "'a list \<Rightarrow> nat \<Rightarrow> nat \<Rightarrow> 'a list" where
  "substr s i n = take n (drop i s)"

definition replace_at :: "'a list \<Rightarrow> nat \<Rightarrow> nat \<Rightarrow> 'a list \<Rightarrow> 'a list" where
  "replace_at s i n r = take i s @ r @ drop (i + n) s"

text \<open>
  The idiom \<open>while ((i = s.find(.., i)) != npos) { s.replace(i, ..); i += ..; }\<close>: the body
  gets the string and the position found, and returns the string and the next position.
\<close>

definition replace_loop ::
  "('a list \<Rightarrow> bool) \<Rightarrow> ('a list \<Rightarrow> nat \<Rightarrow> 'a list \<times> nat) \<Rightarrow> 'a list \<Rightarrow> nat \<Rightarrow> 'a list \<times> nat" where
  "replace_loop P body s i =
     while (\<lambda>(s, i). find_from P s i \<noteq> None) (\<lambda>(s, i). body s (the (find_from P s i))) (s, i)"

text \<open>The same loop where it is not known to stop: \<open>None\<close> when it does not.\<close>

definition replace_loop_option ::
  "('a list \<Rightarrow> bool) \<Rightarrow> ('a list \<Rightarrow> nat \<Rightarrow> 'a list \<times> nat) \<Rightarrow> 'a list \<Rightarrow> nat \<Rightarrow> ('a list \<times> nat) option" where
  "replace_loop_option P body s i =
     while_option (\<lambda>(s, i). find_from P s i \<noteq> None) (\<lambda>(s, i). body s (the (find_from P s i))) (s, i)"

text \<open>The loop whose body may throw: the exception ends it.\<close>

definition replace_loop_exn ::
  "('a list \<Rightarrow> bool) \<Rightarrow> ('a list \<Rightarrow> nat \<Rightarrow> ('a list \<times> nat) result) \<Rightarrow> 'a list \<Rightarrow> nat \<Rightarrow> ('a list \<times> nat) result" where
  "replace_loop_exn P body s i =
     while (\<lambda>x. case x of Inl e \<Rightarrow> False | Inr (s, i) \<Rightarrow> find_from P s i \<noteq> None)
       (\<lambda>x. case x of Inl e \<Rightarrow> Inl e | Inr (s, i) \<Rightarrow> body s (the (find_from P s i))) (Inr (s, i))"

text \<open>
  The left-to-right scan a well-behaved loop amounts to: where \<open>P\<close> holds of the rest,
  \<open>r\<close> gives what to emit and how many characters to consume.
\<close>

fun scan :: "('a list \<Rightarrow> bool) \<Rightarrow> ('a list \<Rightarrow> 'a list \<times> nat) \<Rightarrow> 'a list \<Rightarrow> 'a list" where
  "scan P r [] = []"
| "scan P r (c # cs) =
     (if P (c # cs) then fst (r (c # cs)) @ scan P r (drop (snd (r (c # cs)) - 1) cs)
      else c # scan P r cs)"

subsection \<open>Facts about the searches\<close>

lemma starts_in_simps [simp]:
  "starts_in cs [] = False" "starts_in cs (c # s) = (c \<in> set cs)"
  by (simp_all add: starts_in_def)

lemma starts_not_in_simps [simp]:
  "starts_not_in cs [] = False" "starts_not_in cs (c # s) = (c \<notin> set cs)"
  by (simp_all add: starts_not_in_def)

lemma starts_with_Nil [simp]: "starts_with [] s"
  by (simp add: starts_with_def)

lemma starts_with_Cons_Nil [simp]: "\<not> starts_with (p # ps) []"
  by (simp add: starts_with_def)

lemma starts_with_Cons [simp]:
  "starts_with (p # ps) (c # cs) \<longleftrightarrow> c = p \<and> starts_with ps cs"
  by (auto simp: starts_with_def)

lemma starts_with_append [simp]: "starts_with p (p @ s)"
  by (simp add: starts_with_def)

lemma find_at_Some:
  assumes "find_at P s = Some j"
  shows "j \<le> length s \<and> P (drop j s) \<and> (\<forall>k<j. \<not> P (drop k s))"
  using assms
proof (induction s arbitrary: j)
  case Nil
  then show ?case by (auto split: if_splits)
next
  case (Cons c cs)
  show ?case
  proof (cases "P (c # cs)")
    case True
    with Cons.prems show ?thesis by auto
  next
    case False
    with Cons.prems obtain j' where "find_at P cs = Some j'" "j = Suc j'" by auto
    with Cons.IH False show ?thesis by (auto simp: less_Suc_eq_0_disj)
  qed
qed

lemma all_le_length_Cons:
  "(\<forall>k\<le>length (c # cs). Q (drop k (c # cs))) \<longleftrightarrow> Q (c # cs) \<and> (\<forall>k\<le>length cs. Q (drop k cs))"
proof -
  have "(\<forall>k<Suc (Suc (length cs)). Q (drop k (c # cs))) \<longleftrightarrow> Q (c # cs) \<and> (\<forall>k<Suc (length cs). Q (drop k cs))"
    by (subst All_less_Suc2) simp
  then show ?thesis by (simp add: less_Suc_eq_le)
qed

lemma find_at_None: "find_at P s = None \<longleftrightarrow> (\<forall>k\<le>length s. \<not> P (drop k s))"
proof (induction s)
  case (Cons c cs)
  then show ?case
    unfolding all_le_length_Cons [of c cs "\<lambda>x. \<not> P x"] by simp
qed simp

lemma find_at_eqI:
  assumes "j \<le> length s" "P (drop j s)" "\<And>k. k < j \<Longrightarrow> \<not> P (drop k s)"
  shows "find_at P s = Some j"
proof (cases "find_at P s")
  case None
  with assms(1,2) show ?thesis by (auto simp: find_at_None)
next
  case (Some j')
  from find_at_Some [OF this] assms have "j' = j" by (metis linorder_neqE_nat)
  with Some show ?thesis by simp
qed

lemma find_from_Some:
  assumes "find_from P s i = Some j"
  shows "i \<le> j" "j \<le> length s" "P (drop j s)" "\<And>k. i \<le> k \<Longrightarrow> k < j \<Longrightarrow> \<not> P (drop k s)"
proof -
  from assms obtain m where m: "find_at P (drop i s) = Some m" and j: "j = i + m" and i: "i \<le> length s"
    by (auto simp: find_from_def split: if_splits)
  note F = find_at_Some [OF m]
  show "i \<le> j" "j \<le> length s" "P (drop j s)" using F i by (auto simp: j add.commute)
  fix k assume "i \<le> k" "k < j"
  then have "k - i < m" by (simp add: j less_diff_conv2)
  with F have "\<not> P (drop (k - i) (drop i s))" by blast
  with \<open>i \<le> k\<close> show "\<not> P (drop k s)" by simp
qed

lemma find_from_None:
  "find_from P s i = None \<longleftrightarrow> (\<forall>k. i \<le> k \<longrightarrow> k \<le> length s \<longrightarrow> \<not> P (drop k s))"
proof (cases "i \<le> length s")
  case True
  have "(\<forall>m\<le>length s - i. \<not> P (drop (m + i) s)) \<longleftrightarrow> (\<forall>k. i \<le> k \<longrightarrow> k \<le> length s \<longrightarrow> \<not> P (drop k s))"
    (is "?L \<longleftrightarrow> ?R")
  proof
    assume L: ?L
    show ?R
    proof (intro allI impI)
      fix k assume "i \<le> k" "k \<le> length s"
      with L [rule_format, of "k - i"] show "\<not> P (drop k s)" by simp
    qed
  next
    assume ?R
    with True show ?L by simp
  qed
  with True show ?thesis by (simp add: find_from_def find_at_None)
qed (auto simp: find_from_def)

lemma find_from_eqI:
  assumes "i \<le> j" "j \<le> length s" "P (drop j s)" "\<And>k. i \<le> k \<Longrightarrow> k < j \<Longrightarrow> \<not> P (drop k s)"
  shows "find_from P s i = Some j"
proof (cases "find_from P s i")
  case None
  with assms(1-3) show ?thesis by (auto simp: find_from_None)
next
  case (Some j')
  from find_from_Some [OF this] assms have "j' = j" by (metis linorder_neqE_nat)
  with Some show ?thesis by simp
qed

lemma find_from_shift:
  assumes "i \<le> i'" "i' \<le> length s" "\<And>k. i \<le> k \<Longrightarrow> k < i' \<Longrightarrow> \<not> P (drop k s)"
  shows "find_from P s i = find_from P s i'"
proof (cases "find_from P s i'")
  case None
  then have "\<forall>k. i \<le> k \<longrightarrow> k \<le> length s \<longrightarrow> \<not> P (drop k s)"
    using assms(3) by (metis find_from_None not_less)
  then have "find_from P s i = None" by (simp only: find_from_None)
  with None show ?thesis by simp
next
  case (Some j)
  note F = find_from_Some [OF Some]
  have "find_from P s i = Some j"
  proof (rule find_from_eqI)
    fix k assume "i \<le> k" "k < j"
    then show "\<not> P (drop k s)" using assms(3) F(4) by (cases "k < i'") auto
  qed (use F assms in auto)
  with Some show ?thesis by simp
qed

subsection \<open>The loop as a scan\<close>

lemma scan_no_match: "\<forall>k\<le>length u. \<not> P (drop k u) \<Longrightarrow> scan P r u = u"
proof (induction u)
  case (Cons c cs)
  then show ?case unfolding all_le_length_Cons [of c cs "\<lambda>x. \<not> P x"] by simp
qed simp

lemma scan_find:
  assumes "find_at P u = Some m" "\<not> P []" "0 < snd (r (drop m u))"
  shows "scan P r u = take m u @ fst (r (drop m u)) @ scan P r (drop (m + snd (r (drop m u))) u)"
  using assms
proof (induction u arbitrary: m)
  case Nil
  then show ?case by simp
next
  case (Cons c cs)
  show ?case
  proof (cases "P (c # cs)")
    case True
    with Cons.prems have "m = 0" by simp
    with True Cons.prems(3) show ?thesis by (cases "snd (r (c # cs))") auto
  next
    case False
    with Cons.prems obtain m' where m': "find_at P cs = Some m'" "m = Suc m'" by auto
    with Cons.IH [OF m'(1) Cons.prems(2)] Cons.prems(3) False show ?thesis by simp
  qed
qed

lemma replace_loop_option_unfold:
  "replace_loop_option P body s i =
     (case find_from P s i of None \<Rightarrow> Some (s, i)
      | Some j \<Rightarrow> replace_loop_option P body (fst (body s j)) (snd (body s j)))"
  unfolding replace_loop_option_def
  by (subst while_option_unfold) (auto split: option.splits)

lemma replace_loop_of_option:
  "replace_loop_option P body s i = Some x \<Longrightarrow> replace_loop P body s i = x"
  by (simp add: replace_loop_option_def replace_loop_def while_def)

lemma replace_loop_option_shift:
  assumes "i \<le> i'" "i' \<le> length s" "\<And>k. i \<le> k \<Longrightarrow> k < i' \<Longrightarrow> \<not> P (drop k s)"
  shows "map_option fst (replace_loop_option P body s i) = map_option fst (replace_loop_option P body s i')"
proof -
  have "find_from P s i = find_from P s i'" by (rule find_from_shift) (use assms in auto)
  then show ?thesis
    by (simp add: replace_loop_option_unfold [of P body s i] replace_loop_option_unfold [of P body s i']
        split: option.split)
qed

text \<open>
  The body's contract for the scan: at the match it found it emits \<open>fst (r ..)\<close> for
  \<open>snd (r ..)\<close> consumed characters, and resumes the search no later than right after
  what it emitted, with no match in between.  \<open>J\<close> is an invariant of the loop over the string
  and the position up to which it is final.
\<close>

definition scan_body ::
  "('a list \<Rightarrow> nat \<Rightarrow> bool) \<Rightarrow> ('a list \<Rightarrow> bool) \<Rightarrow> ('a list \<Rightarrow> nat \<Rightarrow> 'a list \<times> nat) \<Rightarrow>
   ('a list \<Rightarrow> 'a list \<times> nat) \<Rightarrow> bool" where
  "scan_body J P body r \<longleftrightarrow> \<not> P [] \<and>
     (\<forall>s i j. J s i \<longrightarrow> i \<le> j \<longrightarrow> P (drop j s) \<longrightarrow> (\<forall>k. i \<le> k \<longrightarrow> k < j \<longrightarrow> \<not> P (drop k s)) \<longrightarrow>
        0 < snd (r (drop j s)) \<and>
        fst (body s j) = take j s @ fst (r (drop j s)) @ drop (j + snd (r (drop j s))) s \<and>
        snd (body s j) \<le> j + length (fst (r (drop j s))) \<and>
        (\<forall>k. snd (body s j) \<le> k \<longrightarrow> k < j + length (fst (r (drop j s))) \<longrightarrow> \<not> P (drop k (fst (body s j)))) \<and>
        J (fst (body s j)) (j + length (fst (r (drop j s)))))"

text \<open>Two invariants suffice: none, and "no match before the position" for loops that restart.\<close>

definition no_inv :: "'a list \<Rightarrow> nat \<Rightarrow> bool" where
  "no_inv s i \<longleftrightarrow> True"

definition clean_before :: "('a list \<Rightarrow> bool) \<Rightarrow> 'a list \<Rightarrow> nat \<Rightarrow> bool" where
  "clean_before P s i \<longleftrightarrow> (\<forall>k<i. \<not> P (drop k s))"

lemma no_inv [simp]: "no_inv s i" by (simp add: no_inv_def)
lemma clean_before_0 [simp]: "clean_before P s 0" by (simp add: clean_before_def)

lemma scan_bodyI:
  assumes "\<not> P []"
    and "\<And>s j. P (drop j s) \<Longrightarrow> 0 < snd (r (drop j s)) \<and>
        body s j = (take j s @ fst (r (drop j s)) @ drop (j + snd (r (drop j s))) s, i' s j) \<and>
        i' s j \<le> j + length (fst (r (drop j s))) \<and>
        (\<forall>k. i' s j \<le> k \<longrightarrow> k < j + length (fst (r (drop j s))) \<longrightarrow>
          \<not> P (drop k (take j s @ fst (r (drop j s)) @ drop (j + snd (r (drop j s))) s)))"
  shows "scan_body no_inv P body r"
  using assms unfolding scan_body_def by simp

lemma scan_body_restartI:
  assumes "\<not> P []"
    and "\<And>s j. P (drop j s) \<Longrightarrow> (\<And>k. k < j \<Longrightarrow> \<not> P (drop k s)) \<Longrightarrow> 0 < snd (r (drop j s)) \<and>
        body s j = (take j s @ fst (r (drop j s)) @ drop (j + snd (r (drop j s))) s, 0) \<and>
        (\<forall>k < j + length (fst (r (drop j s))).
          \<not> P (drop k (take j s @ fst (r (drop j s)) @ drop (j + snd (r (drop j s))) s)))"
  shows "scan_body (clean_before P) P body r"
  unfolding scan_body_def
proof (intro conjI allI impI assms(1))
  fix s i j
  assume J: "clean_before P s i" and ij: "i \<le> j" and Pj: "P (drop j s)"
    and nm: "\<forall>k. i \<le> k \<longrightarrow> k < j \<longrightarrow> \<not> P (drop k s)"
  have "\<And>k. k < j \<Longrightarrow> \<not> P (drop k s)"
    using J nm unfolding clean_before_def by (meson not_less)
  note A = assms(2) [OF Pj this]
  show "0 < snd (r (drop j s))"
    "fst (body s j) = take j s @ fst (r (drop j s)) @ drop (j + snd (r (drop j s))) s"
    "snd (body s j) \<le> j + length (fst (r (drop j s)))"
    "clean_before P (fst (body s j)) (j + length (fst (r (drop j s))))"
    using A by (simp_all add: clean_before_def)
  show "\<And>k. k < j + length (fst (r (drop j s))) \<Longrightarrow> \<not> P (drop k (fst (body s j)))"
    using A by simp
qed

lemma replace_loop_option_scan:
  assumes "scan_body J P body r" "i \<le> length s" "J s i"
  shows "map_option fst (replace_loop_option P body s i) = Some (take i s @ scan P r (drop i s))"
  using assms(2,3)
proof (induction "length s - i" arbitrary: s i rule: less_induct)
  case less
  have nil: "\<not> P []" using assms(1) by (simp add: scan_body_def)
  show ?case
  proof (cases "find_from P s i")
    case None
    then have "\<forall>k\<le>length (drop i s). \<not> P (drop k (drop i s))"
      using less.prems(1) by (auto simp: find_from_None)
    then have "scan P r (drop i s) = drop i s" by (rule scan_no_match)
    with None show ?thesis by (subst replace_loop_option_unfold) simp
  next
    case (Some j)
    note F = find_from_Some [OF Some]
    have jl: "j < length s" using F nil by (metis drop_all le_neq_implies_less order_refl)
    define out n s' i' where "out = fst (r (drop j s))" and "n = snd (r (drop j s))"
      and "s' = fst (body s j)" and "i' = snd (body s j)"
    have B: "0 < n" "s' = take j s @ out @ drop (j + n) s" "i' \<le> j + length out"
      "\<And>k. i' \<le> k \<Longrightarrow> k < j + length out \<Longrightarrow> \<not> P (drop k s')" "J s' (j + length out)"
      using assms(1) less.prems(2) F(1,3,4) unfolding scan_body_def out_def n_def s'_def i'_def by blast+
    let ?e = "j + length out"
    have el: "?e \<le> length s'" using jl by (simp add: B(2))
    have "length s' - ?e < length s - i" using B(1) jl F(1) by (simp add: B(2))
    then have IH: "map_option fst (replace_loop_option P body s' ?e) = Some (take ?e s' @ scan P r (drop ?e s'))"
      using el B(5) by (rule less.hyps)
    have "map_option fst (replace_loop_option P body s i) = map_option fst (replace_loop_option P body s' i')"
      using Some by (subst replace_loop_option_unfold) (simp add: s'_def i'_def)
    also have "\<dots> = map_option fst (replace_loop_option P body s' ?e)"
      by (rule replace_loop_option_shift) (use B el in auto)
    also have "\<dots> = Some (take j s @ out @ scan P r (drop (j + n) s))"
      unfolding IH using jl by (simp add: B(2))
    also have "take j s @ out @ scan P r (drop (j + n) s) = take i s @ scan P r (drop i s)"
    proof -
      from Some less.prems(1) have m: "find_at P (drop i s) = Some (j - i)" by (auto simp: find_from_def)
      have dd: "drop (j - i) (drop i s) = drop j s" using F(1) by simp
      have tt: "take i s @ take (j - i) (drop i s) = take j s"
        using F(1) by (metis le_add_diff_inverse take_add)
      from scan_find [OF m nil, of r] B(1) F(1) show ?thesis
        unfolding dd tt [symmetric] out_def n_def by (simp add: add.commute)
    qed
    finally show ?thesis .
  qed
qed

lemma replace_loop_scan:
  assumes "scan_body J P body r" "J s 0"
  shows "fst (replace_loop P body s 0) = scan P r s"
proof -
  from replace_loop_option_scan [OF assms(1) _ assms(2)]
  obtain x where "replace_loop_option P body s 0 = Some x" "fst x = scan P r s" by auto
  then show ?thesis by (simp add: replace_loop_of_option)
qed

lemma replace_loop_no_match:
  assumes "find_from P s i = None"
  shows "fst (replace_loop P body s i) = s"
proof -
  from assms have "replace_loop_option P body s i = Some (s, i)"
    by (subst replace_loop_option_unfold) simp
  then show ?thesis by (simp add: replace_loop_of_option)
qed

lemma replace_loop_exn_pure:
  assumes "\<And>s j. P (drop j s) \<Longrightarrow> body s j = Inr (body' s j)"
    and "replace_loop_option P body' s i = Some x"
  shows "replace_loop_exn P body s i = Inr x"
proof -
  let ?b = "\<lambda>(s, i). find_from P s i \<noteq> None" and ?c = "\<lambda>(s, i). body' s (the (find_from P s i))"
  let ?b' = "\<lambda>x. case x of Inl (e::exn) \<Rightarrow> False | Inr (s, i) \<Rightarrow> find_from P s i \<noteq> None"
  let ?c' = "\<lambda>x. case x of Inl e \<Rightarrow> Inl e | Inr (s, i) \<Rightarrow> body s (the (find_from P s i))"
  have body: "body s j = Inr (body' s j)" if "find_from P s i = Some j" for s i j
    using assms(1) find_from_Some(3) [OF that] by blast
  have "map_option Inr (while_option ?b ?c (s, i)) = while_option ?b' ?c' (Inr (s, i))"
    by (rule while_option_commute) (auto simp: body)
  with assms(2) show ?thesis
    by (simp add: replace_loop_option_def replace_loop_exn_def while_def flip: \<open>map_option Inr _ = _\<close>)
qed

text \<open>A scan whose matches are single characters maps every character on its own.\<close>

lemma scan_concat_map:
  assumes "\<And>c cs. P (c # cs) \<longleftrightarrow> bad c" "\<And>c cs. bad c \<Longrightarrow> r (c # cs) = (enc c, Suc 0)"
  shows "scan P r s = concat (map (\<lambda>c. if bad c then enc c else [c]) s)"
  by (induction s) (simp_all add: assms)

lemma drop_eq_ConsD: "drop j s = c # cs \<Longrightarrow> j < length s \<and> s ! j = c \<and> drop (Suc j) s = cs"
  by (metis drop_Suc length_drop list.sel(1,3) drop_eq_Nil hd_drop_conv_nth leI list.distinct(1) tl_drop)

text \<open>
  The loops that replace one character at a time: \<open>e c\<close> stands for the character \<open>c\<close>, and the
  search resumes where \<open>e c\<close> has no replaceable character left.
\<close>

lemma replace_loop_option_chars:
  assumes P: "\<not> P []" "\<And>c cs. P (c # cs) \<longleftrightarrow> bad c"
    and body: "\<And>s j. bad (s ! j) \<Longrightarrow> body s j = (replace_at s j 1 (e (s ! j)), i' s j)"
    and i': "\<And>s j. bad (s ! j) \<Longrightarrow> i' s j \<le> j + length (e (s ! j))"
      "\<And>s j k. bad (s ! j) \<Longrightarrow> i' s j \<le> k \<Longrightarrow> k < j + length (e (s ! j)) \<Longrightarrow> j \<le> k \<and> \<not> bad (e (s ! j) ! (k - j))"
  shows "map_option fst (replace_loop_option P body s 0) =
    Some (concat (map (\<lambda>c. if bad c then e c else [c]) s))"
proof -
  let ?r = "\<lambda>u. (e (hd u), Suc 0)"
  have "scan_body no_inv P body ?r"
  proof (rule scan_bodyI [where i' = i'], rule P(1))
    fix s j assume "P (drop j s)"
    then obtain c cs where d: "drop j s = c # cs" by (cases "drop j s") (auto simp: P(1))
    with \<open>P (drop j s)\<close> have b: "bad (s ! j)" and j: "j < length s" "s ! j = c"
      using drop_eq_ConsD [OF d] by (auto simp: P(2))
    have "\<not> P (drop k (take j s @ e c @ drop (Suc j) s))" if k: "i' s j \<le> k" "k < j + length (e c)" for k
    proof -
      have jk: "j \<le> k" "\<not> bad (e c ! (k - j))" using i'(2) [OF b k(1)] k(2) j by auto
      have "drop k (take j s @ e c @ drop (Suc j) s) = drop (k - j) (e c) @ drop (Suc j) s"
        using jk k j by simp
      moreover have "drop (k - j) (e c) = e c ! (k - j) # drop (Suc (k - j)) (e c)"
        using jk(1) k(2) by (simp add: Cons_nth_drop_Suc less_diff_conv2)
      ultimately show ?thesis using jk(2) by (simp add: P(2))
    qed
    with i'(1) [OF b] j show "0 < snd (?r (drop j s)) \<and>
        body s j = (take j s @ fst (?r (drop j s)) @ drop (j + snd (?r (drop j s))) s, i' s j) \<and>
        i' s j \<le> j + length (fst (?r (drop j s))) \<and>
        (\<forall>k. i' s j \<le> k \<longrightarrow> k < j + length (fst (?r (drop j s))) \<longrightarrow>
          \<not> P (drop k (take j s @ fst (?r (drop j s)) @ drop (j + snd (?r (drop j s))) s)))"
      by (simp add: d body [OF b] replace_at_def)
  qed
  then have "map_option fst (replace_loop_option P body s 0) = Some (scan P ?r s)"
    using replace_loop_option_scan [of no_inv P body ?r 0 s] by simp
  also have "scan P ?r s = concat (map (\<lambda>c. if bad c then e c else [c]) s)"
    by (rule scan_concat_map) (simp_all add: P)
  finally show ?thesis .
qed

lemma replace_loop_option_fst:
  assumes "map_option fst (replace_loop_option P body s i) = Some t"
  shows "fst (replace_loop P body s i) = t"
proof -
  from assms obtain x where "replace_loop_option P body s i = Some x" "fst x = t" by auto
  then show ?thesis by (simp add: replace_loop_of_option)
qed

lemmas replace_loop_chars = replace_loop_option_chars [THEN replace_loop_option_fst]

text \<open>The loops that restart at 0 after replacing \<open>n\<close> characters by a text without a match.\<close>

lemma replace_loop_restart:
  assumes P: "\<not> P []" "\<And>c cs. P (c # cs) \<longleftrightarrow> bad c"
    and body: "\<And>s j. body s j = (replace_at s j n out, 0)"
    and n: "0 < n" and out: "list_all (\<lambda>c. \<not> bad c) out"
  shows "map_option fst (replace_loop_option P body s 0) = Some (scan P (\<lambda>u. (out, n)) s)"
proof -
  let ?r = "\<lambda>u. (out, n)"
  have "scan_body (clean_before P) P body ?r"
  proof (rule scan_body_restartI, rule P(1))
    fix s j assume Pj: "P (drop j s)" and nm: "\<And>k. k < j \<Longrightarrow> \<not> P (drop k s)"
    then have j: "j < length s" using P(1) by (metis drop_all leI)
    have "\<not> P (drop k (take j s @ out @ drop (j + n) s))" if k: "k < j + length out" for k
    proof (cases "k < j")
      case True
      with j have "drop k (take j s @ out @ drop (j + n) s) = s ! k # drop (Suc k) (take j s) @ out @ drop (j + n) s"
        by (simp add: Cons_nth_drop_Suc [of k "take j s", symmetric])
      moreover have "drop k s = s ! k # drop (Suc k) s" using True j by (simp add: Cons_nth_drop_Suc)
      ultimately show ?thesis using nm [OF True] by (simp add: P(2))
    next
      case False
      with k j have "drop k (take j s @ out @ drop (j + n) s) = out ! (k - j) # drop (Suc (k - j)) out @ drop (j + n) s"
        by (simp add: Cons_nth_drop_Suc)
      moreover have "\<not> bad (out ! (k - j))" using out k False by (simp add: list_all_length)
      ultimately show ?thesis by (simp add: P(2))
    qed
    then show "0 < snd (?r (drop j s)) \<and>
        body s j = (take j s @ fst (?r (drop j s)) @ drop (j + snd (?r (drop j s))) s, 0) \<and>
        (\<forall>k < j + length (fst (?r (drop j s))).
          \<not> P (drop k (take j s @ fst (?r (drop j s)) @ drop (j + snd (?r (drop j s))) s)))"
      by (simp add: n body replace_at_def)
  qed
  then show ?thesis using replace_loop_option_scan [of "clean_before P" P body ?r 0 s] by simp
qed

section \<open>Decoding loops\<close>

text \<open>
  The contract between an escaping routine and the loop that undoes it.  \<open>enc c\<close> is what
  stands in the input for the character \<open>c\<close> and \<open>enc' c\<close> what the loop must leave for it: the
  character itself for a full inverse, a less escaped form for one pass of several.  The law:
  with everything before \<open>c\<close> already decoded, either \<open>enc c\<close> is left alone and holds no match,
  or the loop matches right there, replaces it, and resumes where no match is skipped.
\<close>

locale replace_decoder =
  fixes P :: "'a list \<Rightarrow> bool" and body :: "'a list \<Rightarrow> nat \<Rightarrow> 'a list \<times> nat"
    and enc :: "'a \<Rightarrow> 'a list" and enc' :: "'a \<Rightarrow> 'a list" and ok :: "'a \<Rightarrow> bool"
  assumes no_match_Nil: "\<not> P []"
    and decode_step: "ok c \<Longrightarrow> list_all ok pre \<Longrightarrow> list_all ok rest \<Longrightarrow>
      D = concat (map enc' pre) \<Longrightarrow> R = concat (map enc rest) \<Longrightarrow>
      (enc c = enc' c \<and> (\<forall>k<length (enc c). \<not> P (drop k (enc c @ R)))) \<or>
      (P (enc c @ R) \<and> (\<exists>i'. body (D @ enc c @ R) (length D) = (D @ enc' c @ R, i') \<and>
        i' \<le> length (D @ enc' c) \<and>
        (\<forall>k. i' \<le> k \<longrightarrow> k < length (D @ enc' c) \<longrightarrow> \<not> P (drop k (D @ enc' c @ R)))))"
begin

lemma decode_loop_from:
  assumes "list_all ok pre" "list_all ok s"
  shows "map_option fst (replace_loop_option P body
      (concat (map enc' pre) @ concat (map enc s)) (length (concat (map enc' pre))))
    = Some (concat (map enc' (pre @ s)))"
  using assms
proof (induction s arbitrary: pre)
  case Nil
  have "find_from P (concat (map enc' pre)) (length (concat (map enc' pre))) = None"
    using no_match_Nil by (simp add: find_from_None del: length_concat)
  then show ?case by (subst replace_loop_option_unfold) (simp del: length_concat)
next
  case (Cons c rest)
  define D R where "D = concat (map enc' pre)" and "R = concat (map enc rest)"
  have IH: "map_option fst (replace_loop_option P body (D @ enc' c @ R) (length (D @ enc' c)))
      = Some (concat (map enc' (pre @ c # rest)))"
    using Cons.IH [of "pre @ [c]"] Cons.prems by (simp add: D_def R_def del: length_concat)
  from Cons.prems consider
      "enc c = enc' c" "\<forall>k<length (enc c). \<not> P (drop k (enc c @ R))"
    | i' where "P (enc c @ R)" "body (D @ enc c @ R) (length D) = (D @ enc' c @ R, i')"
        "i' \<le> length (D @ enc' c)"
        "\<forall>k. i' \<le> k \<longrightarrow> k < length (D @ enc' c) \<longrightarrow> \<not> P (drop k (D @ enc' c @ R))"
    using decode_step [of c pre rest D R] by (auto simp: D_def R_def simp del: length_concat)
  then have "map_option fst (replace_loop_option P body (D @ enc c @ R) (length D))
      = map_option fst (replace_loop_option P body (D @ enc' c @ R) (length (D @ enc' c)))"
  proof cases
    case 1
    have "\<not> P (drop k (D @ enc' c @ R))" if "length D \<le> k" "k < length (D @ enc' c)" for k
      using 1(2) [rule_format, of "k - length D"] that 1(1) by simp
    then show ?thesis unfolding 1(1) by (intro replace_loop_option_shift) simp_all
  next
    case 2
    have "find_from P (D @ enc c @ R) (length D) = Some (length D)"
      by (rule find_from_eqI) (use 2(1) in simp_all)
    then have "map_option fst (replace_loop_option P body (D @ enc c @ R) (length D))
        = map_option fst (replace_loop_option P body (D @ enc' c @ R) i')"
      by (subst replace_loop_option_unfold) (simp add: 2(2))
    also have "\<dots> = map_option fst (replace_loop_option P body (D @ enc' c @ R) (length (D @ enc' c)))"
      by (intro replace_loop_option_shift) (use 2(3,4) in simp_all)
    finally show ?thesis .
  qed
  with IH show ?case by (simp add: D_def R_def del: length_concat)
qed

lemma decode_loop:
  "list_all ok s \<Longrightarrow> map_option fst (replace_loop_option P body (concat (map enc s)) 0) = Some (concat (map enc' s))"
  using decode_loop_from [of "[]"] by simp

lemma decode:
  assumes "list_all ok s"
  shows "fst (replace_loop P body (concat (map enc s)) 0) = concat (map enc' s)"
proof -
  from decode_loop [OF assms]
  obtain x where "replace_loop_option P body (concat (map enc s)) 0 = Some x" "fst x = concat (map enc' s)"
    by auto
  then show ?thesis by (simp add: replace_loop_of_option)
qed

end

text \<open>The full inverse: every character is restored.\<close>

locale char_decoder = replace_decoder P body enc "\<lambda>c. [c]" ok
  for P :: "'a list \<Rightarrow> bool" and body and enc and ok
begin

lemma decode_encode: "list_all ok s \<Longrightarrow> fst (replace_loop P body (concat (map enc s)) 0) = s"
  using decode by (simp add: concat_map_singleton)

end

end
