(* ===== verification/CLib.thy ===== *)
theory CLib
  imports Prelude
begin

text \<open>
  What the sources use of the C library: character classes, conversions between integer types,
  reading and printing of decimal, octal and hexadecimal numbers.
\<close>

section \<open>Integers\<close>

type_synonym u8 = "8 word"
type_synonym u16 = "16 word"
type_synonym u32 = "32 word"
type_synonym u64 = "64 word"

text \<open>A conversion to \<open>int\<close> (32 bits) or \<open>unsigned int\<close> wraps.\<close>

definition to_int :: "int \<Rightarrow> int" where
  "to_int v = sint (of_int v :: 32 word)"

definition to_uint :: "int \<Rightarrow> int" where
  "to_uint v = v mod 2 ^ 32"

lemma to_int_small [simp]: "0 \<le> v \<Longrightarrow> v < 2 ^ 31 \<Longrightarrow> to_int v = v"
  by (simp add: to_int_def sint_sbintrunc' signed_take_bit_int_eq_self)

lemma to_int_range [simp]: "- (2 ^ 31) \<le> v \<Longrightarrow> v < 2 ^ 31 \<Longrightarrow> to_int v = v"
  by (simp add: to_int_def sint_sbintrunc' signed_take_bit_int_eq_self)

text \<open>Division truncates towards zero.\<close>

definition tdiv :: "int \<Rightarrow> int \<Rightarrow> int" where
  "tdiv a b = sgn a * sgn b * (\<bar>a\<bar> div \<bar>b\<bar>)"

lemma tdiv_nonneg [simp]: "0 \<le> a \<Longrightarrow> 0 < b \<Longrightarrow> tdiv a b = a div b"
  by (cases "a = 0") (simp_all add: tdiv_def)

lemma tdiv_bounds:
  assumes "0 < b"
  shows "a \<le> 0 \<Longrightarrow> a \<le> tdiv a b \<and> tdiv a b \<le> 0" "0 \<le> a \<Longrightarrow> 0 \<le> tdiv a b \<and> tdiv a b \<le> a"
proof -
  have q: "0 \<le> x div b" "x div b \<le> x" if "0 \<le> x" for x
    using that assms zdiv_mono2 [of x 1 b] by (simp_all add: pos_imp_zdiv_nonneg_iff)
  show "0 \<le> a \<Longrightarrow> 0 \<le> tdiv a b \<and> tdiv a b \<le> a" using q [of a] assms by simp
  show "a \<le> 0 \<Longrightarrow> a \<le> tdiv a b \<and> tdiv a b \<le> 0"
    using q [of "- a"] assms by (cases "a = 0") (simp_all add: tdiv_def)
qed

section \<open>Characters and numbers in text\<close>

abbreviation NUL :: char where "NUL \<equiv> CHR 0x00"

definition is_space :: "char \<Rightarrow> bool" where
  "is_space c \<longleftrightarrow> c \<in> {CHR '' '', CHR 0x09, CHR 0x0A, CHR 0x0B, CHR 0x0C, CHR 0x0D}"

definition digit_val :: "char \<Rightarrow> nat" where
  "digit_val c = (let n = of_char c :: nat in
     if 48 \<le> n \<and> n \<le> 57 then n - 48
     else if 97 \<le> n \<and> n \<le> 122 then n - 87
     else if 65 \<le> n \<and> n \<le> 90 then n - 55 else 99)"

definition digits_value :: "nat \<Rightarrow> string \<Rightarrow> nat" where
  "digits_value base ds = fold (\<lambda>c v. v * base + digit_val c) ds 0"

definition clamp_int :: "int \<Rightarrow> int" where
  "clamp_int v = max (- (2 ^ 31)) (min (2 ^ 31 - 1) v)"

definition is_digit :: "char \<Rightarrow> bool" where
  "is_digit c \<longleftrightarrow> (let n = of_char c :: nat in 48 \<le> n \<and> n \<le> 57)"

definition is_alpha :: "char \<Rightarrow> bool" where
  "is_alpha c \<longleftrightarrow> (let n = of_char c :: nat in 65 \<le> n \<and> n \<le> 90 \<or> 97 \<le> n \<and> n \<le> 122)"

definition to_lower :: "char \<Rightarrow> char" where
  "to_lower c = (let n = of_char c :: nat in if 65 \<le> n \<and> n \<le> 90 then char_of (n + 32) else c)"

definition c_str :: "string \<Rightarrow> string" where
  "c_str s = takeWhile (\<lambda>c. c \<noteq> NUL) s"

definition digit :: "nat \<Rightarrow> char" where
  "digit n = ''0123456789'' ! n"

text \<open>
  The scanner of \<open>strtol\<close> and \<open>strtoul\<close>: leading white space, a sign, the prefix of base 0 and
  16, the digits.  The result is the sign, the value of the digits and what follows; when there are no
  digits the value is 0 and everything is left.
\<close>

definition base_prefix :: "nat \<Rightarrow> string \<Rightarrow> nat \<times> string" where
  "base_prefix base s =
     (if (base = 0 \<or> base = 16) \<and> (starts_with ''0x'' s \<or> starts_with ''0X'' s)
           \<and> drop 2 s \<noteq> [] \<and> digit_val (s ! 2) < 16 then (16, drop 2 s)
      else if base = 0 then (if starts_with ''0'' s then 8 else 10, s)
      else (base, s))"

definition strto :: "nat \<Rightarrow> string \<Rightarrow> bool \<times> nat \<times> string" where
  "strto base s =
     (let t = dropWhile is_space s;
          neg = starts_with ''-'' t;
          u = (if starts_with ''-'' t \<or> starts_with ''+'' t then tl t else t);
          (b, v) = base_prefix base u;
          ds = takeWhile (\<lambda>c. digit_val c < b) v in
      if ds = [] then (False, 0, s) else (neg, digits_value b ds, drop (length ds) v))"

definition clamp_long :: "int \<Rightarrow> int" where
  "clamp_long v = max (- (2 ^ 63)) (min (2 ^ 63 - 1) v)"

definition strtol :: "nat \<Rightarrow> string \<Rightarrow> int \<times> string" where
  "strtol base s = (case strto base s of (neg, n, r) \<Rightarrow> (clamp_long (if neg then - int n else int n), r))"

text \<open>\<open>strtoul\<close> negates in the unsigned type; a value that does not fit gives \<open>ULONG_MAX\<close>.\<close>

definition strtoul :: "nat \<Rightarrow> string \<Rightarrow> int \<times> string" where
  "strtoul base s = (case strto base s of (neg, n, r) \<Rightarrow>
     (if 2 ^ 64 \<le> n then 2 ^ 64 - 1 else if neg then (- int n) mod 2 ^ 64 else int n, r))"

text \<open>Decimal output: \<open>ostream << n\<close>, and \<open>%02d\<close>, \<open>%04d\<close> for numbers that fit.\<close>

fun show_nat :: "nat \<Rightarrow> string" where
  "show_nat n = (if n < 10 then [digit n] else show_nat (n div 10) @ [digit (n mod 10)])"

declare show_nat.simps [simp del]

definition show_int :: "int \<Rightarrow> string" where
  "show_int v = (if v < 0 then ''-'' @ show_nat (nat (- v)) else show_nat (nat v))"

definition pad2 :: "nat \<Rightarrow> string" where
  "pad2 n = [digit (n div 10), digit (n mod 10)]"

definition pad4 :: "nat \<Rightarrow> string" where
  "pad4 n = pad2 (n div 100) @ pad2 (n mod 100)"

subsection \<open>Facts\<close>

lemma all_less_10:
  "(\<forall>n<10. P (n::nat)) \<longleftrightarrow> P 0 \<and> P 1 \<and> P 2 \<and> P 3 \<and> P 4 \<and> P 5 \<and> P 6 \<and> P 7 \<and> P 8 \<and> P 9"
proof -
  have "n < 10 \<longleftrightarrow> n \<in> {0, 1, 2, 3, 4, 5, 6, 7, 8, 9}" for n :: nat by auto
  then show ?thesis by (simp only:) blast
qed

lemma digit_facts:
  "n < 10 \<Longrightarrow> digit_val (digit n) = n \<and> is_digit (digit n) \<and> \<not> is_space (digit n) \<and> \<not> is_alpha (digit n) \<and>
     digit n \<notin> set '',-+:/ T'' \<and> digit n \<noteq> NUL"
proof -
  have "\<forall>n<10. digit_val (digit n) = n \<and> is_digit (digit n) \<and> \<not> is_space (digit n) \<and> \<not> is_alpha (digit n) \<and>
     digit n \<notin> set '',-+:/ T'' \<and> digit n \<noteq> NUL"
    by (simp add: digit_def digit_val_def is_digit_def is_space_def is_alpha_def Let_def all_less_10)
  then show "n < 10 \<Longrightarrow> ?thesis" by blast
qed

lemma digits_value_snoc [simp]: "digits_value b (xs @ [c]) = digits_value b xs * b + digit_val c"
  by (simp add: digits_value_def)

lemma digits_value_Nil [simp]: "digits_value b [] = 0"
  by (simp add: digits_value_def)

text \<open>A run of decimal digits, as the printing functions produce them.\<close>

definition decimal :: "string \<Rightarrow> bool" where
  "decimal s \<longleftrightarrow> s \<noteq> [] \<and> (\<forall>c \<in> set s. \<exists>n<10. c = digit n)"

lemma strto_decimal:
  assumes "decimal s" "rest = [] \<or> 10 \<le> digit_val (hd rest)" "\<forall>c \<in> set sp. is_space c"
  shows "strto 10 (sp @ s @ rest) = (False, digits_value 10 s, rest)"
proof -
  obtain c s' where s: "s = c # s'" using assms(1) by (cases s) (auto simp: decimal_def)
  have dig: "\<forall>c \<in> set s. digit_val c < 10 \<and> \<not> is_space c \<and> c \<noteq> CHR ''-'' \<and> c \<noteq> CHR ''+''"
    using assms(1) digit_facts unfolding decimal_def by fastforce
  have tw: "takeWhile (\<lambda>c. digit_val c < 10) (s @ rest) = s"
    using dig assms(2) by (cases rest) (auto simp: takeWhile_append)
  have "dropWhile is_space (sp @ s @ rest) = s @ rest"
    using assms(3) dig by (simp add: dropWhile_append s)
  moreover have "\<not> starts_with ''-'' (s @ rest)" "\<not> starts_with ''+'' (s @ rest)"
    using dig by (simp_all add: s starts_with_def)
  ultimately show ?thesis
    using tw s by (simp add: strto_def base_prefix_def)
qed

lemma decimal_pad2 [simp]: "n < 100 \<Longrightarrow> decimal (pad2 n)" "n < 100 \<Longrightarrow> digits_value 10 (pad2 n) = n"
  by (auto simp: decimal_def pad2_def digits_value_def digit_facts div_less_iff_less_mult
      intro: exI [of _ "n div 10"] exI [of _ "n mod 10"])

lemma decimal_append [simp]: "decimal s \<Longrightarrow> decimal t \<Longrightarrow> decimal (s @ t)"
  by (auto simp: decimal_def)

lemma decimal_pad4 [simp]: "n < 10000 \<Longrightarrow> decimal (pad4 n)"
  by (simp add: pad4_def div_less_iff_less_mult)

lemma digits_value_pad4 [simp]: "n < 10000 \<Longrightarrow> digits_value 10 (pad4 n) = n"
proof -
  assume "n < 10000"
  then have "n div 100 div 10 < 10" by (simp add: div_less_iff_less_mult div_mult2_eq [symmetric])
  then show ?thesis
    by (simp add: pad4_def pad2_def digits_value_def digit_facts)
qed

lemma decimal_show_nat [simp]: "decimal (show_nat n)"
  by (induction n rule: show_nat.induct) (subst show_nat.simps, auto simp: decimal_def intro: exI [of _ "_ mod 10"])

lemma digits_value_show_nat [simp]: "digits_value 10 (show_nat n) = n"
  by (induction n rule: show_nat.induct) (subst show_nat.simps, auto simp: digit_facts digits_value_def)

end
