(* ===== verification/Escaping.thy ===== *)
theory Escaping
  imports CLib
begin

text \<open>
  Escaping of identifiers and attribute values (\<open>escaping.cc\<close>, and the space encoding of
  \<open>AttrTable.cc\<close>).  Strings are \<open>char list\<close>s of bytes; the search-and-replace loops are the
  ones of the source, written with \<open>replace_loop\<close>.  A local variable the code reads before it is
  set (\<open>int val\<close> in \<open>unhexstring\<close> and \<open>unoctstring\<close>) is the argument \<open>junk\<close>.
\<close>

section \<open>Numbers in streams\<close>

text \<open>
  \<open>stream >> hex/oct >> val\<close> for an \<open>int\<close>: leading white space is skipped; at the end of the
  stream the sentry fails and \<open>val\<close> keeps what it held; otherwise an optional sign, for base 16
  an optional \<open>0x\<close>, and the digits are read, no digit giving 0.
\<close>

definition istream_int :: "nat \<Rightarrow> int \<Rightarrow> string \<Rightarrow> int" where
  "istream_int base junk s =
     (let t = dropWhile is_space s in
      if t = [] then junk
      else let neg = (hd t = CHR ''-'');
               u = (if hd t = CHR ''-'' \<or> hd t = CHR ''+'' then tl t else t);
               v = (if base = 16 \<and> (starts_with ''0x'' u \<or> starts_with ''0X'' u) then drop 2 u else u);
               n = int (digits_value base (takeWhile (\<lambda>c. digit_val c < base) v))
           in clamp_int (if neg then - n else n))"

text \<open>\<open>static_cast<char>(val)\<close> stored in \<open>tmp_str[0]\<close> and read back as a C string.\<close>

definition char_cstring :: "int \<Rightarrow> string" where
  "char_cstring val = (let c = char_of (nat (val mod 256)) in if c = NUL then [] else [c])"

definition hex_digit :: "nat \<Rightarrow> char" where
  "hex_digit n = ''0123456789abcdef'' ! n"

definition hexstring :: "char \<Rightarrow> string" where
  "hexstring val = (let n = of_char val :: nat in [hex_digit (n div 16), hex_digit (n mod 16)])"

definition unhexstring :: "int \<Rightarrow> string \<Rightarrow> string" where
  "unhexstring junk s = char_cstring (istream_int 16 junk s)"

definition octstring :: "char \<Rightarrow> string" where
  "octstring val = (let n = of_char val :: nat in
     [hex_digit (n div 64), hex_digit (n div 8 mod 8), hex_digit (n mod 8)])"

definition unoctstring :: "int \<Rightarrow> string \<Rightarrow> string" where
  "unoctstring junk s = char_cstring (istream_int 8 junk s)"

section \<open>Identifiers: \<open>id2www\<close>, \<open>www2id\<close>\<close>

definition www_allowable :: string where
  "www_allowable = ''ABCDEFGHIJKLMNOPQRSTUVWXYZabcdefghijklmnopqrstuvwxyz0123456789-+_/.'' @ [CHR 0x5C, CHR ''*'']"

definition www_ce_allowable :: string where
  "www_ce_allowable = ''ABCDEFGHIJKLMNOPQRSTUVWXYZabcdefghijklmnopqrstuvwxyz0123456789-+_/.'' @ [CHR 0x5C]"

definition id2www :: "string \<Rightarrow> string \<Rightarrow> string" where
  "id2www s allowable = fst (replace_loop (starts_not_in allowable)
     (\<lambda>s i. (replace_at s i 1 (CHR ''%'' # hexstring (s ! i)), i + 3)) s 0)"

definition id2www_ce :: "string \<Rightarrow> string \<Rightarrow> string" where
  "id2www_ce s allowable = id2www s allowable"

definition www2id :: "int \<Rightarrow> string \<Rightarrow> string \<Rightarrow> string \<Rightarrow> string" where
  "www2id junk s escape except = fst (replace_loop (starts_in escape)
     (\<lambda>res i. if find_at (starts_with (substr res i 3)) except \<noteq> None then (res, i + 3)
              else (replace_at res i 3 (unhexstring junk (substr res (i + 1) 2)), i + 1)) s 0)"

section \<open>XML: \<open>id2xml\<close>, \<open>xml2id\<close>\<close>

definition entity :: "char \<Rightarrow> string result" where
  "entity c =
     (if c = CHR ''>'' then Inr ''&gt;''
      else if c = CHR ''<'' then Inr ''&lt;''
      else if c = CHR ''&'' then Inr ''&amp;''
      else if c = CHR 0x27 then Inr ''&apos;''
      else if c = CHR 0x22 then Inr ''&quot;''
      else Inl (InternalErr ''Unrecognized character.''))"

definition xml_not_allowed :: string where
  "xml_not_allowed = [CHR ''>'', CHR ''<'', CHR ''&'', CHR 0x27, CHR 0x22]"

definition id2xml :: "string \<Rightarrow> string \<Rightarrow> string result" where
  "id2xml s not_allowed = map_sum id fst (replace_loop_exn (starts_in not_allowed)
     (\<lambda>s i. case entity (s ! i) of Inl e \<Rightarrow> Inl e | Inr r \<Rightarrow> Inr (replace_at s i 1 r, i + 1)) s 0)"

text \<open>One pass of \<open>xml2id\<close>: the search resumes at the replacement itself.\<close>

definition xml_pass :: "string \<Rightarrow> char \<Rightarrow> string \<Rightarrow> string" where
  "xml_pass ent c s = fst (replace_loop (starts_with ent) (\<lambda>s i. (replace_at s i (length ent) [c], i)) s 0)"

definition xml2id :: "string \<Rightarrow> string" where
  "xml2id s =
     (let s = xml_pass ''&gt;'' (CHR ''>'') s;
          s = xml_pass ''&lt;'' (CHR ''<'') s;
          s = xml_pass ''&amp;'' (CHR ''&'') s;
          s = xml_pass ''&apos;'' (CHR 0x27) s
      in xml_pass ''&quot;'' (CHR 0x22) s)"

definition esc2underscore :: "string \<Rightarrow> string" where
  "esc2underscore s = fst (replace_loop (starts_with ''%'') (\<lambda>s i. (replace_at s i 3 ''_'', 0)) s 0)"

section \<open>Attribute values: \<open>escattr\<close>, \<open>unescattr\<close>\<close>

abbreviation BSL :: char where "BSL \<equiv> CHR 0x5C"
abbreviation DQ :: char where "DQ \<equiv> CHR 0x22"

definition printable :: string where
  "printable = '' ABCDEFGHIJKLMNOPQRSTUVWXYZabcdefghijklmnopqrstuvwxyz0123456789~`!@#$%^&*()_-+={[}]|'' @
     [BSL] @ '':;<,>.?/'' @ [CHR 0x27, DQ]"

definition escattr :: "string \<Rightarrow> string" where
  "escattr s =
     (let s = fst (replace_loop (starts_with [BSL]) (\<lambda>s i. (replace_at s i 1 [BSL, BSL], i + 2)) s 0);
          s = fst (replace_loop (starts_not_in printable) (\<lambda>s i. (replace_at s i 1 (BSL # octstring (s ! i)), i)) s 0)
      in fst (replace_loop (starts_with [DQ]) (\<lambda>s i. (replace_at s i 1 [BSL, DQ], i + 2)) s 0))"

text \<open>
  \<open>Regex::search\<close> from position 0 for the three patterns of \<open>unescattr\<close>, each of which matches a
  fixed number of characters: the leftmost match in the C string, and none at all in a string
  longer than 32766.
\<close>

definition regex_search :: "(string \<Rightarrow> bool) \<Rightarrow> string \<Rightarrow> nat option" where
  "regex_search P s =
     (if length s > 32766 then None else find_at P (takeWhile (\<lambda>c. c \<noteq> NUL) s))"

definition octal_escape :: "string \<Rightarrow> bool" where
  "octal_escape s = (case s of a # b # c # d # _ \<Rightarrow>
      a = BSL \<and> b \<in> set ''0123'' \<and> c \<in> set ''01234567'' \<and> d \<in> set ''01234567'' | _ \<Rightarrow> False)"

definition regex_loop :: "(string \<Rightarrow> bool) \<Rightarrow> (string \<Rightarrow> nat \<Rightarrow> string) \<Rightarrow> string \<Rightarrow> string" where
  "regex_loop P body s =
     while (\<lambda>s. regex_search P s \<noteq> None) (\<lambda>s. body s (the (regex_search P s))) s"

definition unescattr :: "int \<Rightarrow> string \<Rightarrow> string" where
  "unescattr junk s =
     (let s = regex_loop (starts_with [BSL, BSL]) (\<lambda>s i. replace_at s i 2 [BSL]) s;
          s = regex_loop (starts_with [BSL, DQ]) (\<lambda>s i. replace_at s i 2 [DQ]) s
      in regex_loop octal_escape (\<lambda>s i. replace_at s i 4 (unoctstring junk (substr s (i + 1) 3))) s)"

section \<open>Quotes and error messages\<close>

definition escape_double_quotes :: "string \<Rightarrow> string" where
  "escape_double_quotes s =
     fst (replace_loop (starts_with [DQ]) (\<lambda>s i. (replace_at s i 1 [BSL, DQ], i + 2)) s 0)"

definition unescape_double_quotes :: "string \<Rightarrow> string" where
  "unescape_double_quotes s =
     fst (replace_loop (starts_with [BSL, DQ]) (\<lambda>s i. (replace_at s i 2 [DQ], i + 1)) s 0)"

text \<open>
  The loop of \<open>munge_error_message\<close> over the iterator \<open>miter\<close>, here an index that starts at 1 and
  stops at the last character.  \<open>None\<close> is a run past the end of the string: the iterator is
  incremented and compared with \<open>!=\<close>, so it misses an end that lies before its start.
\<close>

function munge_loop :: "string \<Rightarrow> nat \<Rightarrow> string option" where
  "munge_loop msg i =
     (if Suc i = length msg then Some msg
      else if length msg \<le> i then None
      else if msg ! i = DQ \<and> msg ! (i - 1) \<noteq> BSL then munge_loop (take i msg @ BSL # drop i msg) (i + 1)
      else munge_loop msg (i + 1))"
  by pat_completeness auto
termination
  by (relation "measures [\<lambda>(msg, i). length msg - i, \<lambda>(msg, i). if msg ! i = DQ \<and> msg ! (i - 1) \<noteq> BSL then 1 else 0]")
     (auto simp: nth_append)

declare munge_loop.simps [simp del]

definition munge_error_message :: "string \<Rightarrow> string option" where
  "munge_error_message msg =
     (let msg = (if msg = [] \<or> hd msg \<noteq> DQ then DQ # msg else msg);
          msg = (if last msg \<noteq> DQ then msg @ [DQ] else msg)
      in munge_loop msg 1)"

section \<open>Space encoding of attribute names\<close>

definition remove_space_encoding :: "string \<Rightarrow> string" where
  "remove_space_encoding s = fst (replace_loop (starts_with ''%20'') (\<lambda>n i. (replace_at n i 3 '' '', 0)) s 0)"

definition add_space_encoding :: "string \<Rightarrow> string" where
  "add_space_encoding s = fst (replace_loop (starts_with '' '') (\<lambda>n i. (replace_at n i 1 ''%20'', 0)) s 0)"


section \<open>Digits\<close>

lemma hex_digit_facts:
  "n < 16 \<Longrightarrow> digit_val (hex_digit n) = n \<and> \<not> is_space (hex_digit n) \<and> hex_digit n \<noteq> CHR ''-'' \<and> hex_digit n \<noteq> CHR ''+'' \<and>
    hex_digit n \<noteq> CHR ''x'' \<and> hex_digit n \<noteq> CHR ''X'' \<and> hex_digit n \<noteq> CHR ''%'' \<and>
    hex_digit n \<noteq> BSL \<and> hex_digit n \<noteq> DQ \<and> hex_digit n \<noteq> NUL \<and> hex_digit n \<in> set printable"
proof -
  have "\<forall>n<16. digit_val (hex_digit n) = n \<and> \<not> is_space (hex_digit n) \<and> hex_digit n \<noteq> CHR ''-'' \<and> hex_digit n \<noteq> CHR ''+'' \<and>
    hex_digit n \<noteq> CHR ''x'' \<and> hex_digit n \<noteq> CHR ''X'' \<and> hex_digit n \<noteq> CHR ''%'' \<and>
    hex_digit n \<noteq> BSL \<and> hex_digit n \<noteq> DQ \<and> hex_digit n \<noteq> NUL \<and> hex_digit n \<in> set printable"
    by code_simp
  then show "n < 16 \<Longrightarrow> ?thesis" by blast
qed

lemma oct_digit_facts: "n < 8 \<Longrightarrow> hex_digit n \<in> set ''01234567''"
proof -
  have "\<forall>n<8. hex_digit n \<in> set ''01234567''" by code_simp
  then show "n < 8 \<Longrightarrow> ?thesis" by blast
qed

lemma oct_digit_facts3: "n < 4 \<Longrightarrow> hex_digit n \<in> set ''0123''"
proof -
  have "\<forall>n<4. hex_digit n \<in> set ''0123''" by code_simp
  then show "n < 4 \<Longrightarrow> ?thesis" by blast
qed

lemma of_char_less: "(of_char c :: nat) < 256"
  by (metis of_char_mod_256 mod_less_divisor zero_less_numeral)

lemma octstring_digits:
  "\<exists>a b d. octstring c = [hex_digit a, hex_digit b, hex_digit d] \<and> a < 4 \<and> b < 8 \<and> d < 8 \<and> of_char c = a * 64 + b * 8 + d"
proof -
  let ?n = "of_char c :: nat"
  have "?n < 256" by (rule of_char_less)
  moreover have "?n div 64 = ?n div 8 div 8" by (simp add: div_mult2_eq [symmetric])
  then have "?n = ?n div 64 * 64 + ?n div 8 mod 8 * 8 + ?n mod 8"
    using div_mult_mod_eq [of ?n 8] div_mult_mod_eq [of "?n div 8" 8] by linarith
  ultimately show ?thesis unfolding octstring_def Let_def
    by (intro exI [of _ "?n div 64"] exI [of _ "?n div 8 mod 8"] exI [of _ "?n mod 8"] conjI refl)
       (simp_all add: div_less_iff_less_mult)
qed

lemma octstring_cases:
  obtains a b d where "octstring c = [hex_digit a, hex_digit b, hex_digit d]" "a < 4" "b < 8" "d < 8"
    "hex_digit a \<noteq> BSL" "hex_digit b \<noteq> BSL" "hex_digit d \<noteq> BSL"
    "hex_digit a \<noteq> DQ" "hex_digit b \<noteq> DQ" "hex_digit d \<noteq> DQ"
    "hex_digit a \<noteq> NUL" "hex_digit b \<noteq> NUL" "hex_digit d \<noteq> NUL"
    "hex_digit a \<in> set ''0123''" "hex_digit b \<in> set ''01234567''" "hex_digit d \<in> set ''01234567''"
proof -
  obtain a b d where o: "octstring c = [hex_digit a, hex_digit b, hex_digit d]" "a < 4" "b < 8" "d < 8"
    using octstring_digits by blast
  show ?thesis
    by (rule that [OF o]) (use o hex_digit_facts [of a] hex_digit_facts [of b] hex_digit_facts [of d]
        oct_digit_facts [of b] oct_digit_facts [of d] oct_digit_facts3 [of a] in auto)
qed

lemma istream_int_oct:
  assumes "a < 8" "b < 8" "c < 8"
  shows "istream_int 8 junk [hex_digit a, hex_digit b, hex_digit c] = int (a * 64 + b * 8 + c)"
  using hex_digit_facts [of a] hex_digit_facts [of b] hex_digit_facts [of c] assms
  by (simp add: istream_int_def digits_value_def clamp_int_def)

lemma unoctstring_octstring: "c \<noteq> NUL \<Longrightarrow> unoctstring junk (octstring c) = [c]"
proof -
  assume "c \<noteq> NUL"
  obtain a b d where o: "octstring c = [hex_digit a, hex_digit b, hex_digit d]" "a < 4" "b < 8" "d < 8"
    and n: "of_char c = a * 64 + b * 8 + d" using octstring_digits by blast
  then have "istream_int 8 junk (octstring c) = int (of_char c)"
    by (simp add: istream_int_oct)
  with \<open>c \<noteq> NUL\<close> of_char_less [of c] show ?thesis
    by (simp add: unoctstring_def char_cstring_def)
qed

section \<open>Round trip of identifiers\<close>

lemma id2www_loop:
  "map_option fst (replace_loop_option (starts_not_in allowable)
     (\<lambda>s i. (replace_at s i 1 (CHR ''%'' # hexstring (s ! i)), i + 3)) s 0)
   = Some (concat (map (\<lambda>c. if c \<notin> set allowable then CHR ''%'' # hexstring c else [c]) s))"
  by (rule replace_loop_option_chars [where i' = "\<lambda>s j. j + 3"]) (auto simp: hexstring_def Let_def)

lemma id2www_eq:
  "id2www s allowable = concat (map (\<lambda>c. if c \<notin> set allowable then CHR ''%'' # hexstring c else [c]) s)"
  unfolding id2www_def by (rule replace_loop_option_fst [OF id2www_loop])

lemma istream_int_hex:
  assumes "a < 16" "b < 16"
  shows "istream_int 16 junk [hex_digit a, hex_digit b] = int (a * 16 + b)"
  using hex_digit_facts [OF assms(1)] hex_digit_facts [OF assms(2)] assms
  by (simp add: istream_int_def digits_value_def clamp_int_def)

lemma unhexstring_hexstring: "c \<noteq> NUL \<Longrightarrow> unhexstring junk (hexstring c) = [c]"
proof -
  assume "c \<noteq> NUL"
  have n: "(of_char c :: nat) < 256" by (rule of_char_less)
  have "istream_int 16 junk (hexstring c) = int (of_char c)"
    unfolding hexstring_def Let_def
    by (subst istream_int_hex) (use n in \<open>auto simp: div_less_iff_less_mult\<close>)
  with \<open>c \<noteq> NUL\<close> n show ?thesis
    by (simp add: unhexstring_def char_cstring_def)
qed

definition www_enc :: "string \<Rightarrow> char \<Rightarrow> string" where
  "www_enc allowable c = (if c \<notin> set allowable then CHR ''%'' # hexstring c else [c])"

interpretation www: char_decoder "starts_in ''%''"
  "\<lambda>res i. if find_at (starts_with (substr res i 3)) '''' \<noteq> None then (res, i + 3)
           else (replace_at res i 3 (unhexstring junk (substr res (i + 1) 2)), i + 1)"
  "www_enc allowable" "\<lambda>c. c \<noteq> NUL \<and> CHR ''%'' \<notin> set allowable"
  for junk allowable
proof unfold_locales
  show "\<not> starts_in ''%'' []" by simp
next
  fix c pre rest and D R :: string
  assume ok: "c \<noteq> NUL \<and> CHR ''%'' \<notin> set allowable"
  show "(www_enc allowable c = [c] \<and> (\<forall>k<length (www_enc allowable c). \<not> starts_in ''%'' (drop k (www_enc allowable c @ R)))) \<or>
    (starts_in ''%'' (www_enc allowable c @ R) \<and>
     (\<exists>i'. (if find_at (starts_with (substr (D @ www_enc allowable c @ R) (length D) 3)) '''' \<noteq> None
           then (D @ www_enc allowable c @ R, length D + 3)
           else (replace_at (D @ www_enc allowable c @ R) (length D) 3
                (unhexstring junk (substr (D @ www_enc allowable c @ R) (length D + 1) 2)), length D + 1))
         = (D @ [c] @ R, i') \<and> i' \<le> length (D @ [c]) \<and>
        (\<forall>k. i' \<le> k \<longrightarrow> k < length (D @ [c]) \<longrightarrow> \<not> starts_in ''%'' (drop k (D @ [c] @ R)))))"
  proof (cases "c \<in> set allowable")
    case True
    with ok show ?thesis by (auto simp: www_enc_def)
  next
    case False
    have h: "hexstring c = [hex_digit (of_char c div 16), hex_digit (of_char c mod 16)]"
      by (simp add: hexstring_def Let_def)
    from False unhexstring_hexstring [of c junk] ok show ?thesis
      by (auto simp: www_enc_def h substr_def replace_at_def starts_with_def)
  qed
qed

text \<open>C32: A DAP2 identifier survives escaping with \<open>id2www\<close> and unescaping with \<open>www2id\<close>, for
  every set of allowable characters that leaves the percent sign out, as long as it holds no NUL byte.\<close>

theorem www2id_id2www:
  assumes "NUL \<notin> set s" "CHR ''%'' \<notin> set allowable"
  shows "www2id junk (id2www s allowable) ''%'' '''' = s"
  unfolding www2id_def id2www_eq
  by (rule www.decode_encode [unfolded www_enc_def]) (use assms in \<open>auto simp: list_all_iff\<close>)

section \<open>XML entities\<close>

definition ent :: "char \<Rightarrow> string" where
  "ent c = (case entity c of Inr r \<Rightarrow> r | Inl _ \<Rightarrow> [c])"

definition xml_enc :: "string \<Rightarrow> char \<Rightarrow> string" where
  "xml_enc na c = (if c \<in> set na then ent c else [c])"

lemma ent_simps [simp]:
  "ent (CHR ''>'') = ''&gt;''" "ent (CHR ''<'') = ''&lt;''" "ent (CHR ''&'') = ''&amp;''"
  "ent (CHR 0x27) = ''&apos;''" "ent (CHR 0x22) = ''&quot;''"
  by (simp_all add: ent_def entity_def)

lemma xml_not_allowed_cases:
  "c \<in> set xml_not_allowed \<longleftrightarrow> c = CHR ''>'' \<or> c = CHR ''<'' \<or> c = CHR ''&'' \<or> c = CHR 0x27 \<or> c = CHR 0x22"
  by (simp add: xml_not_allowed_def)

lemma entity_ent: "c \<in> set xml_not_allowed \<Longrightarrow> entity c = Inr (ent c)"
  by (auto simp: ent_def entity_def xml_not_allowed_cases)

lemma ent_form:
  "c \<in> set xml_not_allowed \<Longrightarrow> \<exists>t. ent c = CHR ''&'' # t \<and> list_all (\<lambda>x. x \<notin> set xml_not_allowed) t"
  by (auto simp: xml_not_allowed_cases)

lemma id2xml_loop:
  assumes "set na \<subseteq> set xml_not_allowed"
  shows "map_option fst (replace_loop_option (starts_in na)
      (\<lambda>s i. (replace_at s i 1 (ent (s ! i)), i + 1)) s 0) = Some (concat (map (xml_enc na) s))"
  unfolding xml_enc_def [abs_def]
proof (rule replace_loop_option_chars [where i' = "\<lambda>s j. j + 1"])
  fix s :: string and j k
  assume b: "s ! j \<in> set na"
  with assms obtain t where t: "ent (s ! j) = CHR ''&'' # t" "list_all (\<lambda>x. x \<notin> set xml_not_allowed) t"
    using ent_form by blast
  then show "j + 1 \<le> j + length (ent (s ! j))" by simp
  assume "j + 1 \<le> k" "k < j + length (ent (s ! j))"
  with t assms show "j \<le> k \<and> ent (s ! j) ! (k - j) \<notin> set na"
    by (auto simp: list_all_length nth_Cons' subset_iff)
qed simp_all

lemma id2xml_eq:
  assumes "set na \<subseteq> set xml_not_allowed"
  shows "id2xml s na = Inr (concat (map (xml_enc na) s))"
proof -
  from id2xml_loop [OF assms, of s] obtain x where x: "replace_loop_option (starts_in na)
      (\<lambda>s i. (replace_at s i 1 (ent (s ! i)), i + 1)) s 0 = Some x" "fst x = concat (map (xml_enc na) s)"
    by auto
  have body: "(case entity (s ! j) of Inl e \<Rightarrow> Inl e | Inr r \<Rightarrow> Inr (replace_at s j 1 r, j + 1))
      = Inr (replace_at s j 1 (ent (s ! j)), j + 1)" if "starts_in na (drop j s)" for s j
    using that assms drop_eq_ConsD [of j s]
    by (cases "drop j s") (auto simp: entity_ent subset_iff)
  have "replace_loop_exn (starts_in na)
     (\<lambda>s i. case entity (s ! i) of Inl e \<Rightarrow> Inl e | Inr r \<Rightarrow> Inr (replace_at s i 1 r, i + 1)) s 0 = Inr x"
    by (rule replace_loop_exn_pure [OF body x(1)])
  with x(2) show ?thesis unfolding id2xml_def by simp
qed

interpretation xml: replace_decoder "starts_with (ent x)" "\<lambda>s i. (replace_at s i (length (ent x)) [x], i)"
  "xml_enc (x # na)" "xml_enc na"
  "\<lambda>c. c \<noteq> CHR ''&'' \<and> x \<in> set xml_not_allowed \<and> x \<notin> set na \<and> set na \<subseteq> set xml_not_allowed"
  for x na
proof unfold_locales
  show "\<not> starts_with (ent x) []" by (simp add: ent_def entity_def)
next
  fix c pre rest and D R :: string
  assume ok: "c \<noteq> CHR ''&'' \<and> x \<in> set xml_not_allowed \<and> x \<notin> set na \<and> set na \<subseteq> set xml_not_allowed"
  let ?l = "xml_enc (x # na) c = xml_enc na c \<and>
         (\<forall>k<length (xml_enc (x # na) c). \<not> starts_with (ent x) (drop k (xml_enc (x # na) c @ R)))"
  let ?r = "starts_with (ent x) (xml_enc (x # na) c @ R) \<and>
         (\<exists>i'. (replace_at (D @ xml_enc (x # na) c @ R) (length D) (length (ent x)) [x], length D) = (D @ xml_enc na c @ R, i') \<and>
               i' \<le> length (D @ xml_enc na c) \<and>
               (\<forall>k. i' \<le> k \<longrightarrow> k < length (D @ xml_enc na c) \<longrightarrow> \<not> starts_with (ent x) (drop k (D @ xml_enc na c @ R))))"
  show "?l \<or> ?r"
  proof (cases "c = x")
    case True
    then have ?r using ok by (auto simp: xml_enc_def replace_at_def xml_not_allowed_cases)
    then show ?thesis ..
  next
    case False
    have ?l
    proof (cases "c \<in> set na")
      case True
      with ok False have "c \<in> set xml_not_allowed" by auto
      with True False ok show ?thesis
        by (auto simp: xml_enc_def xml_not_allowed_cases less_Suc_eq numeral_eq_Suc)
    next
      case False
      with \<open>c \<noteq> x\<close> ok show ?thesis by (auto simp: xml_enc_def xml_not_allowed_cases)
    qed
    then show ?thesis ..
  qed
qed

lemma xml_pass_eq:
  assumes "x \<in> set xml_not_allowed" "x \<notin> set na" "set na \<subseteq> set xml_not_allowed" "CHR ''&'' \<notin> set s"
  shows "xml_pass (ent x) x (concat (map (xml_enc (x # na)) s)) = concat (map (xml_enc na) s)"
  unfolding xml_pass_def
  by (rule xml.decode) (use assms in \<open>auto simp: list_all_iff\<close>)

text \<open>A string without an ampersand survives \<open>id2xml\<close> followed by \<open>xml2id\<close>.\<close>

lemma xml2id_id2xml:
  assumes "CHR ''&'' \<notin> set s"
  shows "map_sum id xml2id (id2xml s xml_not_allowed) = Inr s"
proof -
  note P = xml_pass_eq [OF _ _ _ assms]
  have "xml_enc [] = (\<lambda>c. [c])" by (simp add: xml_enc_def fun_eq_iff)
  then have "xml2id (concat (map (xml_enc xml_not_allowed) s)) = s"
    using P [of "CHR ''>''" "[CHR ''<'', CHR ''&'', CHR 0x27, CHR 0x22]"]
      P [of "CHR ''<''" "[CHR ''&'', CHR 0x27, CHR 0x22]"]
      P [of "CHR ''&''" "[CHR 0x27, CHR 0x22]"]
      P [of "CHR 0x27" "[CHR 0x22]"] P [of "CHR 0x22" "[]"]
    by (simp add: xml2id_def xml_not_allowed_def)
  then show ?thesis by (simp add: id2xml_eq)
qed

text \<open>\<open>id2xml\<close> throws \<open>InternalErr\<close> as soon as the search for the characters that are not
  allowed finds one that has no XML entity.\<close>

lemma id2xml_rejects:
  assumes "set pre \<inter> set na = {}" "c \<in> set na" "c \<notin> set xml_not_allowed"
  shows "id2xml (pre @ c # rest) na = Inl (InternalErr ''Unrecognized character.'')"
proof -
  let ?s = "pre @ c # rest"
  have f: "find_from (starts_in na) ?s 0 = Some (length pre)"
  proof (rule find_from_eqI)
    fix k assume "k < length pre"
    then have "drop k ?s = pre ! k # drop (Suc k) pre @ c # rest" by (simp add: Cons_nth_drop_Suc)
    moreover have "pre ! k \<notin> set na" using assms(1) \<open>k < length pre\<close> nth_mem by fastforce
    ultimately show "\<not> starts_in na (drop k ?s)" by simp
  qed (use assms(2) in simp_all)
  have "entity c = Inl (InternalErr ''Unrecognized character.'')"
    using assms(3) by (simp add: entity_def xml_not_allowed_cases)
  with f show ?thesis
    unfolding id2xml_def replace_loop_exn_def by (simp add: while_unfold)
qed


section \<open>Round trip of attribute values\<close>

definition attr_enc :: "char \<Rightarrow> string" where
  "attr_enc c = (if c = BSL then [BSL, BSL] else if c \<notin> set printable then BSL # octstring c
     else if c = DQ then [BSL, DQ] else [c])"

definition oct_enc :: "char \<Rightarrow> string" where
  "oct_enc c = (if c \<notin> set printable then BSL # octstring c else [c])"

lemma printable_facts [simp]: "BSL \<in> set printable" "DQ \<in> set printable"
  by (simp_all add: printable_def)

lemma escattr_eq: "escattr s = concat (map attr_enc s)"
proof -
  have 1: "fst (replace_loop (starts_with [BSL]) (\<lambda>s i. (replace_at s i 1 [BSL, BSL], i + 2)) s 0)
      = concat (map (\<lambda>c. if c = BSL then [BSL, BSL] else [c]) s)" for s
    by (rule replace_loop_chars [where i' = "\<lambda>s j. j + 2"]) simp_all
  have 2: "fst (replace_loop (starts_not_in printable) (\<lambda>s i. (replace_at s i 1 (BSL # octstring (s ! i)), i)) s 0)
      = concat (map oct_enc s)" for s
    unfolding oct_enc_def [abs_def]
  proof (rule replace_loop_chars [where i' = "\<lambda>s j. j"])
    fix s :: string and j k
    assume "j \<le> k" "k < j + length (BSL # octstring (s ! j))"
    moreover obtain a b d where "octstring (s ! j) = [hex_digit a, hex_digit b, hex_digit d]" "a < 4" "b < 8" "d < 8"
      using octstring_digits by blast
    ultimately show "j \<le> k \<and> \<not> (BSL # octstring (s ! j)) ! (k - j) \<notin> set printable"
      using hex_digit_facts [of a] hex_digit_facts [of b] hex_digit_facts [of d]
      by (auto simp: nth_Cons')
  qed simp_all
  have 3: "fst (replace_loop (starts_with [DQ]) (\<lambda>s i. (replace_at s i 1 [BSL, DQ], i + 2)) s 0)
      = concat (map (\<lambda>c. if c = DQ then [BSL, DQ] else [c]) s)" for s
    by (rule replace_loop_chars [where i' = "\<lambda>s j. j + 2"]) simp_all
  have c: "concat (map (\<lambda>c. if c = DQ then [BSL, DQ] else [c])
      (concat (map oct_enc (if c = BSL then [BSL, BSL] else [c])))) = attr_enc c" for c
  proof -
    obtain a b d where "octstring c = [hex_digit a, hex_digit b, hex_digit d]" "a < 4" "b < 8" "d < 8"
      using octstring_digits by blast
    then show ?thesis
      using hex_digit_facts [of a] hex_digit_facts [of b] hex_digit_facts [of d]
      by (auto simp: attr_enc_def oct_enc_def)
  qed
  have "concat (map f (concat (map g (concat (map h s))))) = concat (map (\<lambda>c. concat (map f (concat (map g (h c))))) s)"
    for f :: "char \<Rightarrow> string" and g :: "char \<Rightarrow> string" and h :: "char \<Rightarrow> string"
    by (induction s) simp_all
  then show ?thesis unfolding escattr_def Let_def 1 2 3 by (simp add: c)
qed

text \<open>The regular-expression loop is a replace loop that restarts, on short strings without NUL.\<close>

definition regex_ok :: "string \<Rightarrow> bool" where
  "regex_ok s \<longleftrightarrow> length s \<le> 32766 \<and> NUL \<notin> set s"

lemma regex_search_eq: "regex_ok s \<Longrightarrow> regex_search P s = find_from P s 0"
proof -
  assume "regex_ok s"
  then have t: "takeWhile (\<lambda>c. c \<noteq> NUL) s = s" unfolding regex_ok_def by (subst takeWhile_eq_all_conv) auto
  from \<open>regex_ok s\<close> show ?thesis
    by (cases "find_at P s") (simp_all add: regex_search_def regex_ok_def find_from_def t)
qed

lemma regex_loop_eq:
  assumes "regex_ok s" "\<And>s j. regex_ok s \<Longrightarrow> P (drop j s) \<Longrightarrow> regex_ok (body s j)"
    and "map_option fst (replace_loop_option P (\<lambda>s i. (body s i, 0)) s 0) = Some t"
  shows "regex_loop P body s = t"
proof -
  have "map_option (\<lambda>s. (s, 0::nat)) (while_option (\<lambda>s. regex_search P s \<noteq> None) (\<lambda>s. body s (the (regex_search P s))) s)
      = while_option (\<lambda>(s, i). find_from P s i \<noteq> None) (\<lambda>(s, i). (body s (the (find_from P s i)), 0)) (s, 0)"
    by (rule while_option_commute_invariant [where P = regex_ok])
       (use assms(1) in \<open>auto simp: regex_search_eq intro!: assms(2) dest: find_from_Some(3)\<close>)
  with assms(3) show ?thesis
    by (auto simp: replace_loop_option_def regex_loop_def while_def)
qed

lemma regex_ok_replace_at:
  "regex_ok t \<Longrightarrow> length r \<le> n \<Longrightarrow> NUL \<notin> set r \<Longrightarrow> n \<le> length (drop j t) \<Longrightarrow> regex_ok (replace_at t j n r)"
  by (auto simp: regex_ok_def replace_at_def dest: in_set_takeD in_set_dropD)

lemma starts_with_pair_length: "starts_with [a, b] u \<Longrightarrow> 2 \<le> length u"
  by (cases u; cases "tl u") auto

lemma octal_escape_form: "octal_escape u \<Longrightarrow> hd u = BSL \<and> 4 \<le> length u"
  by (auto simp: octal_escape_def split: list.splits)

lemma unoctstring_form: "length (unoctstring junk t) \<le> 4 \<and> NUL \<notin> set (unoctstring junk t)"
  by (simp add: unoctstring_def char_cstring_def Let_def)

lemma no_match_concat:
  assumes "\<And>c Z k. ok c \<Longrightarrow> k < length (f c) \<Longrightarrow> \<not> P (drop k (f c @ Z))"
  shows "list_all ok s \<Longrightarrow> k < length (concat (map f s)) \<Longrightarrow> \<not> P (drop k (concat (map f s) @ Z))"
proof (induction s arbitrary: k)
  case Nil
  then show ?case by simp
next
  case (Cons c s)
  show ?case
  proof (cases "k < length (f c)")
    case True
    with assms [of c k] Cons.prems(1) show ?thesis by simp
  next
    case False
    with Cons.IH [of "k - length (f c)"] Cons.prems show ?thesis by auto
  qed
qed

definition attr_ok :: "char \<Rightarrow> bool" where
  "attr_ok c \<longleftrightarrow> c \<noteq> BSL \<and> c \<noteq> NUL"

lemma less_4_cases: "k < Suc (Suc (Suc (Suc 0))) \<longleftrightarrow> k = 0 \<or> k = 1 \<or> k = 2 \<or> k = (3::nat)"
  by auto

lemma oct_enc_no_pair:
  assumes "attr_ok c" "k < length (oct_enc c)"
  shows "\<not> starts_with [BSL, BSL] (drop k (oct_enc c @ Z))" "\<not> starts_with [BSL, DQ] (drop k (oct_enc c @ Z))"
proof -
  obtain a b d where o: "octstring c = [hex_digit a, hex_digit b, hex_digit d]"
    and n: "hex_digit a \<noteq> BSL" "hex_digit b \<noteq> BSL" "hex_digit d \<noteq> BSL"
      "hex_digit a \<noteq> DQ" "hex_digit b \<noteq> DQ" "hex_digit d \<noteq> DQ"
    by (rule octstring_cases)
  from assms o n show "\<not> starts_with [BSL, BSL] (drop k (oct_enc c @ Z))" "\<not> starts_with [BSL, DQ] (drop k (oct_enc c @ Z))"
    by (auto simp: oct_enc_def attr_ok_def less_4_cases split: if_splits)
qed

lemma attr_enc_oct_enc: "attr_ok c \<Longrightarrow> c \<noteq> DQ \<Longrightarrow> attr_enc c = oct_enc c"
  by (simp add: attr_enc_def oct_enc_def attr_ok_def)

lemma attr_enc_no_pair:
  assumes "attr_ok c" "k < length (attr_enc c)"
  shows "\<not> starts_with [BSL, BSL] (drop k (attr_enc c @ Z))"
proof (cases "c = DQ")
  case True
  with assms(2) show ?thesis by (auto simp: attr_enc_def less_Suc_eq)
next
  case False
  with oct_enc_no_pair(1) [OF assms(1)] assms show ?thesis by (simp add: attr_enc_oct_enc)
qed

interpretation esc_esc: replace_decoder "starts_with [BSL, BSL]" "\<lambda>s i. (replace_at s i 2 [BSL], 0)"
  attr_enc attr_enc attr_ok
  by unfold_locales (simp, use attr_enc_no_pair in blast)

interpretation esc_quote: replace_decoder "starts_with [BSL, DQ]" "\<lambda>s i. (replace_at s i 2 [DQ], 0)"
  attr_enc oct_enc attr_ok
proof unfold_locales
  fix c pre rest and D R :: string
  assume ok: "attr_ok c" "list_all attr_ok pre" and D: "D = concat (map oct_enc pre)"
  show "(attr_enc c = oct_enc c \<and> (\<forall>k<length (attr_enc c). \<not> starts_with [BSL, DQ] (drop k (attr_enc c @ R)))) \<or>
    (starts_with [BSL, DQ] (attr_enc c @ R) \<and>
     (\<exists>i'. (replace_at (D @ attr_enc c @ R) (length D) 2 [DQ], 0) = (D @ oct_enc c @ R, i') \<and>
        i' \<le> length (D @ oct_enc c) \<and>
        (\<forall>k. i' \<le> k \<longrightarrow> k < length (D @ oct_enc c) \<longrightarrow> \<not> starts_with [BSL, DQ] (drop k (D @ oct_enc c @ R)))))"
  proof (cases "c = DQ")
    case True
    have "\<not> starts_with [BSL, DQ] (drop k (concat (map oct_enc (pre @ [c])) @ R))"
      if "k < length (concat (map oct_enc (pre @ [c])))" for k
      by (rule no_match_concat [where ok = attr_ok and f = oct_enc and P = "starts_with [BSL, DQ]", OF oct_enc_no_pair(2)])
         (use ok that in simp_all)
    with True show ?thesis
      by (auto simp: attr_enc_def oct_enc_def replace_at_def D simp del: length_concat)
  next
    case False
    with ok(1) oct_enc_no_pair(2) [OF ok(1)] show ?thesis by (simp add: attr_enc_oct_enc)
  qed
qed simp

interpretation esc_oct: char_decoder octal_escape
  "\<lambda>s i. (replace_at s i 4 (unoctstring junk (substr s (i + 1) 3)), 0)" oct_enc attr_ok for junk
proof unfold_locales
  show "\<not> octal_escape []" by (simp add: octal_escape_def)
next
  fix c pre rest and D R :: string
  assume ok: "attr_ok c" "list_all attr_ok pre" and D: "D = concat (map (\<lambda>c. [c]) pre)"
  have plain: "\<not> octal_escape (drop k (D @ [c] @ Z))" if "k < length (D @ [c])" for k Z
  proof -
    have "list_all attr_ok (D @ [c])" using ok by (simp add: D)
    then have "(D @ [c]) ! k \<noteq> BSL" using that by (auto simp: list_all_length attr_ok_def)
    then have "(D @ [c] @ Z) ! k \<noteq> BSL" using that by (metis append.assoc nth_append)
    then show ?thesis using that octal_escape_form [of "drop k (D @ [c] @ Z)"] hd_drop_conv_nth [of k "D @ [c] @ Z"]
      by auto
  qed
  show "(oct_enc c = [c] \<and> (\<forall>k<length (oct_enc c). \<not> octal_escape (drop k (oct_enc c @ R)))) \<or>
    (octal_escape (oct_enc c @ R) \<and>
     (\<exists>i'. (replace_at (D @ oct_enc c @ R) (length D) 4
            (unoctstring junk (substr (D @ oct_enc c @ R) (length D + 1) 3)), 0) = (D @ [c] @ R, i') \<and>
        i' \<le> length (D @ [c]) \<and> (\<forall>k. i' \<le> k \<longrightarrow> k < length (D @ [c]) \<longrightarrow> \<not> octal_escape (drop k (D @ [c] @ R)))))"
  proof (cases "c \<in> set printable")
    case True
    with ok(1) have "oct_enc c = [c]" "\<not> octal_escape (c # R)"
      by (auto simp: oct_enc_def attr_ok_def octal_escape_def split: list.split)
    then show ?thesis by simp
  next
    case False
    obtain a b d where o: "octstring c = [hex_digit a, hex_digit b, hex_digit d]"
      "hex_digit a \<in> set ''0123''" "hex_digit b \<in> set ''01234567''" "hex_digit d \<in> set ''01234567''"
      by (rule octstring_cases)
    have u: "unoctstring junk [hex_digit a, hex_digit b, hex_digit d] = [c]"
      using unoctstring_octstring [of c junk] ok(1) by (simp add: o(1) attr_ok_def)
    have "oct_enc c = BSL # octstring c" using False by (simp add: oct_enc_def)
    with o u plain show ?thesis by (auto simp: octal_escape_def replace_at_def substr_def simp del: set_simps)
  qed
qed

lemma not_in_concat: "(\<And>c. c \<in> set s \<Longrightarrow> x \<notin> set (f c)) \<Longrightarrow> x \<notin> set (concat (map f s))"
  by auto

lemma enc_no_NUL:
  assumes "c \<noteq> NUL"
  shows "NUL \<notin> set (attr_enc c)" "NUL \<notin> set (oct_enc c)"
  using assms by (rule_tac octstring_cases [of c]; auto simp: attr_enc_def oct_enc_def)+

lemma regex_ok_enc:
  assumes "NUL \<notin> set s" "length (concat (map attr_enc s)) \<le> 32766"
  shows "regex_ok (concat (map attr_enc s))" "regex_ok (concat (map oct_enc s))"
proof -
  have ne: "c \<noteq> NUL" if "c \<in> set s" for c using that assms(1) by metis
  have "length (concat (map oct_enc s)) \<le> length (concat (map attr_enc s))"
    unfolding length_concat map_map comp_def
    by (rule sum_list_mono) (simp add: attr_enc_def oct_enc_def)
  then show "regex_ok (concat (map attr_enc s))" "regex_ok (concat (map oct_enc s))"
    unfolding regex_ok_def
    using assms(2) not_in_concat [of s NUL attr_enc, OF enc_no_NUL(1) [OF ne]]
      not_in_concat [of s NUL oct_enc, OF enc_no_NUL(2) [OF ne]]
    by (simp_all del: length_concat set_concat)
qed

text \<open>C38: An attribute value without backslashes and NUL bytes, whose escaped form is within the
  length limit of \<open>Regex::search\<close>, survives \<open>escattr\<close> followed by \<open>unescattr\<close>: newlines, quotes
  and non-ASCII bytes included.\<close>

theorem unescattr_escattr:
  assumes "BSL \<notin> set s" "NUL \<notin> set s" "length (escattr s) \<le> 32766"
  shows "unescattr junk (escattr s) = s"
proof -
  have ok: "list_all attr_ok s" using assms(1,2) by (auto simp: list_all_iff attr_ok_def)
  note r = regex_ok_enc [OF assms(2) assms(3) [unfolded escattr_eq]]
  have "regex_loop (starts_with [BSL, BSL]) (\<lambda>s i. replace_at s i 2 [BSL]) (concat (map attr_enc s)) = concat (map attr_enc s)"
    by (rule regex_loop_eq [OF r(1) _ esc_esc.decode_loop [OF ok]])
       (simp add: regex_ok_replace_at starts_with_pair_length del: length_drop)
  moreover have "regex_loop (starts_with [BSL, DQ]) (\<lambda>s i. replace_at s i 2 [DQ]) (concat (map attr_enc s)) = concat (map oct_enc s)"
    by (rule regex_loop_eq [OF r(1) _ esc_quote.decode_loop [OF ok]])
       (simp add: regex_ok_replace_at starts_with_pair_length del: length_drop)
  moreover have "regex_loop octal_escape (\<lambda>s i. replace_at s i 4 (unoctstring junk (substr s (i + 1) 3))) (concat (map oct_enc s))
      = concat (map (\<lambda>c. [c]) s)"
    by (rule regex_loop_eq [OF r(2) _ esc_oct.decode_loop [OF ok]])
       (simp add: regex_ok_replace_at unoctstring_form octal_escape_form del: length_drop)
  ultimately show ?thesis by (simp add: unescattr_def escattr_eq)
qed

section \<open>Backslashes, quotes and spaces\<close>

lemma collapse_backslashes:
  "m \<le> 32765 \<Longrightarrow> regex_loop (starts_with [BSL, BSL]) (\<lambda>s i. replace_at s i 2 [BSL]) (replicate (Suc m) BSL) = [BSL]"
proof (induction m)
  case 0
  have "regex_search (starts_with [BSL, BSL]) [BSL] = None" by (simp add: regex_search_def)
  then show ?case by (simp add: regex_loop_def while_unfold)
next
  case (Suc m)
  have "regex_search (starts_with [BSL, BSL]) (replicate (Suc (Suc m)) BSL) = Some 0"
    using Suc.prems by (simp add: regex_search_def)
  then have "regex_loop (starts_with [BSL, BSL]) (\<lambda>s i. replace_at s i 2 [BSL]) (replicate (Suc (Suc m)) BSL)
     = regex_loop (starts_with [BSL, BSL]) (\<lambda>s i. replace_at s i 2 [BSL]) (replicate (Suc m) BSL)"
    unfolding regex_loop_def by (subst while_unfold) (simp add: replace_at_def)
  also have "\<dots> = [BSL]" by (rule Suc.IH) (use Suc.prems in simp)
  finally show ?case .
qed

text \<open>Backslashes do not survive \<open>escattr\<close> followed by \<open>unescattr\<close>: a run of them, however long,
  comes back as a single backslash, because \<open>unescattr\<close> restarts its search at the beginning of
  the string after every replacement.\<close>

lemma unescattr_escattr_backslashes:
  assumes "0 < n" "n \<le> 16383"
  shows "unescattr junk (escattr (replicate n BSL)) = [BSL]"
proof -
  have "concat (map attr_enc (replicate n BSL)) = replicate (2 * n) BSL" for n
    by (induction n) (simp_all add: attr_enc_def)
  then have e: "escattr (replicate n BSL) = replicate (Suc (2 * n - 1)) BSL"
    using assms(1) by (simp add: escattr_eq Suc_diff_le)
  have "regex_search (starts_with [BSL, DQ]) [BSL] = None" "regex_search octal_escape [BSL] = None"
    by (simp_all add: regex_search_def octal_escape_def)
  then have "regex_loop (starts_with [BSL, DQ]) b [BSL] = [BSL]" "regex_loop octal_escape b [BSL] = [BSL]" for b
    by (simp_all add: regex_loop_def while_unfold)
  moreover have "regex_loop (starts_with [BSL, BSL]) (\<lambda>s i. replace_at s i 2 [BSL]) (replicate (Suc (2 * n - 1)) BSL) = [BSL]"
    by (rule collapse_backslashes) (use assms(2) in simp)
  ultimately show ?thesis by (simp add: unescattr_def e del: replicate_Suc)
qed

definition dq_enc :: "char \<Rightarrow> string" where
  "dq_enc c = (if c = DQ then [BSL, DQ] else [c])"

lemma escape_double_quotes_eq: "escape_double_quotes s = concat (map dq_enc s)"
  unfolding escape_double_quotes_def dq_enc_def [abs_def]
  by (rule replace_loop_chars [where i' = "\<lambda>s j. j + 2"]) simp_all

interpretation dq: char_decoder "starts_with [BSL, DQ]" "\<lambda>s i. (replace_at s i 2 [DQ], i + 1)"
  dq_enc "\<lambda>c. True"
proof unfold_locales
  fix c pre rest and D R :: string
  assume R: "R = concat (map dq_enc rest)"
  have "\<not> starts_with [DQ] R" unfolding R by (cases rest) (simp_all add: dq_enc_def)
  then show "(dq_enc c = [c] \<and> (\<forall>k<length (dq_enc c). \<not> starts_with [BSL, DQ] (drop k (dq_enc c @ R)))) \<or>
    (starts_with [BSL, DQ] (dq_enc c @ R) \<and>
     (\<exists>i'. (replace_at (D @ dq_enc c @ R) (length D) 2 [DQ], length D + 1) = (D @ [c] @ R, i') \<and>
        i' \<le> length (D @ [c]) \<and>
        (\<forall>k. i' \<le> k \<longrightarrow> k < length (D @ [c]) \<longrightarrow> \<not> starts_with [BSL, DQ] (drop k (D @ [c] @ R)))))"
    by (auto simp: dq_enc_def replace_at_def)
qed simp

text \<open>\<open>unescape_double_quotes\<close> is the inverse of \<open>escape_double_quotes\<close> on every string.\<close>

lemma unescape_escape_double_quotes: "unescape_double_quotes (escape_double_quotes s) = s"
  unfolding unescape_double_quotes_def escape_double_quotes_eq
  by (rule dq.decode_encode) (simp add: list_all_iff)

definition space_enc :: "char \<Rightarrow> string" where
  "space_enc c = (if c = CHR '' '' then ''%20'' else [c])"

lemma add_space_encoding_eq: "add_space_encoding s = concat (map space_enc s)"
proof -
  have "map_option fst (replace_loop_option (starts_with '' '') (\<lambda>n i. (replace_at n i 1 ''%20'', 0)) s 0)
      = Some (scan (starts_with '' '') (\<lambda>u. (''%20'', 1)) s)"
    by (rule replace_loop_restart [where bad = "\<lambda>c. c = CHR '' ''"]) simp_all
  moreover have "scan (starts_with '' '') (\<lambda>u. (''%20'', 1)) s = concat (map space_enc s)"
    unfolding space_enc_def [abs_def] by (rule scan_concat_map) simp_all
  ultimately show ?thesis unfolding add_space_encoding_def by (simp add: replace_loop_option_fst)
qed

interpretation space: char_decoder "starts_with ''%20''" "\<lambda>n i. (replace_at n i 3 '' '', 0)"
  space_enc "\<lambda>c. c \<noteq> CHR ''%''"
proof unfold_locales
  fix c pre rest and D R :: string
  assume ok: "c \<noteq> CHR ''%''" "list_all (\<lambda>c. c \<noteq> CHR ''%'') pre" and D: "D = concat (map (\<lambda>c. [c]) pre)"
  have "\<not> starts_with ''%20'' (drop k (D @ c # R))" if "k < Suc (length D)" for k
  proof -
    have "(D @ c # R) ! k \<noteq> CHR ''%''"
      using ok that by (auto simp: D list_all_length nth_append less_Suc_eq)
    then show ?thesis using that by (simp add: Cons_nth_drop_Suc [of k "D @ c # R", symmetric] del: drop_append)
  qed
  with ok show "(space_enc c = [c] \<and> (\<forall>k<length (space_enc c). \<not> starts_with ''%20'' (drop k (space_enc c @ R)))) \<or>
    (starts_with ''%20'' (space_enc c @ R) \<and>
     (\<exists>i'. (replace_at (D @ space_enc c @ R) (length D) 3 '' '', 0) = (D @ [c] @ R, i') \<and>
        i' \<le> length (D @ [c]) \<and>
        (\<forall>k. i' \<le> k \<longrightarrow> k < length (D @ [c]) \<longrightarrow> \<not> starts_with ''%20'' (drop k (D @ [c] @ R)))))"
    by (auto simp: space_enc_def replace_at_def)
qed simp

text \<open>A name without a percent sign survives \<open>add_space_encoding\<close> followed by
  \<open>remove_space_encoding\<close>.\<close>

lemma remove_add_space_encoding:
  "CHR ''%'' \<notin> set s \<Longrightarrow> remove_space_encoding (add_space_encoding s) = s"
  unfolding remove_space_encoding_def add_space_encoding_eq
  by (rule space.decode_encode) (auto simp: list_all_iff)

section \<open>Error messages\<close>

definition escaped_upto :: "string \<Rightarrow> nat \<Rightarrow> bool" where
  "escaped_upto msg i \<longleftrightarrow> (\<forall>j. 0 < j \<longrightarrow> j < i \<longrightarrow> msg ! j = DQ \<longrightarrow> msg ! (j - 1) = BSL)"

lemma munge_loop_result:
  assumes "0 < i" "i < length msg" "escaped_upto msg i"
  shows "\<exists>r. munge_loop msg i = Some r \<and> hd r = hd msg \<and> last r = last msg \<and> 2 \<le> length r \<and>
    escaped_upto r (length r - 1) \<and> filter (\<lambda>c. c \<noteq> BSL) r = filter (\<lambda>c. c \<noteq> BSL) msg"
  using assms
proof (induction msg i rule: munge_loop.induct)
  case (1 msg i)
  consider "Suc i = length msg"
    | "Suc i < length msg" "msg ! i = DQ \<and> msg ! (i - 1) \<noteq> BSL"
    | "Suc i < length msg" "\<not> (msg ! i = DQ \<and> msg ! (i - 1) \<noteq> BSL)"
    using "1.prems"(2) by linarith
  then show ?case
  proof cases
    case 1
    have "i = length msg - 1" using 1 by simp
    then show ?thesis using "1.prems" 1
      by (intro exI [of _ msg]) (simp add: munge_loop.simps)
  next
    case 2
    let ?m = "take i msg @ BSL # drop i msg"
    have "escaped_upto ?m (i + 1)"
      using "1.prems" unfolding escaped_upto_def by (auto simp: nth_append less_Suc_eq)
    moreover have "munge_loop msg i = munge_loop ?m (i + 1)"
      using 2 by (simp add: munge_loop.simps [of msg i])
    moreover have "hd ?m = hd msg" "last ?m = last msg"
      using "1.prems"(1,2) by (auto simp: hd_append)
    moreover have "filter (\<lambda>c. c \<noteq> BSL) ?m = filter (\<lambda>c. c \<noteq> BSL) msg"
      by simp (metis append_take_drop_id filter_append)
    ultimately show ?thesis using "1.IH"(1) 2 "1.prems" by simp
  next
    case 3
    have "escaped_upto msg (i + 1)"
      using "1.prems" 3 unfolding escaped_upto_def by (auto simp: less_Suc_eq)
    moreover have "munge_loop msg i = munge_loop msg (i + 1)"
      using 3 by (subst munge_loop.simps) auto
    ultimately show ?thesis using "1.IH"(2) 3 "1.prems" by simp
  qed
qed

definition quote_message :: "string \<Rightarrow> string" where
  "quote_message msg =
     (let msg = (if msg = [] \<or> hd msg \<noteq> DQ then DQ # msg else msg)
      in if last msg \<noteq> DQ then msg @ [DQ] else msg)"

lemma munge_error_message_alt: "munge_error_message msg = munge_loop (quote_message msg) 1"
  by (simp add: munge_error_message_def quote_message_def Let_def)

lemma quote_message_ends: "hd (quote_message msg) = DQ \<and> last (quote_message msg) = DQ"
  by (auto simp: quote_message_def Let_def)

lemma quote_message_length: "length (quote_message msg) < 2 \<longleftrightarrow> msg = [] \<or> msg = [DQ]"
  by (cases msg) (auto simp: quote_message_def Let_def)

text \<open>For every message but the empty one and the lone double quote, \<open>munge_error_message\<close>
  returns a quoted string whose inner quotes are all preceded by a backslash, and it only adds
  backslashes to the quoted message.\<close>

lemma munge_error_message_escapes:
  assumes "msg \<noteq> []" "msg \<noteq> [DQ]"
  shows "\<exists>r. munge_error_message msg = Some r \<and> hd r = DQ \<and> last r = DQ \<and> 2 \<le> length r \<and>
    (\<forall>j. 0 < j \<longrightarrow> j < length r - 1 \<longrightarrow> r ! j = DQ \<longrightarrow> r ! (j - 1) = BSL) \<and>
    filter (\<lambda>c. c \<noteq> BSL) r = filter (\<lambda>c. c \<noteq> BSL) (quote_message msg)"
proof -
  have "1 < length (quote_message msg)" using quote_message_length [of msg] assms by simp
  then show ?thesis
    using munge_loop_result [of 1 "quote_message msg"] quote_message_ends [of msg]
    by (simp add: munge_error_message_alt escaped_upto_def)
qed

section \<open>Witnesses\<close>

theorem www2id_id2www_witness:
  "www2id 7 (id2www ''a b&c'' ''abc'') ''%'' [] = ''a b&c''"
  by (rule www2id_id2www) simp_all

lemma xml2id_id2xml_witness:
  "map_sum id xml2id (id2xml ''a<b>'' xml_not_allowed) = Inr ''a<b>''"
  by (rule xml2id_id2xml) simp

lemma id2xml_rejects_witness:
  "id2xml ''ab;'' '';'' = Inl (InternalErr ''Unrecognized character.'')"
  using id2xml_rejects [of "''ab''" "'';''" "CHR '';''" "[]"] by (simp add: xml_not_allowed_cases)

theorem unescattr_escattr_witness:
  "unescattr 0 (escattr [CHR ''a'', CHR 0x0A, DQ]) = [CHR ''a'', CHR 0x0A, DQ]"
  by (rule unescattr_escattr) (simp_all add: escattr_eq attr_enc_def octstring_def)

lemma unescattr_escattr_backslashes_witness:
  "unescattr 0 (escattr [BSL, BSL]) = [BSL]"
  using unescattr_escattr_backslashes [of 2 0] by (simp add: numeral_2_eq_2)

lemma remove_add_space_encoding_witness:
  "remove_space_encoding (add_space_encoding ''a b'') = ''a b''"
  by (rule remove_add_space_encoding) simp

lemma munge_error_message_escapes_witness:
  "\<exists>r. munge_error_message ''no'' = Some r \<and> hd r = DQ \<and> last r = DQ"
  using munge_error_message_escapes [of "''no''"] by auto

end
