(* ===== verification/HttpDate.thy ===== *)
theory HttpDate
  imports CLib "HOL-Library.Monad_Syntax"
begin

text \<open>
  HTTP dates (\<open>util_mit.cc\<close>): \<open>parse_time\<close> with its four formats and \<open>date_time_str\<close>.  A \<open>char *\<close> is
  the list of the characters up to the terminating NUL; moving it beyond the NUL is
  \<open>None\<close>, and so is a routine that would then read there.  \<open>now\<close> is \<open>time(NULL)\<close>.
\<close>

record tm =
  tm_sec :: int
  tm_min :: int
  tm_hour :: int
  tm_mday :: int
  tm_mon :: int
  tm_year :: int

definition advance :: "nat \<Rightarrow> string \<Rightarrow> string option" where
  "advance n s = (if n \<le> length s then Some (drop n s) else None)"

definition months :: "string list" where
  "months = [''Jan'', ''Feb'', ''Mar'', ''Apr'', ''May'', ''Jun'', ''Jul'', ''Aug'', ''Sep'', ''Oct'', ''Nov'', ''Dec'']"

definition wkdays :: "string list" where
  "wkdays = [''Sun'', ''Mon'', ''Tue'', ''Wed'', ''Thu'', ''Fri'', ''Sat'']"

text \<open>\<open>strncasecomp(a, b, n)\<close> is a difference of characters; only whether it is 0 is used.\<close>

fun strncasecomp :: "string \<Rightarrow> string \<Rightarrow> nat \<Rightarrow> int" where
  "strncasecomp p q 0 = 0"
| "strncasecomp (a # p) (b # q) (Suc n) =
     (let diff = of_char (to_lower a) - of_char (to_lower b) in if diff \<noteq> 0 then diff else strncasecomp p q n)"
| "strncasecomp (a # p) [] (Suc n) = of_char a"
| "strncasecomp [] (b # q) (Suc n) = - of_char b"
| "strncasecomp [] [] (Suc n) = 0"

text \<open>
  \<open>make_month\<close> looks for a letter without minding the end of the string, and leaves the pointer
  three characters after it.
\<close>

definition make_month :: "string \<Rightarrow> (int \<times> string) option" where
  "make_month s =
     (let p = dropWhile (\<lambda>c. \<not> is_alpha c) s in
      if p = [] then None
      else do {
        rest \<leftarrow> advance 3 p;
        Some (case find (\<lambda>i. strncasecomp (months ! i) p 3 = 0) [0..<12] of Some i \<Rightarrow> int i | None \<Rightarrow> 0, rest)
      })"

text \<open>\<open>strtol(s, &s, 10)\<close> stored in an \<open>int\<close>.\<close>

definition strtoint :: "string \<Rightarrow> int \<times> string" where
  "strtoint s = (case strtol 10 s of (v, r) \<Rightarrow> (to_int v, r))"

text \<open>The clock \<open>hh:mm:ss\<close>, each number followed by one character that is skipped.\<close>

definition parse_clock :: "string \<Rightarrow> (int \<times> int \<times> int \<times> string) option" where
  "parse_clock s = do {
     let (hour, s) = strtoint s;
     s \<leftarrow> advance 1 s;
     let (min, s) = strtoint s;
     s \<leftarrow> advance 1 s;
     let (sec, s) = strtoint s;
     Some (hour, min, sec, s)
   }"

definition skip_blanks :: "string \<Rightarrow> string" where
  "skip_blanks s = dropWhile (\<lambda>c. c = CHR '' '') s"

text \<open>
  The date formats.  The inner \<open>None\<close> is the return of 0 for a string that is too short.
\<close>

definition parse_rfc850 :: "string \<Rightarrow> tm option option" where
  "parse_rfc850 s =
     (if length s < 18 then Some None
      else do {
        let (mday, s) = strtoint s;
        (mon, s) \<leftarrow> make_month s;
        s \<leftarrow> advance 1 s;
        let (year, s) = strtoint s;
        (hour, min, sec, s) \<leftarrow> parse_clock s;
        Some (Some \<lparr>tm_sec = sec, tm_min = min, tm_hour = hour, tm_mday = mday, tm_mon = mon, tm_year = year\<rparr>)
      })"

definition parse_rfc1123 :: "string \<Rightarrow> tm option option" where
  "parse_rfc1123 s =
     (if length s < 20 then Some None
      else do {
        let (mday, s) = strtoint s;
        (mon, s) \<leftarrow> make_month s;
        let (year, s) = strtol 10 s;
        (hour, min, sec, s) \<leftarrow> parse_clock s;
        Some (Some \<lparr>tm_sec = sec, tm_min = min, tm_hour = hour, tm_mday = mday, tm_mon = mon,
                    tm_year = to_int (year - 1900)\<rparr>)
      })"

definition parse_iso :: "string \<Rightarrow> tm option option" where
  "parse_iso str =
     (let s = skip_blanks str in
      if length s < 21 then Some None
      else do {
        let (year, s) = strtol 10 s;
        s \<leftarrow> advance 1 s;
        let (mon, s) = strtoint s;
        s \<leftarrow> advance 1 s;
        let (mday, s) = strtoint s;
        s \<leftarrow> advance 1 s;
        (hour, min, sec, s) \<leftarrow> parse_clock s;
        Some (Some \<lparr>tm_sec = sec, tm_min = min, tm_hour = hour, tm_mday = mday, tm_mon = mon,
                    tm_year = to_int (year - 1900)\<rparr>)
      })"

definition parse_ctime :: "string \<Rightarrow> tm option option" where
  "parse_ctime str =
     (let s = skip_blanks str in
      if length s < 24 then Some None
      else do {
        (mon, s) \<leftarrow> make_month s;
        let (mday, s) = strtoint s;
        (hour, min, sec, s) \<leftarrow> parse_clock s;
        let (year, s) = strtol 10 s;
        Some (Some \<lparr>tm_sec = sec, tm_min = min, tm_hour = hour, tm_mday = mday, tm_mon = mon,
                    tm_year = to_int (year - 1900)\<rparr>)
      })"

definition tm_legal :: "tm \<Rightarrow> bool" where
  "tm_legal t \<longleftrightarrow> 0 \<le> tm_sec t \<and> tm_sec t \<le> 59 \<and> 0 \<le> tm_min t \<and> tm_min t \<le> 59 \<and> 0 \<le> tm_hour t \<and> tm_hour t \<le> 23
     \<and> 1 \<le> tm_mday t \<and> tm_mday t \<le> 31 \<and> 0 \<le> tm_mon t \<and> tm_mon t \<le> 11 \<and> 70 \<le> tm_year t \<and> tm_year t \<le> 120"

text \<open>\<open>timegm\<close>, for the fields \<open>tm_legal\<close> lets through: the proleptic Gregorian calendar.\<close>

definition leap :: "int \<Rightarrow> bool" where
  "leap y \<longleftrightarrow> y mod 4 = 0 \<and> (y mod 100 \<noteq> 0 \<or> y mod 400 = 0)"

definition days_before_month :: "int \<Rightarrow> int \<Rightarrow> int" where
  "days_before_month y mon =
     [0, 31, 59, 90, 120, 151, 181, 212, 243, 273, 304, 334] ! nat mon + (if leap y \<and> 2 \<le> mon then 1 else 0)"

definition days_before_year :: "int \<Rightarrow> int" where
  "days_before_year y = 365 * (y - 1970) + (y - 1969) div 4 - (y - 1901) div 100 + (y - 1601) div 400"

definition timegm :: "tm \<Rightarrow> int" where
  "timegm t =
     (let y = tm_year t + 1900 in
      ((days_before_year y + days_before_month y (tm_mon t) + tm_mday t - 1) * 24 + tm_hour t) * 3600
        + tm_min t * 60 + tm_sec t)"

definition tm_time :: "tm option option \<Rightarrow> int option" where
  "tm_time r = map_option (\<lambda>t. case t of None \<Rightarrow> 0 | Some t \<Rightarrow> if tm_legal t then timegm t else 0) r"

definition parse_time :: "int \<Rightarrow> string \<Rightarrow> bool \<Rightarrow> int option" where
  "parse_time now str expand =
     (if CHR '','' \<in> set str then
        let s = skip_blanks (tl (dropWhile (\<lambda>c. c \<noteq> CHR '','') str)) in
        tm_time (if CHR ''-'' \<in> set s then parse_rfc850 s else parse_rfc1123 s)
      else if str \<noteq> [] \<and> is_digit (hd str) then
        if CHR ''T'' \<in> set str then tm_time (parse_iso str)
        else Some (if expand then now + fst (strtol 10 str) else fst (strtol 10 str))
      else tm_time (parse_ctime str))"

text \<open>
  \<open>date_time_str\<close>: \<open>strftime\<close> (or \<open>snprintf\<close>) of the broken-down time.  \<open>gmtime\<close> is a parameter: it
  gives the day of the week and the fields.
\<close>

definition date_time_str :: "(int \<Rightarrow> nat \<times> tm) \<Rightarrow> int \<Rightarrow> bool \<Rightarrow> string" where
  "date_time_str brokendown calendar local =
     (let (wday, t) = brokendown calendar in
      wkdays ! wday @ '', '' @ pad2 (nat (tm_mday t)) @ '' '' @ months ! nat (tm_mon t) @ '' '' @
      pad4 (nat (tm_year t + 1900)) @ '' '' @ pad2 (nat (tm_hour t)) @ '':'' @ pad2 (nat (tm_min t)) @ '':'' @
      pad2 (nat (tm_sec t)) @ (if local then [] else '' GMT''))"

section \<open>Reading back what was printed\<close>

lemma strtol_decimal:
  assumes "decimal s" "rest = [] \<or> 10 \<le> digit_val (hd rest)" "\<forall>c \<in> set sp. is_space c" "digits_value 10 s < 2 ^ 31"
  shows "strtol 10 (sp @ s @ rest) = (int (digits_value 10 s), rest)"
    "strtoint (sp @ s @ rest) = (int (digits_value 10 s), rest)"
  using assms by (simp_all add: strtoint_def strtol_def strto_decimal clamp_long_def)

lemma strtol_pad:
  assumes "c \<in> set '' :,-G''"
  shows "n < 100 \<Longrightarrow> strtoint (pad2 n @ c # rest) = (int n, c # rest)"
    "n < 100 \<Longrightarrow> strtoint (CHR '' '' # pad2 n @ c # rest) = (int n, c # rest)"
    "n < 10000 \<Longrightarrow> strtol 10 (CHR '' '' # pad4 n @ c # rest) = (int n, c # rest)"
proof -
  have c: "10 \<le> digit_val c" using assms by (auto simp: digit_val_def)
  show "n < 100 \<Longrightarrow> strtoint (pad2 n @ c # rest) = (int n, c # rest)"
    using strtol_decimal(2) [of "pad2 n" "c # rest" "[]"] c by simp
  show "n < 100 \<Longrightarrow> strtoint (CHR '' '' # pad2 n @ c # rest) = (int n, c # rest)"
    using strtol_decimal(2) [of "pad2 n" "c # rest" "'' ''"] c by (simp add: is_space_def)
  show "n < 10000 \<Longrightarrow> strtol 10 (CHR '' '' # pad4 n @ c # rest) = (int n, c # rest)"
    using strtol_decimal(1) [of "pad4 n" "c # rest" "'' ''"] c by (simp add: is_space_def)
qed

lemma strtoint_end: "n < 100 \<Longrightarrow> strtoint (pad2 n) = (int n, [])"
  using strtol_decimal(2) [of "pad2 n" "[]" "[]"] by simp

lemma all_less_12: "i < 12 \<longleftrightarrow> i \<in> {0, 1, 2, 3, 4, 5, 6, 7, 8, 9, 10, 11}" for i :: nat
  by simp presburger

lemma months_facts:
  "length months = 12" "\<forall>m \<in> set months. length m = 3 \<and> is_alpha (hd m) \<and> CHR ''-'' \<notin> set m"
  "distinct (map (map to_lower) months)"
proof -
  show "length months = 12" "\<forall>m \<in> set months. length m = 3 \<and> is_alpha (hd m) \<and> CHR ''-'' \<notin> set m"
    by (simp_all add: months_def is_alpha_def)
  have "map (map to_lower) months =
      [''jan'', ''feb'', ''mar'', ''apr'', ''may'', ''jun'', ''jul'', ''aug'', ''sep'', ''oct'', ''nov'', ''dec'']"
    by (simp add: months_def to_lower_def char_of_def bit_0)
  then show "distinct (map (map to_lower) months)" by simp
qed

lemma month_chars:
  "i < 12 \<Longrightarrow> CHR ''-'' \<notin> set (months ! i) \<and> length (months ! i) = 3 \<and> is_alpha (hd (months ! i))"
  using months_facts by (metis nth_mem)

lemma of_char_eq: "(of_char a :: int) = of_char b \<longleftrightarrow> a = b"
  by simp

lemma strncasecomp_three:
  assumes "length a = 3" "length b = 3"
  shows "strncasecomp a (b @ rest) 3 = 0 \<longleftrightarrow> map to_lower a = map to_lower b"
proof -
  obtain a1 a2 a3 b1 b2 b3 where "a = [a1, a2, a3]" "b = [b1, b2, b3]"
    using assms by (auto simp: numeral_3_eq_3 length_Suc_conv)
  then show ?thesis by (simp add: numeral_3_eq_3 Let_def)
qed

lemma make_month_months:
  assumes "i < 12"
  shows "make_month (CHR '' '' # months ! i @ rest) = Some (int i, rest)"
proof -
  have same: "strncasecomp (months ! j) (months ! i @ rest) 3 = 0 \<longleftrightarrow> j = i" if "j < 12" for j
  proof -
    have "map to_lower (months ! j) = map to_lower (months ! i) \<longleftrightarrow> j = i"
      using nth_eq_iff_index_eq [OF months_facts(3), of j i] months_facts(1) that assms by simp
    then show ?thesis using strncasecomp_three [of "months ! j" "months ! i" rest] month_chars that assms by simp
  qed
  have "find (\<lambda>j. strncasecomp (months ! j) (months ! i @ rest) 3 = 0) [0..<12] = Some i"
    unfolding find_Some_iff using same assms by (intro exI [of _ i]) auto
  moreover have "dropWhile (\<lambda>c. \<not> is_alpha c) (CHR '' '' # months ! i @ rest) = months ! i @ rest"
    using month_chars [OF assms] by (cases "months ! i") (auto simp: is_alpha_def)
  ultimately show ?thesis
    using month_chars [OF assms] by (auto simp: make_month_def advance_def Let_def)
qed

lemma parse_clock_printed:
  assumes "h < 100" "m < 100" "s < 100" "rest = [] \<or> hd rest \<in> set '' :,-G''"
  shows "parse_clock (CHR '' '' # pad2 h @ CHR '':'' # pad2 m @ CHR '':'' # pad2 s @ rest) =
    Some (int h, int m, int s, rest)"
  using assms by (cases rest) (simp_all add: parse_clock_def strtol_pad strtoint_end advance_def)

lemma length_pad [simp]: "length (pad2 n) = 2" "length (pad4 n) = 4"
  by (simp_all add: pad2_def pad4_def)

lemma chars_pad:
  "n < 100 \<Longrightarrow> c \<in> set (pad2 n) \<Longrightarrow> c \<notin> set '',-+:/ T''"
  "n < 10000 \<Longrightarrow> c \<in> set (pad4 n) \<Longrightarrow> c \<notin> set '',-+:/ T''"
proof -
  have two: "c \<notin> set '',-+:/ T''" if "n < 100" "c \<in> set (pad2 n)" for n
    using that digit_facts [of "n div 10"] digit_facts [of "n mod 10"]
    by (auto simp: pad2_def div_less_iff_less_mult)
  then show "n < 100 \<Longrightarrow> c \<in> set (pad2 n) \<Longrightarrow> c \<notin> set '',-+:/ T''" .
  assume n: "n < 10000" and c: "c \<in> set (pad4 n)"
  then have "n div 100 < 100" "n mod 100 < 100" by (simp_all add: div_less_iff_less_mult)
  then show "c \<notin> set '',-+:/ T''"
    using c two unfolding pad4_def set_append by blast
qed

lemma wkday_chars:
  assumes "w < 7"
  shows "CHR '','' \<notin> set (wkdays ! w)" "dropWhile (\<lambda>c. c \<noteq> CHR '','') (wkdays ! w @ rest) = dropWhile (\<lambda>c. c \<noteq> CHR '','') rest"
proof -
  have "w \<in> {0, 1, 2, 3, 4, 5, 6}" using assms by auto
  then show 1: "CHR '','' \<notin> set (wkdays ! w)" by (elim insertE emptyE; simp add: wkdays_def)
  show "dropWhile (\<lambda>c. c \<noteq> CHR '','') (wkdays ! w @ rest) = dropWhile (\<lambda>c. c \<noteq> CHR '','') rest"
    using 1 by (intro dropWhile_append2) auto
qed

text \<open>The fields as naturals that print in the places the format has for them.\<close>

lemma parse_rfc1123_printed:
  assumes "d < 100" "i < 12" "y < 10000" "h < 100" "m < 100" "s < 100" "rest = [] \<or> hd rest = CHR '' ''"
  shows "parse_rfc1123 (pad2 d @ CHR '' '' # months ! i @ CHR '' '' # pad4 y @ CHR '' '' # pad2 h @ CHR '':'' # pad2 m @
      CHR '':'' # pad2 s @ rest) =
    Some (Some \<lparr>tm_sec = int s, tm_min = int m, tm_hour = int h, tm_mday = int d, tm_mon = int i,
      tm_year = int y - 1900\<rparr>)"
  using assms month_chars [OF assms(2)]
    parse_clock_printed [of h m s rest]
  by (cases rest) (simp_all add: parse_rfc1123_def strtol_pad make_month_months)

lemma parse_time_printed:
  assumes "w < 7" "d < 100" "i < 12" "y < 10000" "h < 100" "m < 100" "s < 100" "rest = [] \<or> rest = '' GMT''"
  shows "parse_time now (wkdays ! w @ '', '' @ pad2 d @ '' '' @ months ! i @ '' '' @ pad4 y @ '' '' @ pad2 h @ '':'' @ pad2 m @
      '':'' @ pad2 s @ rest) e =
    tm_time (Some (Some \<lparr>tm_sec = int s, tm_min = int m, tm_hour = int h, tm_mday = int d, tm_mon = int i,
      tm_year = int y - 1900\<rparr>))"
proof -
  let ?s = "pad2 d @ CHR '' '' # months ! i @ CHR '' '' # pad4 y @ CHR '' '' # pad2 h @ CHR '':'' # pad2 m @ CHR '':'' # pad2 s @ rest"
  have "skip_blanks (CHR '' '' # ?s) = ?s"
    using chars_pad(1) [OF assms(2)] by (cases "pad2 d") (auto simp: skip_blanks_def pad2_def)
  moreover have "CHR ''-'' \<notin> set ?s"
  proof -
    have "CHR ''-'' \<notin> set (pad2 n)" if "n < 100" for n using chars_pad(1) [OF that, of "CHR ''-''"] by auto
    moreover have "CHR ''-'' \<notin> set (pad4 y)" using chars_pad(2) [OF assms(4), of "CHR ''-''"] by auto
    ultimately show ?thesis using assms month_chars [OF assms(3)] by auto
  qed
  moreover have "parse_rfc1123 ?s = Some (Some \<lparr>tm_sec = int s, tm_min = int m, tm_hour = int h, tm_mday = int d,
      tm_mon = int i, tm_year = int y - 1900\<rparr>)"
    using assms(8) by (intro parse_rfc1123_printed assms) auto
  ultimately show ?thesis
    by (simp add: parse_time_def wkday_chars [OF assms(1)])
qed

section \<open>Properties\<close>

text \<open>Dates that the library prints are read back: for a time whose broken-down form the date
  parser accepts, \<open>parse_time\<close> of the string \<open>date_time_str\<close> makes in GMT is that time again, whatever
  the current time and the flag for delta seconds are.  (The calendar functions of the C library are a parameter; that
  \<open>timegm\<close> undoes \<open>gmtime\<close> is their documented behaviour.)\<close>

lemma parse_date_time_str:
  assumes "fst (gmtime t) < 7" "tm_legal (snd (gmtime t))" "timegm (snd (gmtime t)) = t"
  shows "parse_time now (date_time_str gmtime t False) expand = Some t"
proof -
  let ?f = "snd (gmtime t)"
  have l: "0 \<le> tm_sec ?f" "tm_sec ?f \<le> 59" "0 \<le> tm_min ?f" "tm_min ?f \<le> 59" "0 \<le> tm_hour ?f" "tm_hour ?f \<le> 23"
    "1 \<le> tm_mday ?f" "tm_mday ?f \<le> 31" "0 \<le> tm_mon ?f" "tm_mon ?f \<le> 11" "70 \<le> tm_year ?f" "tm_year ?f \<le> 120"
    using assms(2) by (auto simp: tm_legal_def)
  define s m h d i y where "s = nat (tm_sec ?f)" and "m = nat (tm_min ?f)" and "h = nat (tm_hour ?f)"
    and "d = nat (tm_mday ?f)" and "i = nat (tm_mon ?f)" and "y = nat (tm_year ?f + 1900)"
  note defs = s_def m_def h_def d_def i_def y_def
  have f: "?f = \<lparr>tm_sec = int s, tm_min = int m, tm_hour = int h, tm_mday = int d, tm_mon = int i, tm_year = int y - 1900\<rparr>"
    using l by (simp add: defs)
  have b: "d < 100" "i < 12" "y < 10000" "h < 100" "m < 100" "s < 100"
    using l by (simp_all add: defs nat_less_iff)
  have "parse_time now (date_time_str gmtime t False) expand = tm_time (Some (Some ?f))"
    using parse_time_printed [OF assms(1) b, of "'' GMT''" now expand]
    by (simp add: date_time_str_def case_prod_beta defs [symmetric] f [symmetric])
  then show ?thesis using assms(2,3) by (simp add: tm_time_def)
qed

text \<open>No date after the year 2020 is understood: a well-formed date of the years 2021 to 9999, as
  \<open>date_time_str\<close> prints it, is parsed to 0, the value that means failure (and that is also the first second of 1970).\<close>

lemma parse_time_after_2020:
  assumes "w < 7" "1 \<le> d" "d \<le> 31" "i < 12" "2021 \<le> y" "y \<le> 9999" "h \<le> 23" "m \<le> 59" "s \<le> 59"
  shows "parse_time now (date_time_str (\<lambda>_. (w, \<lparr>tm_sec = int s, tm_min = int m, tm_hour = int h, tm_mday = int d,
    tm_mon = int i, tm_year = int y - 1900\<rparr>)) t False) expand = Some 0"
  using parse_time_printed [of w d i y h m s "'' GMT''" now expand] assms
  by (simp add: date_time_str_def tm_time_def tm_legal_def)

section \<open>Witnesses\<close>

definition demo_gmtime :: "int \<Rightarrow> nat \<times> tm" where
  "demo_gmtime t = (0, \<lparr>tm_sec = 37, tm_min = 49, tm_hour = 8, tm_mday = 6, tm_mon = 10, tm_year = 94\<rparr>)"

lemma parse_date_time_str_witness:
  "date_time_str demo_gmtime 784111777 False = ''Sun, 06 Nov 1994 08:49:37 GMT''
   \<and> parse_time 0 (date_time_str demo_gmtime 784111777 False) True = Some 784111777"
proof
  show "date_time_str demo_gmtime 784111777 False = ''Sun, 06 Nov 1994 08:49:37 GMT''" by code_simp
  have "fst (demo_gmtime 784111777) < 7" "tm_legal (snd (demo_gmtime 784111777))"
    "timegm (snd (demo_gmtime 784111777)) = 784111777"
    by (simp_all add: demo_gmtime_def tm_legal_def timegm_def days_before_year_def days_before_month_def leap_def)
  from parse_date_time_str [of demo_gmtime 784111777, OF this]
  show "parse_time 0 (date_time_str demo_gmtime 784111777 False) True = Some 784111777" .
qed

lemma parse_time_after_2020_witness:
  "parse_time 0 (date_time_str (\<lambda>_. (3, \<lparr>tm_sec = 0, tm_min = 0, tm_hour = 0, tm_mday = 6, tm_mon = 0, tm_year = 2021 - 1900\<rparr>))
     0 False) True = Some 0"
  using parse_time_after_2020 [of 3 6 0 2021 0 0 0 0 0 True] by simp

end
