(* ===== verification/HttpCacheTable.thy ===== *)
theory HttpCacheTable
  imports HttpDate "HOL-Library.AList"
begin

text \<open>
  The in-memory table of the HTTP cache (\<open>HTTPCacheTable.h\<close>, \<open>HTTPCacheTable.cc\<close>): a hash table of
  pointers to entries, the entries' locks, the accounting of the disk space, the garbage collectors,
  the freshness computation, the response headers and the index file's lines.  Entries live in
  a heap, because the table of locked responses points to the same entries as the hash table.
\<close>

section \<open>Entries and their locks\<close>

record cache_entry =
  ce_url :: string
  ce_hash :: int
  ce_hits :: int
  ce_cachename :: string
  ce_etag :: string
  ce_lm :: int
  ce_expires :: int
  ce_date :: int
  ce_age :: int
  ce_max_age :: int
  ce_size :: int
  ce_range :: bool
  ce_freshness_lifetime :: int
  ce_response_time :: int
  ce_corrected_initial_age :: int
  ce_must_revalidate :: bool
  ce_no_cache :: bool
  ce_readers :: int
  ce_response_lock :: bool
  ce_write_lock :: bool

definition CACHE_TABLE_SIZE :: int where "CACHE_TABLE_SIZE = 1499"

definition get_hash :: "string \<Rightarrow> int" where
  "get_hash url = foldl (\<lambda>hash c. (hash * 3 + of_char c) mod CACHE_TABLE_SIZE) 0 (c_str url)"

definition empty_entry :: cache_entry where
  "empty_entry = \<lparr>ce_url = [], ce_hash = -1, ce_hits = 0, ce_cachename = [], ce_etag = [], ce_lm = -1,
     ce_expires = -1, ce_date = -1, ce_age = -1, ce_max_age = -1, ce_size = 0, ce_range = False,
     ce_freshness_lifetime = 0, ce_response_time = 0, ce_corrected_initial_age = 0, ce_must_revalidate = False,
     ce_no_cache = False, ce_readers = 0, ce_response_lock = False, ce_write_lock = False\<rparr>"

definition new_entry :: "string \<Rightarrow> cache_entry" where
  "new_entry u = empty_entry\<lparr>ce_url := u, ce_hash := get_hash u\<rparr>"

text \<open>
  How an operation ends: it returns, it throws, or the calling thread blocks on a mutex.  The
  mutexes are not recursive, so a thread blocks on one it holds itself.
\<close>

datatype outcome = Completed | Threw exn | Blocked

definition lock_read_response :: "cache_entry \<Rightarrow> cache_entry \<times> outcome" where
  "lock_read_response e =
     (if \<not> ce_response_lock e then (e\<lparr>ce_response_lock := True, ce_readers := ce_readers e + 1\<rparr>, Completed)
      else if ce_write_lock e then (e, Blocked)
      else (e\<lparr>ce_readers := ce_readers e + 1\<rparr>, Completed))"

definition unlock_read_response :: "cache_entry \<Rightarrow> cache_entry" where
  "unlock_read_response e =
     (let e1 = e\<lparr>ce_readers := ce_readers e - 1\<rparr> in
      if ce_readers e1 = 0 then e1\<lparr>ce_response_lock := False\<rparr> else e1)"

definition lock_write_response :: "cache_entry \<Rightarrow> cache_entry \<times> outcome" where
  "lock_write_response e =
     (if ce_response_lock e then (e, Blocked)
      else if ce_write_lock e then (e\<lparr>ce_response_lock := True\<rparr>, Blocked)
      else (e\<lparr>ce_response_lock := True, ce_write_lock := True\<rparr>, Completed))"

definition unlock_write_response :: "cache_entry \<Rightarrow> cache_entry" where
  "unlock_write_response e = e\<lparr>ce_write_lock := False, ce_response_lock := False\<rparr>"

section \<open>The table\<close>

type_synonym ptr = nat

text \<open>
  A slot of the table is a null pointer (\<open>None\<close>) or a vector of pointers to entries; an
  element is null after a collector deleted its entry and before it is erased.  \<open>locked_entries\<close> maps an
  open file to the entry it was taken from, or to null.  \<open>fresh\<close> is the next address \<open>new\<close> gives.
\<close>

record cache_table =
  heap :: "ptr \<Rightarrow> cache_entry option"
  fresh :: ptr
  slots :: "int \<Rightarrow> ptr option list option"
  block_size :: int
  current_size :: int
  new_entries :: int
  locked_entries :: "(nat \<times> ptr option) list"
  disk :: "string set"
  index_name :: string

definition entry_at :: "cache_table \<Rightarrow> ptr \<Rightarrow> cache_entry" where
  "entry_at t p = the (heap t p)"

definition put_entry :: "cache_table \<Rightarrow> ptr \<Rightarrow> cache_entry \<Rightarrow> cache_table" where
  "put_entry t p e = t\<lparr>heap := (heap t)(p \<mapsto> e)\<rparr>"

text \<open>
  The arithmetic of \<open>entry_disk_space\<close> is that of \<open>unsigned int\<close>; the result is returned as
  an \<open>int\<close>, and the entry's size, an \<open>unsigned long\<close>, is passed as an \<open>int\<close>.
\<close>

definition entry_disk_space :: "int \<Rightarrow> int \<Rightarrow> int" where
  "entry_disk_space sz block =
     to_int (to_uint (to_uint (to_uint (to_int sz) + block) div block * block))"

definition add_entry_to_cache_table :: "cache_table \<Rightarrow> ptr \<Rightarrow> cache_table \<times> outcome" where
  "add_entry_to_cache_table t p =
     (let e = entry_at t p; h = ce_hash e in
      if h > CACHE_TABLE_SIZE - 1 \<or> h < 0 then (t, Threw (InternalErr ''Hash value too large!''))
      else
        (t\<lparr>slots := (slots t)(h := Some ((case slots t h of None \<Rightarrow> [] | Some ps \<Rightarrow> ps) @ [Some p])),
           current_size := (current_size t + entry_disk_space (ce_size e) (block_size t)) mod 2 ^ 64,
           new_entries := new_entries t + 1\<rparr>, Completed))"

definition matches :: "cache_table \<Rightarrow> string \<Rightarrow> ptr option \<Rightarrow> bool" where
  "matches t url q = (case q of None \<Rightarrow> False | Some p \<Rightarrow> ce_url (entry_at t p) = url)"

definition find_in_slot :: "cache_table \<Rightarrow> int \<Rightarrow> string \<Rightarrow> ptr option" where
  "find_in_slot t h url =
     (case slots t h of None \<Rightarrow> None
      | Some ps \<Rightarrow> (case find (matches t url) ps of Some (Some p) \<Rightarrow> Some p | _ \<Rightarrow> None))"

definition get_locked_entry_from_slot :: "cache_table \<Rightarrow> int \<Rightarrow> string \<Rightarrow> ptr option \<times> cache_table \<times> outcome" where
  "get_locked_entry_from_slot t h url =
     (case find_in_slot t h url of None \<Rightarrow> (None, t, Completed)
      | Some p \<Rightarrow> (case lock_read_response (entry_at t p) of (e, r) \<Rightarrow> (Some p, put_entry t p e, r)))"

definition get_locked_entry_from_cache_table :: "cache_table \<Rightarrow> string \<Rightarrow> ptr option \<times> cache_table \<times> outcome" where
  "get_locked_entry_from_cache_table t url = get_locked_entry_from_slot t (get_hash url) url"

definition get_write_locked_entry_from_cache_table :: "cache_table \<Rightarrow> string \<Rightarrow> ptr option \<times> cache_table \<times> outcome" where
  "get_write_locked_entry_from_cache_table t url =
     (case find_in_slot t (get_hash url) url of None \<Rightarrow> (None, t, Completed)
      | Some p \<Rightarrow> (case lock_write_response (entry_at t p) of (e, r) \<Rightarrow> (Some p, put_entry t p e, r)))"

text \<open>\<open>REMOVE\<close> ignores the result of \<open>remove()\<close>.\<close>

definition CACHE_META :: string where "CACHE_META = ''.meta''"

definition remove_cache_entry :: "cache_table \<Rightarrow> ptr \<Rightarrow> cache_table \<times> outcome" where
  "remove_cache_entry t p =
     (let e = entry_at t p in
      if ce_readers e \<noteq> 0 then (t, Threw (InternalErr ''Tried to delete a cache entry that is in use.''))
      else
        let eds = to_uint (entry_disk_space (ce_size e) (block_size t)) in
        (t\<lparr>disk := disk t - {ce_cachename e, ce_cachename e @ CACHE_META},
           current_size := (if eds > current_size t then 0 else current_size t - eds)\<rparr>, Completed))"

section \<open>Deleting entries\<close>

text \<open>
  The functors get a pointer by reference: they say how they end and whether they deleted the
  entry and nulled the pointer.  \<open>for_each_entry\<close> is \<open>for_each\<close> over a slot; an exception leaves
  the rest of the slot as it is.
\<close>

definition delete_entry :: "cache_table \<Rightarrow> ptr \<Rightarrow> cache_table" where
  "delete_entry t p = t\<lparr>heap := (heap t)(p := None)\<rparr>"

type_synonym functor_ = "cache_table \<Rightarrow> ptr \<Rightarrow> cache_table \<times> bool \<times> outcome"

definition remove_and_delete :: functor_ where
  "remove_and_delete t p =
     (case remove_cache_entry t p of
        (t1, Completed) \<Rightarrow> (delete_entry t1 p, True, Completed)
      | (t1, r) \<Rightarrow> (t1, False, r))"

definition DeleteExpired :: "int \<Rightarrow> int \<Rightarrow> functor_" where
  "DeleteExpired now time t p =
     (let d_time = (if time = 0 then now else time); e = entry_at t p in
      if ce_readers e = 0 \<and> ce_freshness_lifetime e < ce_corrected_initial_age e + (d_time - ce_response_time e)
      then remove_and_delete t p else (t, False, Completed))"

definition DeleteByHits :: "int \<Rightarrow> functor_" where
  "DeleteByHits hits t p =
     (let e = entry_at t p in
      if ce_readers e = 0 \<and> ce_hits e \<le> hits then remove_and_delete t p else (t, False, Completed))"

definition DeleteBySize :: "int \<Rightarrow> functor_" where
  "DeleteBySize sz t p =
     (let e = entry_at t p in
      if ce_readers e = 0 \<and> ce_size e > sz then remove_and_delete t p else (t, False, Completed))"

definition DeleteUnlockedCacheEntry :: functor_ where
  "DeleteUnlockedCacheEntry t p = remove_and_delete t p"

definition DeleteCacheEntry :: "string \<Rightarrow> functor_" where
  "DeleteCacheEntry url t p =
     (if ce_url (entry_at t p) = url then
        (case lock_write_response (entry_at t p) of
           (e1, Completed) \<Rightarrow>
             (case remove_cache_entry (put_entry t p e1) p of
                (t2, Completed) \<Rightarrow> (delete_entry (put_entry t2 p (unlock_write_response (entry_at t2 p))) p, True, Completed)
              | (t2, r) \<Rightarrow> (t2, False, r))
         | (e1, r) \<Rightarrow> (put_entry t p e1, False, r))
      else (t, False, Completed))"

fun for_each_entry :: "functor_ \<Rightarrow> cache_table \<Rightarrow> ptr option list \<Rightarrow> cache_table \<times> ptr option list \<times> outcome" where
  "for_each_entry f t [] = (t, [], Completed)"
| "for_each_entry f t (None # ps) =
     (case for_each_entry f t ps of (t1, qs, r) \<Rightarrow> (t1, None # qs, r))"
| "for_each_entry f t (Some p # ps) =
     (case f t p of (t1, gone, r) \<Rightarrow>
        if r \<noteq> Completed then (t1, (if gone then None else Some p) # ps, r)
        else (case for_each_entry f t1 ps of (t2, qs, r2) \<Rightarrow> (t2, (if gone then None else Some p) # qs, r2)))"

definition sweep_slot :: "functor_ \<Rightarrow> cache_table \<Rightarrow> int \<Rightarrow> cache_table \<times> outcome" where
  "sweep_slot f t h =
     (case slots t h of None \<Rightarrow> (t, Completed)
      | Some ps \<Rightarrow>
          (case for_each_entry f t ps of (t1, qs, r) \<Rightarrow>
             (t1\<lparr>slots := (slots t1)(h := Some (if r = Completed then filter (\<lambda>q. q \<noteq> None) qs else qs))\<rparr>, r)))"

text \<open>The loop over the slots, with the exception ending it.\<close>

definition sweep_table :: "functor_ \<Rightarrow> cache_table \<Rightarrow> cache_table \<times> outcome" where
  "sweep_table f t =
     foldl (\<lambda>(t, r) h. if r = Completed then sweep_slot f t h else (t, r)) (t, Completed) (upto 0 (CACHE_TABLE_SIZE - 1))"

definition delete_expired_entries :: "int \<Rightarrow> int \<Rightarrow> cache_table \<Rightarrow> cache_table \<times> outcome" where
  "delete_expired_entries now time t = sweep_table (DeleteExpired now time) t"

definition delete_by_hits :: "int \<Rightarrow> cache_table \<Rightarrow> cache_table \<times> outcome" where
  "delete_by_hits hits t = sweep_table (DeleteByHits hits) t"

definition delete_by_size :: "int \<Rightarrow> cache_table \<Rightarrow> cache_table \<times> outcome" where
  "delete_by_size sz t = sweep_table (DeleteBySize sz) t"

definition cache_index_delete :: "cache_table \<Rightarrow> bool \<times> cache_table" where
  "cache_index_delete t = (index_name t \<in> disk t, t\<lparr>new_entries := 0, disk := disk t - {index_name t}\<rparr>)"

definition delete_all_entries :: "cache_table \<Rightarrow> cache_table \<times> outcome" where
  "delete_all_entries t =
     (case sweep_table DeleteUnlockedCacheEntry t of
        (t1, Completed) \<Rightarrow> (snd (cache_index_delete t1), Completed)
      | (t1, r) \<Rightarrow> (t1, r))"

definition remove_entry_from_cache_table :: "cache_table \<Rightarrow> string \<Rightarrow> cache_table \<times> outcome" where
  "remove_entry_from_cache_table t url = sweep_slot (DeleteCacheEntry url) t (get_hash url)"

section \<open>Locked responses\<close>

definition bind_entry_to_data :: "cache_table \<Rightarrow> ptr \<Rightarrow> nat \<Rightarrow> cache_table" where
  "bind_entry_to_data t p fp =
     (let t1 = put_entry t p ((entry_at t p)\<lparr>ce_hits := ce_hits (entry_at t p) + 1\<rparr>) in
      t1\<lparr>locked_entries := AList.update fp (Some p) (locked_entries t1)\<rparr>)"

text \<open>The lookup with \<open>operator[]\<close> inserts a null pointer when the file is not there.\<close>

definition uncouple_entry_from_data :: "cache_table \<Rightarrow> nat \<Rightarrow> cache_table \<times> outcome" where
  "uncouple_entry_from_data t fp =
     (case map_of (locked_entries t) fp of
        Some (Some p) \<Rightarrow>
          (let e = unlock_read_response (entry_at t p);
               t1 = put_entry (t\<lparr>locked_entries := AList.delete fp (locked_entries t)\<rparr>) p e in
           (t1, if ce_readers e < 0 then Threw (InternalErr ''An unlocked entry was released'') else Completed))
      | _ \<Rightarrow> (t\<lparr>locked_entries := AList.update fp None (locked_entries t)\<rparr>,
              Threw (InternalErr ''There is no cache entry for the response given.'')))"

definition is_locked_read_responses :: "cache_table \<Rightarrow> bool" where
  "is_locked_read_responses t \<longleftrightarrow> locked_entries t \<noteq> []"

section \<open>Freshness\<close>

text \<open>\<open>max(0, static_cast<int>(..))\<close> wraps at 32 bits first.\<close>

definition MAX_LM_EXPIRATION :: int where "MAX_LM_EXPIRATION = 48 * 3600"

definition LM_EXPIRATION :: "int \<Rightarrow> int" where
  "LM_EXPIRATION t = min MAX_LM_EXPIRATION (to_int (tdiv t 10))"

definition calculate_time :: "int \<Rightarrow> cache_entry \<Rightarrow> int \<Rightarrow> int \<Rightarrow> cache_entry" where
  "calculate_time now e default_expiration request_time =
     (let apparent_age = max 0 (to_int (now - ce_date e));
          corrected_received_age = max apparent_age (ce_age e);
          response_delay = now - request_time;
          freshness =
            (if ce_max_age e < 0 then
               if ce_expires e < 0 then
                 if ce_lm e < 0 then default_expiration else LM_EXPIRATION (ce_date e - ce_lm e)
               else ce_expires e - ce_date e
             else ce_max_age e) in
      e\<lparr>ce_response_time := now, ce_corrected_initial_age := corrected_received_age + response_delay,
        ce_freshness_lifetime := max 0 (to_int freshness)\<rparr>)"

section \<open>Response headers\<close>

text \<open>
  \<open>find(": ") + 2\<close> is 1 when there is no such separator (\<open>npos + 2\<close>).  The argument of the last \<open>find\<close> is
  the pointer \<open>"=" + 1\<close>, the empty string, which is found at 0.
\<close>

definition header_name :: "string \<Rightarrow> string" where
  "header_name h = takeWhile (\<lambda>c. c \<noteq> CHR '':'') h"

definition header_value :: "string \<Rightarrow> string" where
  "header_value h = (case find_at (starts_with '': '') h of None \<Rightarrow> drop 1 h | Some i \<Rightarrow> drop (i + 2) h)"

definition set_time :: "int option \<Rightarrow> (int \<Rightarrow> cache_entry) \<Rightarrow> cache_entry option" where
  "set_time r f = map_option f r"

definition parse_header :: "int \<Rightarrow> int \<Rightarrow> cache_entry \<Rightarrow> string \<Rightarrow> cache_entry option" where
  "parse_header now max_entry_size e h =
     (if h = [] \<or> CHR '':'' \<notin> set h then Some e
      else
        let header = header_name h; value = header_value h; time = parse_time now (c_str value) True in
        if header = ''ETag'' then Some (e\<lparr>ce_etag := value\<rparr>)
        else if header = ''Last-Modified'' then set_time time (\<lambda>v. e\<lparr>ce_lm := v\<rparr>)
        else if header = ''Expires'' then set_time time (\<lambda>v. e\<lparr>ce_expires := v\<rparr>)
        else if header = ''Date'' then set_time time (\<lambda>v. e\<lparr>ce_date := v\<rparr>)
        else if header = ''Age'' then set_time time (\<lambda>v. e\<lparr>ce_age := v\<rparr>)
        else if header = ''Content-Length'' then
          Some (if fst (strtoul 0 (c_str value)) > max_entry_size then e\<lparr>ce_no_cache := True\<rparr> else e)
        else if header = ''Cache-Control'' then
          (if value = ''no-cache'' \<or> value = ''no-store'' then Some (e\<lparr>ce_no_cache := True\<rparr>)
           else if value = ''must-revalidate'' then Some (e\<lparr>ce_must_revalidate := True\<rparr>)
           else if find_at (starts_with ''max-age'') value \<noteq> None then
             (let max_age = drop (the (find_at (starts_with (drop 1 ''='')) value)) value in
              set_time (parse_time now (c_str max_age) True) (\<lambda>v. e\<lparr>ce_max_age := v\<rparr>))
           else Some e)
        else Some e)"

fun parse_headers :: "int \<Rightarrow> int \<Rightarrow> cache_entry \<Rightarrow> string list \<Rightarrow> cache_entry option" where
  "parse_headers now max_entry_size e [] = Some e"
| "parse_headers now max_entry_size e (h # hs) =
     Option.bind (parse_header now max_entry_size e h) (\<lambda>e1. parse_headers now max_entry_size e1 hs)"

section \<open>The index file\<close>

definition CACHE_EMPTY_ETAG :: string where "CACHE_EMPTY_ETAG = ''@cache@''"

text \<open>
  Formatted input from an \<open>istringstream\<close>: the characters left and \<open>failbit\<close>.  Nothing is read or changed once
  the stream has failed; at the end of the text the value is left as it is.
\<close>

type_synonym input = "string \<times> bool"

definition get_word :: "string \<Rightarrow> input \<Rightarrow> string \<times> input" where
  "get_word old = (\<lambda>(s, bad).
     if bad then (old, s, True)
     else let t = dropWhile is_space s in
       if t = [] then (old, [], True)
       else (takeWhile (\<lambda>c. \<not> is_space c) t, dropWhile (\<lambda>c. \<not> is_space c) t, False))"

definition get_number :: "int \<Rightarrow> int \<Rightarrow> int \<Rightarrow> input \<Rightarrow> int \<times> input" where
  "get_number lo hi old = (\<lambda>(s, bad).
     if bad then (old, s, True)
     else let t = dropWhile is_space s in
       if t = [] then (old, [], True)
       else
         let neg = (hd t = CHR ''-'');
             u = (if hd t = CHR ''-'' \<or> hd t = CHR ''+'' then tl t else t);
             ds = takeWhile (\<lambda>c. digit_val c < 10) u; rest = drop (length ds) u;
             v = (if neg then - int (digits_value 10 ds) else int (digits_value 10 ds)) in
         if ds = [] then (0, rest, True)
         else if v < lo then (lo, rest, True) else if hi < v then (hi, rest, True) else (v, rest, False))"

definition get_long :: "int \<Rightarrow> input \<Rightarrow> int \<times> input" where
  "get_long = get_number (- (2 ^ 63)) (2 ^ 63 - 1)"

definition get_int :: "int \<Rightarrow> input \<Rightarrow> int \<times> input" where
  "get_int = get_number (- (2 ^ 31)) (2 ^ 31 - 1)"

text \<open>For \<open>unsigned long\<close> a minus sign negates in the unsigned type.\<close>

definition get_ulong :: "int \<Rightarrow> input \<Rightarrow> int \<times> input" where
  "get_ulong old st = (case get_number (- (2 ^ 64 - 1)) (2 ^ 64 - 1) old st of (v, st1) \<Rightarrow>
     (if snd st1 \<and> v < 0 then 2 ^ 64 - 1 else v mod 2 ^ 64, st1))"

definition get_bool :: "bool \<Rightarrow> input \<Rightarrow> bool \<times> input" where
  "get_bool old st =
     (if snd st \<or> dropWhile is_space (fst st) = [] then (old, fst st, True)
      else case get_long 0 st of (v, rest, bad) \<Rightarrow>
        if v = 0 then (False, rest, bad) else if v = 1 then (True, rest, bad) else (True, rest, True))"

definition cache_index_parse_line :: "string \<Rightarrow> cache_entry" where
  "cache_index_parse_line line =
     (let e = empty_entry;
          (url, i1) = get_word (ce_url e) (c_str line, False);
          (cachename, i2) = get_word (ce_cachename e) i1;
          (etag0, i3) = get_word (ce_etag e) i2;
          etag = (if etag0 = CACHE_EMPTY_ETAG then [] else etag0);
          (lm, i4) = get_long (ce_lm e) i3;
          (expires, i5) = get_long (ce_expires e) i4;
          (sz, i6) = get_ulong (ce_size e) i5;
          (range, i7) = get_bool (ce_range e) i6;
          (hash, i8) = get_int (ce_hash e) i7;
          (hits, i9) = get_int (ce_hits e) i8;
          (freshness, i10) = get_long (ce_freshness_lifetime e) i9;
          (response, i11) = get_long (ce_response_time e) i10;
          (initial_age, i12) = get_long (ce_corrected_initial_age e) i11;
          (must_revalidate, i13) = get_bool (ce_must_revalidate e) i12 in
      e\<lparr>ce_url := url, ce_cachename := cachename, ce_etag := etag, ce_lm := lm, ce_expires := expires, ce_size := sz,
        ce_range := range, ce_hash := hash, ce_hits := hits, ce_freshness_lifetime := freshness,
        ce_response_time := response, ce_corrected_initial_age := initial_age, ce_must_revalidate := must_revalidate\<rparr>)"

text \<open>The format is the one of \<open>WriteOneCacheEntry\<close>; \<open>%ld\<close> prints the size as a signed number.\<close>

definition signed_long :: "int \<Rightarrow> int" where
  "signed_long v = (if v < 2 ^ 63 then v else v - 2 ^ 64)"

definition WriteOneCacheEntry :: "cache_entry \<Rightarrow> string" where
  "WriteOneCacheEntry e =
     c_str (ce_url e) @ '' '' @ c_str (ce_cachename e) @ '' '' @
     (if ce_etag e = [] then CACHE_EMPTY_ETAG else c_str (ce_etag e)) @ '' '' @
     show_int (ce_lm e) @ '' '' @ show_int (ce_expires e) @ '' '' @ show_int (signed_long (ce_size e)) @ '' '' @
     (if ce_range e then ''1'' else ''0'') @ '' '' @ show_int (ce_hash e) @ '' '' @ show_int (ce_hits e) @ '' '' @
     show_int (ce_freshness_lifetime e) @ '' '' @ show_int (ce_response_time e) @ '' '' @
     show_int (ce_corrected_initial_age e) @ '' '' @ (if ce_must_revalidate e then ''1'' else ''0'') @
     [CHR 0x0D, CHR 0x0A]"

definition cache_index_write :: "cache_table \<Rightarrow> bool \<Rightarrow> (string \<times> cache_table) result" where
  "cache_index_write t can_open =
     (if \<not> can_open then Inl (Error unknown_error (''Cache Index. Can't open `'' @ index_name t @ CHR 0x27 # '' for writing''))
      else Inr (concat (map (\<lambda>h. case slots t h of None \<Rightarrow> []
          | Some ps \<Rightarrow> concat (map (\<lambda>q. case q of None \<Rightarrow> [] | Some p \<Rightarrow> WriteOneCacheEntry (entry_at t p)) ps))
          (upto 0 (CACHE_TABLE_SIZE - 1))),
        t\<lparr>disk := insert (index_name t) (disk t), new_entries := 0\<rparr>))"

text \<open>\<open>fgets(line, 1024, fp)\<close>: up to and including the newline, at most 1023 characters.\<close>

function fgets_lines :: "string \<Rightarrow> string list" where
  "fgets_lines s =
     (if s = [] then []
      else let n = min 1023 (case find_at (starts_with [CHR 0x0A]) s of None \<Rightarrow> length s | Some i \<Rightarrow> i + 1) in
        take n s # fgets_lines (drop n s))"
  by pat_completeness auto
termination
  by (relation "measure length") (auto split: option.splits simp: min_def)

declare fgets_lines.simps [simp del]

definition allocate :: "cache_table \<Rightarrow> cache_entry \<Rightarrow> ptr \<times> cache_table" where
  "allocate t e = (fresh t, t\<lparr>heap := (heap t)(fresh t \<mapsto> e), fresh := fresh t + 1\<rparr>)"

fun read_lines :: "cache_table \<Rightarrow> string list \<Rightarrow> cache_table \<times> outcome" where
  "read_lines t [] = (t, Completed)"
| "read_lines t (l # ls) =
     (case allocate t (cache_index_parse_line l) of (p, t1) \<Rightarrow>
        case add_entry_to_cache_table t1 p of
          (t2, Completed) \<Rightarrow> read_lines t2 ls
        | (t2, r) \<Rightarrow> (t2, r))"

text \<open>Reading the index; \<open>None\<close> when the file cannot be opened.\<close>

definition cache_index_read :: "cache_table \<Rightarrow> string option \<Rightarrow> bool \<times> cache_table \<times> outcome" where
  "cache_index_read t file =
     (case file of None \<Rightarrow> (False, t, Completed)
      | Some s \<Rightarrow>
          (case read_lines t (fgets_lines s) of
             (t1, Completed) \<Rightarrow> (True, t1\<lparr>new_entries := 0\<rparr>, Completed)
           | (t1, r) \<Rightarrow> (False, t1, r)))"

definition make_cache_table :: "string \<Rightarrow> int \<Rightarrow> string set \<Rightarrow> string option \<Rightarrow> cache_table \<times> outcome" where
  "make_cache_table root block files file =
     (case cache_index_read \<lparr>heap = Map.empty, fresh = 0, slots = (\<lambda>_. None), block_size = to_uint block,
         current_size = 0, new_entries = 0, locked_entries = [], disk = files, index_name = root @ ''.index''\<rparr> file
      of (_, t, r) \<Rightarrow> (t, r))"

section \<open>The invariant\<close>

text \<open>The entries of a slot, the space an entry is accounted with, and the space of all entries.\<close>

definition ptrs :: "cache_table \<Rightarrow> int \<Rightarrow> ptr list" where
  "ptrs t h = (case slots t h of None \<Rightarrow> [] | Some ps \<Rightarrow> List.map_filter id ps)"

definition space :: "cache_table \<Rightarrow> ptr \<Rightarrow> int" where
  "space t p = entry_disk_space (ce_size (entry_at t p)) (block_size t)"

definition used_space :: "cache_table \<Rightarrow> int" where
  "used_space t = (\<Sum>h\<in>{0..<CACHE_TABLE_SIZE}. sum_list (map (space t) (ptrs t h)))"

text \<open>
  The table is well formed when every vector belongs to a slot of the table and holds distinct
  pointers to live entries with that hash and a size whose blocks fit an \<open>int\<close>, none is null, and the
  current size is the space of the entries.
\<close>

definition size_fits :: "cache_table \<Rightarrow> cache_entry \<Rightarrow> bool" where
  "size_fits t e \<longleftrightarrow> 0 \<le> ce_size e \<and> ce_size e + block_size t < 2 ^ 31"

definition slot_ok :: "cache_table \<Rightarrow> int \<Rightarrow> bool" where
  "slot_ok t h \<longleftrightarrow> (case slots t h of None \<Rightarrow> True | Some qs \<Rightarrow>
     0 \<le> h \<and> h < CACHE_TABLE_SIZE \<and> (\<exists>ps. qs = map Some ps \<and> distinct ps \<and>
       (\<forall>p \<in> set ps. heap t p \<noteq> None \<and> ce_hash (entry_at t p) = h \<and> size_fits t (entry_at t p))))"

definition table_ok :: "cache_table \<Rightarrow> bool" where
  "table_ok t \<longleftrightarrow> (\<forall>h. slot_ok t h) \<and> 0 < block_size t \<and> current_size t = used_space t"

lemma map_filter_Some [simp]: "List.map_filter id (map Some ps) = ps"
  by (induction ps) (simp_all add: List.map_filter_def)

lemma slot_cases:
  assumes "slot_ok t h"
  obtains (none) "slots t h = None" "ptrs t h = []"
    | (some) ps where "slots t h = Some (map Some ps)" "ptrs t h = ps" "distinct ps" "0 \<le> h" "h < CACHE_TABLE_SIZE"
        "\<forall>p \<in> set ps. heap t p \<noteq> None \<and> ce_hash (entry_at t p) = h \<and> size_fits t (entry_at t p)"
  using assms by (auto simp: slot_ok_def ptrs_def split: option.splits)

lemma table_ok_slot: "table_ok t \<Longrightarrow> slot_ok t h"
  by (simp add: table_ok_def)

lemma table_ok_ptrs:
  assumes "table_ok t" "p \<in> set (ptrs t h)"
  shows "heap t p \<noteq> None" "ce_hash (entry_at t p) = h" "size_fits t (entry_at t p)" "0 \<le> h" "h < CACHE_TABLE_SIZE"
  using table_ok_slot [OF assms(1), of h] assms(2) by (auto elim: slot_cases)

lemma entry_disk_space_eq:
  assumes "0 \<le> sz" "0 < b" "sz + b < 2 ^ 31"
  shows "entry_disk_space sz b = (sz + b) div b * b" "0 \<le> entry_disk_space sz b"
    "to_uint (entry_disk_space sz b) = entry_disk_space sz b"
proof -
  have le: "(sz + b) div b * b \<le> sz + b" 
    using pos_mod_sign [OF assms(2), of "sz + b"] minus_mod_eq_div_mult [of "sz + b" b] by linarith
  have ge: "0 \<le> (sz + b) div b * b" using assms by (simp add: pos_imp_zdiv_nonneg_iff)
  have u: "to_uint v = v" if "0 \<le> v" "v < 2 ^ 31" for v using that by (simp add: to_uint_def)
  have i: "to_int v = v" if "0 \<le> v" "v < 2 ^ 31" for v using that by simp
  have "to_int sz = sz" "to_uint sz = sz" "to_uint (sz + b) = sz + b" using assms by (auto intro: u i)
  moreover have "to_uint ((sz + b) div b * b) = (sz + b) div b * b" using le ge assms by (intro u) auto
  moreover have "to_int ((sz + b) div b * b) = (sz + b) div b * b" using le ge assms by (intro i) auto
  ultimately show *: "entry_disk_space sz b = (sz + b) div b * b" by (simp add: entry_disk_space_def)
  show "0 \<le> entry_disk_space sz b" using ge * by simp
  show "to_uint (entry_disk_space sz b) = entry_disk_space sz b" using le ge assms * by (intro u) auto
qed

lemma space_ok:
  assumes "table_ok t" "p \<in> set (ptrs t h)"
  shows "0 \<le> space t p" "to_uint (space t p) = space t p"
  using entry_disk_space_eq(2,3) [of "ce_size (entry_at t p)" "block_size t"] table_ok_ptrs(3) [OF assms] assms(1)
  by (auto simp: space_def size_fits_def table_ok_def)

lemma get_hash_bounds: "0 \<le> get_hash url" "get_hash url < CACHE_TABLE_SIZE"
proof -
  have "0 \<le> foldl (\<lambda>hash c. (hash * 3 + of_char c) mod CACHE_TABLE_SIZE) i s \<and>
      foldl (\<lambda>hash c. (hash * 3 + of_char c) mod CACHE_TABLE_SIZE) i s < CACHE_TABLE_SIZE"
    if "0 \<le> i" "i < CACHE_TABLE_SIZE" for i :: int and s :: string
    using that by (induction s arbitrary: i) (simp_all add: CACHE_TABLE_SIZE_def)
  then show "0 \<le> get_hash url" "get_hash url < CACHE_TABLE_SIZE"
    by (simp_all add: get_hash_def CACHE_TABLE_SIZE_def)
qed

section \<open>Collectors\<close>

text \<open>
  What the garbage collectors share.  A collector \<open>f\<close> deletes the entries that satisfy \<open>C\<close> and
  leaves the others, as far as the entries are in a state \<open>adm\<close> it can work on; the entries it
  deletes have no readers.
\<close>

locale collector =
  fixes f :: functor_ and C :: "cache_entry \<Rightarrow> bool" and adm :: "cache_entry \<Rightarrow> bool"
  assumes keeps: "adm (entry_at t p) \<Longrightarrow> \<not> C (entry_at t p) \<Longrightarrow> f t p = (t, False, Completed)"
    and deletes: "adm (entry_at t p) \<Longrightarrow> C (entry_at t p) \<Longrightarrow> f t p = remove_and_delete t p"
    and unread: "adm e \<Longrightarrow> C e \<Longrightarrow> ce_readers e = 0"
begin

text \<open>\<open>swept ps t t1\<close>: exactly the entries of \<open>ps\<close> that satisfy \<open>C\<close> are gone from the heap and from the size.\<close>

definition gone :: "cache_table \<Rightarrow> ptr list \<Rightarrow> ptr list" where
  "gone t ps = filter (\<lambda>p. C (entry_at t p)) ps"

definition swept :: "ptr list \<Rightarrow> cache_table \<Rightarrow> cache_table \<Rightarrow> bool" where
  "swept ps t t1 \<longleftrightarrow> slots t1 = slots t \<and> block_size t1 = block_size t \<and> fresh t1 = fresh t \<and>
     locked_entries t1 = locked_entries t \<and> new_entries t1 = new_entries t \<and> index_name t1 = index_name t \<and>
     heap t1 = (heap t) |` (- set (gone t ps)) \<and>
     current_size t1 = current_size t - sum_list (map (space t) (gone t ps))"

lemma for_each_swept:
  assumes "\<forall>p \<in> set ps. adm (entry_at t p) \<and> 0 \<le> space t p \<and> to_uint (space t p) = space t p" "distinct ps"
    "sum_list (map (space t) (gone t ps)) \<le> current_size t"
  shows "\<exists>t1. for_each_entry f t (map Some ps) = (t1, map (\<lambda>p. if C (entry_at t p) then None else Some p) ps, Completed)
    \<and> swept ps t t1"
  using assms
proof (induction ps arbitrary: t)
  case Nil
  then show ?case by (simp add: swept_def gone_def restrict_map_def)
next
  case (Cons p ps)
  note p = Cons.prems(1) [THEN bspec, of p, simplified]
  show ?case
  proof (cases "C (entry_at t p)")
    case False
    then have g: "gone t (p # ps) = gone t ps" by (simp add: gone_def)
    obtain t1 where t1: "for_each_entry f t (map Some ps) =
        (t1, map (\<lambda>p. if C (entry_at t p) then None else Some p) ps, Completed)" "swept ps t t1"
      using Cons.IH [of t] Cons.prems g by auto
    then show ?thesis using False p keeps by (auto simp: swept_def g)
  next
    case True
    define t0 where "t0 = delete_entry (t\<lparr>disk := disk t - {ce_cachename (entry_at t p), ce_cachename (entry_at t p) @ CACHE_META},
        current_size := current_size t - space t p\<rparr>) p"
    have g: "gone t (p # ps) = p # gone t ps" using True by (simp add: gone_def)
    have le: "0 \<le> sum_list (map (space t) (gone t ps))"
      using Cons.prems(1) by (auto simp: gone_def intro!: sum_list_nonneg)
    have ft: "f t p = (t0, True, Completed)"
      using p True unread [of "entry_at t p"] Cons.prems(3) le
      by (simp add: deletes remove_and_delete_def remove_cache_entry_def t0_def g flip: space_def) (simp add: Let_def)
    have same: "entry_at t0 q = entry_at t q" "space t0 q = space t q" if "q \<in> set ps" for q
      using that Cons.prems(2) by (auto simp: t0_def delete_entry_def entry_at_def space_def)
    have gone0: "gone t0 ps = gone t ps" unfolding gone_def by (rule filter_cong) (simp_all add: same)
    have sum0: "map (space t0) (gone t ps) = map (space t) (gone t ps)"
      by (rule map_cong) (auto simp: gone_def same)
    have "\<forall>q \<in> set ps. adm (entry_at t0 q) \<and> 0 \<le> space t0 q \<and> to_uint (space t0 q) = space t0 q"
      using Cons.prems(1) same by simp
    moreover have "sum_list (map (space t0) (gone t0 ps)) \<le> current_size t0"
      unfolding gone0 sum0 using Cons.prems(3) by (simp add: g t0_def delete_entry_def)
    moreover have "distinct ps" using Cons.prems(2) by simp
    ultimately obtain t1 where "for_each_entry f t0 (map Some ps) =
        (t1, map (\<lambda>p. if C (entry_at t0 p) then None else Some p) ps, Completed)" "swept ps t0 t1"
      using Cons.IH [of t0] by blast
    moreover have "map (\<lambda>p. if C (entry_at t0 p) then None else Some p) ps = map (\<lambda>p. if C (entry_at t p) then None else Some p) ps"
      by (rule map_cong) (simp_all add: same)
    moreover have "swept (p # ps) t t1"
      using \<open>swept ps t0 t1\<close> unfolding swept_def gone0 sum0 g
      by (auto simp: t0_def delete_entry_def restrict_map_def fun_eq_iff)
    ultimately show ?thesis using True ft by simp
  qed
qed

text \<open>
  One slot: the invariant is kept, the entries that satisfy \<open>C\<close> leave the slot, and every entry that stays in the
  table is unchanged.
\<close>

definition slot_swept :: "int set \<Rightarrow> cache_table \<Rightarrow> cache_table \<Rightarrow> bool" where
  "slot_swept H t t1 \<longleftrightarrow> table_ok t1 \<and> block_size t1 = block_size t \<and> locked_entries t1 = locked_entries t \<and>
     (\<forall>h. ptrs t1 h = (if h \<in> H then filter (\<lambda>p. \<not> C (entry_at t p)) (ptrs t h) else ptrs t h)) \<and>
     (\<forall>h. \<forall>p \<in> set (ptrs t1 h). entry_at t1 p = entry_at t p)"

lemma sweep_slot_swept:
  assumes ok: "table_ok t" and adm: "\<forall>p \<in> set (ptrs t h). adm (entry_at t p)"
  shows "\<exists>t1. sweep_slot f t h = (t1, Completed) \<and> slot_swept {h} t t1"
  using table_ok_slot [OF ok, of h]
proof (cases rule: slot_cases)
  case none
  then show ?thesis using ok by (auto simp: sweep_slot_def slot_swept_def)
next
  case (some ps)
  let ?g = "gone t ps"
  have sp: "\<forall>p \<in> set ps. adm (entry_at t p) \<and> 0 \<le> space t p \<and> to_uint (space t p) = space t p"
    using adm some(2) space_ok [OF ok, of _ h] by auto
  have nonneg: "0 \<le> sum_list (map (space t) (ptrs t k))" for k
    using space_ok(1) [OF ok] by (auto intro!: sum_list_nonneg)
  have split: "sum_list (map (space t) ps) = sum_list (map (space t) ?g) +
      sum_list (map (space t) (filter (\<lambda>p. \<not> C (entry_at t p)) ps))"
    unfolding gone_def by (induction ps) auto
  have rest: "0 \<le> sum_list (map (space t) (filter (\<lambda>p. \<not> C (entry_at t p)) ps))"
    using sp by (auto intro!: sum_list_nonneg)
  define others where "others = (\<Sum>k\<in>{0..<CACHE_TABLE_SIZE} - {h}. sum_list (map (space t) (ptrs t k)))"
  have used: "used_space t = sum_list (map (space t) ps) + others"
    using some(2,4,5) by (simp add: used_space_def others_def sum.remove [of _ h])
  have "0 \<le> others" unfolding others_def using nonneg by (intro sum_nonneg) auto
  then have "sum_list (map (space t) ?g) \<le> current_size t"
    using ok used split rest by (simp add: table_ok_def)
  then obtain t1 where t1: "for_each_entry f t (map Some ps) =
      (t1, map (\<lambda>p. if C (entry_at t p) then None else Some p) ps, Completed)" "swept ps t t1"
    using for_each_swept [OF sp some(3)] by auto
  let ?kept = "filter (\<lambda>p. \<not> C (entry_at t p)) ps"
  define t2 where "t2 = t1\<lparr>slots := (slots t1)(h := Some (map Some ?kept))\<rparr>"
  have erase: "filter (\<lambda>q. q \<noteq> None) (map (\<lambda>p. if C (entry_at t p) then None else Some p) ps) = map Some ?kept"
    by (induction ps) auto
  have run: "sweep_slot f t h = (t2, Completed)"
    using some(1) t1(1) erase by (simp add: sweep_slot_def t2_def)
  have s: "slots t1 = slots t" "block_size t1 = block_size t" "heap t1 = heap t |` (- set ?g)"
    "current_size t1 = current_size t - sum_list (map (space t) ?g)" "locked_entries t1 = locked_entries t"
    using t1(2) by (auto simp: swept_def)
  have ptrs2: "ptrs t2 k = (if k = h then ?kept else ptrs t k)" for k
    by (simp add: ptrs_def t2_def s)
  have live: "heap t2 p = heap t p" if "p \<in> set (ptrs t2 k)" for p k
  proof -
    have "p \<notin> set ?g"
    proof (cases "k = h")
      case True
      then show ?thesis using that by (auto simp: ptrs2 gone_def)
    next
      case False
      then have "ce_hash (entry_at t p) = k" using that table_ok_ptrs(2) [OF ok, of p k] by (simp add: ptrs2)
      then show ?thesis using some(6) False by (auto simp: gone_def)
    qed
    then show ?thesis by (simp add: t2_def s)
  qed
  then have same: "entry_at t2 p = entry_at t p" "space t2 p = space t p" if "p \<in> set (ptrs t2 k)" for p k
    using live [OF that] by (simp_all add: entry_at_def space_def) (simp add: t2_def s)
  have bs: "block_size t2 = block_size t" by (simp add: t2_def s)
  have slot2: "slot_ok t2 k" for k
  proof (cases "k = h")
    case True
    have "\<forall>p \<in> set ?kept. heap t2 p \<noteq> None \<and> ce_hash (entry_at t2 p) = h \<and> size_fits t2 (entry_at t2 p)"
      using some(6) live [of _ h] same(1) [of _ h] by (auto simp: ptrs2 size_fits_def bs)
    moreover have "slots t2 k = Some (map Some ?kept)" using True by (simp add: t2_def)
    moreover have "distinct ?kept" using some(3) by simp
    ultimately show ?thesis
      using some(4,5) True by (auto simp: slot_ok_def)
  next
    case False
    then have k: "slots t2 k = slots t k" by (simp add: t2_def s)
    have pk: "ptrs t2 k = ptrs t k" using False by (simp add: ptrs2)
    from table_ok_slot [OF ok, of k] show ?thesis
    proof (cases rule: slot_cases)
      case none
      then show ?thesis using k by (simp add: slot_ok_def)
    next
      case (some qs)
      have "\<forall>p \<in> set qs. heap t2 p \<noteq> None \<and> ce_hash (entry_at t2 p) = k \<and> size_fits t2 (entry_at t2 p)"
        using some(2,6) live [of _ k] same(1) [of _ k] by (auto simp: pk size_fits_def bs)
      then show ?thesis using some by (auto simp: slot_ok_def k)
    qed
  qed
  have "sum_list (map (space t2) (ptrs t2 k)) = sum_list (map (space t) (ptrs t2 k))" for k
    by (rule arg_cong [of _ _ sum_list], rule map_cong) (auto intro: same)
  then have "used_space t2 = sum_list (map (space t) ?kept) + others"
    using some(4,5) by (simp add: used_space_def others_def sum.remove [of _ h] ptrs2)
  moreover have "current_size t2 = current_size t - sum_list (map (space t) ?g)" by (simp add: t2_def s)
  ultimately have "table_ok t2"
    using slot2 ok used split by (simp add: table_ok_def) (simp add: t2_def s)
  then have "slot_swept {h} t t2"
    using same(1) some(2) by (auto simp: slot_swept_def ptrs2) (simp_all add: t2_def s)
  then show ?thesis using run by blast
qed

lemma slot_swept_trans:
  assumes "slot_swept H t t1" "slot_swept K t1 t2"
  shows "slot_swept (H \<union> K) t t2"
proof -
  have p1: "ptrs t1 h = (if h \<in> H then filter (\<lambda>p. \<not> C (entry_at t p)) (ptrs t h) else ptrs t h)" for h
    using assms(1) by (simp add: slot_swept_def)
  have p2: "ptrs t2 h = (if h \<in> K then filter (\<lambda>p. \<not> C (entry_at t1 p)) (ptrs t1 h) else ptrs t1 h)" for h
    using assms(2) by (simp add: slot_swept_def)
  have e1: "entry_at t1 p = entry_at t p" if "p \<in> set (ptrs t1 h)" for p h
    using assms(1) that by (auto simp: slot_swept_def)
  have e2: "entry_at t2 p = entry_at t1 p" if "p \<in> set (ptrs t2 h)" for p h
    using assms(2) that by (auto simp: slot_swept_def)
  have sub: "set (ptrs t2 h) \<subseteq> set (ptrs t1 h)" for h by (simp add: p2)
  have "ptrs t2 h = (if h \<in> H \<union> K then filter (\<lambda>p. \<not> C (entry_at t p)) (ptrs t h) else ptrs t h)" for h
  proof -
    have "filter (\<lambda>p. \<not> C (entry_at t1 p)) (ptrs t1 h) = filter (\<lambda>p. \<not> C (entry_at t p)) (ptrs t1 h)"
      by (rule filter_cong) (simp_all add: e1)
    then have "ptrs t2 h = (if h \<in> K then filter (\<lambda>p. \<not> C (entry_at t p)) (ptrs t1 h) else ptrs t1 h)"
      using p2 [of h] by argo
    then show ?thesis by (cases "h \<in> H"; cases "h \<in> K"; simp add: p1)
  qed
  moreover have "\<forall>h. \<forall>p \<in> set (ptrs t2 h). entry_at t2 p = entry_at t p"
    using e1 e2 sub by (metis subsetD)
  moreover have "table_ok t2" "block_size t2 = block_size t" "locked_entries t2 = locked_entries t"
    using assms unfolding slot_swept_def by argo+
  ultimately show ?thesis unfolding slot_swept_def by blast
qed

lemma slots_swept:
  assumes "table_ok t" "\<forall>h \<in> set hs. \<forall>p \<in> set (ptrs t h). adm (entry_at t p)"
  shows "\<exists>t1. foldl (\<lambda>(t, r) h. if r = Completed then sweep_slot f t h else (t, r)) (t, Completed) hs = (t1, Completed)
    \<and> slot_swept (set hs) t t1"
  using assms
proof (induction hs arbitrary: t)
  case Nil
  then show ?case by (simp add: slot_swept_def)
next
  case (Cons h hs)
  obtain t0 where t0: "sweep_slot f t h = (t0, Completed)" "slot_swept {h} t t0"
    using sweep_slot_swept [OF Cons.prems(1), of h] Cons.prems(2) by auto
  have "\<forall>k \<in> set hs. \<forall>p \<in> set (ptrs t0 k). adm (entry_at t0 p)"
    using t0(2) Cons.prems(2) by (auto simp: slot_swept_def split: if_splits)
  moreover have "table_ok t0" using t0(2) by (simp add: slot_swept_def)
  ultimately obtain t1 where "foldl (\<lambda>(t, r) h. if r = Completed then sweep_slot f t h else (t, r)) (t0, Completed) hs = (t1, Completed)"
    "slot_swept (set hs) t0 t1" using Cons.IH by blast
  then show ?case
    using t0 slot_swept_trans [OF t0(2), of "set hs" t1] by simp
qed

lemma table_swept:
  assumes "table_ok t" "\<forall>h. \<forall>p \<in> set (ptrs t h). adm (entry_at t p)"
  shows "\<exists>t1. sweep_table f t = (t1, Completed) \<and> slot_swept UNIV t t1"
proof -
  obtain t1 where t1: "sweep_table f t = (t1, Completed)" "slot_swept {0..CACHE_TABLE_SIZE - 1} t t1"
    using slots_swept [OF assms(1), of "upto 0 (CACHE_TABLE_SIZE - 1)"] assms(2) by (auto simp: sweep_table_def)
  have "ptrs t h = []" if "h \<notin> {0..CACHE_TABLE_SIZE - 1}" for h
    using table_ok_slot [OF assms(1), of h] that by (auto elim!: slot_cases)
  then have "slot_swept UNIV t t1" using t1(2) by (auto simp: slot_swept_def)
  then show ?thesis using t1(1) by blast
qed

end

definition expired :: "int \<Rightarrow> int \<Rightarrow> cache_entry \<Rightarrow> bool" where
  "expired now time e \<longleftrightarrow>
     ce_freshness_lifetime e < ce_corrected_initial_age e + ((if time = 0 then now else time) - ce_response_time e)"

definition unlocked :: "cache_entry \<Rightarrow> bool" where
  "unlocked e \<longleftrightarrow> ce_readers e = 0 \<and> \<not> ce_response_lock e \<and> \<not> ce_write_lock e"

interpretation expired_gc: collector "DeleteExpired now time" "\<lambda>e. ce_readers e = 0 \<and> expired now time e" "\<lambda>_. True"
  for now time by unfold_locales (auto simp: DeleteExpired_def expired_def Let_def)

interpretation hits_gc: collector "DeleteByHits hits" "\<lambda>e. ce_readers e = 0 \<and> ce_hits e \<le> hits" "\<lambda>_. True"
  for hits by unfold_locales (auto simp: DeleteByHits_def Let_def)

interpretation size_gc: collector "DeleteBySize sz" "\<lambda>e. ce_readers e = 0 \<and> sz < ce_size e" "\<lambda>_. True"
  for sz by unfold_locales (auto simp: DeleteBySize_def Let_def)

interpretation purge: collector DeleteUnlockedCacheEntry "\<lambda>_. True" "\<lambda>e. ce_readers e = 0"
  by unfold_locales (auto simp: DeleteUnlockedCacheEntry_def)

interpretation by_url: collector "DeleteCacheEntry url" "\<lambda>e. ce_url e = url" "\<lambda>e. ce_url e = url \<longrightarrow> unlocked e"
  for url
proof unfold_locales
  fix t p
  assume "ce_url (entry_at t p) = url \<longrightarrow> unlocked (entry_at t p)" "ce_url (entry_at t p) = url"
  then show "DeleteCacheEntry url t p = remove_and_delete t p"
    by (auto simp: DeleteCacheEntry_def remove_and_delete_def lock_write_response_def unlocked_def remove_cache_entry_def
        put_entry_def entry_at_def delete_entry_def Let_def)
qed (auto simp: DeleteCacheEntry_def unlocked_def)

lemma find_in_slot_ptrs:
  assumes "table_ok t"
  shows "find_in_slot t h url = find (\<lambda>p. ce_url (entry_at t p) = url) (ptrs t h)"
  using table_ok_slot [OF assms, of h]
proof (cases rule: slot_cases)
  case (some ps)
  have "find (matches t url) (map Some qs) = map_option Some (find (\<lambda>p. ce_url (entry_at t p) = url) qs)" for qs
    by (induction qs) (simp_all add: matches_def)
  then show ?thesis using some(1,2) by (simp add: find_in_slot_def split: option.split)
qed (simp add: find_in_slot_def)

section \<open>Properties of the table\<close>

text \<open>Adding the entry made for a URL: the hash of every URL is a slot of the table, so the bounds check never fails;
  the entry goes to the end of its slot, nothing else moves, the disk space is accounted, and a
  lookup of the URL finds it when the URL was not there before.\<close>

lemma add_entry_spec:
  assumes "table_ok t" "heap t p = Some e" "ce_hash e = get_hash (ce_url e)" "\<forall>h. p \<notin> set (ptrs t h)" "size_fits t e"
    "used_space t + entry_disk_space (ce_size e) (block_size t) < 2 ^ 64"
  shows "\<exists>t1. add_entry_to_cache_table t p = (t1, Completed) \<and> table_ok t1 \<and>
    (\<forall>h. ptrs t1 h = ptrs t h @ (if h = get_hash (ce_url e) then [p] else [])) \<and>
    (find_in_slot t (get_hash (ce_url e)) (ce_url e) = None \<longrightarrow>
       find_in_slot t1 (get_hash (ce_url e)) (ce_url e) = Some p)"
proof -
  define h where "h = get_hash (ce_url e)"
  define t1 where "t1 = fst (add_entry_to_cache_table t p)"
  have e: "entry_at t p = e" using assms(2) by (simp add: entry_at_def)
  have h: "0 \<le> h" "h < CACHE_TABLE_SIZE" using get_hash_bounds by (simp_all add: h_def)
  have b: "0 < block_size t" using assms(1) by (simp add: table_ok_def)
  have pos: "0 \<le> entry_disk_space (ce_size e) (block_size t)"
    using assms(5) b by (intro entry_disk_space_eq(2)) (auto simp: size_fits_def)
  have used0: "0 \<le> used_space t"
    unfolding used_space_def using space_ok(1) [OF assms(1)] by (intro sum_nonneg sum_list_nonneg) auto
  have run: "add_entry_to_cache_table t p = (t1, Completed)"
    and t1: "slots t1 = (slots t)(h := Some ((case slots t h of None \<Rightarrow> [] | Some ps \<Rightarrow> ps) @ [Some p]))"
      "heap t1 = heap t" "block_size t1 = block_size t"
      "current_size t1 = current_size t + entry_disk_space (ce_size e) (block_size t)"
    using assms(1,3,6) h pos used0 e
    by (simp_all add: t1_def add_entry_to_cache_table_def Let_def h_def [symmetric] table_ok_def)
  have same: "entry_at t1 = entry_at t" "space t1 = space t" by (auto simp: entry_at_def space_def t1(2,3) fun_eq_iff)
  have ptrs1: "ptrs t1 k = ptrs t k @ (if k = h then [p] else [])" for k
    by (auto simp: ptrs_def t1(1) List.map_filter_def split: option.split)
  have slot1: "slot_ok t1 k" for k
    using table_ok_slot [OF assms(1), of k]
  proof (cases rule: slot_cases)
    case none
    then show ?thesis
      using assms(2,3,5) h e by (auto simp: slot_ok_def t1 same size_fits_def h_def intro: exI [of _ "[p]"])
  next
    case (some ps)
    have s1: "slots t1 k = Some (map Some (ps @ (if k = h then [p] else [])))" using some(1) by (cases "k = h") (simp_all add: t1)
    have "distinct (ps @ (if k = h then [p] else []))" using some(2,3) assms(4) by auto
    moreover have "\<forall>q \<in> set (ps @ (if k = h then [p] else [])).
        heap t1 q \<noteq> None \<and> ce_hash (entry_at t1 q) = k \<and> size_fits t1 (entry_at t1 q)"
      using some(6) assms(2,3,5) e by (auto simp: t1(2,3) same size_fits_def h_def)
    ultimately show ?thesis using some(4,5) s1 by (auto simp: slot_ok_def simp del: map_append)
  qed
  have "used_space t1 = used_space t + entry_disk_space (ce_size e) (block_size t)"
    using h e by (simp add: used_space_def same ptrs1 sum.remove [of _ h] space_def)
  then have "table_ok t1" using slot1 assms(1) t1 by (simp add: table_ok_def)
  then show ?thesis
    using run ptrs1 find_in_slot_ptrs [OF assms(1), of h "ce_url e"] find_in_slot_ptrs [of t1 h "ce_url e"] e
    by (auto simp: h_def [symmetric] same find_append split: option.splits)
qed

text \<open>C9: Garbage collection by age deletes exactly the expired entries that nobody reads: it
  always completes, every slot keeps the other entries in their order and unchanged, and the
  accounted size is again the space of the entries that are left.\<close>

theorem delete_expired_entries_exact:
  assumes "table_ok t"
  shows "\<exists>t1. delete_expired_entries now time t = (t1, Completed) \<and> table_ok t1 \<and>
    (\<forall>h. ptrs t1 h = filter (\<lambda>p. \<not> (ce_readers (entry_at t p) = 0 \<and> expired now time (entry_at t p))) (ptrs t h)) \<and>
    (\<forall>h. \<forall>p \<in> set (ptrs t1 h). entry_at t1 p = entry_at t p)"
  using expired_gc.table_swept [OF assms, of now time]
  by (auto simp: delete_expired_entries_def expired_gc.slot_swept_def)

text \<open>C33: The collector by use deletes exactly the unread entries with at most the given
  number of hits, whatever their size (the comment of \<open>DeleteByHits\<close> promises to delete entries larger than the maximum
  size of an entry as well, which the code does not do), and the collector by size exactly the unread entries that are larger than the
  given size; both complete, and the accounting stays right.\<close>

theorem delete_by_hits_and_size_exact:
  assumes "table_ok t"
  shows "\<exists>t1 t2. delete_by_hits hits t = (t1, Completed) \<and> delete_by_size sz t = (t2, Completed) \<and> table_ok t1 \<and> table_ok t2 \<and>
    (\<forall>h. ptrs t1 h = filter (\<lambda>p. \<not> (ce_readers (entry_at t p) = 0 \<and> ce_hits (entry_at t p) \<le> hits)) (ptrs t h)) \<and>
    (\<forall>h. ptrs t2 h = filter (\<lambda>p. \<not> (ce_readers (entry_at t p) = 0 \<and> sz < ce_size (entry_at t p))) (ptrs t h))"
  using hits_gc.table_swept [OF assms, of hits] size_gc.table_swept [OF assms, of sz]
  by (auto simp: delete_by_hits_def delete_by_size_def hits_gc.slot_swept_def size_gc.slot_swept_def)

text \<open>C31: Removing a URL nobody holds: afterwards the URL is not found, every other URL is found as before,
  and the accounting is right.\<close>

theorem remove_entry_spec:
  assumes "table_ok t" "\<forall>p \<in> set (ptrs t (get_hash url)). ce_url (entry_at t p) = url \<longrightarrow> unlocked (entry_at t p)"
  shows "\<exists>t1. remove_entry_from_cache_table t url = (t1, Completed) \<and> table_ok t1 \<and>
    find_in_slot t1 (get_hash url) url = None \<and>
    (\<forall>u. u \<noteq> url \<longrightarrow> find_in_slot t1 (get_hash u) u = find_in_slot t (get_hash u) u)"
proof -
  obtain t1 where t1: "sweep_slot (DeleteCacheEntry url) t (get_hash url) = (t1, Completed)"
    "by_url.slot_swept url {get_hash url} t t1"
    using by_url.sweep_slot_swept [OF assms] by blast
  then have ok1: "table_ok t1" by (simp add: by_url.slot_swept_def)
  have ptrs1: "ptrs t1 h = (if h = get_hash url then filter (\<lambda>p. ce_url (entry_at t p) \<noteq> url) (ptrs t h) else ptrs t h)" for h
    using t1(2) by (simp add: by_url.slot_swept_def)
  have same: "entry_at t1 p = entry_at t p" if "p \<in> set (ptrs t1 h)" for p h
    using t1(2) that by (auto simp: by_url.slot_swept_def)
  have find1: "find_in_slot t1 h u = find (\<lambda>p. ce_url (entry_at t p) = u) (ptrs t1 h)" for h u
    unfolding find_in_slot_ptrs [OF ok1] by (rule find_cong) (simp_all add: same)
  have filter_find: "find (\<lambda>p. ce_url (entry_at t p) = u) (filter (\<lambda>p. ce_url (entry_at t p) \<noteq> url) ps) =
      (if u = url then None else find (\<lambda>p. ce_url (entry_at t p) = u) ps)" for u ps
    by (induction ps) auto
  show ?thesis
    using t1(1) ok1 by (simp add: remove_entry_from_cache_table_def find1 ptrs1 filter_find find_in_slot_ptrs [OF assms(1)])
qed

text \<open>Removing a URL whose entry is locked does not throw, as the comment of the function says, but
  blocks the calling thread: the functor waits for the entry's mutex before \<open>remove_cache_entry\<close> looks
  at the number of readers.\<close>

lemma remove_locked_entry_blocks:
  assumes "table_ok t" "find_in_slot t (get_hash url) url = Some p" "ce_response_lock (entry_at t p)"
  shows "snd (remove_entry_from_cache_table t url) = Blocked"
proof -
  have scan: "snd (snd (for_each_entry (DeleteCacheEntry url) t (map Some ps))) = Blocked"
    if "find (\<lambda>q. ce_url (entry_at t q) = url) ps = Some p" for ps
    using that
  proof (induction ps)
    case (Cons q ps)
    then show ?case
    proof (cases "ce_url (entry_at t q) = url")
      case True
      then have "q = p" using Cons.prems by simp
      then show ?thesis using True assms(3) by (simp add: DeleteCacheEntry_def lock_write_response_def)
    next
      case False
      then show ?thesis using Cons by (simp add: DeleteCacheEntry_def case_prod_beta)
    qed
  qed simp
  have found: "find (\<lambda>q. ce_url (entry_at t q) = url) (ptrs t (get_hash url)) = Some p"
    using assms(2) find_in_slot_ptrs [OF assms(1)] by simp
  from table_ok_slot [OF assms(1), of "get_hash url"] show ?thesis
  proof (cases rule: slot_cases)
    case (some ps)
    then show ?thesis
      using scan [of ps] found by (simp add: remove_entry_from_cache_table_def sweep_slot_def case_prod_beta)
  qed (use found in simp)
qed

text \<open>Releasing a response the table does not know: the function throws, and the lookup has inserted a null
  entry, so from then on the table claims that responses are locked, however the other responses are released.\<close>

lemma uncouple_unknown_response:
  assumes "map_of (locked_entries t) fp = None"
  shows "\<exists>t1. uncouple_entry_from_data t fp = (t1, Threw (InternalErr ''There is no cache entry for the response given.'')) \<and>
    is_locked_read_responses t1 \<and>
    (\<forall>fps. fp \<notin> set fps \<longrightarrow> is_locked_read_responses (foldl (\<lambda>t f. fst (uncouple_entry_from_data t f)) t1 fps))"
proof -
  define t1 where "t1 = t\<lparr>locked_entries := AList.update fp None (locked_entries t)\<rparr>"
  have run: "uncouple_entry_from_data t fp = (t1, Threw (InternalErr ''There is no cache entry for the response given.''))"
    using assms by (simp add: uncouple_entry_from_data_def t1_def)
  have keep: "map_of (locked_entries (fst (uncouple_entry_from_data t2 f))) fp = map_of (locked_entries t2) fp"
    if "f \<noteq> fp" for t2 f
    using that
    by (auto simp: uncouple_entry_from_data_def Let_def put_entry_def update_conv' delete_conv' split: option.split)
  have all: "map_of (locked_entries (foldl (\<lambda>t f. fst (uncouple_entry_from_data t f)) t1 fps)) fp = Some None"
    if "fp \<notin> set fps" for fps
    using that
  proof (induction fps rule: rev_induct)
    case Nil
    then show ?case by (simp add: t1_def update_conv')
  next
    case (snoc f fps)
    then show ?case by (simp add: keep)
  qed
  have "is_locked_read_responses (foldl (\<lambda>t f. fst (uncouple_entry_from_data t f)) t1 fps)" if "fp \<notin> set fps" for fps
    using all [OF that] by (auto simp: is_locked_read_responses_def)
  from this [of "[]"] this run show ?thesis by auto
qed

section \<open>The locks of an entry\<close>

text \<open>
  Several threads working on one entry.  A reader that finds the entry locked waits for the write mutex
  (\<open>waiting\<close> counts them) and then counts itself in, which is what the second half of
  \<open>lock_read_response\<close> does; a writer takes the two mutexes one after the other.
\<close>

record lock_state =
  ls_entry :: cache_entry
  ls_waiting :: nat
  ls_writer_half :: bool

inductive lock_step :: "lock_state \<Rightarrow> lock_state \<Rightarrow> bool" where
  read_now: "\<not> ce_response_lock (ls_entry s) \<Longrightarrow>
     lock_step s (s\<lparr>ls_entry := (ls_entry s)\<lparr>ce_response_lock := True, ce_readers := ce_readers (ls_entry s) + 1\<rparr>\<rparr>)"
| read_wait: "ce_response_lock (ls_entry s) \<Longrightarrow> lock_step s (s\<lparr>ls_waiting := ls_waiting s + 1\<rparr>)"
| read_wake: "0 < ls_waiting s \<Longrightarrow> \<not> ce_write_lock (ls_entry s) \<Longrightarrow>
     lock_step s (s\<lparr>ls_waiting := ls_waiting s - 1, ls_entry := (ls_entry s)\<lparr>ce_readers := ce_readers (ls_entry s) + 1\<rparr>\<rparr>)"
| read_done: "0 < ce_readers (ls_entry s) \<Longrightarrow> lock_step s (s\<lparr>ls_entry := unlock_read_response (ls_entry s)\<rparr>)"
| write_first: "\<not> ce_response_lock (ls_entry s) \<Longrightarrow> \<not> ls_writer_half s \<Longrightarrow>
     lock_step s (s\<lparr>ls_entry := (ls_entry s)\<lparr>ce_response_lock := True\<rparr>, ls_writer_half := True\<rparr>)"
| write_second: "ls_writer_half s \<Longrightarrow> \<not> ce_write_lock (ls_entry s) \<Longrightarrow>
     lock_step s (s\<lparr>ls_entry := (ls_entry s)\<lparr>ce_write_lock := True\<rparr>, ls_writer_half := False\<rparr>)"
| write_done: "ce_write_lock (ls_entry s) \<Longrightarrow> lock_step s (s\<lparr>ls_entry := unlock_write_response (ls_entry s)\<rparr>)"

inductive_cases lock_step_cases: "lock_step s s'"

definition initial_lock :: "string \<Rightarrow> lock_state" where
  "initial_lock url = \<lparr>ls_entry = new_entry url, ls_waiting = 0, ls_writer_half = False\<rparr>"

text \<open>A thread that writes and a thread that reads at the same time.\<close>

definition clash :: "lock_state \<Rightarrow> bool" where
  "clash s \<longleftrightarrow> ce_write_lock (ls_entry s) \<and> 0 < ce_readers (ls_entry s)"

text \<open>The locks do not keep readers and writers apart when threads interleave: from a new
  entry a state is reachable in which one thread writes while another reads.  A reader that found the entry locked counts
  itself in after the wait without taking the response mutex, which may have been released meanwhile.\<close>

lemma lock_protocol_clash:
  "\<exists>s. lock_step\<^sup>*\<^sup>* (initial_lock url) s \<and> clash s"
proof -
  let ?e = "new_entry url"
  define s1 where "s1 = \<lparr>ls_entry = ?e\<lparr>ce_response_lock := True, ce_readers := 1\<rparr>, ls_waiting = 0, ls_writer_half = False\<rparr>"
  define s2 where "s2 = s1\<lparr>ls_waiting := 1\<rparr>"
  define s3 where "s3 = s2\<lparr>ls_entry := ?e\<rparr>"
  define s4 where "s4 = s3\<lparr>ls_waiting := 0, ls_entry := ?e\<lparr>ce_readers := 1\<rparr>\<rparr>"
  define s5 where "s5 = s4\<lparr>ls_entry := ?e\<lparr>ce_readers := 1, ce_response_lock := True\<rparr>, ls_writer_half := True\<rparr>"
  define s6 where "s6 = s5\<lparr>ls_entry := ?e\<lparr>ce_readers := 1, ce_response_lock := True, ce_write_lock := True\<rparr>, ls_writer_half := False\<rparr>"
  note s = s1_def s2_def s3_def s4_def s5_def s6_def initial_lock_def new_entry_def empty_entry_def
  have "lock_step (initial_lock url) s1" using read_now [of "initial_lock url"] by (simp add: s)
  moreover have "lock_step s1 s2" using read_wait [of s1] by (simp add: s)
  moreover have "lock_step s2 s3" using read_done [of s2] by (simp add: s unlock_read_response_def)
  moreover have "lock_step s3 s4" using read_wake [of s3] by (simp add: s)
  moreover have "lock_step s4 s5" using write_first [of s4] by (simp add: s)
  moreover have "lock_step s5 s6" using write_second [of s5] by (simp add: s)
  ultimately have "lock_step\<^sup>*\<^sup>* (initial_lock url) s6"
    by (meson converse_rtranclp_into_rtranclp rtranclp.rtrancl_refl)
  moreover have "clash s6" by (simp add: clash_def s6_def s5_def)
  ultimately show ?thesis by blast
qed

text \<open>
  Used one operation at a time, as under the mutex of the cache, the locks do their work.  A serial step is one whole
  operation that does not block.
\<close>

inductive serial_step :: "cache_entry \<Rightarrow> cache_entry \<Rightarrow> bool" where
  "lock_read_response e = (e', Completed) \<Longrightarrow> serial_step e e'"
| "0 < ce_readers e \<Longrightarrow> serial_step e (unlock_read_response e)"
| "lock_write_response e = (e', Completed) \<Longrightarrow> serial_step e e'"
| "ce_write_lock e \<Longrightarrow> serial_step e (unlock_write_response e)"

inductive_cases serial_step_cases: "serial_step e e'"

definition lock_inv :: "cache_entry \<Rightarrow> bool" where
  "lock_inv e \<longleftrightarrow> 0 \<le> ce_readers e \<and> \<not> (ce_write_lock e \<and> 0 < ce_readers e) \<and>
     (ce_response_lock e \<longleftrightarrow> 0 < ce_readers e \<or> ce_write_lock e)"

lemma serial_step_inv: "serial_step e e' \<Longrightarrow> lock_inv e \<Longrightarrow> lock_inv e'"
  by (erule serial_step_cases)
    (auto simp: lock_inv_def lock_read_response_def unlock_read_response_def lock_write_response_def
      unlock_write_response_def Let_def split: if_splits)

text \<open>C35: Used one operation at a time, the locks keep readers and writers apart: in every
  state an entry can reach, a writer holds it alone, the response mutex is held exactly while somebody
  reads or writes, and an entry without readers and writer can be locked for writing.\<close>

theorem serial_locking_is_safe:
  assumes "serial_step\<^sup>*\<^sup>* (new_entry url) e"
  shows "lock_inv e \<and> (ce_readers e = 0 \<and> \<not> ce_write_lock e \<longrightarrow> snd (lock_write_response e) = Completed)"
proof -
  have "lock_inv e"
    using assms
  proof (induction rule: rtranclp_induct)
    case base
    show ?case by (simp add: lock_inv_def new_entry_def empty_entry_def)
  next
    case (step e1 e2)
    then show ?case by (blast intro: serial_step_inv)
  qed
  then show ?thesis by (auto simp: lock_inv_def lock_write_response_def)
qed

section \<open>Headers with a number of seconds\<close>

lemma show_nat_short: "n < 10 ^ 15 \<Longrightarrow> length (show_nat n) \<le> 15"
proof -
  have "n < 10 ^ Suc k \<Longrightarrow> length (show_nat n) \<le> Suc k" for k
  proof (induction k arbitrary: n)
    case 0
    then show ?case by (subst show_nat.simps) simp
  next
    case (Suc k)
    then have "n div 10 < 10 ^ Suc k" by (simp add: div_less_iff_less_mult)
    then show ?case using Suc.IH [of "n div 10"] by (subst show_nat.simps) simp
  qed
  from this [of 14] show "n < 10 ^ 15 \<Longrightarrow> length (show_nat n) \<le> 15" by simp
qed

lemma decimal_chars:
  assumes "decimal s" "c \<in> set s"
  shows "is_digit c" "c \<notin> set '',-+:/ T''" "c \<noteq> NUL"
proof -
  obtain n where "n < 10" "c = digit n" using assms by (auto simp: decimal_def)
  then show "is_digit c" "c \<notin> set '',-+:/ T''" "c \<noteq> NUL" using digit_facts [of n] by simp_all
qed

lemma c_str_id: "NUL \<notin> set s \<Longrightarrow> c_str s = s"
  by (auto simp: c_str_def takeWhile_eq_all_conv)

lemma show_nat_chars: "CHR '','' \<notin> set (show_nat n)" "CHR ''T'' \<notin> set (show_nat n)" "NUL \<notin> set (show_nat n)"
  using decimal_chars(2) [OF decimal_show_nat, of "CHR '',''" n] decimal_chars(2) [OF decimal_show_nat, of "CHR ''T''" n]
    decimal_chars(3) [OF decimal_show_nat, of NUL n] by auto

lemma parse_time_max_age:
  assumes "n < 10 ^ 15"
  shows "parse_time now (''max-age='' @ show_nat n) True = Some 0"
  using show_nat_short [OF assms] show_nat_chars [of n]
  by (simp add: parse_time_def is_digit_def parse_ctime_def skip_blanks_def tm_time_def)

lemma parse_time_seconds: "n < 2 ^ 63 \<Longrightarrow> parse_time now (show_nat n) True = Some (now + int n)"
proof -
  assume n: "n < 2 ^ 63"
  obtain c s where s: "show_nat n = c # s" by (cases "show_nat n") (use decimal_show_nat [of n] in \<open>auto simp: decimal_def\<close>)
  then have "is_digit c" using decimal_chars(1) [OF decimal_show_nat, of c n] by simp
  moreover have "fst (strtol 10 (show_nat n)) = int n"
    using strto_decimal [OF decimal_show_nat, of "[]" "[]" n] n by (simp add: strtol_def clamp_long_def)
  ultimately show ?thesis using show_nat_chars [of n] by (simp add: parse_time_def s)
qed

text \<open>Headers that give a number of seconds are misread.  \<open>Cache-Control: max-age=N\<close> sets the maximum age to 0 whatever
  the number is (the whole value is parsed as a date), so the response counts as stale at once; and \<open>Age: N\<close> is stored as
  the current time plus the number.\<close>

lemma delta_seconds_headers:
  assumes "n < 10 ^ 15"
  shows "parse_header now m e (''Cache-Control: max-age='' @ show_nat n) = Some (e\<lparr>ce_max_age := 0\<rparr>) \<and>
    ce_freshness_lifetime (calculate_time now (e\<lparr>ce_max_age := 0\<rparr>) d r) = 0 \<and>
    parse_header now m e (''Age: '' @ show_nat n) = Some (e\<lparr>ce_age := now + int n\<rparr>)"
proof (intro conjI)
  have "c_str (''max-age='' @ show_nat n) = ''max-age='' @ show_nat n" using show_nat_chars by (intro c_str_id) simp
  then show "parse_header now m e (''Cache-Control: max-age='' @ show_nat n) = Some (e\<lparr>ce_max_age := 0\<rparr>)"
    using parse_time_max_age [OF assms, of now]
    by (simp add: parse_header_def header_name_def header_value_def starts_with_def set_time_def)
  show "ce_freshness_lifetime (calculate_time now (e\<lparr>ce_max_age := 0\<rparr>) d r) = 0"
    by (simp add: calculate_time_def)
  have "c_str (show_nat n) = show_nat n" using show_nat_chars by (intro c_str_id) simp
  moreover have "parse_time now (show_nat n) True = Some (now + int n)"
    using assms by (intro parse_time_seconds) simp
  ultimately show "parse_header now m e (''Age: '' @ show_nat n) = Some (e\<lparr>ce_age := now + int n\<rparr>)"
    by (simp add: parse_header_def header_name_def header_value_def starts_with_def set_time_def)
qed

section \<open>The index file: round trip\<close>

text \<open>A word of the index: not empty, without white space and NUL.\<close>

definition word_ok :: "string \<Rightarrow> bool" where
  "word_ok s \<longleftrightarrow> s \<noteq> [] \<and> (\<forall>c \<in> set s. \<not> is_space c \<and> c \<noteq> NUL)"

definition long_ok :: "int \<Rightarrow> bool" where
  "long_ok v \<longleftrightarrow> - (2 ^ 63) \<le> v \<and> v < 2 ^ 63"

definition int_ok :: "int \<Rightarrow> bool" where
  "int_ok v \<longleftrightarrow> - (2 ^ 31) \<le> v \<and> v < 2 ^ 31"

definition saveable :: "cache_entry \<Rightarrow> bool" where
  "saveable e \<longleftrightarrow> word_ok (ce_url e) \<and> word_ok (ce_cachename e) \<and>
     (ce_etag e = [] \<or> word_ok (ce_etag e) \<and> ce_etag e \<noteq> CACHE_EMPTY_ETAG) \<and>
     long_ok (ce_lm e) \<and> long_ok (ce_expires e) \<and> 0 \<le> ce_size e \<and> ce_size e < 2 ^ 64 \<and> int_ok (ce_hash e) \<and>
     int_ok (ce_hits e) \<and> long_ok (ce_freshness_lifetime e) \<and> long_ok (ce_response_time e) \<and>
     long_ok (ce_corrected_initial_age e)"

lemma word_c_str: "word_ok s \<Longrightarrow> c_str s = s"
  by (rule c_str_id) (auto simp: word_ok_def)

lemma get_word_step:
  assumes "word_ok w" "is_space c"
  shows "get_word old (w @ c # rest, False) = (w, c # rest, False)"
    "is_space d \<Longrightarrow> get_word old (d # w @ c # rest, False) = (w, c # rest, False)"
proof -
  have "dropWhile is_space (w @ c # rest) = w @ c # rest" using assms(1) by (cases w) (auto simp: word_ok_def)
  moreover have "takeWhile (\<lambda>c. \<not> is_space c) (w @ c # rest) = w" "dropWhile (\<lambda>c. \<not> is_space c) (w @ c # rest) = c # rest"
    using assms by (auto simp: word_ok_def takeWhile_append dropWhile_append2)
  ultimately show "get_word old (w @ c # rest, False) = (w, c # rest, False)"
    "is_space d \<Longrightarrow> get_word old (d # w @ c # rest, False) = (w, c # rest, False)"
    by (auto simp: get_word_def)
qed

lemma get_number_step:
  assumes "lo \<le> v" "v \<le> hi" "is_space c" "is_space d"
  shows "get_number lo hi old (d # show_int v @ c # rest, False) = (v, c # rest, False)"
proof -
  have dec: "decimal (show_nat n)" for n by simp
  have c: "\<not> digit_val c < 10" using assms(3) by (auto simp: is_space_def digit_val_def)
  have tw: "takeWhile (\<lambda>c. digit_val c < 10) (show_nat n @ c # rest) = show_nat n" for n
  proof -
    have "\<forall>x \<in> set (show_nat n). digit_val x < 10" using dec [of n] digit_facts unfolding decimal_def by fastforce
    then show ?thesis using c by (simp add: takeWhile_append)
  qed
  have ne: "show_nat n \<noteq> []" for n using dec [of n] by (auto simp: decimal_def)
  have hd: "\<not> is_space (hd (show_nat n)) \<and> hd (show_nat n) \<noteq> CHR ''-'' \<and> hd (show_nat n) \<noteq> CHR ''+''" for n
  proof -
    have "hd (show_nat n) \<in> set (show_nat n)" using ne by simp
    then obtain k where "k < 10" "hd (show_nat n) = digit k" using dec [of n] unfolding decimal_def by blast
    then show ?thesis using digit_facts [of k] by simp
  qed
  have minus: "\<not> is_space CHR ''-''" by (simp add: is_space_def)
  show ?thesis
  proof (cases "v < 0")
    case True
    then show ?thesis
      using assms tw [of "nat (- v)"] ne [of "nat (- v)"] minus by (simp add: get_number_def show_int_def)
  next
    case False
    have "dropWhile is_space (show_nat (nat v) @ c # rest) = show_nat (nat v) @ c # rest"
      using hd [of "nat v"] ne [of "nat v"] by (cases "show_nat (nat v)") auto
    then show ?thesis
      using assms tw [of "nat v"] ne [of "nat v"] hd [of "nat v"] False
      by (simp add: get_number_def show_int_def hd_append)
  qed
qed

lemma get_steps:
  assumes "is_space c" "is_space d"
  shows "long_ok v \<Longrightarrow> get_long old (d # show_int v @ c # rest, False) = (v, c # rest, False)"
    "int_ok v \<Longrightarrow> get_int old (d # show_int v @ c # rest, False) = (v, c # rest, False)"
    "0 \<le> v \<Longrightarrow> v < 2 ^ 64 \<Longrightarrow> get_ulong old (d # show_int (signed_long v) @ c # rest, False) = (v, c # rest, False)"
    "get_bool b0 (d # (if b then ''1'' else ''0'') @ c # rest, False) = (b, c # rest, False)"
proof -
  show "long_ok v \<Longrightarrow> get_long old (d # show_int v @ c # rest, False) = (v, c # rest, False)"
    using get_number_step [OF _ _ assms, of "- (2 ^ 63)" v "2 ^ 63 - 1" old rest] by (simp add: get_long_def long_ok_def)
  show "int_ok v \<Longrightarrow> get_int old (d # show_int v @ c # rest, False) = (v, c # rest, False)"
    using get_number_step [OF _ _ assms, of "- (2 ^ 31)" v "2 ^ 31 - 1" old rest] by (simp add: get_int_def int_ok_def)
  show "0 \<le> v \<Longrightarrow> v < 2 ^ 64 \<Longrightarrow> get_ulong old (d # show_int (signed_long v) @ c # rest, False) = (v, c # rest, False)"
    using get_number_step [OF _ _ assms, of "- (2 ^ 64 - 1)" "signed_long v" "2 ^ 64 - 1" old rest]
    by (auto simp: get_ulong_def signed_long_def)
  have one: "show_int 1 = ''1''" "show_int 0 = ''0''" by (simp_all add: show_int_def show_nat.simps digit_def)
  have "get_long 0 (d # show_int (if b then 1 else 0) @ c # rest, False) = (if b then 1 else 0, c # rest, False)"
    using get_number_step [OF _ _ assms, of "- (2 ^ 63)" "if b then 1 else 0" "2 ^ 63 - 1" 0 rest] by (simp add: get_long_def)
  moreover have "\<not> is_space CHR ''1''" "\<not> is_space CHR ''0''" by (simp_all add: is_space_def)
  ultimately show "get_bool b0 (d # (if b then ''1'' else ''0'') @ c # rest, False) = (b, c # rest, False)"
    using assms by (cases b) (simp_all add: get_bool_def one)
qed

lemma blank_space [simp]: "is_space CHR '' ''" "is_space CHR 0x0D"
  by (simp_all add: is_space_def)

lemma show_int_NUL [simp]: "NUL \<notin> set (show_int v)"
  using show_nat_chars(3) by (simp add: show_int_def)

text \<open>C36: The index file keeps the entries: a line that \<open>WriteOneCacheEntry\<close> wrote is parsed back to the entry, with the
  fields that are not saved at their initial values, for every entry whose URL, file name and entity
  tag have no white space (and whose tag is not the marker for an empty one).\<close>

theorem index_line_round_trip:
  assumes "saveable e"
  shows "cache_index_parse_line (WriteOneCacheEntry e) =
    e\<lparr>ce_date := -1, ce_age := -1, ce_max_age := -1, ce_no_cache := False, ce_readers := 0,
      ce_response_lock := False, ce_write_lock := False\<rparr>"
proof -
  define tag where "tag = (if ce_etag e = [] then CACHE_EMPTY_ETAG else ce_etag e)"
  have empty: "word_ok CACHE_EMPTY_ETAG" by (simp add: word_ok_def CACHE_EMPTY_ETAG_def is_space_def)
  have w: "word_ok (ce_url e)" "word_ok (ce_cachename e)" "word_ok tag"
    using assms empty by (auto simp: saveable_def tag_def)
  have etag: "(if tag = CACHE_EMPTY_ETAG then [] else tag) = ce_etag e"
    using assms by (auto simp: saveable_def tag_def)
  have line: "WriteOneCacheEntry e = ce_url e @ CHR '' '' # ce_cachename e @ CHR '' '' # tag @ CHR '' '' # show_int (ce_lm e) @
      CHR '' '' # show_int (ce_expires e) @ CHR '' '' # show_int (signed_long (ce_size e)) @ CHR '' '' #
      (if ce_range e then ''1'' else ''0'') @ CHR '' '' # show_int (ce_hash e) @ CHR '' '' # show_int (ce_hits e) @ CHR '' '' #
      show_int (ce_freshness_lifetime e) @ CHR '' '' # show_int (ce_response_time e) @ CHR '' '' #
      show_int (ce_corrected_initial_age e) @ CHR '' '' # (if ce_must_revalidate e then ''1'' else ''0'') @
      CHR 0x0D # [CHR 0x0A]"
    using w by (auto simp: WriteOneCacheEntry_def word_c_str tag_def)
  have "NUL \<notin> set (WriteOneCacheEntry e)"
    using w unfolding line by (auto simp: word_ok_def)
  then have "c_str (WriteOneCacheEntry e) = WriteOneCacheEntry e" by (rule c_str_id)
  then show ?thesis
    using assms etag
    by (simp add: cache_index_parse_line_def line get_word_step w get_steps saveable_def Let_def empty_entry_def
        del: if_split)
qed

lemma get_at_end [simp]:
  "get_word old ([], b) = (old, [], True)" "get_long v ([], b) = (v, [], True)" "get_int v ([], b) = (v, [], True)"
  "0 \<le> v \<Longrightarrow> v < 2 ^ 64 \<Longrightarrow> get_ulong v ([], b) = (v, [], True)" "get_bool c ([], b) = (c, [], True)"
  by (simp_all add: get_word_def get_long_def get_int_def get_ulong_def get_bool_def get_number_def)

text \<open>A cache that holds a long URL cannot be opened again: an index line is read into a buffer of 1024 characters, so a
  line whose URL has 1023 characters or more comes back in pieces; the first piece has a URL and no hash, and adding it
  throws an internal error out of the constructor.\<close>

lemma long_url_breaks_index:
  assumes "word_ok (ce_url e)" "1023 \<le> length (ce_url e)"
  shows "snd (make_cache_table root block files (Some (WriteOneCacheEntry e @ tail))) =
    Threw (InternalErr ''Hash value too large!'')"
proof -
  define u where "u = take 1023 (ce_url e)"
  obtain rest where s: "WriteOneCacheEntry e @ tail = ce_url e @ rest"
    using assms(1) by (simp add: WriteOneCacheEntry_def word_c_str)
  have u: "word_ok u" "length u = 1023" "take 1023 (ce_url e @ rest) = u"
    using assms by (auto simp: u_def word_ok_def dest: in_set_takeD)
  have no_nl: "\<forall>c \<in> set (ce_url e). c \<noteq> CHR 0x0A"
    using assms(1) by (auto simp: word_ok_def is_space_def)
  have nl: "find_at (starts_with [CHR 0x0A]) (xs @ rest) = Some i \<Longrightarrow> length xs \<le> i"
    if "\<forall>c \<in> set xs. c \<noteq> CHR 0x0A" for xs i
    using that by (induction xs arbitrary: i) (auto simp: starts_with_def)
  define L where "L = ce_url e @ rest"
  have "min 1023 (case find_at (starts_with [CHR 0x0A]) L of None \<Rightarrow> length L | Some i \<Rightarrow> i + 1) = 1023"
    using nl [OF no_nl] assms(2) by (auto split: option.split simp: min_def L_def)
  moreover have "L \<noteq> []" using assms(2) by (auto simp: L_def)
  moreover have "take 1023 L = u" using u(3) by (simp only: L_def)
  ultimately have lines: "fgets_lines (WriteOneCacheEntry e @ tail) = u # fgets_lines (drop 1023 L)"
    unfolding s L_def [symmetric] by (subst fgets_lines.simps) (simp only: Let_def if_False)
  have "c_str u = u" using u(1) by (rule word_c_str)
  moreover have "get_word old (u, False) = (u, [], False)" for old
    using u(1) by (cases u) (auto simp: get_word_def word_ok_def takeWhile_eq_all_conv dropWhile_eq_Nil_conv)
  ultimately have "ce_hash (cache_index_parse_line u) = -1"
    by (simp add: cache_index_parse_line_def empty_entry_def)
  then show ?thesis
    by (simp add: make_cache_table_def cache_index_read_def lines allocate_def add_entry_to_cache_table_def entry_at_def Let_def)
qed

section \<open>Witnesses\<close>

definition demo_entry :: cache_entry where
  "demo_entry = (new_entry ''a'')\<lparr>ce_cachename := ''f'', ce_size := 10, ce_freshness_lifetime := 5\<rparr>"

lemma demo_hash: "get_hash ''a'' = 97"
  by (simp add: get_hash_def c_str_def CACHE_TABLE_SIZE_def)

text \<open>A table with one entry, the pointer 0, and the same entry in the heap only.\<close>

definition bare_table :: "cache_entry \<Rightarrow> cache_table" where
  "bare_table e = \<lparr>heap = [0 \<mapsto> e], fresh = 1, slots = (\<lambda>_. None), block_size = 4096, current_size = 0, new_entries = 0,
     locked_entries = [], disk = {''f''}, index_name = ''i''\<rparr>"

definition demo_table :: "cache_entry \<Rightarrow> cache_table" where
  "demo_table e = (bare_table e)\<lparr>slots := [97 \<mapsto> [Some 0]], current_size := 4096\<rparr>"

lemma bare_table_ok: "table_ok (bare_table e)"
  by (simp add: table_ok_def slot_ok_def used_space_def bare_table_def ptrs_def)

lemma demo_space: "ce_size e = 10 \<Longrightarrow> entry_disk_space (ce_size e) 4096 = 4096"
  using entry_disk_space_eq(1) [of 10 4096] by simp

lemma demo_ptrs: "ptrs (demo_table e) h = (if h = 97 then [0] else [])" "entry_at (demo_table e) 0 = e"
  by (simp_all add: ptrs_def demo_table_def entry_at_def bare_table_def List.map_filter_def)

lemma demo_table_ok:
  assumes "ce_hash e = 97" "ce_size e = 10"
  shows "table_ok (demo_table e)"
proof -
  have "slot_ok (demo_table e) h" for h
    using assms
    by (auto simp: slot_ok_def demo_table_def bare_table_def entry_at_def size_fits_def CACHE_TABLE_SIZE_def intro: exI [of _ "[0]"])
  moreover have "used_space (demo_table e) = 4096"
    using demo_space [OF assms(2)]
    by (simp add: used_space_def demo_ptrs space_def CACHE_TABLE_SIZE_def sum.remove [of _ 97])
      (simp add: demo_table_def bare_table_def)
  ultimately show ?thesis by (simp add: table_ok_def) (simp add: demo_table_def bare_table_def)
qed

lemma demo_entry_simps [simp]: "ce_hash demo_entry = 97" "ce_size demo_entry = 10" "ce_url demo_entry = ''a''" "ce_readers demo_entry = 0"
  "unlocked demo_entry" "ce_freshness_lifetime demo_entry = 5" "ce_corrected_initial_age demo_entry = 0" "ce_response_time demo_entry = 0"
  by (simp_all add: demo_entry_def new_entry_def empty_entry_def demo_hash unlocked_def)

lemma add_entry_spec_witness:
  "\<exists>t1. add_entry_to_cache_table (bare_table demo_entry) 0 = (t1, Completed) \<and> find_in_slot t1 97 ''a'' = Some 0"
proof -
  have p: "ptrs (bare_table demo_entry) h = []" for h by (simp add: ptrs_def bare_table_def)
  have "find_in_slot (bare_table demo_entry) 97 ''a'' = None" by (simp add: find_in_slot_def bare_table_def)
  moreover have "heap (bare_table demo_entry) 0 = Some demo_entry" "block_size (bare_table demo_entry) = 4096"
    by (simp_all add: bare_table_def)
  moreover have "used_space (bare_table demo_entry) = 0" by (simp add: used_space_def p)
  ultimately show ?thesis
    using add_entry_spec [OF bare_table_ok, of demo_entry 0 demo_entry] demo_space [of demo_entry]
    by (auto simp: p size_fits_def demo_hash)
qed

theorem delete_expired_entries_exact_witness:
  "\<exists>t1. delete_expired_entries 100 6 (demo_table demo_entry) = (t1, Completed) \<and> ptrs t1 97 = []"
  using delete_expired_entries_exact [OF demo_table_ok [of demo_entry], of 100 6]
  by (auto simp: demo_ptrs expired_def)

theorem delete_by_hits_and_size_exact_witness:
  "\<exists>t1 t2. delete_by_hits 0 (demo_table demo_entry) = (t1, Completed) \<and>
     delete_by_size 10 (demo_table demo_entry) = (t2, Completed) \<and> ptrs t2 97 = [0]"
  using delete_by_hits_and_size_exact [OF demo_table_ok [of demo_entry], of 0 10]
  by (auto simp: demo_ptrs)

theorem remove_entry_spec_witness:
  "\<exists>t1. remove_entry_from_cache_table (demo_table demo_entry) ''a'' = (t1, Completed) \<and> find_in_slot t1 97 ''a'' = None"
  using remove_entry_spec [OF demo_table_ok [of demo_entry], of "''a''"]
  by (auto simp: demo_ptrs demo_hash)

lemma remove_locked_entry_blocks_witness:
  "snd (remove_entry_from_cache_table (demo_table (demo_entry\<lparr>ce_readers := 1, ce_response_lock := True\<rparr>)) ''a'') = Blocked"
proof -
  let ?e = "demo_entry\<lparr>ce_readers := 1, ce_response_lock := True\<rparr>"
  have "find_in_slot (demo_table ?e) (get_hash ''a'') ''a'' = Some 0"
    by (subst find_in_slot_ptrs) (simp_all add: demo_table_ok demo_ptrs demo_hash)
  then show ?thesis
    using remove_locked_entry_blocks [OF demo_table_ok [of ?e], of "''a''" 0] by (simp add: demo_ptrs)
qed

lemma uncouple_unknown_response_witness:
  "is_locked_read_responses (fst (uncouple_entry_from_data (bare_table demo_entry) 3))"
  using uncouple_unknown_response [of "bare_table demo_entry" 3] by (auto simp: bare_table_def)

theorem serial_locking_is_safe_witness:
  "lock_inv (fst (lock_read_response (new_entry ''a'')))"
proof -
  have "serial_step (new_entry ''a'') (fst (lock_read_response (new_entry ''a'')))"
    by (rule serial_step.intros(1)) (simp add: lock_read_response_def new_entry_def empty_entry_def)
  then show ?thesis using serial_locking_is_safe [of "''a''"] by blast
qed

lemma delta_seconds_headers_witness:
  "parse_header 1000 0 empty_entry ''Cache-Control: max-age=300'' = Some (empty_entry\<lparr>ce_max_age := 0\<rparr>) \<and>
   parse_header 1000 0 empty_entry ''Age: 300'' = Some (empty_entry\<lparr>ce_age := 1300\<rparr>)"
proof -
  have "show_nat 300 = ''300''" by (simp add: show_nat.simps digit_def)
  then show ?thesis using delta_seconds_headers [of 300 1000 0 empty_entry 0 0] by simp
qed

theorem index_line_round_trip_witness:
  "cache_index_parse_line (WriteOneCacheEntry demo_entry) = demo_entry"
proof -
  have "saveable demo_entry"
    by (simp add: saveable_def word_ok_def long_ok_def int_ok_def is_space_def)
      (simp add: demo_entry_def new_entry_def empty_entry_def is_space_def)
  then show ?thesis
    using index_line_round_trip [of demo_entry] by (simp add: demo_entry_def new_entry_def empty_entry_def)
qed

lemma long_url_breaks_index_witness:
  "snd (make_cache_table [] 4096 {} (Some (WriteOneCacheEntry (new_entry (replicate 2000 CHR ''a''))))) =
     Threw (InternalErr ''Hash value too large!'')"
  using long_url_breaks_index [of "new_entry (replicate 2000 CHR ''a'')" "[]" 4096 "{}" "[]"]
  by (simp add: word_ok_def new_entry_def empty_entry_def is_space_def)

end
