(* ===== verification/StringUtil.thy ===== *)
theory StringUtil
  imports CLib "HOL-Library.List_Lexorder" "HOL-Library.Char_ord"
begin

text \<open>
  The string and type-name utilities of \<open>util.cc\<close>: URL pruning, duplicate names, quoting, the names and
  classes of the DAP types, numbers as text, file names and path names, and the array-size check.
\<close>

section \<open>Strings\<close>

definition UINT_MAX :: nat where "UINT_MAX = 2 ^ 32 - 1"

definition INT_MAX :: nat where "INT_MAX = 2 ^ 31 - 1"

text \<open>
  \<open>prune_spaces\<close> keeps positions in \<open>unsigned int\<close>s: \<open>npos\<close> becomes \<open>UINT_MAX\<close>, and \<open>npos + 1\<close>
  becomes 0.  \<open>substr\<close> throws when the position is beyond the end; \<open>erase(j, n)\<close> drops at most
  \<open>n\<close> characters, with \<open>n\<close> computed in \<open>unsigned int\<close>.
\<close>

definition to_pos :: "nat option \<Rightarrow> nat" where
  "to_pos r = (case r of None \<Rightarrow> UINT_MAX | Some i \<Rightarrow> i mod 2 ^ 32)"

definition prune_spaces :: "string \<Rightarrow> string result" where
  "prune_spaces name =
     (if find_from (starts_in '' '') name 0 = None then Inr name
      else
        let i = to_pos (find_from (starts_not_in '' '') name 0) in
        if length name < i then Inl (Std_Exception ''basic_string::substr'')
        else
          let tmp_name = drop i name;
              j = (case find_from (starts_in ''?'') tmp_name 0 of None \<Rightarrow> 0 | Some k \<Rightarrow> (k + 1) mod 2 ^ 32);
              i2 = to_pos (find_from (starts_not_in '' '') tmp_name j) in
          Inr (take j tmp_name @ drop (j + nat ((int i2 - int j) mod 2 ^ 32)) tmp_name))"

text \<open>The names of the variables of a constructor; the result is the message when one is used twice.\<close>

fun first_duplicate :: "string list \<Rightarrow> string option" where
  "first_duplicate (a # b # xs) = (if a = b then Some b else first_duplicate (b # xs))"
| "first_duplicate _ = None"

definition unique_names :: "string list \<Rightarrow> string \<Rightarrow> string \<Rightarrow> bool \<times> string option" where
  "unique_names names var_name type_name =
     (case first_duplicate (sort (sort names)) of
        None \<Rightarrow> (True, None)
      | Some n \<Rightarrow> (False, Some (''The variable `'' @ n @ CHR 0x27 # '' is used more than once in '' @ type_name @ '' `'' @
          var_name @ [CHR 0x27])))"

definition downcase :: "string \<Rightarrow> string" where
  "downcase s = map to_lower s"

definition is_quoted :: "string \<Rightarrow> bool" where
  "is_quoted s \<longleftrightarrow> s \<noteq> [] \<and> s ! 0 = CHR 0x22 \<and> s ! (length s - 1) = CHR 0x22"

text \<open>The length \<open>s.length() - 2\<close> is a \<open>size_t\<close>: for a lone quote it wraps, which takes the rest of the string.\<close>

definition remove_quotes :: "string \<Rightarrow> string" where
  "remove_quotes s =
     (if is_quoted s then take (nat ((int (length s) - 2) mod 2 ^ 64)) (drop 1 s) else s)"

definition path_to_filename :: "string \<Rightarrow> string" where
  "path_to_filename path = (if CHR ''/'' \<in> set path then rev (takeWhile (\<lambda>c. c \<noteq> CHR ''/'') (rev path)) else path)"

definition size_ok :: "u32 \<Rightarrow> u32 \<Rightarrow> bool" where
  "size_ok sz nelem \<longleftrightarrow> sz > 0 \<and> nelem < (- 1) div sz"

text \<open>
  \<open>Regex::match\<close> of a class repeated: the length of the longest prefix in the class, -1 for none.  The second
  expression is \<open>[:print:]+\<close> outside brackets, a class of the seven characters it is spelt with.
\<close>

definition match_class :: "(char \<Rightarrow> bool) \<Rightarrow> string \<Rightarrow> int" where
  "match_class P s = (let n = length (takeWhile P s) in if n = 0 then -1 else int n)"

definition strict_class :: "char \<Rightarrow> bool" where
  "strict_class c \<longleftrightarrow> c = CHR ''-'' \<or> is_digit c \<or> (65 \<le> (of_char c :: nat) \<and> (of_char c :: nat) \<le> 122) \<or> c \<in> set ''_./''"

definition print_class :: "char \<Rightarrow> bool" where
  "print_class c \<longleftrightarrow> c \<in> set '':print:''"

definition pathname_ok :: "string \<Rightarrow> bool \<Rightarrow> bool" where
  "pathname_ok path strict =
     (if length path > 255 then False
      else match_class (if strict then strict_class else print_class) (c_str path) = int (length path))"

section \<open>Numbers as text\<close>

definition upper_digits :: string where "upper_digits = ''0123456789ABCDEFGHIJKLMNOPQRSTUVWXYZ''"

text \<open>\<open>ldiv(labs(val), base)\<close>; the recursion is on the quotient, which is not negative.\<close>

function append_nat :: "nat \<Rightarrow> nat \<Rightarrow> string \<Rightarrow> string" where
  "append_nat val base str_val =
     (if base < 2 then str_val
      else (if 0 < val div base then append_nat (val div base) base str_val else str_val) @ [upper_digits ! (val mod base)])"
  by pat_completeness auto
termination by (relation "measure (\<lambda>(val, base, s). val)") (auto simp: div_greater_zero_iff intro!: div_less_dividend)

declare append_nat.simps [simp del]

definition append_long_to_string :: "int \<Rightarrow> nat \<Rightarrow> string \<Rightarrow> string result" where
  "append_long_to_string val base str_val =
     (if base > 36 \<or> base < 2 then Inl (Std_Exception ''The parameter base has an invalid value.'')
      else Inr (append_nat (nat \<bar>val\<bar>) base (if val < 0 then str_val @ ''-'' else str_val)))"

definition long_to_string :: "int \<Rightarrow> nat \<Rightarrow> string result" where
  "long_to_string val base = append_long_to_string val base []"

section \<open>Types\<close>

datatype Type =
    dods_null_c | dods_byte_c | dods_int16_c | dods_uint16_c | dods_int32_c | dods_uint32_c
  | dods_float32_c | dods_float64_c | dods_str_c | dods_url_c | dods_structure_c | dods_array_c
  | dods_sequence_c | dods_grid_c | dods_char_c | dods_int8_c | dods_uint8_c | dods_int64_c
  | dods_uint64_c | dods_enum_c | dods_opaque_c | dods_group_c

definition type_table :: "(string \<times> Type) list" where
  "type_table = [(''Byte'', dods_byte_c), (''Char'', dods_char_c), (''Int8'', dods_int8_c), (''UInt8'', dods_uint8_c),
     (''Int16'', dods_int16_c), (''UInt16'', dods_uint16_c), (''Int32'', dods_int32_c), (''UInt32'', dods_uint32_c),
     (''Int64'', dods_int64_c), (''UInt64'', dods_uint64_c), (''Float32'', dods_float32_c), (''Float64'', dods_float64_c),
     (''String'', dods_str_c), (''Url'', dods_url_c), (''URL'', dods_url_c), (''Enum'', dods_enum_c),
     (''Opaque'', dods_opaque_c), (''Array'', dods_array_c), (''Structure'', dods_structure_c),
     (''Sequence'', dods_sequence_c), (''Grid'', dods_grid_c)]"

definition get_type :: "string \<Rightarrow> Type" where
  "get_type name = (case map_of type_table name of Some t \<Rightarrow> t | None \<Rightarrow> dods_null_c)"

fun D2type_name :: "Type \<Rightarrow> string result" where
  "D2type_name dods_null_c = Inr ''Null''"
| "D2type_name dods_byte_c = Inr ''Byte''"
| "D2type_name dods_int16_c = Inr ''Int16''"
| "D2type_name dods_uint16_c = Inr ''UInt16''"
| "D2type_name dods_int32_c = Inr ''Int32''"
| "D2type_name dods_uint32_c = Inr ''UInt32''"
| "D2type_name dods_float32_c = Inr ''Float32''"
| "D2type_name dods_float64_c = Inr ''Float64''"
| "D2type_name dods_str_c = Inr ''String''"
| "D2type_name dods_url_c = Inr ''Url''"
| "D2type_name dods_array_c = Inr ''Array''"
| "D2type_name dods_structure_c = Inr ''Structure''"
| "D2type_name dods_sequence_c = Inr ''Sequence''"
| "D2type_name dods_grid_c = Inr ''Grid''"
| "D2type_name _ = Inl (InternalErr ''Unknown type.'')"

fun D4type_name :: "Type \<Rightarrow> string result" where
  "D4type_name dods_null_c = Inr ''Null''"
| "D4type_name dods_byte_c = Inr ''Byte''"
| "D4type_name dods_char_c = Inr ''Char''"
| "D4type_name dods_int8_c = Inr ''Int8''"
| "D4type_name dods_uint8_c = Inr ''UInt8''"
| "D4type_name dods_int16_c = Inr ''Int16''"
| "D4type_name dods_uint16_c = Inr ''UInt16''"
| "D4type_name dods_int32_c = Inr ''Int32''"
| "D4type_name dods_uint32_c = Inr ''UInt32''"
| "D4type_name dods_int64_c = Inr ''Int64''"
| "D4type_name dods_uint64_c = Inr ''UInt64''"
| "D4type_name dods_enum_c = Inr ''Enum''"
| "D4type_name dods_float32_c = Inr ''Float32''"
| "D4type_name dods_float64_c = Inr ''Float64''"
| "D4type_name dods_str_c = Inr ''String''"
| "D4type_name dods_url_c = Inr ''URL''"
| "D4type_name dods_opaque_c = Inr ''Opaque''"
| "D4type_name dods_array_c = Inr ''Array''"
| "D4type_name dods_structure_c = Inr ''Structure''"
| "D4type_name dods_sequence_c = Inr ''Sequence''"
| "D4type_name dods_group_c = Inr ''Group''"
| "D4type_name _ = Inl (InternalErr ''Unknown type.'')"

definition type_name :: "Type \<Rightarrow> string result" where
  "type_name t = (case D4type_name t of Inr s \<Rightarrow> Inr s | Inl _ \<Rightarrow> D2type_name t)"

definition is_simple_type :: "Type \<Rightarrow> bool" where
  "is_simple_type t \<longleftrightarrow> t \<in> {dods_byte_c, dods_char_c, dods_int8_c, dods_uint8_c, dods_int16_c, dods_uint16_c,
     dods_int32_c, dods_uint32_c, dods_int64_c, dods_uint64_c, dods_float32_c, dods_float64_c, dods_str_c,
     dods_url_c, dods_enum_c, dods_opaque_c}"

definition is_vector_type :: "Type \<Rightarrow> bool" where
  "is_vector_type t \<longleftrightarrow> t = dods_array_c"

definition is_constructor_type :: "Type \<Rightarrow> bool" where
  "is_constructor_type t \<longleftrightarrow> t \<notin> {dods_null_c, dods_byte_c, dods_char_c, dods_int8_c, dods_uint8_c, dods_int16_c,
     dods_uint16_c, dods_int32_c, dods_uint32_c, dods_int64_c, dods_uint64_c, dods_float32_c, dods_float64_c,
     dods_str_c, dods_url_c, dods_enum_c, dods_opaque_c, dods_array_c}"

definition is_integer_type :: "Type \<Rightarrow> bool" where
  "is_integer_type t \<longleftrightarrow> t \<in> {dods_byte_c, dods_char_c, dods_int8_c, dods_uint8_c, dods_int16_c, dods_uint16_c,
     dods_int32_c, dods_uint32_c, dods_int64_c, dods_uint64_c}"

section \<open>Numbers are read back\<close>

lemma all_less_36:
  "(n::nat) < 36 \<longleftrightarrow> n \<in> {0, 1, 2, 3, 4, 5, 6, 7, 8, 9, 10, 11, 12, 13, 14, 15, 16, 17, 18, 19, 20, 21, 22, 23, 24, 25,
     26, 27, 28, 29, 30, 31, 32, 33, 34, 35}"
  by simp presburger

lemma upper_digit_facts:
  "n < 36 \<Longrightarrow> digit_val (upper_digits ! n) = n \<and> \<not> is_space (upper_digits ! n) \<and>
     upper_digits ! n \<noteq> CHR ''-'' \<and> upper_digits ! n \<noteq> CHR ''+'' \<and> upper_digits ! n \<noteq> CHR ''x'' \<and>
     (n < 33 \<longrightarrow> upper_digits ! n \<noteq> CHR ''X'')"
  unfolding all_less_36
  by (elim insertE emptyE; simp add: upper_digits_def digit_val_def is_space_def)

lemma append_nat_digits:
  assumes "2 \<le> base" "base \<le> 36"
  shows "\<exists>ds. append_nat n base s = s @ ds \<and> ds \<noteq> [] \<and> digits_value base ds = n \<and>
    (\<forall>c \<in> set ds. \<exists>d < base. c = upper_digits ! d)"
proof (induction n rule: less_induct)
  case (less n)
  have last: "digit_val (upper_digits ! (n mod base)) = n mod base"
    using upper_digit_facts [of "n mod base"] assms by (simp add: less_le_trans [OF mod_less_divisor])
  have mod: "n mod base < base" using assms by simp
  show ?case
  proof (cases "0 < n div base")
    case True
    then have "n div base < n" using assms by (simp add: div_greater_zero_iff)
    then obtain ds where ds: "append_nat (n div base) base s = s @ ds" "digits_value base ds = n div base"
      "\<forall>c \<in> set ds. \<exists>d < base. c = upper_digits ! d" using less by blast
    have "append_nat n base s = s @ (ds @ [upper_digits ! (n mod base)])"
      using True assms ds(1) by (subst append_nat.simps) simp
    moreover have "digits_value base (ds @ [upper_digits ! (n mod base)]) = n"
      using last ds(2) by simp
    ultimately show ?thesis using ds(3) mod by (intro exI [of _ "ds @ [upper_digits ! (n mod base)]"]) auto
  next
    case False
    then have "append_nat n base s = s @ [upper_digits ! (n mod base)]" using assms by (subst append_nat.simps) simp
    moreover have "digits_value base [upper_digits ! (n mod base)] = n"
      using last False digits_value_snoc [of base "[]" "upper_digits ! (n mod base)"]
        div_mult_mod_eq [of n base] by simp
    ultimately show ?thesis using mod by (intro exI [of _ "[upper_digits ! (n mod base)]"]) auto
  qed
qed

lemma strto_upper:
  assumes "2 \<le> base" "base \<le> 36" "ds \<noteq> []" "\<forall>c \<in> set ds. \<exists>d < base. c = upper_digits ! d"
  shows "strto base (''-'' @ ds) = (True, digits_value base ds, [])" "strto base ds = (False, digits_value base ds, [])"
proof -
  obtain c ds' where c: "ds = c # ds'" using assms(3) by (cases ds) auto
  have f: "digit_val x < base" "\<not> is_space x" "x \<noteq> CHR ''-''" "x \<noteq> CHR ''+''" "base = 16 \<Longrightarrow> x \<noteq> CHR ''x'' \<and> x \<noteq> CHR ''X''"
    if x: "x \<in> set ds" for x
  proof -
    obtain d where d: "d < base" "x = upper_digits ! d" using bspec [OF assms(4) x] by (elim exE conjE)
    then have "d < 36" using assms(2) by simp
    note u = upper_digit_facts [OF this, folded d(2)]
    from u d(1) show "digit_val x < base" "\<not> is_space x" "x \<noteq> CHR ''-''" "x \<noteq> CHR ''+''" by simp_all
    show "base = 16 \<Longrightarrow> x \<noteq> CHR ''x'' \<and> x \<noteq> CHR ''X''" using u d(1) by simp
  qed
  have pre: "base_prefix base ds = (base, ds)"
    using f(5) assms(1) c by (cases ds') (auto simp: base_prefix_def starts_with_def)
  have all: "takeWhile (\<lambda>c. digit_val c < base) ds = ds" using f(1) by (simp del: takeWhile_eq_all_conv add: takeWhile_eq_all_conv [THEN iffD2])
  have sp: "\<not> is_space CHR ''-''" by (simp add: is_space_def)
  show "strto base (''-'' @ ds) = (True, digits_value base ds, [])"
    using pre assms(3) sp by (simp add: strto_def starts_with_def Let_def all del: takeWhile_eq_all_conv)
  show "strto base ds = (False, digits_value base ds, [])"
    using pre [unfolded c] all [unfolded c] f(2) [of c] f(3) [of c] f(4) [of c] c
    by (simp add: strto_def starts_with_def Let_def)
qed

section \<open>Properties\<close>

text \<open>Every number of a \<open>long\<close> is printed in every base from 2 to 36 so that \<open>strtol\<close> with that base reads the
  number back and consumes the whole text.\<close>

lemma long_to_string_round_trip:
  assumes "2 \<le> base" "base \<le> 36" "- (2 ^ 63) \<le> v" "v < 2 ^ 63"
  shows "\<exists>s. long_to_string v base = Inr s \<and> strtol base s = (v, [])"
proof -
  obtain ds where ds: "append_nat (nat \<bar>v\<bar>) base (if v < 0 then ''-'' else []) = (if v < 0 then ''-'' else []) @ ds"
    "ds \<noteq> []" "digits_value base ds = nat \<bar>v\<bar>" "\<forall>c \<in> set ds. \<exists>d < base. c = upper_digits ! d"
    using append_nat_digits [OF assms(1,2), of "nat \<bar>v\<bar>" "if v < 0 then ''-'' else []"] by blast
  have "long_to_string v base = Inr ((if v < 0 then ''-'' else []) @ ds)"
    using assms(1,2) ds(1) by (cases "v < 0") (simp_all add: long_to_string_def append_long_to_string_def)
  moreover have "strtol base ((if v < 0 then ''-'' else []) @ ds) = (v, [])"
    using strto_upper [OF assms(1,2) ds(2,4)] ds(3) assms(3,4) by (auto simp: strtol_def clamp_long_def)
  ultimately show ?thesis by blast
qed

lemma first_duplicate_sorted: "sorted xs \<Longrightarrow> first_duplicate xs = None \<longleftrightarrow> distinct xs"
  by (induction xs rule: first_duplicate.induct) (auto simp: order.antisym)

text \<open>\<open>unique_names\<close> answers true exactly when no two variables have the same name, and the name in the message of
  the other case is one that occurs twice.\<close>

lemma unique_names_iff_distinct:
  "(fst (unique_names names v ty) \<longleftrightarrow> distinct names) \<and>
   (fst (unique_names names v ty) \<longleftrightarrow> snd (unique_names names v ty) = None) \<and>
   (\<forall>n. first_duplicate (sort names) = Some n \<longrightarrow> 2 \<le> count_list names n)"
proof -
  have "first_duplicate (sort names) = None \<longleftrightarrow> distinct names"
    using first_duplicate_sorted [of "sort names"] by simp
  moreover have "2 \<le> count_list xs n" if "first_duplicate xs = Some n" for xs and n :: string
    using that by (induction xs rule: first_duplicate.induct) (auto split: if_splits)
  moreover have "count_list (sort names) n = count_list names n" for n
    by (simp add: count_list_eq_length_filter filter_sort)
  moreover have "sort (sort names) = sort names" by (rule sorted_sort_id) simp
  ultimately show ?thesis unfolding unique_names_def by (auto split: option.split) metis
qed

text \<open>The type names are one-to-one: the name \<open>type_name\<close> gives to a type is mapped back to it by \<open>get_type\<close>, in the DAP2 and
  the DAP4 spelling, for every type but \<open>Group\<close>, which \<open>get_type\<close> does not know; and every type but the null type is exactly one of
  simple, vector and constructor.\<close>

lemma type_names_round_trip:
  "(\<exists>s. type_name t = Inr s \<and> get_type s = (if t = dods_group_c then dods_null_c else t)) \<and>
   (\<forall>s. D2type_name t = Inr s \<longrightarrow> get_type s = t) \<and>
   (t \<noteq> dods_null_c \<longrightarrow>
      is_constructor_type t = (\<not> is_simple_type t \<and> \<not> is_vector_type t) \<and> \<not> (is_simple_type t \<and> is_vector_type t))"
  by (cases t)
    (simp_all add: type_name_def get_type_def type_table_def is_constructor_type_def is_simple_type_def is_vector_type_def)

lemma size_ok_no_overflow: "size_ok sz n \<Longrightarrow> unat sz * unat n < 2 ^ 32"
proof -
  assume "size_ok sz n"
  then have "unat n < unat ((- 1) div sz :: u32)" by (simp add: size_ok_def word_less_nat_alt)
  also have "\<dots> \<le> (2 ^ 32 - 1) div unat sz" 
    by (simp add: unat_div unsigned_minus_1_eq_mask mask_eq_exp_minus_1)
  finally have "Suc (unat n) * unat sz \<le> (2 ^ 32 - 1) div unat sz * unat sz" by (intro mult_le_mono1) simp
  also have "\<dots> \<le> 2 ^ 32 - 1" by (rule div_times_less_eq_dividend)
  finally show ?thesis by (simp add: mult.commute)
qed

section \<open>Witnesses\<close>

lemma long_to_string_round_trip_witness:
  "\<exists>s. long_to_string (-255) 16 = Inr s \<and> strtol 16 s = (-255, [])"
  using long_to_string_round_trip [of 16 "-255"] by simp

lemma unique_names_iff_distinct_witness:
  "fst (unique_names [''b'', ''a''] ''v'' ''Structure'')"
  using unique_names_iff_distinct [of "[''b'', ''a'']" "''v''" "''Structure''"] by simp

lemma type_names_round_trip_witness:
  "is_constructor_type dods_group_c \<and> get_type ''Url'' = dods_url_c"
  using type_names_round_trip [of dods_group_c] type_names_round_trip [of dods_url_c]
  by (simp add: is_simple_type_def is_vector_type_def)

end
