(* ===== verification/ParserUtil.thy ===== *)
theory ParserUtil
  imports StringUtil
begin

text \<open>
  The number checks of the parsers (\<open>parser-util.cc\<close>, with the limits of \<open>dods-limits.h\<close>), the
  parser's error message and \<open>is_keyword\<close>.  A \<open>char *\<close> is the list of its characters; \<open>errno\<close> is
  \<open>ERANGE\<close> when the digits do not fit the type of the conversion.  The checks return an \<open>int\<close>, 0
  for \<open>FALSE\<close>.
\<close>

definition DODS_SCHAR_MIN :: int where "DODS_SCHAR_MIN = -0x7f - 1"
definition DODS_UCHAR_MAX :: int where "DODS_UCHAR_MAX = 0xff"
definition DODS_SHRT_MIN :: int where "DODS_SHRT_MIN = -0x7fff - 1"
definition DODS_SHRT_MAX :: int where "DODS_SHRT_MAX = 0x7fff"
definition DODS_USHRT_MAX :: int where "DODS_USHRT_MAX = 0xffff"
definition DODS_INT_MIN :: int where "DODS_INT_MIN = -0x7fffffff - 1"
definition DODS_INT_MAX :: int where "DODS_INT_MAX = 0x7fffffff"
definition DODS_UINT_MAX :: int where "DODS_UINT_MAX = 0xffffffff"
definition DODS_ULLONG_MAX :: int where "DODS_ULLONG_MAX = 0xffffffffffffffff"

lemmas dods_limits = DODS_SCHAR_MIN_def DODS_UCHAR_MAX_def DODS_SHRT_MIN_def DODS_SHRT_MAX_def DODS_USHRT_MAX_def
  DODS_INT_MIN_def DODS_INT_MAX_def DODS_UINT_MAX_def DODS_ULLONG_MAX_def

definition strtol_erange :: "nat \<Rightarrow> string \<Rightarrow> bool" where
  "strtol_erange base s = (case strto base s of (neg, n, _) \<Rightarrow> if neg then 2 ^ 63 < n else 2 ^ 63 \<le> n)"

definition strtoul_erange :: "nat \<Rightarrow> string \<Rightarrow> bool" where
  "strtoul_erange base s = (case strto base s of (neg, n, _) \<Rightarrow> 2 ^ 64 \<le> n)"

text \<open>\<open>(v == 0 && val == ptr) || *ptr != '\0'\<close>: nothing was converted or something is left.\<close>

definition bad_text :: "string \<Rightarrow> int \<times> string \<Rightarrow> bool" where
  "bad_text val = (\<lambda>(v, ptr). v = 0 \<and> val = ptr \<or> ptr \<noteq> [])"

definition leading_minus :: "string \<Rightarrow> bool" where
  "leading_minus val = starts_with ''-'' (dropWhile is_space val)"

section \<open>Checks\<close>

definition check_byte :: "string \<Rightarrow> int" where
  "check_byte val =
     (let r = strtol 0 val; v = fst r in
      if bad_text val r then 0
      else if v < 0 \<and> v < DODS_SCHAR_MIN \<or> v > 0 \<and> v > DODS_UCHAR_MAX then 0 else 1)"

definition check_int16 :: "string \<Rightarrow> int" where
  "check_int16 val =
     (let r = strtol 0 val; v = fst r in
      if bad_text val r then 0 else if v > DODS_SHRT_MAX \<or> v < DODS_SHRT_MIN then 0 else 1)"

text \<open>The result of \<open>strtol\<close> is stored in an \<open>unsigned long\<close>.\<close>

definition check_uint16 :: "string \<Rightarrow> int" where
  "check_uint16 val =
     (let r = strtol 0 val; v = fst r mod 2 ^ 64 in
      if bad_text val (v, snd r) then 0 else if v > DODS_USHRT_MAX then 0 else 1)"

definition check_int32 :: "string \<Rightarrow> int" where
  "check_int32 val =
     (let r = strtol 0 val; v = fst r in
      if bad_text val r then 0 else if strtol_erange 0 val then 0
      else if v > DODS_INT_MAX \<or> v < DODS_INT_MIN then 0 else 1)"

definition check_uint32 :: "string \<Rightarrow> int" where
  "check_uint32 val =
     (if leading_minus val then 0
      else let r = strtoul 0 val; v = fst r in
        if bad_text val r then 0 else if strtoul_erange 0 val then 0 else if v > DODS_UINT_MAX then 0 else 1)"

definition check_int64 :: "string \<Rightarrow> int" where
  "check_int64 val =
     (let r = strtol 0 val in if bad_text val r then 0 else if strtol_erange 0 val then 0 else 1)"

text \<open>The last branch returns the value itself, as an \<open>int\<close>.\<close>

definition check_uint64 :: "string \<Rightarrow> int" where
  "check_uint64 val =
     (if leading_minus val then 0
      else let r = strtoul 0 val; v = fst r in
        if bad_text val r then 0 else if strtoul_erange 0 val then 0 else if v > DODS_ULLONG_MAX then 0 else to_int v)"

section \<open>Conversions\<close>

definition get_int64 :: "string \<Rightarrow> int result" where
  "get_int64 val =
     (let r = strtol 0 val in
      if bad_text val r then Inl (Error unknown_error ''Expected a 64-bit integer, but found other characters.'')
      else if strtol_erange 0 val then Inl (Error unknown_error ''The 64-bit integer value is out of range.'')
      else Inr (fst r))"

definition get_uint64 :: "string \<Rightarrow> int result" where
  "get_uint64 val =
     (if leading_minus val then Inl (Error unknown_error ''Expected a valid array index.'')
      else let r = strtoul 0 val in
        if bad_text val r then Inl (Error unknown_error ''Expected an unsigned 64-bit integer, but found other characters.'')
        else if strtoul_erange 0 val then Inl (Error unknown_error ''The 64-bit integer value is out of range.'')
        else Inr (fst r))"

text \<open>The result of the conversion is stored in an \<open>int\<close> (\<open>unsigned int\<close>) before it is tested.\<close>

definition get_int32 :: "string \<Rightarrow> int result" where
  "get_int32 val =
     (let r = strtol 0 val; v = to_int (fst r) in
      if bad_text val (v, snd r) then Inl (Error unknown_error ''Expected a 32-bit integer, but found other characters.'')
      else if strtol_erange 0 val then Inl (Error unknown_error ''The 32-bit integer value is out of range.'')
      else if v > DODS_INT_MAX \<or> v < DODS_INT_MIN then Inr 0 else Inr v)"

definition get_uint32 :: "string \<Rightarrow> int result" where
  "get_uint32 val =
     (if leading_minus val
      then Inl (Error unknown_error ''Expected an unsigned 32-bit integer, but found other characters.'')
      else let r = strtoul 0 val; v = to_uint (fst r) in
        if bad_text val (v, snd r)
        then Inl (Error unknown_error ''Expected an unsigned 32-bit integer, but found other characters.'')
        else if strtoul_erange 0 val then Inl (Error unknown_error ''The 32-bit integer value is out of range.'')
        else if v > DODS_UINT_MAX then Inr 0 else Inr v)"

section \<open>Messages and keywords\<close>

text \<open>\<open>parse_error\<close> always throws; the context is optional.\<close>

definition parse_error :: "string \<Rightarrow> int \<Rightarrow> string option \<Rightarrow> exn" where
  "parse_error msg line_num ctx =
     (let start = (if line_num \<noteq> 0 then ''Error parsing the text on line '' @
                     (case long_to_string line_num 10 of Inr s \<Rightarrow> s | Inl _ \<Rightarrow> [])
                   else ''Parse error.'') in
      Error malformed_expr (case ctx of
        Some c \<Rightarrow> start @ '' at or near: '' @ c @ [CHR 0x0A] @ msg @ [CHR 0x0A]
      | None \<Rightarrow> start @ [CHR 0x0A] @ msg @ [CHR 0x0A]))"

definition is_keyword :: "string \<Rightarrow> string \<Rightarrow> bool result" where
  "is_keyword ident keyword =
     (case prune_spaces (downcase ident) of Inl e \<Rightarrow> Inl e | Inr s \<Rightarrow> Inr (s = keyword))"

definition ID_MAX :: nat where "ID_MAX = 256"

text \<open>\<open>save_str\<close> into an array of \<open>ID_MAX\<close> characters.\<close>

definition save_str :: "string \<Rightarrow> int \<Rightarrow> string result" where
  "save_str src line_num =
     (if length src \<ge> ID_MAX
      then Inl (parse_error (''The word `'' @ src @ CHR 0x27 # '' is too long (it should be no longer than '' @
        (case long_to_string (int ID_MAX) 10 of Inr s \<Rightarrow> s | Inl _ \<Rightarrow> []) @ '').'') line_num None)
      else Inr src)"

section \<open>Reading decimal numbers with base 0\<close>

text \<open>With base 0 a decimal number without leading zeros is read as such.\<close>

lemma show_nat_Cons: "\<exists>c s. show_nat n = c # s \<and> c \<in> {digit d |d. d < 10} \<and> (n \<noteq> 0 \<longrightarrow> c \<noteq> CHR ''0'')"
proof (induction n rule: less_induct)
  case (less n)
  show ?case
  proof (cases "n < 10")
    case True
    have "digit n = CHR ''0'' \<Longrightarrow> n = 0" using digit_facts [OF True] by (auto simp: digit_val_def)
    then show ?thesis using True by (subst show_nat.simps) auto
  next
    case False
    then have "n div 10 < n" "n div 10 \<noteq> 0" by auto
    then obtain c s where "show_nat (n div 10) = c # s" "c \<in> {digit d |d. d < 10}" "c \<noteq> CHR ''0''"
      using less by blast
    then show ?thesis using False by (subst show_nat.simps) auto
  qed
qed

lemma strto_show:
  "strto 0 (show_nat n) = (False, n, [])" "strto 0 (''-'' @ show_nat n) = (True, n, [])"
proof -
  obtain c s where c: "show_nat n = c # s" "n \<noteq> 0 \<longrightarrow> c \<noteq> CHR ''0''" using show_nat_Cons [of n] by blast
  have dec: "\<forall>x \<in> set (show_nat n). digit_val x < 10 \<and> \<not> is_space x \<and> x \<notin> set '',-+:/ T'' \<and> x \<noteq> CHR ''x'' \<and> x \<noteq> CHR ''X''"
  proof
    fix x assume "x \<in> set (show_nat n)"
    then obtain d where d: "d < 10" "x = digit d" using decimal_show_nat [of n] unfolding decimal_def by blast
    moreover have "x \<noteq> CHR ''x'' \<and> x \<noteq> CHR ''X''" using digit_facts [OF d(1)] d(2) by (auto simp: is_alpha_def)
    ultimately show "digit_val x < 10 \<and> \<not> is_space x \<and> x \<notin> set '',-+:/ T'' \<and> x \<noteq> CHR ''x'' \<and> x \<noteq> CHR ''X''"
      using digit_facts [OF d(1)] by simp
  qed
  define b :: nat where "b = (if n = 0 then 8 else 10)"
  have pre: "base_prefix 0 (show_nat n) = (b, show_nat n)"
  proof (cases "n = 0")
    case True
    then show ?thesis by (simp add: b_def base_prefix_def starts_with_def show_nat.simps digit_def)
  next
    case False
    then show ?thesis using c dec by (cases s) (auto simp: b_def base_prefix_def starts_with_def)
  qed
  have val: "takeWhile (\<lambda>c. digit_val c < b) (show_nat n) = show_nat n"
    "digits_value b (show_nat n) = n" "show_nat n \<noteq> []"
    unfolding b_def
  proof -
    have "takeWhile (\<lambda>c. digit_val c < 10) (show_nat n) = show_nat n" using dec by (auto simp: takeWhile_eq_all_conv)
    moreover have z: "show_nat 0 = ''0''" by (simp add: show_nat.simps digit_def)
    ultimately show "takeWhile (\<lambda>c. digit_val c < (if n = 0 then 8 else 10)) (show_nat n) = show_nat n"
      by (cases "n = 0") (simp_all add: digit_val_def)
    show "digits_value (if n = 0 then 8 else 10) (show_nat n) = n"
    proof (cases "n = 0")
      case True
      then show ?thesis by (simp add: z digits_value_def digit_val_def)
    qed simp
    show "show_nat n \<noteq> []" using c by simp
  qed
  have sp: "\<not> is_space CHR ''-''" by (simp add: is_space_def)
  show "strto 0 (''-'' @ show_nat n) = (True, n, [])"
    using sp by (simp add: strto_def starts_with_def Let_def pre val del: takeWhile_eq_all_conv)
  have "dropWhile is_space (show_nat n) = show_nat n" "\<not> starts_with ''-'' (show_nat n)" "\<not> starts_with ''+'' (show_nat n)"
    using dec c by (auto simp: starts_with_def)
  then show "strto 0 (show_nat n) = (False, n, [])"
    by (simp add: strto_def Let_def pre val)
qed

lemma strto_show_int: "strto 0 (show_int v) = (v < 0, nat \<bar>v\<bar>, [])" "show_int v \<noteq> []"
  using strto_show decimal_show_nat [of "nat v"] by (auto simp: show_int_def decimal_def)

lemma strtol_show_int:
  "strtol 0 (show_int v) = (clamp_long v, [])" "strtol_erange 0 (show_int v) \<longleftrightarrow> v < - (2 ^ 63) \<or> 2 ^ 63 \<le> v"
  "bad_text (show_int v) (w, []) \<longleftrightarrow> False"
  by (auto simp: strtol_def strtol_erange_def strto_show_int bad_text_def)

lemma strtoul_show_int:
  assumes "0 \<le> v"
  shows "strtoul 0 (show_int v) = (if 2 ^ 64 \<le> v then 2 ^ 64 - 1 else v, [])"
    "strtoul_erange 0 (show_int v) \<longleftrightarrow> 2 ^ 64 \<le> v"
  using assms by (auto simp: strtoul_def strtoul_erange_def strto_show_int)

lemma leading_minus_show_int: "leading_minus (show_int v) \<longleftrightarrow> v < 0"
proof -
  have head: "\<exists>c s. show_nat n = c # s \<and> \<not> is_space c \<and> c \<noteq> CHR ''-''" for n
  proof -
    obtain d s where "d < 10" "show_nat n = digit d # s" using show_nat_Cons [of n] by auto
    then show ?thesis using digit_facts [of d] by auto
  qed
  show ?thesis
  proof (cases "v < 0")
    case False
    obtain c s where "show_nat (nat v) = c # s" "\<not> is_space c" "c \<noteq> CHR ''-''" using head [of "nat v"] by blast
    then show ?thesis using False by (simp add: leading_minus_def show_int_def starts_with_def)
  qed (simp add: leading_minus_def show_int_def starts_with_def is_space_def)
qed

section \<open>Properties\<close>

text \<open>The integer checks accept exactly the values of their types: for the decimal text of every integer, the byte check accepts
  -128 to 255, the others the ranges of the 16-bit, 32-bit and signed 64-bit types.\<close>

lemma checks_accept_their_ranges:
  "(check_byte (show_int v) \<noteq> 0 \<longleftrightarrow> -128 \<le> v \<and> v \<le> 255) \<and>
   (check_int16 (show_int v) \<noteq> 0 \<longleftrightarrow> - (2 ^ 15) \<le> v \<and> v < 2 ^ 15) \<and>
   (check_uint16 (show_int v) \<noteq> 0 \<longleftrightarrow> 0 \<le> v \<and> v < 2 ^ 16) \<and>
   (check_int32 (show_int v) \<noteq> 0 \<longleftrightarrow> - (2 ^ 31) \<le> v \<and> v < 2 ^ 31) \<and>
   (check_uint32 (show_int v) \<noteq> 0 \<longleftrightarrow> 0 \<le> v \<and> v < 2 ^ 32) \<and>
   (check_int64 (show_int v) \<noteq> 0 \<longleftrightarrow> - (2 ^ 63) \<le> v \<and> v < 2 ^ 63)"
proof -
  have "check_uint16 (show_int v) \<noteq> 0 \<longleftrightarrow> 0 \<le> v \<and> v < 2 ^ 16"
  proof (cases "v < 0")
    case True
    have "clamp_long v mod 2 ^ 64 = clamp_long v + 2 ^ 64"
      using True by (intro mod_pos_pos_trivial [THEN trans [OF mod_add_self2 [symmetric]]]) (auto simp: clamp_long_def)
    then show ?thesis
      using True by (simp add: check_uint16_def strtol_show_int dods_limits clamp_long_def)
  next
    case False
    then have "clamp_long v mod 2 ^ 64 = clamp_long v" by (intro mod_pos_pos_trivial) (auto simp: clamp_long_def)
    then show ?thesis using False by (auto simp: check_uint16_def strtol_show_int dods_limits clamp_long_def)
  qed
  moreover have "check_uint32 (show_int v) \<noteq> 0 \<longleftrightarrow> 0 \<le> v \<and> v < 2 ^ 32"
    by (auto simp: check_uint32_def leading_minus_show_int strtoul_show_int strtol_show_int dods_limits)
  ultimately show ?thesis
    by (auto simp: check_byte_def check_int16_def check_int32_def check_int64_def strtol_show_int dods_limits clamp_long_def)
qed

text \<open>The unsigned 64-bit check and the 32-bit conversions truncate.  \<open>check_uint64\<close> returns the low 32 bits of the value, so
  it rejects 0 and every multiple of \<open>2 ^ 32\<close>; \<open>get_int32\<close> and \<open>get_uint32\<close> accept values outside their
  types and return them modulo \<open>2 ^ 32\<close>.\<close>

lemma conversions_truncate:
  assumes "0 \<le> v" "v < 2 ^ 63"
  shows "check_uint64 (show_int v) = to_int v \<and> (v mod 2 ^ 32 = 0 \<longrightarrow> check_uint64 (show_int v) = 0) \<and>
    get_int32 (show_int v) = Inr (to_int v) \<and> get_uint32 (show_int v) = Inr (v mod 2 ^ 32)"
proof -
  have "to_int v = 0" if "v mod 2 ^ 32 = 0"
  proof -
    have "(of_int v :: 32 word) = 0" using that by (simp add: word_of_int_eq_0_iff dvd_eq_mod_eq_0)
    then show ?thesis by (simp add: to_int_def)
  qed
  moreover have "DODS_INT_MIN \<le> to_int v \<and> to_int v \<le> DODS_INT_MAX"
    using sint_range_size [of "of_int v :: 32 word"] by (simp add: to_int_def dods_limits word_size)
  moreover have "v mod 2 ^ 32 \<le> DODS_UINT_MAX"
    using pos_mod_bound [of "2 ^ 32" v] by (simp add: dods_limits)
  ultimately show ?thesis
    using assms
    by (simp add: check_uint64_def get_int32_def get_uint32_def leading_minus_show_int strtoul_show_int strtol_show_int
        clamp_long_def to_uint_def DODS_ULLONG_MAX_def not_le not_less)
qed

section \<open>Witnesses\<close>

lemma checks_accept_their_ranges_witness:
  "check_int16 (show_int 32767) \<noteq> 0 \<and> check_int16 (show_int 32768) = 0"
  using checks_accept_their_ranges [of 32767] checks_accept_their_ranges [of 32768] by simp

lemma conversions_truncate_witness:
  "check_uint64 (show_int (2 ^ 32)) = 0 \<and> get_uint32 (show_int (2 ^ 32 + 1)) = Inr 1"
  using conversions_truncate [of "2 ^ 32"] conversions_truncate [of "2 ^ 32 + 1"] by simp

end
