(* ===== verification/Crc.thy ===== *)
theory Crc
  imports CLib
begin

text \<open>
  The CRC-32 of \<open>crc.h\<close>: the table, the class \<open>Crc32\<close> (its one field is the register), and the serial
  shift register it speeds up.  What is proved: every table entry is eight steps of the register,
  the table-driven update is the serial one on the bits of the data, and the checksum tells apart
  any two messages that differ only within four consecutive bytes.
\<close>

unbundle bit_operations_syntax

section \<open>The class Crc32\<close>

definition kCrc32Table :: "u32 list" where
  "kCrc32Table = [
     0x00000000, 0x77073096, 0xee0e612c, 0x990951ba,
     0x076dc419, 0x706af48f, 0xe963a535, 0x9e6495a3,
     0x0edb8832, 0x79dcb8a4, 0xe0d5e91e, 0x97d2d988,
     0x09b64c2b, 0x7eb17cbd, 0xe7b82d07, 0x90bf1d91,
     0x1db71064, 0x6ab020f2, 0xf3b97148, 0x84be41de,
     0x1adad47d, 0x6ddde4eb, 0xf4d4b551, 0x83d385c7,
     0x136c9856, 0x646ba8c0, 0xfd62f97a, 0x8a65c9ec,
     0x14015c4f, 0x63066cd9, 0xfa0f3d63, 0x8d080df5,
     0x3b6e20c8, 0x4c69105e, 0xd56041e4, 0xa2677172,
     0x3c03e4d1, 0x4b04d447, 0xd20d85fd, 0xa50ab56b,
     0x35b5a8fa, 0x42b2986c, 0xdbbbc9d6, 0xacbcf940,
     0x32d86ce3, 0x45df5c75, 0xdcd60dcf, 0xabd13d59,
     0x26d930ac, 0x51de003a, 0xc8d75180, 0xbfd06116,
     0x21b4f4b5, 0x56b3c423, 0xcfba9599, 0xb8bda50f,
     0x2802b89e, 0x5f058808, 0xc60cd9b2, 0xb10be924,
     0x2f6f7c87, 0x58684c11, 0xc1611dab, 0xb6662d3d,
     0x76dc4190, 0x01db7106, 0x98d220bc, 0xefd5102a,
     0x71b18589, 0x06b6b51f, 0x9fbfe4a5, 0xe8b8d433,
     0x7807c9a2, 0x0f00f934, 0x9609a88e, 0xe10e9818,
     0x7f6a0dbb, 0x086d3d2d, 0x91646c97, 0xe6635c01,
     0x6b6b51f4, 0x1c6c6162, 0x856530d8, 0xf262004e,
     0x6c0695ed, 0x1b01a57b, 0x8208f4c1, 0xf50fc457,
     0x65b0d9c6, 0x12b7e950, 0x8bbeb8ea, 0xfcb9887c,
     0x62dd1ddf, 0x15da2d49, 0x8cd37cf3, 0xfbd44c65,
     0x4db26158, 0x3ab551ce, 0xa3bc0074, 0xd4bb30e2,
     0x4adfa541, 0x3dd895d7, 0xa4d1c46d, 0xd3d6f4fb,
     0x4369e96a, 0x346ed9fc, 0xad678846, 0xda60b8d0,
     0x44042d73, 0x33031de5, 0xaa0a4c5f, 0xdd0d7cc9,
     0x5005713c, 0x270241aa, 0xbe0b1010, 0xc90c2086,
     0x5768b525, 0x206f85b3, 0xb966d409, 0xce61e49f,
     0x5edef90e, 0x29d9c998, 0xb0d09822, 0xc7d7a8b4,
     0x59b33d17, 0x2eb40d81, 0xb7bd5c3b, 0xc0ba6cad,
     0xedb88320, 0x9abfb3b6, 0x03b6e20c, 0x74b1d29a,
     0xead54739, 0x9dd277af, 0x04db2615, 0x73dc1683,
     0xe3630b12, 0x94643b84, 0x0d6d6a3e, 0x7a6a5aa8,
     0xe40ecf0b, 0x9309ff9d, 0x0a00ae27, 0x7d079eb1,
     0xf00f9344, 0x8708a3d2, 0x1e01f268, 0x6906c2fe,
     0xf762575d, 0x806567cb, 0x196c3671, 0x6e6b06e7,
     0xfed41b76, 0x89d32be0, 0x10da7a5a, 0x67dd4acc,
     0xf9b9df6f, 0x8ebeeff9, 0x17b7be43, 0x60b08ed5,
     0xd6d6a3e8, 0xa1d1937e, 0x38d8c2c4, 0x4fdff252,
     0xd1bb67f1, 0xa6bc5767, 0x3fb506dd, 0x48b2364b,
     0xd80d2bda, 0xaf0a1b4c, 0x36034af6, 0x41047a60,
     0xdf60efc3, 0xa867df55, 0x316e8eef, 0x4669be79,
     0xcb61b38c, 0xbc66831a, 0x256fd2a0, 0x5268e236,
     0xcc0c7795, 0xbb0b4703, 0x220216b9, 0x5505262f,
     0xc5ba3bbe, 0xb2bd0b28, 0x2bb45a92, 0x5cb36a04,
     0xc2d7ffa7, 0xb5d0cf31, 0x2cd99e8b, 0x5bdeae1d,
     0x9b64c2b0, 0xec63f226, 0x756aa39c, 0x026d930a,
     0x9c0906a9, 0xeb0e363f, 0x72076785, 0x05005713,
     0x95bf4a82, 0xe2b87a14, 0x7bb12bae, 0x0cb61b38,
     0x92d28e9b, 0xe5d5be0d, 0x7cdcefb7, 0x0bdbdf21,
     0x86d3d2d4, 0xf1d4e242, 0x68ddb3f8, 0x1fda836e,
     0x81be16cd, 0xf6b9265b, 0x6fb077e1, 0x18b74777,
     0x88085ae6, 0xff0f6a70, 0x66063bca, 0x11010b5c,
     0x8f659eff, 0xf862ae69, 0x616bffd3, 0x166ccf45,
     0xa00ae278, 0xd70dd2ee, 0x4e048354, 0x3903b3c2,
     0xa7672661, 0xd06016f7, 0x4969474d, 0x3e6e77db,
     0xaed16a4a, 0xd9d65adc, 0x40df0b66, 0x37d83bf0,
     0xa9bcae53, 0xdebb9ec5, 0x47b2cf7f, 0x30b5ffe9,
     0xbdbdf21c, 0xcabac28a, 0x53b39330, 0x24b4a3a6,
     0xbad03605, 0xcdd70693, 0x54de5729, 0x23d967bf,
     0xb3667a2e, 0xc4614ab8, 0x5d681b02, 0x2a6f2b94,
     0xb40bbe37, 0xc30c8ea1, 0x5a05df1b, 0x2d02ef8d]"

text \<open>\<open>Reset\<close>, which the constructor calls.\<close>

definition Reset :: u32 where
  "Reset = NOT 0"

definition crc_step :: "u32 \<Rightarrow> u8 \<Rightarrow> u32" where
  "crc_step crc b = drop_bit 8 crc XOR kCrc32Table ! unat ((crc XOR ucast b) AND 0xff)"

text \<open>The loop of \<open>AddData\<close>: \<open>remaining\<close> starts at the length, a \<open>uint32_t\<close>.\<close>

definition AddData :: "u32 \<Rightarrow> u8 list \<Rightarrow> u32 \<Rightarrow> u32" where
  "AddData crc data len = foldl crc_step crc (take (unat len) data)"

definition GetCrc32 :: "u32 \<Rightarrow> u32" where
  "GetCrc32 crc = NOT crc"

section \<open>The serial shift register\<close>

definition crc_shift :: "u32 \<Rightarrow> u32" where
  "crc_shift c = (if bit c 0 then drop_bit 1 c XOR 0xEDB88320 else drop_bit 1 c)"

definition lfsr :: "u32 \<Rightarrow> bool \<Rightarrow> u32" where
  "lfsr c p = crc_shift (c XOR of_bool p)"

definition byte_bits :: "u8 \<Rightarrow> bool list" where
  "byte_bits b = map (bit b) [0..<8]"

definition msg_bits :: "u8 list \<Rightarrow> bool list" where
  "msg_bits bs = concat (map byte_bits bs)"

lemma msg_bits_simps [simp]: "msg_bits [] = []" "msg_bits (b # bs) = byte_bits b @ msg_bits bs"
  by (simp_all add: msg_bits_def)

lemma length_byte_bits [simp]: "length (byte_bits b) = 8"
  by (simp add: byte_bits_def)

lemma length_msg_bits [simp]: "length (msg_bits bs) = 8 * length bs"
  by (induction bs) simp_all

subsection \<open>The table\<close>

text \<open>The table is computed over \<open>nat\<close> and carried over to words.\<close>

definition shift_num :: "nat \<Rightarrow> nat" where
  "shift_num k = (if even k then k div 2 else (k div 2) XOR 0xEDB88320)"

lemma shift_num_numeral [simp]:
  "shift_num 0 = 0" "shift_num 1 = 0xEDB88320" "shift_num (Suc 0) = 0xEDB88320"
  "shift_num (numeral (num.Bit0 m)) = numeral m"
  "shift_num (numeral (num.Bit1 m)) = numeral m XOR 0xEDB88320"
  by (simp_all add: shift_num_def)

lemma funpow_8: "(f ^^ 8) x = f (f (f (f (f (f (f (f x)))))))"
  by (simp add: numeral_eq_Suc)

lemma bytes_upt: "[0..<256] = 0 # 1 # [2..<256]"
  by (simp add: upt_conv_Cons numeral_2_eq_2)

lemma table_num: "kCrc32Table = map (\<lambda>i. of_nat ((shift_num ^^ 8) i)) [0..<256]"
  unfolding bytes_upt funpow_8 by (simp add: kCrc32Table_def upt_rec_numeral)

lemma shift_num_bound: "k < 2 ^ 32 \<Longrightarrow> shift_num k < 2 ^ 32"
proof -
  assume k: "k < 2 ^ 32"
  have "take_bit 32 ((k div 2) XOR 0xEDB88320) = (k div 2) XOR (0xEDB88320 :: nat)"
    unfolding take_bit_xor using k by (simp add: take_bit_nat_eq_self)
  then have "(k div 2) XOR 0xEDB88320 < (2 :: nat) ^ 32"
    by (metis take_bit_nat_less_exp)
  then show ?thesis using k by (auto simp: shift_num_def)
qed

lemma crc_shift_of_nat: "k < 2 ^ 32 \<Longrightarrow> crc_shift (of_nat k) = of_nat (shift_num k)"
proof -
  assume k: "k < 2 ^ 32"
  have "unat (drop_bit 1 (of_nat k :: u32)) = unat (of_nat (k div 2) :: u32)"
    unfolding unat_drop_bit_eq using k by (simp add: drop_bit_eq_div unat_of_nat take_bit_nat_eq_self)
  then have "drop_bit 1 (of_nat k :: u32) = of_nat (k div 2)"
    by (simp only: word_unat_eq_iff)
  moreover have "bit (of_nat k :: u32) 0 = odd k"
    by (simp add: bit_0)
  ultimately show ?thesis
    by (simp add: crc_shift_def shift_num_def of_nat_xor_eq)
qed

lemma crc_shift_8_of_nat:
  "k < 2 ^ 32 \<Longrightarrow> (crc_shift ^^ n) (of_nat k) = of_nat ((shift_num ^^ n) k) \<and> (shift_num ^^ n) k < 2 ^ 32"
proof (induction n)
  case (Suc n)
  then show ?case
    using crc_shift_of_nat [of "(shift_num ^^ n) k"] shift_num_bound [of "(shift_num ^^ n) k"] by simp
qed simp

lemma kCrc32Table_shift: "x < 256 \<Longrightarrow> kCrc32Table ! unat x = (crc_shift ^^ 8) x" for x :: u32
proof -
  assume "x < 256"
  then have "unat x < 256" by (simp add: word_less_nat_alt)
  moreover have "x = of_nat (unat x)" by simp
  ultimately show ?thesis
    unfolding table_num using crc_shift_8_of_nat [of "unat x" 8] by simp
qed

subsection \<open>The register is linear and injective\<close>

lemma xor_if: "(if a \<noteq> b then (x XOR y) XOR p else x XOR y) =
    (if a then x XOR p else x) XOR (if b then y XOR p else (y :: u32))"
  by (cases a; cases b; intro bit_eqI) (auto simp: bit_xor_iff)

lemma crc_shift_xor: "crc_shift (c XOR d) = crc_shift c XOR crc_shift d"
  unfolding crc_shift_def drop_bit_xor bit_xor_iff xor_if [symmetric] by simp

lemma xor_eq_0: "c XOR d = 0 \<Longrightarrow> c = (d :: u32)"
proof -
  assume "c XOR d = 0"
  moreover have "c = (c XOR d) XOR d" by (rule bit_eqI) (auto simp: bit_xor_iff)
  ultimately show ?thesis by simp
qed

lemma crc_shift_zero: "crc_shift x = 0 \<Longrightarrow> x = 0"
proof (rule ccontr)
  assume x: "crc_shift x = 0" "x \<noteq> 0"
  show False
  proof (cases "bit x 0")
    case True
    then have "bit (drop_bit 1 x XOR 0xEDB88320) 31 = bit (0 :: u32) 31" using x by (simp add: crc_shift_def)
    then show False using bit_imp_le_length [of x 32] by (auto simp: bit_xor_iff bit_drop_bit_eq)
  next
    case False
    have "bit x n = False" for n
    proof (cases n)
      case (Suc m)
      have "bit (drop_bit 1 x) m = bit (0 :: u32) m" using False x by (simp add: crc_shift_def)
      then show ?thesis by (simp add: Suc bit_drop_bit_eq)
    qed (use False in simp)
    then have "x = 0" by (intro bit_eqI) simp
    then show False using x by simp
  qed
qed

lemma inj_crc_shift: "crc_shift c = crc_shift d \<Longrightarrow> c = d"
  using crc_shift_zero [of "c XOR d"] by (auto simp: crc_shift_xor dest: xor_eq_0)

lemma crc_shifts_xor: "(crc_shift ^^ n) (c XOR d) = (crc_shift ^^ n) c XOR (crc_shift ^^ n) d"
  by (induction n) (simp_all add: crc_shift_xor)

lemma inj_crc_shifts: "(crc_shift ^^ n) c = (crc_shift ^^ n) d \<Longrightarrow> c = d"
  by (induction n) (auto dest: inj_crc_shift)

lemma crc_shifts_low: "\<forall>i<n. \<not> bit c i \<Longrightarrow> (crc_shift ^^ n) c = drop_bit n c"
proof (induction n arbitrary: c)
  case (Suc n)
  then have "crc_shift c = drop_bit 1 c" by (simp add: crc_shift_def)
  moreover have "\<forall>i<n. \<not> bit (drop_bit 1 c) i" using Suc.prems by (simp add: bit_drop_bit_eq)
  ultimately show ?case
    using Suc.IH [of "drop_bit 1 c"] by (simp add: funpow_Suc_right del: funpow.simps)
qed simp

subsection \<open>Registers and messages\<close>

abbreviation bits_word :: "bool list \<Rightarrow> u32" where
  "bits_word ps \<equiv> horner_sum of_bool 2 ps"

lemma bit_bits_word: "bit (bits_word ps) n \<longleftrightarrow> n < 32 \<and> n < length ps \<and> ps ! n"
  by (auto simp: bit_horner_sum_bit_word_iff)

lemma crc_shift_double: "\<not> bit w 31 \<Longrightarrow> crc_shift (2 * w) = w"
proof -
  assume w: "\<not> bit w 31"
  have "drop_bit 1 (2 * w) = w"
  proof (rule bit_word_eqI)
    fix n assume "n < LENGTH(32)"
    then show "bit (drop_bit 1 (2 * w)) n = bit w n"
      using w by (cases "n = 31") (auto simp: bit_drop_bit_eq bit_double_iff)
  qed
  moreover have "\<not> bit (2 * w) 0" by (simp only: bit_double_iff) simp
  ultimately show ?thesis by (simp add: crc_shift_def)
qed

lemma bits_word_Cons: "bits_word (p # ps) = of_bool p XOR 2 * bits_word ps"
proof (rule bit_word_eqI)
  fix n assume "n < LENGTH(32)"
  then show "bit (bits_word (p # ps)) n = bit (of_bool p XOR 2 * bits_word ps) n"
    unfolding bit_xor_iff bit_double_iff bit_bits_word by (cases n) auto
qed

lemma lfsr_bits: "length ps \<le> 32 \<Longrightarrow> foldl lfsr c ps = (crc_shift ^^ length ps) (c XOR bits_word ps)"
proof (induction ps arbitrary: c)
  case (Cons p ps)
  then have "\<not> bit (bits_word ps) 31" by (simp add: bit_bits_word)
  then have "lfsr c p XOR bits_word ps = crc_shift ((c XOR of_bool p) XOR 2 * bits_word ps)"
    by (simp add: lfsr_def crc_shift_xor crc_shift_double)
  also have "(c XOR of_bool p) XOR 2 * bits_word ps = c XOR bits_word (p # ps)"
    by (simp only: bits_word_Cons xor.assoc)
  finally show ?case
    using Cons by (simp add: funpow_Suc_right del: funpow.simps)
qed simp

lemma bits_word_byte: "bits_word (byte_bits b) = ucast b"
proof (rule bit_word_eqI)
  fix n assume "n < LENGTH(32)"
  then show "bit (bits_word (byte_bits b)) n = bit (ucast b :: u32) n"
    using bit_imp_le_length [of b n] by (auto simp: bit_bits_word bit_ucast_iff byte_bits_def)
qed

lemma lfsr_byte: "foldl lfsr c (byte_bits b) = (crc_shift ^^ 8) (c XOR ucast b)"
  using lfsr_bits [of "byte_bits b" c] by (simp add: bits_word_byte)

lemma drop_high: "drop_bit k (x AND NOT (mask k)) = drop_bit k (x :: u32)"
  by (rule bit_eqI) (auto simp: bit_simps dest: bit_imp_le_length)

lemma split_mask: "x = (x AND mask k) XOR (x AND NOT (mask k))" for x :: u32
  by (rule bit_eqI) (auto simp: bit_simps)

lemma drop_xor_byte: "drop_bit 8 (c XOR ucast (b :: u8)) = drop_bit 8 (c :: u32)"
  by (rule bit_eqI) (auto simp: bit_simps dest: bit_imp_le_length)

lemma crc_step_serial: "crc_step c b = foldl lfsr c (byte_bits b)"
proof -
  let ?x = "c XOR ucast b"
  have ff: "(0xff :: u32) = mask 8" by (simp add: mask_eq_exp_minus_1)
  have "\<forall>i<8. \<not> bit (?x AND NOT (mask 8)) i"
    by (auto simp only: bit_and_iff bit_not_iff bit_mask_iff possible_bit_word)
  then have high: "(crc_shift ^^ 8) (?x AND NOT (mask 8)) = drop_bit 8 c"
    by (simp only: crc_shifts_low drop_high drop_xor_byte)
  have "?x AND mask 8 < 256"
    using take_bit_nat_less_exp [of 8 "unat ?x"]
    unfolding word_less_nat_alt take_bit_eq_mask [symmetric] unsigned_take_bit_eq by simp
  then have "crc_step c b = (crc_shift ^^ 8) (?x AND NOT (mask 8)) XOR (crc_shift ^^ 8) (?x AND mask 8)"
    unfolding high crc_step_def ff by (simp only: kCrc32Table_shift)
  also have "\<dots> = (crc_shift ^^ 8) (?x AND mask 8) XOR (crc_shift ^^ 8) (?x AND NOT (mask 8))"
    by (rule xor.commute)
  also have "\<dots> = (crc_shift ^^ 8) ?x"
    by (simp only: crc_shifts_xor [symmetric] split_mask [symmetric])
  finally show ?thesis by (simp only: lfsr_byte)
qed

lemma crc_serial: "foldl crc_step c bs = foldl lfsr c (msg_bits bs)"
  by (induction bs arbitrary: c) (simp_all add: crc_step_serial)

lemma inj_crc_step: "crc_step c b = crc_step d b \<Longrightarrow> c = d"
proof -
  assume "crc_step c b = crc_step d b"
  then have "c XOR ucast b = d XOR ucast b"
    unfolding crc_step_serial lfsr_byte by (rule inj_crc_shifts)
  then have "(c XOR ucast b) XOR ucast b = (d XOR ucast b) XOR ucast b" by simp
  then show ?thesis by (simp only: xor.assoc xor_self_eq) simp
qed

lemma inj_crc: "foldl crc_step c bs = foldl crc_step d bs \<Longrightarrow> c = d"
  by (induction bs arbitrary: c d) (auto dest: inj_crc_step)

lemma inj_bits_word: "bits_word ps = bits_word qs \<Longrightarrow> length ps = length qs \<Longrightarrow> length ps \<le> 32 \<Longrightarrow> ps = qs"
proof (rule nth_equalityI)
  fix i assume "bits_word ps = bits_word qs" "length ps = length qs" "length ps \<le> 32" "i < length ps"
  then show "ps ! i = qs ! i"
    using bit_bits_word [of ps i] bit_bits_word [of qs i] by simp
qed

lemma inj_byte_bits: "byte_bits a = byte_bits b \<Longrightarrow> a = b"
  by (rule bit_word_eqI) (auto simp: byte_bits_def)

lemma inj_msg_bits: "length xs = length ys \<Longrightarrow> msg_bits xs = msg_bits ys \<Longrightarrow> xs = ys"
  by (induction xs ys rule: list_induct2) (auto dest: inj_byte_bits)

lemma inj_crc_data:
  assumes "foldl crc_step c xs = foldl crc_step c ys" "length xs = length ys" "length xs \<le> 4"
  shows "xs = ys"
proof -
  have "c XOR bits_word (msg_bits xs) = c XOR bits_word (msg_bits ys)"
    using assms lfsr_bits [of "msg_bits xs" c] lfsr_bits [of "msg_bits ys" c]
    by (auto simp: crc_serial dest: inj_crc_shifts)
  then have "c XOR (c XOR bits_word (msg_bits xs)) = c XOR (c XOR bits_word (msg_bits ys))" by simp
  then have "bits_word (msg_bits xs) = bits_word (msg_bits ys)"
    by (simp only: xor.assoc [symmetric] xor_self_eq) simp
  then show ?thesis
    using inj_bits_word [of "msg_bits xs" "msg_bits ys"] assms(2,3) by (auto dest: inj_msg_bits)
qed

section \<open>Properties\<close>

text \<open>The checksum of a message shorter than 4 GiB, as the users of the class compute it.\<close>

definition crc32 :: "u8 list \<Rightarrow> u32" where
  "crc32 data = GetCrc32 (AddData Reset data (of_nat (length data)))"

lemma AddData_all: "length data < 2 ^ 32 \<Longrightarrow> AddData c data (of_nat (length data)) = foldl crc_step c data"
  by (simp add: AddData_def unat_of_nat)

text \<open>C18: The table-driven checksum is the CRC-32 of the serial shift register with polynomial
  \<open>EDB88320\<close> (reflected): \<open>AddData\<close> leaves the register as shifting in the bits of the first \<open>length\<close>
  bytes one by one, lowest bit of each byte first, does; so adding data in pieces is the same as adding it
  at once.\<close>

theorem AddData_serial:
  "AddData c data len = foldl lfsr c (msg_bits (take (unat len) data)) \<and>
   AddData (AddData c data len) data' len' =
     foldl lfsr c (msg_bits (take (unat len) data @ take (unat len') data'))"
  by (simp add: AddData_def crc_serial [symmetric])

text \<open>C19: Two messages of the same length below 4 GiB that differ, and differ only within four consecutive
  bytes (any error burst of at most 32 bits that is aligned to bytes), have different checksums.\<close>

theorem crc32_detects_burst:
  assumes "length xs = length ys" "length xs \<le> 4" "xs \<noteq> ys" "length p + length xs + length s < 2 ^ 32"
  shows "crc32 (p @ xs @ s) \<noteq> crc32 (p @ ys @ s)"
proof
  assume "crc32 (p @ xs @ s) = crc32 (p @ ys @ s)"
  then have "foldl crc_step Reset (p @ xs @ s) = foldl crc_step Reset (p @ ys @ s)"
    using assms(1,4) AddData_all [of "p @ xs @ s" Reset] AddData_all [of "p @ ys @ s" Reset]
    by (simp add: crc32_def GetCrc32_def)
  then have "foldl crc_step (foldl crc_step Reset p) xs = foldl crc_step (foldl crc_step Reset p) ys"
    by (auto dest: inj_crc)
  then show False
    using inj_crc_data assms(1-3) by blast
qed

theorem crc32_detects_burst_witness: "crc32 [1, 2, 3] \<noteq> crc32 [1, 7, 3]"
  using crc32_detects_burst [of "[2]" "[7]" "[1]" "[3]"] by simp

end
