(* ===== verification/ChunkFormat.thy ===== *)
theory ChunkFormat
  imports CLib
begin

unbundle bit_operations_syntax

text \<open>
  The chunked transfer format of DAP4 responses (\<open>chunked_stream.h\<close>): every chunk is a 32-bit
  header in network byte order, with the type, the byte-order flag and the size of the body,
  followed by the body.  The theory also holds the models of \<open>std::ostream\<close> and
  \<open>std::istream\<close> over bytes that the two stream buffers use.
\<close>

text \<open>The bytes of a text constant.\<close>

definition bytes_of :: "string \<Rightarrow> u8 list" where
  "bytes_of s = map (\<lambda>c. of_nat (of_char c)) s"

section \<open>Headers\<close>

definition CHUNK_DATA :: u32 where "CHUNK_DATA = 0x00000000"
definition CHUNK_END :: u32 where "CHUNK_END = 0x01000000"
definition CHUNK_ERR :: u32 where "CHUNK_ERR = 0x02000000"
definition CHUNK_LITTLE_ENDIAN :: u32 where "CHUNK_LITTLE_ENDIAN = 0x04000000"
definition CHUNK_TYPE_MASK :: u32 where "CHUNK_TYPE_MASK = 0x03000000"
definition CHUNK_SIZE_MASK :: u32 where "CHUNK_SIZE_MASK = 0x00FFFFFF"

lemmas chunk_constants = CHUNK_DATA_def CHUNK_END_def CHUNK_ERR_def CHUNK_LITTLE_ENDIAN_def
  CHUNK_TYPE_MASK_def CHUNK_SIZE_MASK_def

text \<open>
  \<open>htonl\<close> followed by writing the four bytes of the word, and reading four bytes followed by
  \<open>ntohl\<close>, do the same on hosts of either byte order: most significant byte first.
\<close>

definition be32 :: "u32 \<Rightarrow> u8 list" where
  "be32 w = [ucast (drop_bit 24 w), ucast (drop_bit 16 w), ucast (drop_bit 8 w), ucast w]"

fun be32_val :: "u8 list \<Rightarrow> u32" where
  "be32_val (a # b # c # d # _) =
     push_bit 24 (ucast a) OR push_bit 16 (ucast b) OR push_bit 8 (ucast c) OR ucast d"
| "be32_val _ = 0"

lemma length_be32 [simp]: "length (be32 w) = 4"
  by (simp add: be32_def)

lemma be32_val_be32 [simp]: "be32_val (be32 w @ rest) = w"
proof -
  have "bit (be32_val (be32 w)) n = bit w n" if n: "n < 32" for n
  proof -
    consider "n < 8" | "8 \<le> n" "n < 16" | "16 \<le> n" "n < 24" | "24 \<le> n" "n < 32"
      using n by linarith
    then show ?thesis by cases (auto simp: be32_def bit_simps less_diff_conv2)
  qed
  then have "be32_val (be32 w) = w" by (intro bit_word_eqI) simp
  then show ?thesis by (simp add: be32_def)
qed

lemma be32_val_be32_only [simp]: "be32_val (be32 w) = w"
  using be32_val_be32 [of w "[]"] by simp

section \<open>Chunks\<close>

datatype chunk_type = Data_Chunk | End_Chunk | Err_Chunk

datatype chunk = Chunk (ctype: chunk_type) (body: "u8 list")

definition type_bits :: "chunk_type \<Rightarrow> u32" where
  "type_bits t = (case t of Data_Chunk \<Rightarrow> CHUNK_DATA | End_Chunk \<Rightarrow> CHUNK_END | Err_Chunk \<Rightarrow> CHUNK_ERR)"

definition order_bit :: "bool \<Rightarrow> u32" where
  "order_bit big = (if big then 0 else CHUNK_LITTLE_ENDIAN)"

definition header_word :: "bool \<Rightarrow> chunk_type \<Rightarrow> nat \<Rightarrow> u32" where
  "header_word big t n = of_nat n OR type_bits t OR order_bit big"

definition encode_chunk :: "bool \<Rightarrow> chunk \<Rightarrow> u8 list" where
  "encode_chunk big c = be32 (header_word big (ctype c) (length (body c))) @ body c"

definition encode_chunks :: "bool \<Rightarrow> chunk list \<Rightarrow> u8 list" where
  "encode_chunks big cs = concat (map (encode_chunk big) cs)"

text \<open>A chunk can carry its body when the size fits in the 24 bits of the header.\<close>

definition chunk_ok :: "chunk \<Rightarrow> bool" where
  "chunk_ok c \<longleftrightarrow> length (body c) \<le> 0x00FFFFFF"

lemma of_nat_size_mask:
  assumes "n \<le> 0x00FFFFFF"
  shows "(of_nat n :: u32) AND CHUNK_SIZE_MASK = of_nat n" "(of_nat n :: u32) AND CHUNK_TYPE_MASK = 0"
    "(of_nat n :: u32) AND CHUNK_LITTLE_ENDIAN = 0"
proof -
  have "(of_nat n :: u32) AND mask 24 = of_nat n"
    using assms by (simp add: take_bit_eq_mask [symmetric] take_bit_of_nat take_bit_nat_eq_self)
  then show 1: "(of_nat n :: u32) AND CHUNK_SIZE_MASK = of_nat n"
    by (simp add: CHUNK_SIZE_MASK_def mask_eq_exp_minus_1)
  show "(of_nat n :: u32) AND CHUNK_TYPE_MASK = 0"
    by (subst 1 [symmetric]) (simp add: and.assoc chunk_constants)
  show "(of_nat n :: u32) AND CHUNK_LITTLE_ENDIAN = 0"
    by (subst 1 [symmetric]) (simp add: and.assoc chunk_constants)
qed

lemma of_nat_eq_0_small:
  assumes "unat (of_nat n :: u32) = n"
  shows "of_nat n = (0 :: u32) \<longleftrightarrow> n = 0" "0 < (of_nat n :: u32) \<longleftrightarrow> 0 < n"
proof -
  show "of_nat n = (0 :: u32) \<longleftrightarrow> n = 0"
    using assms by (cases "n = 0") auto
  then show "0 < (of_nat n :: u32) \<longleftrightarrow> 0 < n" by (simp add: word_gt_0)
qed

lemma header_fields:
  assumes "n \<le> 0x00FFFFFF"
  shows "unat (header_word big t n AND CHUNK_SIZE_MASK) = n"
    "header_word big t n AND CHUNK_TYPE_MASK = type_bits t"
    "header_word big t n AND CHUNK_LITTLE_ENDIAN = order_bit big"
proof -
  note o = of_nat_size_mask [OF assms]
  have "header_word big t n AND CHUNK_SIZE_MASK = of_nat n"
    by (cases t; cases big) (simp_all add: header_word_def bit.conj_disj_distrib2 o type_bits_def order_bit_def,
        simp_all add: chunk_constants)
  then show "unat (header_word big t n AND CHUNK_SIZE_MASK) = n"
    using assms by (simp add: unat_of_nat)
  show "header_word big t n AND CHUNK_TYPE_MASK = type_bits t"
    by (cases t; cases big) (simp_all add: header_word_def bit.conj_disj_distrib2 o type_bits_def order_bit_def,
        simp_all add: chunk_constants)
  show "header_word big t n AND CHUNK_LITTLE_ENDIAN = order_bit big"
    by (cases t; cases big) (simp_all add: header_word_def bit.conj_disj_distrib2 o type_bits_def order_bit_def,
        simp_all add: chunk_constants)
qed

lemma encode_chunks_simps [simp]:
  "encode_chunks big [] = []"
  "encode_chunks big (c # cs) = encode_chunk big c @ encode_chunks big cs"
  "encode_chunks big (cs @ ds) = encode_chunks big cs @ encode_chunks big ds"
  by (simp_all add: encode_chunks_def)

section \<open>Streams of bytes\<close>

text \<open>
  An output stream: the bytes it has accepted, how many more its buffer can take (\<open>None\<close> for no
  limit), and \<open>badbit\<close>.  \<open>write\<close> does nothing on a bad stream and sets \<open>badbit\<close> when the
  buffer takes fewer bytes than it was given.
\<close>

record ostream =
  sent :: "u8 list"
  room :: "nat option"
  os_bad :: bool

definition os_write :: "ostream \<Rightarrow> u8 list \<Rightarrow> ostream" where
  "os_write os s =
     (if os_bad os then os
      else case room os of
        None \<Rightarrow> os\<lparr>sent := sent os @ s\<rparr>
      | Some n \<Rightarrow> os\<lparr>sent := sent os @ take n s, room := Some (n - length s), os_bad := n < length s\<rparr>)"

text \<open>
  An input stream: the bytes still to come and the three state bits.  \<open>read n\<close> transfers what
  there is, at most \<open>n\<close> bytes, and sets \<open>eofbit\<close> and \<open>failbit\<close> when that is fewer; on a
  stream that is not good it transfers nothing and sets \<open>failbit\<close>.
\<close>

record istream =
  pending :: "u8 list"
  eofbit :: bool
  failbit :: bool
  is_bad :: bool

definition is_good :: "istream \<Rightarrow> bool" where
  "is_good is \<longleftrightarrow> \<not> eofbit is \<and> \<not> failbit is \<and> \<not> is_bad is"

definition is_read :: "istream \<Rightarrow> nat \<Rightarrow> u8 list \<times> istream" where
  "is_read is n =
     (if \<not> is_good is then ([], is\<lparr>failbit := True\<rparr>)
      else if n \<le> length (pending is) then (take n (pending is), is\<lparr>pending := drop n (pending is)\<rparr>)
      else (pending is, is\<lparr>pending := [], eofbit := True, failbit := True\<rparr>))"

text \<open>\<open>traits_type::not_eof\<close> turns \<open>EOF\<close> into 0.\<close>

definition EOF :: int where "EOF = -1"

definition not_eof :: "int \<Rightarrow> int" where
  "not_eof v = (let c = to_int v in if c = EOF then 0 else c)"

lemma not_eof_small [simp]: "0 \<le> v \<Longrightarrow> v < 2 ^ 31 \<Longrightarrow> not_eof v = v"
  by (simp add: not_eof_def EOF_def)

end
