(* ===== verification/ChunkedOut.thy ===== *)
theory ChunkedOut
  imports ChunkFormat "HOL-Library.While_Combinator"
begin

text \<open>
  \<open>chunked_outbuf\<close> and \<open>chunked_ostream\<close> (\<open>chunked_ostream.h\<close>, \<open>chunked_ostream.cc\<close>): the stream
  buffer that cuts what is written into chunks.  The state is the record \<open>outbuf\<close>; the bytes
  between \<open>pbase()\<close> and \<open>pptr()\<close> are the list \<open>ob_buf\<close>, and \<open>epptr()\<close> is one byte before the end of
  the buffer, so a byte is stored by \<open>sputc\<close> while \<open>length ob_buf < d_buf_size - 1\<close>.  Operations
  return the value the C++ function returns and the new state; \<open>xsputn\<close>, which has a loop, returns
  an option, \<open>None\<close> when the loop does not end.
\<close>

section \<open>State and operations\<close>

record outbuf =
  ob_os :: ostream
  ob_size :: u32
  ob_buf :: "u8 list"
  ob_big :: bool

text \<open>The constructor; \<open>host_big\<close> is \<open>is_host_big_endian()\<close>.\<close>

definition make_outbuf :: "bool \<Rightarrow> ostream \<Rightarrow> u32 \<Rightarrow> outbuf result" where
  "make_outbuf host_big os sz =
     (if sz AND CHUNK_TYPE_MASK \<noteq> 0 then Inl (Std_Exception
        ''A chunked_outbuf (or chunked_ostream) was built using a buffer larger than 0x00ffffff'')
      else Inr \<lparr>ob_os = os, ob_size = sz, ob_buf = [], ob_big = host_big\<rparr>)"

definition out_header :: "outbuf \<Rightarrow> u32 \<Rightarrow> u8 list" where
  "out_header ob h = be32 (if ob_big ob then h else h OR CHUNK_LITTLE_ENDIAN)"

definition data_chunk :: "outbuf \<Rightarrow> int \<times> outbuf" where
  "data_chunk ob =
     (let num = length (ob_buf ob) in
      if num = 0 then (0, ob)
      else
        let os1 = os_write (ob_os ob) (out_header ob (of_nat num));
            os2 = os_write os1 (ob_buf ob) in
        if os_bad os2 then (EOF, ob\<lparr>ob_os := os2\<rparr>)
        else (int num, ob\<lparr>ob_os := os2, ob_buf := []\<rparr>))"

definition end_chunk :: "outbuf \<Rightarrow> int \<times> outbuf" where
  "end_chunk ob =
     (let num = length (ob_buf ob);
          os1 = os_write (ob_os ob) (out_header ob (of_nat num OR CHUNK_END));
          os2 = os_write os1 (ob_buf ob) in
      if os_bad os2 then (EOF, ob\<lparr>ob_os := os2\<rparr>)
      else (int num, ob\<lparr>ob_os := os2, ob_buf := []\<rparr>))"

definition too_long :: "u8 list" where
  "too_long = bytes_of ''Error message too long''"

definition err_chunk :: "outbuf \<Rightarrow> u8 list \<Rightarrow> int \<times> outbuf" where
  "err_chunk ob m =
     (let num = length (ob_buf ob);
          msg = (if length m > 0x00FFFFFF then too_long else m);
          os1 = os_write (ob_os ob) (out_header ob (of_nat (length msg) OR CHUNK_ERR));
          os2 = os_write os1 msg in
      if os_bad os2 then (EOF, ob\<lparr>ob_os := os2\<rparr>)
      else (int num, ob\<lparr>ob_os := os2, ob_buf := []\<rparr>))"

text \<open>
  \<open>overflow\<close> stores the byte it is given before it sends the buffer; \<open>None\<close> is the argument
  \<open>EOF\<close>.  \<open>sputc\<close> is the library's: it stores the byte when there is room before \<open>epptr()\<close>
  and calls \<open>overflow\<close> when there is not.
\<close>

definition overflow :: "outbuf \<Rightarrow> u8 option \<Rightarrow> int \<times> outbuf" where
  "overflow ob c =
     (let ob1 = (case c of None \<Rightarrow> ob | Some b \<Rightarrow> ob\<lparr>ob_buf := ob_buf ob @ [b]\<rparr>);
          (r, ob2) = data_chunk ob1 in
      if r = EOF then (EOF, ob2)
      else (not_eof (case c of None \<Rightarrow> EOF | Some b \<Rightarrow> uint b), ob2))"

definition sputc :: "outbuf \<Rightarrow> u8 \<Rightarrow> int \<times> outbuf" where
  "sputc ob b =
     (if int (length (ob_buf ob)) < uint (ob_size ob) - 1
      then (uint b, ob\<lparr>ob_buf := ob_buf ob @ [b]\<rparr>)
      else overflow ob (Some b))"

definition sync :: "outbuf \<Rightarrow> int \<times> outbuf" where
  "sync ob = (let (r, ob1) = data_chunk ob in (if r = EOF then not_eof (-1) else not_eof 0, ob1))"

text \<open>
  The loop of \<open>xsputn\<close>.  Its state: the sink, the bytes of \<open>s\<close> not sent yet, the counter
  \<open>bytes_still_to_send\<close>, which is a \<open>uint32_t\<close>, and whether the loop left through its return.
\<close>

definition send_cond :: "u32 \<Rightarrow> ostream \<times> u8 list \<times> u32 \<times> bool \<Rightarrow> bool" where
  "send_cond sz = (\<lambda>(os, s, still, failed). \<not> failed \<and> sz \<le> still)"

definition send_step :: "u8 list \<Rightarrow> u32 \<Rightarrow> ostream \<times> u8 list \<times> u32 \<times> bool \<Rightarrow> ostream \<times> u8 list \<times> u32 \<times> bool" where
  "send_step header sz = (\<lambda>(os, s, still, failed).
     let os1 = os_write os header;
         os2 = os_write os1 (take (unat sz) s) in
     if os_bad os2 then (os2, s, still, True)
     else (os2, drop (unat sz) s, still - sz, False))"

definition xsputn :: "outbuf \<Rightarrow> u8 list \<Rightarrow> (int \<times> outbuf) option" where
  "xsputn ob s =
     (let sz = ob_size ob; num = length s; in_buffer = length (ob_buf ob) in
      if in_buffer + num < unat sz
      then Some (not_eof (int num), ob\<lparr>ob_buf := ob_buf ob @ s\<rparr>)
      else
        let header = out_header ob sz;
            os1 = os_write (ob_os ob) header;
            os2 = os_write os1 (ob_buf ob) in
        if os_bad os2 then Some (not_eof 0, ob\<lparr>ob_os := os2, ob_buf := []\<rparr>)
        else
          let fill = nat (sint (sz - of_nat in_buffer));
              os3 = os_write os2 (take fill s) in
          if os_bad os3 then Some (not_eof 0, ob\<lparr>ob_os := os3, ob_buf := []\<rparr>)
          else
            case while_option (send_cond sz) (send_step header sz)
                   (os3, drop fill s, of_int (int num - int fill), False) of
              None \<Rightarrow> None
            | Some (os4, rest, still, failed) \<Rightarrow>
                if failed then Some (not_eof 0, ob\<lparr>ob_os := os4, ob_buf := []\<rparr>)
                else Some (not_eof (int num), ob\<lparr>ob_os := os4, ob_buf := take (unat still) rest\<rparr>))"

text \<open>
  A session on a \<open>chunked_ostream\<close>: its operations in order, and the destructor.  The stream is an \<open>ostream\<close> on the
  buffer: \<open>put\<close>, \<open>write\<close> and \<open>flush\<close> are the library's, which do nothing once the stream is not good and set \<open>badbit\<close> when
  \<open>sputc\<close> returns \<open>EOF\<close>, when \<open>xsputn\<close> returns another number than that of the bytes it was given, and when
  \<open>sync\<close> returns -1.  The number \<open>xsputn\<close> returns has passed through \<open>not_eof\<close>, an \<open>int\<close>, so a block of 2 GiB or more
  sets \<open>badbit\<close> although it was sent.  The functions of the class itself call the buffer, whatever the state of the stream is.
\<close>

datatype out_op =
    Put u8
  | Write "u8 list"
  | Flush
  | Write_Data_Chunk
  | Write_End_Chunk
  | Write_Err_Chunk "u8 list"

record chunked_ostream =
  d_cbuf :: outbuf
  badbit :: bool

definition open_stream :: "outbuf \<Rightarrow> chunked_ostream" where
  "open_stream ob = \<lparr>d_cbuf = ob, badbit = False\<rparr>"

lemma open_stream_simps [simp]: "d_cbuf (open_stream ob) = ob" "\<not> badbit (open_stream ob)"
  by (simp_all add: open_stream_def)

fun out_step :: "chunked_ostream \<Rightarrow> out_op \<Rightarrow> chunked_ostream option" where
  "out_step c (Put b) =
     (if badbit c then Some c
      else let (r, ob) = sputc (d_cbuf c) b in Some \<lparr>d_cbuf = ob, badbit = (r = EOF)\<rparr>)"
| "out_step c (Write s) =
     (if badbit c then Some c
      else case xsputn (d_cbuf c) s of
        None \<Rightarrow> None
      | Some (r, ob) \<Rightarrow> Some \<lparr>d_cbuf = ob, badbit = (r \<noteq> int (length s))\<rparr>)"
| "out_step c Flush =
     (if badbit c then Some c
      else let (r, ob) = sync (d_cbuf c) in Some \<lparr>d_cbuf = ob, badbit = (r = -1)\<rparr>)"
| "out_step c Write_Data_Chunk = Some (c\<lparr>d_cbuf := snd (data_chunk (d_cbuf c))\<rparr>)"
| "out_step c Write_End_Chunk = Some (c\<lparr>d_cbuf := snd (end_chunk (d_cbuf c))\<rparr>)"
| "out_step c (Write_Err_Chunk m) = Some (c\<lparr>d_cbuf := snd (err_chunk (d_cbuf c) m)\<rparr>)"

fun out_run :: "chunked_ostream \<Rightarrow> out_op list \<Rightarrow> chunked_ostream option" where
  "out_run c [] = Some c"
| "out_run c (x # xs) = (case out_step c x of None \<Rightarrow> None | Some c' \<Rightarrow> out_run c' xs)"

definition close_outbuf :: "outbuf \<Rightarrow> ostream" where
  "close_outbuf ob = ob_os (snd (end_chunk ob))"

section \<open>The abstract stream of chunks\<close>

text \<open>
  What the buffer promises: the bytes written are cut into data chunks of exactly the buffer's
  sz, what does not fill a chunk stays behind, and the other operations send what stayed behind
  (or drop it, for an error chunk).  The abstract state is the list of chunks sent and the bytes
  held back.
\<close>

function split_full :: "nat \<Rightarrow> u8 list \<Rightarrow> u8 list list \<times> u8 list" where
  "split_full k xs =
     (if k = 0 \<or> length xs < k then ([], xs)
      else let (fs, r) = split_full k (drop k xs) in (take k xs # fs, r))"
  by pat_completeness auto
termination by (relation "measure (\<lambda>(k, xs). length xs)") auto

declare split_full.simps [simp del]

fun spec_write :: "nat \<Rightarrow> chunk list \<times> u8 list \<Rightarrow> u8 list \<Rightarrow> chunk list \<times> u8 list" where
  "spec_write k (cs, buf) s = (let (fs, r) = split_full k (buf @ s) in (cs @ map (Chunk Data_Chunk) fs, r))"

text \<open>
  The number of bytes \<open>xsputn\<close> takes of the \<open>n\<close> it is given: all of them, except that the
  counter for those after the first full chunk wraps at \<open>2 ^ 32\<close>.
\<close>

definition taken :: "nat \<Rightarrow> nat \<Rightarrow> nat \<Rightarrow> nat" where
  "taken k held n = (if held + n < k then n else (k - held) + (n - (k - held)) mod 2 ^ 32)"

lemma taken_le [simp]: "held < k \<Longrightarrow> taken k held n \<le> n"
  using mod_less_eq_dividend [of "n - (k - held)" "2 ^ 32"] by (auto simp: taken_def simp del: mod_less_eq_dividend)

lemma taken_small [simp]: "held < k \<Longrightarrow> n < 2 ^ 32 \<Longrightarrow> taken k held n = n"
  by (auto simp: taken_def)

fun spec_step :: "nat \<Rightarrow> chunk list \<times> u8 list \<Rightarrow> out_op \<Rightarrow> chunk list \<times> u8 list" where
  "spec_step k st (Put b) = spec_write k st [b]"
| "spec_step k (cs, buf) (Write s) = spec_write k (cs, buf) (take (taken k (length buf) (length s)) s)"
| "spec_step k (cs, buf) Flush = (if buf = [] then (cs, buf) else (cs @ [Chunk Data_Chunk buf], []))"
| "spec_step k (cs, buf) Write_Data_Chunk =
     (if buf = [] then (cs, buf) else (cs @ [Chunk Data_Chunk buf], []))"
| "spec_step k (cs, buf) Write_End_Chunk = (cs @ [Chunk End_Chunk buf], [])"
| "spec_step k (cs, buf) (Write_Err_Chunk m) =
     (cs @ [Chunk Err_Chunk (if length m > 0x00FFFFFF then too_long else m)], [])"

text \<open>
  The stream around the buffer: whether it is bad, which a block of 2 GiB or more makes it; then it does not pass
  single bytes, blocks and flushes on.
\<close>

fun through_stream :: "out_op \<Rightarrow> bool" where
  "through_stream (Put b) \<longleftrightarrow> True" | "through_stream (Write s) \<longleftrightarrow> True" | "through_stream Flush \<longleftrightarrow> True"
| "through_stream _ \<longleftrightarrow> False"

fun too_big :: "out_op \<Rightarrow> bool" where
  "too_big (Write s) \<longleftrightarrow> 2 ^ 31 \<le> length s" | "too_big _ \<longleftrightarrow> False"

definition stream_step :: "nat \<Rightarrow> (chunk list \<times> u8 list) \<times> bool \<Rightarrow> out_op \<Rightarrow> (chunk list \<times> u8 list) \<times> bool" where
  "stream_step k = (\<lambda>(st, bad) x. if bad \<and> through_stream x then (st, bad) else (spec_step k st x, bad \<or> too_big x))"

definition spec_run :: "nat \<Rightarrow> (chunk list \<times> u8 list) \<times> bool \<Rightarrow> out_op list \<Rightarrow> (chunk list \<times> u8 list) \<times> bool" where
  "spec_run k = foldl (stream_step k)"

lemma blocks_induct [consumes 1, case_names short long]:
  assumes "0 < k" and "\<And>xs. length xs < k \<Longrightarrow> P xs" and "\<And>c xs. length c = k \<Longrightarrow> P xs \<Longrightarrow> P (c @ xs)"
  shows "P (xs :: 'a list)"
proof (induction xs rule: measure_induct_rule [where f = length])
  case (less xs)
  show ?case
  proof (cases "length xs < k")
    case False
    then have "P (take k xs @ drop k xs)" using assms(1) by (intro assms(3) less) auto
    then show ?thesis by simp
  qed (rule assms(2))
qed

lemma split_full_short [simp]: "length xs < k \<Longrightarrow> split_full k xs = ([], xs)"
  by (simp add: split_full.simps)

lemma split_full_long [simp]:
  "0 < k \<Longrightarrow> length c = k \<Longrightarrow> split_full k (c @ xs) = (c # fst (split_full k xs), snd (split_full k xs))"
  by (subst split_full.simps) (simp add: case_prod_beta)

lemma split_full_parts:
  assumes "0 < k"
  shows "concat (fst (split_full k xs)) @ snd (split_full k xs) = xs" "length (snd (split_full k xs)) < k"
    "\<forall>c \<in> set (fst (split_full k xs)). length c = k"
  by (induction xs rule: blocks_induct [OF assms]) (simp_all add: assms)

lemma split_full_append:
  assumes "0 < k"
  shows "split_full k (xs @ ys) =
    (fst (split_full k xs) @ fst (split_full k (snd (split_full k xs) @ ys)),
     snd (split_full k (snd (split_full k xs) @ ys)))"
  by (induction xs rule: blocks_induct [OF assms]) (simp_all add: assms)

lemma spec_write_append:
  assumes "0 < k"
  shows "spec_write k (spec_write k st xs) ys = spec_write k st (xs @ ys)"
proof (cases st)
  case (Pair cs buf)
  then show ?thesis
    using split_full_append [OF assms, of "buf @ xs" ys] by (simp add: case_prod_beta)
qed

section \<open>The loop of xsputn\<close>

definition unlimited :: "ostream \<Rightarrow> bool" where
  "unlimited os \<longleftrightarrow> \<not> os_bad os \<and> room os = None"

lemma os_write_unlimited [simp]:
  "unlimited os \<Longrightarrow> os_write os s = os\<lparr>sent := sent os @ s\<rparr>"
  "unlimited (os\<lparr>sent := s\<rparr>) = unlimited os" "unlimited os \<Longrightarrow> \<not> os_bad os"
  by (simp_all add: unlimited_def os_write_def)

definition frames :: "u8 list \<Rightarrow> u8 list list \<Rightarrow> u8 list" where
  "frames h fs = concat (map (\<lambda>c. h @ c) fs)"

lemma frames_simps [simp]: "frames h [] = []" "frames h (c # fs) = h @ c @ frames h fs"
  by (simp_all add: frames_def)

lemma send_loop:
  assumes "unlimited os" "0 < unat sz" "n \<le> length s" "n < 2 ^ 32"
  shows "while_option (send_cond sz) (send_step h sz) (os, s, of_nat n, False) =
    Some (os\<lparr>sent := sent os @ frames h (fst (split_full (unat sz) (take n s)))\<rparr>,
          snd (split_full (unat sz) (take n s)) @ drop n s,
          of_nat (length (snd (split_full (unat sz) (take n s)))), False)"
  using assms(1,3,4)
proof (induction n arbitrary: os s rule: less_induct)
  case (less n)
  let ?k = "unat sz"
  have n: "unat (of_nat n :: u32) = n" using less.prems(3) by (simp add: unat_of_nat)
  show ?case
  proof (cases "n < ?k")
    case True
    then have "\<not> sz \<le> of_nat n" by (simp add: word_le_nat_alt n)
    then show ?thesis
      using True less.prems by (subst while_option_unfold) (simp add: send_cond_def)
  next
    case False
    have rest: "of_nat n - sz = (of_nat (n - ?k) :: u32)"
      using False by (simp add: of_nat_diff)
    have "take n s = take ?k s @ take (n - ?k) (drop ?k s)"
      using False by (metis le_add_diff_inverse not_less take_add)
    then have split: "split_full ?k (take n s) =
        (take ?k s # fst (split_full ?k (take (n - ?k) (drop ?k s))),
         snd (split_full ?k (take (n - ?k) (drop ?k s))))"
      using split_full_long [of ?k "take ?k s"] assms(2) False less.prems by simp
    have cond: "send_cond sz (os, s, of_nat n, False)"
      using False by (simp add: send_cond_def word_le_nat_alt n)
    have step: "send_step h sz (os, s, of_nat n, False) =
        (os\<lparr>sent := sent os @ h @ take ?k s\<rparr>, drop ?k s, of_nat (n - ?k), False)"
      using less.prems(1) rest by (simp add: send_step_def)
    show ?thesis
      using less.IH [of "n - ?k" "os\<lparr>sent := sent os @ h @ take ?k s\<rparr>" "drop ?k s"]
        less.prems assms(2) False
      by (simp add: while_option_unfold [of _ _ "(os, s, of_nat n, False)"] cond step split)
  qed
qed

section \<open>Refinement\<close>

text \<open>
  The buffer is usable when its size is between 1 and \<open>0x00FFFFFF\<close>, the bytes it holds do not
  fill it, and the sink accepts everything.
\<close>

definition out_ok :: "outbuf \<Rightarrow> bool" where
  "out_ok ob \<longleftrightarrow> unlimited (ob_os ob) \<and> 0 < unat (ob_size ob) \<and> unat (ob_size ob) \<le> 0x00FFFFFF
     \<and> length (ob_buf ob) < unat (ob_size ob)"

text \<open>\<open>emit ob cs buf\<close>: the state after the chunks \<open>cs\<close> have been sent and \<open>buf\<close> is held back.\<close>

definition emit :: "outbuf \<Rightarrow> chunk list \<times> u8 list \<Rightarrow> outbuf" where
  "emit ob = (\<lambda>(cs, buf). ob\<lparr>ob_os := (ob_os ob)\<lparr>sent := sent (ob_os ob) @ encode_chunks (ob_big ob) cs\<rparr>,
                           ob_buf := buf\<rparr>)"

lemma emit_simps [simp]:
  "ob_size (emit ob st) = ob_size ob" "ob_big (emit ob st) = ob_big ob" "ob_buf (emit ob st) = snd st"
  "emit (emit ob (cs, buf)) (ds, buf') = emit ob (cs @ ds, buf')"
  "unlimited (ob_os (emit ob st)) = unlimited (ob_os ob)"
  "emit ob ([], ob_buf ob) = ob"
  by (cases st; simp add: emit_def)+

lemma out_header_eq:
  "out_header ob (of_nat n) = be32 (header_word (ob_big ob) Data_Chunk n)"
  "out_header ob (of_nat n OR CHUNK_END) = be32 (header_word (ob_big ob) End_Chunk n)"
  "out_header ob (of_nat n OR CHUNK_ERR) = be32 (header_word (ob_big ob) Err_Chunk n)"
  by (simp_all add: out_header_def header_word_def order_bit_def type_bits_def CHUNK_DATA_def or.assoc)

lemma frames_encode:
  assumes "\<forall>c \<in> set fs. length c = unat (ob_size ob)"
  shows "frames (out_header ob (ob_size ob)) fs = encode_chunks (ob_big ob) (map (Chunk Data_Chunk) fs)"
  using assms out_header_eq(1) [of ob "unat (ob_size ob)"]
  by (induction fs) (simp_all add: encode_chunk_def)

lemma data_chunk_eq:
  assumes "unlimited (ob_os ob)"
  shows "data_chunk ob = (int (length (ob_buf ob)), 
    emit ob (if ob_buf ob = [] then ([], []) else ([Chunk Data_Chunk (ob_buf ob)], [])))"
  using assms
  by (simp add: data_chunk_def out_ok_def Let_def out_header_eq emit_def encode_chunk_def)

lemma end_chunk_eq:
  assumes "unlimited (ob_os ob)"
  shows "end_chunk ob = (int (length (ob_buf ob)), emit ob ([Chunk End_Chunk (ob_buf ob)], []))"
  using assms
  by (simp add: end_chunk_def out_ok_def Let_def out_header_eq emit_def encode_chunk_def)

lemma err_chunk_eq:
  assumes "unlimited (ob_os ob)"
  shows "err_chunk ob m = (int (length (ob_buf ob)),
    emit ob ([Chunk Err_Chunk (if length m > 0x00FFFFFF then too_long else m)], []))"
  using assms
  by (simp add: err_chunk_def out_ok_def Let_def out_header_eq emit_def encode_chunk_def)

lemma fill_eq:
  assumes "length buf < unat (sz :: u32)" "unat sz \<le> 0x00FFFFFF"
  shows "nat (sint (sz - of_nat (length buf))) = unat sz - length buf"
proof -
  define m where "m = unat sz - length buf"
  have "m \<le> 0x00FFFFFF" using assms unfolding m_def by linarith
  then have m: "int m < 2 ^ 31" by simp
  have "sz - of_nat (length buf) = (of_int (int m) :: u32)"
    using assms by (simp add: m_def of_nat_diff)
  moreover have "sint (of_int (int m) :: u32) = int m"
    using m by (intro to_int_small [unfolded to_int_def]) auto
  ultimately show ?thesis by (simp only: m_def nat_int)
qed

lemma of_int_mod: "(of_int (int n) :: u32) = of_nat (n mod 2 ^ 32)"
  by (simp add: word_of_nat_eq_iff take_bit_eq_mod)

lemma xsputn_eq:
  assumes ok: "out_ok ob"
  shows "xsputn ob s = Some (not_eof (int (length s)),
    emit ob (spec_write (unat (ob_size ob)) ([], ob_buf ob)
      (take (taken (unat (ob_size ob)) (length (ob_buf ob)) (length s)) s)))"
proof -
  let ?k = "unat (ob_size ob)" and ?held = "length (ob_buf ob)"
  let ?fill = "?k - ?held" and ?h = "out_header ob (ob_size ob)"
  have k: "0 < ?k" "?held < ?k" "?k \<le> 0x00FFFFFF" "unlimited (ob_os ob)"
    using ok by (auto simp: out_ok_def)
  show ?thesis
  proof (cases "?held + length s < ?k")
    case True
    then show ?thesis by (simp add: xsputn_def taken_def emit_def)
  next
    case False
    define n where "n = (length s - ?fill) mod 2 ^ 32"
    have n: "n \<le> length (drop ?fill s)" "n < 2 ^ 32" by (simp_all add: n_def)
    have tk: "taken ?k ?held (length s) = ?fill + n" using False by (simp add: taken_def n_def)
    let ?first = "ob_buf ob @ take ?fill s" and ?rest = "take n (drop ?fill s)"
    have still: "of_int (int (length s) - int ?fill) = (of_nat n :: u32)"
    proof -
      have "int (length s) - int ?fill = int (length s - ?fill)" using False k(2) by simp
      then show ?thesis using of_int_mod [of "length s - ?fill"] by (simp only: n_def)
    qed
    then have still': "of_nat (length s) - (ob_size ob - of_nat ?held) = (of_nat n :: u32)"
      using k(2) by (simp add: of_nat_diff)
    have first: "length ?first = ?k" using False k by simp
    have split: "split_full ?k (ob_buf ob @ take (?fill + n) s) =
        (?first # fst (split_full ?k ?rest), snd (split_full ?k ?rest))"
      using split_full_long [OF k(1) first, of ?rest] by (simp add: take_add)
    have chunks: "frames ?h (?first # fst (split_full ?k ?rest)) =
        encode_chunks (ob_big ob) (map (Chunk Data_Chunk) (?first # fst (split_full ?k ?rest)))"
      using first split_full_parts(3) [OF k(1), of ?rest]
      by (intro frames_encode) (auto simp only: list.set insert_iff)
    have len: "length (snd (split_full ?k ?rest)) < 2 ^ 32"
      using split_full_parts(2) [OF k(1), of ?rest] k(3) by simp
    let ?os = "ob_os ob\<lparr>sent := sent (ob_os ob) @ ?h @ ?first\<rparr>"
    have loop: "while_option (send_cond (ob_size ob)) (send_step ?h (ob_size ob))
        (?os, drop ?fill s, of_nat n, False) =
        Some (?os\<lparr>sent := sent ?os @ frames ?h (fst (split_full ?k ?rest))\<rparr>,
          snd (split_full ?k ?rest) @ drop n (drop ?fill s), of_nat (length (snd (split_full ?k ?rest))), False)"
      using k n by (intro send_loop) auto
    have w: "os_write (os_write (os_write (ob_os ob) ?h) (ob_buf ob)) (take ?fill s) = ?os" using k by simp
    have unat_len: "unat (of_nat (length (snd (split_full ?k ?rest))) :: u32) = length (snd (split_full ?k ?rest))"
      using len by (simp add: unat_of_nat)
    have emit: "emit ob (spec_write ?k ([], ob_buf ob) (take (?fill + n) s)) =
        ob\<lparr>ob_os := ?os\<lparr>sent := sent ?os @ frames ?h (fst (split_full ?k ?rest))\<rparr>,
           ob_buf := snd (split_full ?k ?rest)\<rparr>"
      using chunks by (simp add: emit_def split)
    show ?thesis
      unfolding tk emit
      using False k unat_len
      by (simp add: xsputn_def Let_def fill_eq [OF k(2,3)] still' loop w del: frames_simps)
  qed
qed

lemma sputc_eq:
  assumes ok: "out_ok ob"
  shows "sputc ob b = (uint b, emit ob (spec_write (unat (ob_size ob)) ([], ob_buf ob) [b]))"
proof -
  let ?k = "unat (ob_size ob)"
  have k: "0 < ?k" "length (ob_buf ob) < ?k" "unlimited (ob_os ob)" using ok by (auto simp: out_ok_def)
  have u: "uint (ob_size ob) = int ?k" by simp
  have b: "not_eof (uint b) = uint b" using uint_lt2p [of b] by (intro not_eof_small) auto
  show ?thesis
  proof (cases "Suc (length (ob_buf ob)) < ?k")
    case True
    then have "int (length (ob_buf ob)) < uint (ob_size ob) - 1" unfolding u by linarith
    then show ?thesis using True by (simp add: sputc_def emit_def)
  next
    case False
    then have len: "length (ob_buf ob @ [b]) = ?k" using k(2) by simp
    have c: "\<not> int (length (ob_buf ob)) < uint (ob_size ob) - 1"
      using False unfolding u by linarith
    have "split_full ?k (ob_buf ob @ [b]) = ([ob_buf ob @ [b]], [])"
      using split_full_long [OF k(1) len, of "[]"] k(1) by simp
    then show ?thesis
      using c k by (simp add: sputc_def overflow_def data_chunk_eq b EOF_def emit_def)
  qed
qed

lemma spec_step_base: "spec_step k (cs, buf) x = (cs @ fst (spec_step k ([], buf) x), snd (spec_step k ([], buf) x))"
  by (cases x) (simp_all add: case_prod_beta)

lemma stream_step_base:
  "stream_step k ((cs, buf), bad) x =
    ((cs @ fst (fst (stream_step k (([], buf), bad) x)), snd (fst (stream_step k (([], buf), bad) x))), snd (stream_step k (([], buf), bad) x))"
  using spec_step_base [of k cs buf x] by (simp add: stream_step_def)

lemma spec_run_base:
  "spec_run k ((cs, buf), bad) xs =
    ((cs @ fst (fst (spec_run k (([], buf), bad) xs)), snd (fst (spec_run k (([], buf), bad) xs))), snd (spec_run k (([], buf), bad) xs))"
proof (induction xs rule: rev_induct)
  case (snoc x xs)
  obtain ds b bd where r: "spec_run k (([], buf), bad) xs = ((ds, b), bd)" by (metis prod.exhaust_sel)
  have s: "spec_run k st (xs @ [x]) = stream_step k (spec_run k st xs) x" for st by (simp add: spec_run_def)
  show ?case
    unfolding s snoc r using stream_step_base [of k "cs @ ds" b bd x] stream_step_base [of k ds b bd x] by simp
qed (simp add: spec_run_def)

lemma spec_step_held:
  "0 < k \<Longrightarrow> length buf < k \<Longrightarrow> length (snd (spec_step k (cs, buf) x)) < k"
  by (cases x) (simp_all add: case_prod_beta split_full_parts)

lemma out_ok_emit [simp]: "out_ok ob \<Longrightarrow> length (snd st) < unat (ob_size ob) \<Longrightarrow> out_ok (emit ob st)"
  by (simp add: out_ok_def)

lemma stream_step_held:
  "0 < k \<Longrightarrow> length buf < k \<Longrightarrow> length (snd (fst (stream_step k ((cs, buf), bad) x))) < k"
  using spec_step_held by (simp add: stream_step_def)

lemma not_eof_length: "not_eof (int n) = int n \<longleftrightarrow> n < 2 ^ 31"
proof
  assume "not_eof (int n) = int n"
  moreover have "not_eof (int n) < 2 ^ 31"
    using sint_lt [of "of_int (int n) :: u32"] by (auto simp: not_eof_def to_int_def Let_def)
  ultimately have "int n < int (2 ^ 31)" by simp
  then show "n < 2 ^ 31" by (simp only: of_nat_less_iff)
qed simp

text \<open>The state of the stream after the chunks and the bytes of an abstract state.\<close>

definition emit_stream :: "outbuf \<Rightarrow> (chunk list \<times> u8 list) \<times> bool \<Rightarrow> chunked_ostream" where
  "emit_stream ob = (\<lambda>(st, bad). \<lparr>d_cbuf = emit ob st, badbit = bad\<rparr>)"

lemma out_step_eq:
  assumes ok: "out_ok (d_cbuf c)"
  shows "out_step c x = Some (emit_stream (d_cbuf c) (stream_step (unat (ob_size (d_cbuf c))) (([], ob_buf (d_cbuf c)), badbit c) x))"
proof -
  have "unlimited (ob_os (d_cbuf c))" "length (ob_buf (d_cbuf c)) < unat (ob_size (d_cbuf c))" using ok by (auto simp: out_ok_def)
  moreover have "not_eof (int n) \<noteq> int n \<longleftrightarrow> 2 ^ 31 \<le> n" for n using not_eof_length [of n] by linarith
  moreover have "uint b \<noteq> EOF" for b :: u8 using uint_ge_0 [of b] unfolding EOF_def by linarith
  moreover have "not_eof 0 \<noteq> - 1" "not_eof (- 1) \<noteq> - 1" by (simp_all add: not_eof_def EOF_def Let_def)
  ultimately show ?thesis
    using ok
    by (cases c; cases x) (auto simp: sputc_eq xsputn_eq sync_def data_chunk_eq end_chunk_eq err_chunk_eq emit_stream_def stream_step_def)
qed

lemma out_run_emit:
  assumes "out_ok (d_cbuf c)"
  shows "out_run c ops = Some (emit_stream (d_cbuf c) (spec_run (unat (ob_size (d_cbuf c))) (([], ob_buf (d_cbuf c)), badbit c) ops))"
  using assms
proof (induction ops arbitrary: c)
  case Nil
  then show ?case by (simp add: spec_run_def emit_stream_def)
next
  case (Cons x ops)
  let ?ob = "d_cbuf c"
  let ?k = "unat (ob_size ?ob)"
  obtain cs buf bad where st: "stream_step ?k (([], ob_buf ?ob), badbit c) x = ((cs, buf), bad)" by (metis prod.exhaust_sel)
  have "length buf < ?k"
    using stream_step_held [of ?k "ob_buf ?ob" "[]" "badbit c" x] st Cons.prems by (simp add: out_ok_def)
  then have "out_run (emit_stream ?ob ((cs, buf), bad)) ops =
      Some (emit_stream (emit ?ob (cs, buf)) (spec_run ?k (([], buf), bad) ops))"
    using Cons.IH [of "emit_stream ?ob ((cs, buf), bad)"] Cons.prems by (simp add: emit_stream_def)
  moreover have "spec_run ?k (([], ob_buf ?ob), badbit c) (x # ops) = spec_run ?k ((cs, buf), bad) ops"
    by (simp add: spec_run_def st)
  moreover have "emit_stream (emit ?ob (cs, buf)) (spec_run ?k (([], buf), bad) ops) = emit_stream ?ob (spec_run ?k ((cs, buf), bad) ops)"
    by (subst (2) spec_run_base) (auto simp: emit_stream_def split: prod.splits)
  ultimately show ?case
    using Cons.prems by (simp add: out_step_eq st)
qed

section \<open>Properties\<close>

text \<open>C7: A chunked output stream implements the abstract stream of chunks: any session of puts, writes of any size,
  flushes, and data, end and error chunks, on a sink that accepts everything, ends (no loop runs on), and leaves on
  the sink exactly the encoding of the chunks the specification produces, with the specification's
  remainder held in the buffer and its state of the stream.  In the specification a write below 2 GiB is passed on whole; one of
  2 GiB or more makes the stream bad, so that later puts, writes and flushes have no effect, and one of 4 GiB or more loses bytes as well.\<close>

theorem out_run_refines:
  assumes "out_ok (d_cbuf c)"
  shows "out_run c ops = Some (emit_stream (d_cbuf c) (spec_run (unat (ob_size (d_cbuf c))) (([], ob_buf (d_cbuf c)), badbit c) ops))"
  using assms by (rule out_run_emit)

text \<open>A block of 2 GiB or more ends what the stream passes on: nothing put, written or flushed afterwards reaches the buffer.\<close>

lemma large_write_ends_stream:
  assumes "out_ok (d_cbuf c)" "\<not> badbit c" "2 ^ 31 \<le> length s" "list_all through_stream ops"
  shows "out_run c (Write s # ops) = out_run c [Write s]"
proof -
  have "out_run c1 ops = Some c1" if "badbit c1" for c1
    using assms(4) that
  proof (induction ops)
    case (Cons x ops)
    then show ?case by (cases x) simp_all
  qed simp
  then show ?thesis
    using out_step_eq [OF assms(1), of "Write s"] assms(2,3) by (simp add: emit_stream_def stream_step_def)
qed

text \<open>C37: The optimised block write is the same as writing byte by byte: for fewer than 4 GiB the block
  write \<open>xsputn\<close> leaves the sink and the buffer in the state that calling \<open>sputc\<close> on every byte leaves
  them in.\<close>

theorem xsputn_eq_sputc:
  assumes "out_ok ob" "length s < 2 ^ 32"
  shows "xsputn ob s = Some (not_eof (int (length s)), foldl (\<lambda>o1 b. snd (sputc o1 b)) ob s)"
proof -
  let ?k = "unat (ob_size ob)"
  have k: "0 < ?k" "length (ob_buf ob) < ?k" using assms(1) by (auto simp: out_ok_def)
  have "foldl (\<lambda>o1 b. snd (sputc o1 b)) ob s = emit ob (spec_write ?k ([], ob_buf ob) s)"
  proof (induction s rule: rev_induct)
    case Nil
    then show ?case using k by simp
  next
    case (snoc b s)
    obtain cs buf where st: "spec_write ?k ([], ob_buf ob) s = (cs, buf)" by fastforce
    then have buf: "length buf < ?k"
      using split_full_parts(2) [OF k(1), of "ob_buf ob @ s"] by (auto simp: case_prod_beta)
    have "emit (emit ob (cs, buf)) (spec_write ?k ([], buf) [b]) = emit ob (spec_write ?k (cs, buf) [b])"
      by (simp add: case_prod_beta)
    also have "spec_write ?k (cs, buf) [b] = spec_write ?k ([], ob_buf ob) (s @ [b])"
      using spec_write_append [OF k(1), of "([], ob_buf ob)" s "[b]"] st by simp
    finally show ?case
      using snoc st buf assms(1) by (simp add: sputc_eq del: spec_write.simps)
  qed
  then show ?thesis
    using assms k by (simp add: xsputn_eq)
qed

text \<open>The counter of \<open>xsputn\<close> is 32 bits wide: a write that leaves \<open>2 ^ 32\<close> bytes or more after the
  first full chunk is reported as done (the value returned is the one a complete write returns),
  but only the bytes before the wrap reach the sink or the buffer, and the rest is dropped.\<close>

lemma xsputn_drops_above_4GiB:
  assumes "out_ok ob" "2 ^ 32 + (unat (ob_size ob) - length (ob_buf ob)) \<le> length s"
  shows "\<exists>n. n + 2 ^ 32 \<le> length s \<and>
    xsputn ob s = map_option (\<lambda>(r, ob'). (not_eof (int (length s)), ob')) (xsputn ob (take n s))"
proof -
  let ?k = "unat (ob_size ob)" and ?held = "length (ob_buf ob)"
  define n where "n = taken ?k ?held (length s)"
  have held: "?held < ?k" using assms(1) by (simp add: out_ok_def)
  define m where "m = length s - (?k - ?held)"
  have m: "2 ^ 32 \<le> m" "length s = (?k - ?held) + m" using assms(2) by (auto simp: m_def)
  have n_eq: "n = (?k - ?held) + m mod 2 ^ 32"
    using m held by (simp add: n_def taken_def)
  have "m mod 2 ^ 32 + 2 ^ 32 \<le> m"
    using m(1) by (metis add.commute le_add_diff_inverse le_mod_geq mod_less_eq_dividend nat_add_left_cancel_le)
  then have le: "n + 2 ^ 32 \<le> length s" using n_eq m by simp
  moreover have "taken ?k ?held n = n" using held by (simp add: n_eq taken_def)
  ultimately show ?thesis
    using assms(1) by (intro exI [of _ n]) (simp add: xsputn_eq n_def [symmetric] min_def)
qed

text \<open>Errors while flushing are not reported: \<open>sync\<close> returns 0 whatever the sink does, because
  \<open>not_eof\<close> maps the -1 it was given to 0; and when the sink refuses the bytes the data chunk
  reports \<open>EOF\<close>, the buffer keeps its bytes, and \<open>xsputn\<close> drops them.\<close>

lemma sync_reports_success:
  "fst (sync ob) = 0 \<and>
   (os_bad (ob_os ob) \<and> ob_buf ob \<noteq> [] \<longrightarrow>
      fst (data_chunk ob) = EOF \<and> snd (sync ob) = ob \<and>
      (\<forall>s. unat (ob_size ob) \<le> length (ob_buf ob) + length s \<longrightarrow> xsputn ob s = Some (0, ob\<lparr>ob_buf := []\<rparr>)))"
proof -
  have "not_eof (-1) = 0" "not_eof 0 = 0" by (simp_all add: not_eof_def to_int_def EOF_def)
  then show ?thesis
    by (auto simp: sync_def data_chunk_def xsputn_def os_write_def Let_def case_prod_beta)
qed

section \<open>Witnesses\<close>

definition demo_out :: outbuf where
  "demo_out = \<lparr>ob_os = \<lparr>sent = [], room = None, os_bad = False\<rparr>, ob_size = 4, ob_buf = [], ob_big = False\<rparr>"

lemma demo_out_ok [simp]: "out_ok demo_out" "ob_size demo_out = 4" "ob_buf demo_out = []"
  by (simp_all add: out_ok_def demo_out_def unlimited_def)

theorem out_run_refines_witness:
  "out_run (open_stream demo_out) [Write [1, 2, 3, 4, 5], Put 6, Write_End_Chunk] =
     Some (open_stream (emit demo_out ([Chunk Data_Chunk [1, 2, 3, 4], Chunk End_Chunk [5, 6]], [])))"
  using out_run_refines [of "open_stream demo_out" "[Write [1, 2, 3, 4, 5], Put 6, Write_End_Chunk]"]
  by (simp add: open_stream_def emit_stream_def spec_run_def stream_step_def split_full.simps)

theorem xsputn_eq_sputc_witness:
  "xsputn demo_out [1, 2, 3, 4, 5] = Some (5, foldl (\<lambda>o1 b. snd (sputc o1 b)) demo_out [1, 2, 3, 4, 5])"
  using xsputn_eq_sputc [of demo_out "[1, 2, 3, 4, 5]"] by simp

lemma xsputn_drops_above_4GiB_witness:
  "\<exists>n. n + 2 ^ 32 \<le> length (replicate (2 ^ 32 + 4) (0 :: u8)) \<and>
    xsputn demo_out (replicate (2 ^ 32 + 4) 0) =
      map_option (\<lambda>(r, ob'). (not_eof (2 ^ 32 + 4), ob')) (xsputn demo_out (take n (replicate (2 ^ 32 + 4) 0)))"
proof -
  have "2 ^ 32 + (unat (ob_size demo_out) - length (ob_buf demo_out)) \<le> length (replicate (2 ^ 32 + 4) (0 :: u8))"
    unfolding length_replicate by simp
  from xsputn_drops_above_4GiB [OF demo_out_ok(1) this] show ?thesis
    unfolding length_replicate by simp
qed

lemma sync_reports_success_witness:
  "fst (sync (demo_out\<lparr>ob_buf := [7], ob_os := \<lparr>sent = [], room = None, os_bad = True\<rparr>\<rparr>)) = 0 \<and>
   fst (data_chunk (demo_out\<lparr>ob_buf := [7], ob_os := \<lparr>sent = [], room = None, os_bad = True\<rparr>\<rparr>)) = EOF"
  using sync_reports_success [of "demo_out\<lparr>ob_buf := [7], ob_os := \<lparr>sent = [], room = None, os_bad = True\<rparr>\<rparr>"]
  by simp

end
