(* ===== verification/ChunkedIn.thy ===== *)
theory ChunkedIn
  imports ChunkedOut
begin

text \<open>
  \<open>chunked_inbuf\<close> and \<open>chunked_istream\<close> (\<open>chunked_istream.h\<close>, \<open>chunked_istream.cc\<close>): the stream
  buffer that takes the chunks apart again.  \<open>ib_mem\<close> is the memory \<open>d_buffer\<close> points to,
  \<open>ib_gptr\<close> and \<open>ib_egptr\<close> are offsets into it.  What fresh memory and an uninitialised header
  hold is arbitrary: \<open>ib_junk\<close> gives it.  \<open>xsgetn\<close> gets the destination array as a list and returns
  it updated; the number of bytes asked for is its length.
\<close>

section \<open>State and operations\<close>

record inbuf =
  ib_is :: istream
  ib_size :: u32
  ib_mem :: "u8 list"
  ib_gptr :: nat
  ib_egptr :: nat
  ib_twiddle :: bool
  ib_set_twiddle :: bool
  ib_message :: "u8 list"
  ib_error :: bool
  ib_host_big :: bool
  ib_junk :: "nat \<Rightarrow> u8"

definition m_buffer_alloc :: "inbuf \<Rightarrow> inbuf" where
  "m_buffer_alloc ib = ib\<lparr>ib_mem := map (ib_junk ib) [0..<unat (ib_size ib)], ib_gptr := 0, ib_egptr := 0\<rparr>"

definition make_inbuf :: "bool \<Rightarrow> (nat \<Rightarrow> u8) \<Rightarrow> istream \<Rightarrow> int \<Rightarrow> inbuf result" where
  "make_inbuf host_big junk is n =
     (let sz = (of_int n :: u32) in
      if sz AND CHUNK_TYPE_MASK \<noteq> 0 then Inl (Std_Exception
        ''A chunked_outbuf (or chunked_ostream) was built using a buffer larger than 0x00ffffff'')
      else Inr (m_buffer_alloc \<lparr>ib_is = is, ib_size = sz, ib_mem = [], ib_gptr = 0, ib_egptr = 0,
        ib_twiddle = False, ib_set_twiddle = False, ib_message = [], ib_error = False,
        ib_host_big = host_big, ib_junk = junk\<rparr>))"

definition bytes_in_buffer :: "inbuf \<Rightarrow> int" where
  "bytes_in_buffer ib = int (ib_egptr ib) - int (ib_gptr ib)"

text \<open>Reading a header: the bytes the stream does not deliver keep what the variable held.\<close>

definition read_header :: "inbuf \<Rightarrow> u32 \<times> inbuf" where
  "read_header ib =
     (let (got, is) = is_read (ib_is ib) 4 in
      (be32_val (got @ drop (length got) (map (ib_junk ib) [0..<4])), ib\<lparr>ib_is := is\<rparr>))"

text \<open>
  The byte order test: the \<open>bool\<close> on the left is converted to 0 or 1 before it is compared with
  the masked header.
\<close>

definition note_byte_order :: "inbuf \<Rightarrow> u32 \<Rightarrow> inbuf" where
  "note_byte_order ib header =
     (if ib_set_twiddle ib then ib
      else ib\<lparr>ib_twiddle := ((if ib_host_big ib then 1 else 0) = header AND CHUNK_LITTLE_ENDIAN),
              ib_set_twiddle := True\<rparr>)"

definition read_mem :: "inbuf \<Rightarrow> nat \<Rightarrow> inbuf" where
  "read_mem ib n =
     (let (got, is) = is_read (ib_is ib) n in
      ib\<lparr>ib_is := is, ib_mem := got @ drop (length got) (ib_mem ib)\<rparr>)"

definition grow :: "inbuf \<Rightarrow> u32 \<Rightarrow> u32 \<Rightarrow> inbuf" where
  "grow ib need chunk_size = (if need > ib_size ib then m_buffer_alloc (ib\<lparr>ib_size := chunk_size\<rparr>) else ib)"

definition unknown_type :: "u8 list" where
  "unknown_type = bytes_of ''Failed to read known chunk header type.''"

text \<open>
  The common part of \<open>underflow\<close> and \<open>read_next_chunk\<close>: the next chunk is read into the buffer.
  \<open>None\<close> stands for the returns of \<open>EOF\<close>, \<open>Some n\<close> for a data or end chunk of \<open>n\<close> bytes.
\<close>

definition load_chunk :: "inbuf \<Rightarrow> nat option \<times> inbuf" where
  "load_chunk ib =
     (let (header, ib1) = read_header ib in
      if eofbit (ib_is ib1) then (None, ib1)
      else
        let ib2 = note_byte_order ib1 header;
            chunk_size = header AND CHUNK_SIZE_MASK;
            ty = header AND CHUNK_TYPE_MASK;
            ib3 = grow ib2 chunk_size chunk_size in
        if chunk_size = 0 \<and> ty = CHUNK_END then (None, ib3)
        else
          let ib4 = read_mem ib3 (unat chunk_size) in
          if is_bad (ib_is ib4) then (None, ib4)
          else
            let ib5 = ib4\<lparr>ib_gptr := 0, ib_egptr := unat chunk_size\<rparr> in
            if ty = CHUNK_END \<or> ty = CHUNK_DATA then (Some (unat chunk_size), ib5)
            else if ty = CHUNK_ERR then
              (None, ib5\<lparr>ib_error := True, ib_message := take (unat chunk_size) (ib_mem ib5)\<rparr>)
            else (None, ib5\<lparr>ib_error := True, ib_message := unknown_type\<rparr>))"

definition mem_at :: "inbuf \<Rightarrow> nat \<Rightarrow> u8" where
  "mem_at ib i = (if i < length (ib_mem ib) then ib_mem ib ! i else ib_junk ib i)"

definition underflow :: "inbuf \<Rightarrow> int \<times> inbuf" where
  "underflow ib =
     (if ib_gptr ib < ib_egptr ib then (uint (mem_at ib (ib_gptr ib)), ib)
      else case load_chunk ib of
        (None, ib1) \<Rightarrow> (EOF, ib1)
      | (Some _, ib1) \<Rightarrow> (uint (mem_at ib1 (ib_gptr ib1)), ib1))"

definition read_next_chunk :: "inbuf \<Rightarrow> int \<times> inbuf" where
  "read_next_chunk ib =
     (case load_chunk ib of
        (None, ib1) \<Rightarrow> (EOF, ib1)
      | (Some n, ib1) \<Rightarrow> (not_eof (int n), ib1))"

section \<open>Block reads\<close>

definition poke :: "u8 list \<Rightarrow> nat \<Rightarrow> u8 list \<Rightarrow> u8 list" where
  "poke dest pos bs = take pos dest @ bs @ drop (pos + length bs) dest"

text \<open>How an iteration of the loop of \<open>xsgetn\<close> leaves it: not, by \<open>return\<close>, or by \<open>done\<close>.\<close>

datatype xs_exit = Running | Returned int | Done

text \<open>The state of the loop: the buffer, the destination, the position \<open>s\<close> in it, \<open>bytes_left_to_read\<close>.\<close>

type_synonym xs_state = "inbuf \<times> u8 list \<times> nat \<times> u32 \<times> xs_exit"

definition xs_switch :: "u32 \<Rightarrow> inbuf \<times> u8 list \<times> nat \<times> u32 \<Rightarrow> xs_state" where
  "xs_switch ty = (\<lambda>(ib, dest, pos, left).
     if ty = CHUNK_END then (ib, dest, pos, left, Done)
     else if ty = CHUNK_DATA then (ib, dest, pos, left, if left = 0 then Done else Running)
     else (ib\<lparr>ib_error := True, ib_message := unknown_type\<rparr>, dest, pos, left, Returned EOF))"

text \<open>The branch for an error chunk, for a chunk that is larger than the request, and for the rest.\<close>

definition xs_error :: "u32 \<Rightarrow> inbuf \<times> u8 list \<times> nat \<times> u32 \<Rightarrow> xs_state" where
  "xs_error chunk_size = (\<lambda>(ib, dest, pos, left).
     let (got, is) = is_read (ib_is ib) (unat chunk_size) in
     (ib\<lparr>ib_is := is, ib_error := True, ib_message := got @ replicate (unat chunk_size - length got) 0,
         ib_gptr := 0, ib_egptr := 0\<rparr>, dest, pos, left, Returned EOF))"

definition xs_split :: "u32 \<Rightarrow> u32 \<Rightarrow> inbuf \<times> u8 list \<times> nat \<times> u32 \<Rightarrow> xs_state" where
  "xs_split ty chunk_size = (\<lambda>(ib, dest, pos, left).
     let (got, is) = is_read (ib_is ib) (unat left);
         ib1 = ib\<lparr>ib_is := is\<rparr>; dest1 = poke dest pos got in
     if is_bad is then (ib1, dest1, pos, left, Returned EOF)
     else
       let leftover = chunk_size - left;
           ib2 = read_mem (grow ib1 leftover chunk_size) (unat leftover) in
       if is_bad (ib_is ib2) then (ib2, dest1, pos, left, Returned EOF)
       else xs_switch ty (ib2\<lparr>ib_gptr := 0, ib_egptr := unat leftover\<rparr>, dest1, pos, 0))"

definition xs_whole :: "u32 \<Rightarrow> u32 \<Rightarrow> inbuf \<times> u8 list \<times> nat \<times> u32 \<Rightarrow> xs_state" where
  "xs_whole ty chunk_size = (\<lambda>(ib, dest, pos, left).
     let ib1 = grow ib chunk_size chunk_size in
     if chunk_size > 0 then
       let (got, is) = is_read (ib_is ib1) (unat chunk_size);
           ib2 = ib1\<lparr>ib_is := is\<rparr>; dest1 = poke dest pos got in
       if is_bad is then (ib2, dest1, pos, left, Returned EOF)
       else xs_switch ty (ib2, dest1, pos + unat chunk_size, left - chunk_size)
     else xs_switch ty (ib1, dest, pos, left))"

definition xs_step :: "nat \<Rightarrow> xs_state \<Rightarrow> xs_state" where
  "xs_step num = (\<lambda>(ib, dest, pos, left, _).
     let (header, ib1) = read_header ib in
     if eofbit (ib_is ib1) then (ib1, dest, pos, left, Returned EOF)
     else
       let ib2 = note_byte_order ib1 header;
           chunk_size = header AND CHUNK_SIZE_MASK;
           ty = header AND CHUNK_TYPE_MASK in
       if ty = CHUNK_ERR then xs_error chunk_size (ib2, dest, pos, left)
       else if chunk_size = 0 \<and> ty = CHUNK_END
         then (ib2, dest, pos, left, Returned (not_eof (int num - uint left)))
       else if chunk_size > left then xs_split ty chunk_size (ib2, dest, pos, left)
       else xs_whole ty chunk_size (ib2, dest, pos, left))"

definition xs_running :: "xs_state \<Rightarrow> bool" where
  "xs_running = (\<lambda>(ib, dest, pos, left, e). e = Running)"

definition xs_result :: "nat \<Rightarrow> xs_state \<Rightarrow> int \<times> u8 list \<times> inbuf" where
  "xs_result num = (\<lambda>(ib, dest, pos, left, e).
     (case e of Returned r \<Rightarrow> r | _ \<Rightarrow> not_eof (int num - uint left), dest, ib))"

definition xsgetn :: "inbuf \<Rightarrow> u8 list \<Rightarrow> (int \<times> u8 list \<times> inbuf) option" where
  "xsgetn ib dest =
     (let num = length dest; avail = ib_egptr ib - ib_gptr ib;
          held = take avail (drop (ib_gptr ib) (ib_mem ib)) in
      if num \<le> avail then Some (not_eof (int num), take num held, ib\<lparr>ib_gptr := ib_gptr ib + num\<rparr>)
      else
        let left = (of_nat num :: u32);
            st0 = (if ib_gptr ib < ib_egptr ib
                   then (ib\<lparr>ib_gptr := ib_egptr ib\<rparr>, poke dest 0 held, avail, left - of_nat avail, Running)
                   else (ib, dest, 0, left, Running)) in
        map_option (xs_result num) (while_option xs_running (xs_step num) st0))"

section \<open>The abstract reader\<close>

text \<open>
  What a block read of \<open>n\<close> bytes takes from the chunks to come: the bytes it gets, the bytes left
  over from the last chunk it touched, the chunks after that, and why it stopped.
\<close>

datatype stop = Filled | No_More | Remote_Error "u8 list"

fun gather :: "nat \<Rightarrow> chunk list \<Rightarrow> u8 list \<times> u8 list \<times> chunk list \<times> stop" where
  "gather n [] = ([], [], [], No_More)"
| "gather n (c # cs) =
     (if ctype c = Err_Chunk then ([], [], cs, Remote_Error (body c))
      else if n < length (body c) then (take n (body c), drop n (body c), cs, Filled)
      else if ctype c = End_Chunk \<or> length (body c) = n then (body c, [], cs, Filled)
      else (case gather (n - length (body c)) cs of (d, r, ds, e) \<Rightarrow> (body c @ d, r, ds, e)))"

text \<open>The concrete buffer holds \<open>buf\<close> and its source has exactly the chunks \<open>cs\<close> to deliver.\<close>

definition in_src :: "inbuf \<Rightarrow> u8 list \<Rightarrow> bool" where
  "in_src ib bs \<longleftrightarrow> is_good (ib_is ib) \<and> pending (ib_is ib) = bs"

definition mem_ok :: "inbuf \<Rightarrow> bool" where
  "mem_ok ib \<longleftrightarrow> length (ib_mem ib) = unat (ib_size ib) \<and> ib_gptr ib \<le> ib_egptr ib \<and> ib_egptr ib \<le> length (ib_mem ib)"

definition held :: "inbuf \<Rightarrow> u8 list" where
  "held ib = take (ib_egptr ib - ib_gptr ib) (drop (ib_gptr ib) (ib_mem ib))"

definition src_rel :: "bool \<Rightarrow> inbuf \<Rightarrow> u8 list \<Rightarrow> chunk list \<Rightarrow> bool" where
  "src_rel big ib buf cs \<longleftrightarrow>
     in_src ib (encode_chunks big cs) \<and> mem_ok ib \<and> held ib = buf \<and> (\<forall>c \<in> set cs. chunk_ok c)"

lemma length_held: "mem_ok ib \<Longrightarrow> length (held ib) = ib_egptr ib - ib_gptr ib"
  by (auto simp: mem_ok_def held_def)

lemma is_read_src:
  "in_src ib (xs @ ys) \<Longrightarrow> n = length xs \<Longrightarrow> is_read (ib_is ib) n = (xs, (ib_is ib)\<lparr>pending := ys\<rparr>)"
  by (simp add: in_src_def is_read_def)

lemma in_src_simps [simp]:
  "in_src (ib\<lparr>ib_is := is\<rparr>) bs \<longleftrightarrow> is_good is \<and> pending is = bs"
  "in_src (ib\<lparr>ib_gptr := g\<rparr>) bs = in_src ib bs" "in_src (ib\<lparr>ib_egptr := g\<rparr>) bs = in_src ib bs"
  "in_src (ib\<lparr>ib_error := e\<rparr>) bs = in_src ib bs" "in_src (ib\<lparr>ib_message := m\<rparr>) bs = in_src ib bs"
  "in_src (note_byte_order ib h) bs = in_src ib bs"
  "in_src (ib\<lparr>ib_mem := x\<rparr>) bs = in_src ib bs"
  "in_src (grow ib a b) bs = in_src ib bs"
  by (simp_all add: in_src_def note_byte_order_def grow_def m_buffer_alloc_def)

lemma src_good [simp]:
  "in_src ib bs \<Longrightarrow> is_good ((ib_is ib)\<lparr>pending := xs\<rparr>)" "in_src ib bs \<Longrightarrow> \<not> is_bad (ib_is ib)"
  "in_src ib bs \<Longrightarrow> \<not> eofbit (ib_is ib)"
  by (simp_all add: in_src_def is_good_def)

lemma note_byte_order_simps [simp]:
  "ib_is (note_byte_order ib h) = ib_is ib" "ib_mem (note_byte_order ib h) = ib_mem ib"
  "ib_size (note_byte_order ib h) = ib_size ib" "ib_gptr (note_byte_order ib h) = ib_gptr ib"
  "ib_egptr (note_byte_order ib h) = ib_egptr ib" "ib_error (note_byte_order ib h) = ib_error ib"
  "mem_ok (note_byte_order ib h) = mem_ok ib"
  by (simp_all add: note_byte_order_def mem_ok_def)

lemma mem_ok_simps [simp]:
  "mem_ok (ib\<lparr>ib_is := is\<rparr>) = mem_ok ib" "mem_ok (ib\<lparr>ib_error := e\<rparr>) = mem_ok ib"
  "mem_ok (ib\<lparr>ib_message := m\<rparr>) = mem_ok ib" "mem_ok (ib\<lparr>ib_gptr := 0, ib_egptr := 0\<rparr>) \<longleftrightarrow> length (ib_mem ib) = unat (ib_size ib)"
  by (auto simp add: mem_ok_def)

lemma grow_simps [simp]:
  "ib_is (grow ib a b) = ib_is ib" "ib_error (grow ib a b) = ib_error ib"
  "mem_ok ib \<Longrightarrow> mem_ok (grow ib a b)"
  by (simp_all add: grow_def m_buffer_alloc_def mem_ok_def)

lemma grow_room:
  "mem_ok ib \<Longrightarrow> unat a \<le> unat b \<Longrightarrow> unat a \<le> length (ib_mem (grow ib a b))"
  by (auto simp: grow_def m_buffer_alloc_def mem_ok_def word_less_nat_alt)

lemma grow_empty: "mem_ok ib \<Longrightarrow> ib_gptr ib = ib_egptr ib \<Longrightarrow> ib_gptr (grow ib a b) = ib_egptr (grow ib a b)"
  by (simp add: grow_def m_buffer_alloc_def)

lemma read_header_cons:
  assumes "in_src ib (encode_chunks big (c # cs))"
  shows "read_header ib = (header_word big (ctype c) (length (body c)),
    ib\<lparr>ib_is := (ib_is ib)\<lparr>pending := body c @ encode_chunks big cs\<rparr>\<rparr>)"
  using assms is_read_src [of ib "be32 (header_word big (ctype c) (length (body c)))" "body c @ encode_chunks big cs" 4]
  by (simp add: read_header_def encode_chunk_def)

lemma read_header_nil:
  assumes "in_src ib []"
  shows "\<exists>h. read_header ib = (h, ib\<lparr>ib_is := (ib_is ib)\<lparr>pending := [], eofbit := True, failbit := True\<rparr>\<rparr>)"
  using assms by (simp add: read_header_def in_src_def is_read_def)

lemma read_mem_src:
  assumes "in_src ib (xs @ ys)" "n = length xs"
  shows "read_mem ib n = ib\<lparr>ib_is := (ib_is ib)\<lparr>pending := ys\<rparr>, ib_mem := xs @ drop (length xs) (ib_mem ib)\<rparr>"
  using is_read_src [OF assms] by (simp add: read_mem_def)

lemma type_bits_iff [simp]:
  "type_bits t = CHUNK_ERR \<longleftrightarrow> t = Err_Chunk" "type_bits t = CHUNK_END \<longleftrightarrow> t = End_Chunk"
  "type_bits t = CHUNK_DATA \<longleftrightarrow> t = Data_Chunk"
  by (cases t; simp add: type_bits_def chunk_constants)+

lemma header_of_chunk:
  assumes "chunk_ok c"
  shows "header_word big (ctype c) (length (body c)) AND CHUNK_SIZE_MASK = of_nat (length (body c))"
    "unat (of_nat (length (body c)) :: u32) = length (body c)"
    "header_word big (ctype c) (length (body c)) AND CHUNK_TYPE_MASK = type_bits (ctype c)"
proof -
  note h = header_fields [OF assms [unfolded chunk_ok_def], of big "ctype c"]
  show "header_word big (ctype c) (length (body c)) AND CHUNK_SIZE_MASK = of_nat (length (body c))"
  proof -
    have "header_word big (ctype c) (length (body c)) AND CHUNK_SIZE_MASK =
        of_nat (unat (header_word big (ctype c) (length (body c)) AND CHUNK_SIZE_MASK))" by simp
    then show ?thesis by (simp only: h(1))
  qed
  show "unat (of_nat (length (body c)) :: u32) = length (body c)"
    using assms by (simp add: unat_of_nat chunk_ok_def)
qed (rule header_fields(2) [OF assms [unfolded chunk_ok_def]])

lemma poke_nil [simp]: "poke dest pos [] = dest"
  by (simp add: poke_def)

lemma poke_poke: "pos + length xs \<le> length dest \<Longrightarrow> poke (poke dest pos xs) (pos + length xs) ys = poke dest pos (xs @ ys)"
  by (simp add: poke_def ac_simps)

lemma length_poke [simp]: "pos + length xs \<le> length dest \<Longrightarrow> length (poke dest pos xs) = length dest"
  by (simp add: poke_def)

text \<open>
  One iteration of the loop, with the buffer empty and the source at the start of a chunk: an
  error chunk, a chunk larger than the request, and one that fits.
\<close>

lemma src_rel_cons:
  assumes "src_rel big ib buf (c # cs)"
  shows "in_src ib (encode_chunks big (c # cs))" "chunk_ok c" "mem_ok ib" "\<forall>d \<in> set cs. chunk_ok d"
    "held ib = buf"
  using assms by (auto simp: src_rel_def)

lemma src_rel_empty:
  "src_rel big ib [] cs \<longleftrightarrow> in_src ib (encode_chunks big cs) \<and> mem_ok ib \<and> ib_gptr ib = ib_egptr ib \<and> (\<forall>c \<in> set cs. chunk_ok c)"
  using length_held [of ib] by (auto simp: src_rel_def held_def mem_ok_def)

definition after_header :: "bool \<Rightarrow> inbuf \<Rightarrow> chunk \<Rightarrow> chunk list \<Rightarrow> inbuf" where
  "after_header big ib c cs =
     note_byte_order (ib\<lparr>ib_is := (ib_is ib)\<lparr>pending := body c @ encode_chunks big cs\<rparr>\<rparr>)
       (header_word big (ctype c) (length (body c)))"

lemma after_header:
  assumes "src_rel big ib [] (c # cs)"
  shows "in_src (after_header big ib c cs) (body c @ encode_chunks big cs)" "mem_ok (after_header big ib c cs)"
    "ib_gptr (after_header big ib c cs) = ib_egptr (after_header big ib c cs)"
    "ib_error (after_header big ib c cs) = ib_error ib"
  using assms by (auto simp: src_rel_empty after_header_def)

lemma xs_step_cons:
  assumes "src_rel big ib [] (c # cs)"
  shows "xs_step num (ib, dest, pos, left, e) =
    (let ib1 = after_header big ib c cs; n = of_nat (length (body c)); ty = type_bits (ctype c) in
     if ctype c = Err_Chunk then xs_error n (ib1, dest, pos, left)
     else if body c = [] \<and> ctype c = End_Chunk then (ib1, dest, pos, left, Returned (not_eof (int num - uint left)))
     else if left < n then xs_split ty n (ib1, dest, pos, left)
     else xs_whole ty n (ib1, dest, pos, left))"
proof -
  note c = src_rel_cons [OF assms]
  note h = header_of_chunk [OF c(2)]
  have eof: "\<not> eofbit (ib_is ib)" using c(1) by simp
  have nil: "of_nat (length (body c)) = (0 :: u32) \<longleftrightarrow> body c = []"
    using of_nat_eq_0_small(1) [OF h(2)] by simp
  show ?thesis
    unfolding xs_step_def case_prod_conv read_header_cons [OF c(1)] after_header_def Let_def h(1,3) nil type_bits_iff
    using eof by simp
qed

lemma xs_step_error:
  assumes "src_rel big ib [] (c # cs)" "ctype c = Err_Chunk"
  shows "\<exists>ib'. xs_step num (ib, dest, pos, left, e) = (ib', dest, pos, left, Returned EOF) \<and>
    src_rel big ib' [] cs \<and> ib_error ib' \<and> ib_message ib' = body c"
  using src_rel_cons [OF assms(1)] after_header [OF assms(1)] assms(2)
    is_read_src [OF after_header(1) [OF assms(1)], of "length (body c)"] header_of_chunk(2) [of c]
  by (simp add: xs_step_cons [OF assms(1)] xs_error_def src_rel_empty Let_def mem_ok_def)

lemma xs_step_end:
  assumes "src_rel big ib [] (c # cs)" "ctype c = End_Chunk" "body c = []" "n < 2 ^ 32"
  shows "\<exists>ib'. xs_step num (ib, dest, pos, of_nat n, e) = (ib', dest, pos, of_nat n, Returned (not_eof (int num - int n))) \<and>
    src_rel big ib' [] cs \<and> ib_error ib' = ib_error ib"
proof -
  have "uint (of_nat n :: u32) = int n" using assms(4) by (simp add: uint_nat unat_of_nat)
  then show ?thesis
    using src_rel_cons(4) [OF assms(1)] after_header [OF assms(1)] assms
    by (simp add: xs_step_cons [OF assms(1)] src_rel_empty)
qed

lemma xs_step_split:
  assumes "src_rel big ib [] (c # cs)" "ctype c \<noteq> Err_Chunk" "n < length (body c)"
  shows "\<exists>ib'. xs_step num (ib, dest, pos, of_nat n, e) = (ib', poke dest pos (take n (body c)), pos, 0, Done) \<and>
    src_rel big ib' (drop n (body c)) cs \<and> ib_error ib' = ib_error ib"
proof -
  note c = src_rel_cons [OF assms(1)] and h = header_of_chunk(2) [OF src_rel_cons(2) [OF assms(1)]]
  note ah = after_header [OF assms(1)]
  let ?b = "body c" and ?rest = "encode_chunks big cs" and ?ib = "after_header big ib c cs"
  have n: "unat (of_nat n :: u32) = n" using assms(3) c(2) by (simp add: unat_of_nat chunk_ok_def)
  have gt: "(of_nat n :: u32) < of_nat (length ?b)" using assms(3) h n by (simp add: word_less_nat_alt)
  have diff: "of_nat (length ?b) - of_nat n = (of_nat (length ?b - n) :: u32)"
    using assms(3) by (simp add: of_nat_diff)
  have over: "unat (of_nat (length ?b - n) :: u32) = length ?b - n"
    using c(2) by (simp add: unat_of_nat chunk_ok_def)
  let ?ib1 = "?ib\<lparr>ib_is := (ib_is ?ib)\<lparr>pending := drop n ?b @ ?rest\<rparr>\<rparr>"
  let ?ib2 = "grow ?ib1 (of_nat (length ?b - n)) (of_nat (length ?b))"
  have r1: "is_read (ib_is ?ib) n = (take n ?b, (ib_is ?ib)\<lparr>pending := drop n ?b @ ?rest\<rparr>)"
  proof -
    have "take n ?b @ drop n ?b @ ?rest = ?b @ ?rest" by (simp flip: append_assoc)
    then have "in_src ?ib (take n ?b @ drop n ?b @ ?rest)" using ah(1) by (simp only:)
    then show ?thesis using assms(3) by (intro is_read_src) simp_all
  qed
  have src2: "in_src ?ib2 (drop n ?b @ ?rest)" using ah(1) by simp
  have room: "length ?b - n \<le> length (ib_mem ?ib2)"
    using grow_room [of ?ib1 "of_nat (length ?b - n)" "of_nat (length ?b)"] ah(2) over h by simp
  define ib' where "ib' = ?ib2\<lparr>ib_is := (ib_is ?ib2)\<lparr>pending := ?rest\<rparr>,
      ib_mem := drop n ?b @ drop (length ?b - n) (ib_mem ?ib2), ib_gptr := 0, ib_egptr := length ?b - n\<rparr>"
  have r2: "(read_mem ?ib2 (length ?b - n))\<lparr>ib_gptr := 0, ib_egptr := length ?b - n\<rparr> = ib'"
    "\<not> is_bad (ib_is (read_mem ?ib2 (length ?b - n)))"
    using read_mem_src [OF src2, of "length ?b - n"] ah(1) by (simp_all add: ib'_def)
  have "mem_ok ?ib2" using ah(2) by simp
  then have "src_rel big ib' (drop n ?b) cs"
    using ah(1) c(4) room by (simp add: ib'_def src_rel_def held_def) (simp add: mem_ok_def)
  moreover have "ib_error ib' = ib_error ib" using ah(4) by (simp add: ib'_def)
  moreover have "xs_step num (ib, dest, pos, of_nat n, e) = (ib', poke dest pos (take n ?b), pos, 0, Done)"
  proof -
    have "xs_step num (ib, dest, pos, of_nat n, e) =
        xs_split (type_bits (ctype c)) (of_nat (length ?b)) (?ib, dest, pos, of_nat n)"
      using xs_step_cons [OF assms(1)] gt assms(2,3) by (auto simp: Let_def)
    also have "\<dots> = xs_switch (type_bits (ctype c)) (ib', poke dest pos (take n ?b), pos, 0)"
      using r2 ah(1) by (simp add: xs_split_def n r1 diff over)
    also have "\<dots> = (ib', poke dest pos (take n ?b), pos, 0, Done)"
      using assms(2) by (cases "ctype c") (simp_all add: xs_switch_def)
    finally show ?thesis .
  qed
  ultimately show ?thesis by blast
qed

lemma xs_step_whole:
  assumes "src_rel big ib [] (c # cs)" "ctype c \<noteq> Err_Chunk" "length (body c) \<le> n" "n < 2 ^ 32"
    "\<not> (body c = [] \<and> ctype c = End_Chunk)"
  shows "\<exists>ib'. xs_step num (ib, dest, pos, of_nat n, e) =
      (ib', poke dest pos (body c), pos + length (body c), of_nat (n - length (body c)),
       if ctype c = End_Chunk \<or> length (body c) = n then Done else Running) \<and>
    src_rel big ib' [] cs \<and> ib_error ib' = ib_error ib"
proof -
  note c = src_rel_cons [OF assms(1)] and h = header_of_chunk(2) [OF src_rel_cons(2) [OF assms(1)]]
  note ah = after_header [OF assms(1)]
  let ?b = "body c" and ?rest = "encode_chunks big cs" and ?ib = "after_header big ib c cs"
  let ?n = "of_nat n :: u32" and ?l = "of_nat (length ?b) :: u32"
  have n: "unat ?n = n" using assms(4) by (simp add: unat_of_nat)
  have le: "\<not> ?n < ?l" using assms(3) h n by (simp add: word_less_nat_alt)
  have diff: "?n - ?l = of_nat (n - length ?b)" using assms(3) by (simp add: of_nat_diff)
  have zero: "of_nat (n - length ?b) = (0 :: u32) \<longleftrightarrow> length ?b = n"
  proof -
    define m where "m = n - length ?b"
    then have "unat (of_nat m :: u32) = m" using assms(4) by (simp add: unat_of_nat)
    then show ?thesis
      unfolding m_def [symmetric] of_nat_eq_0_small(1) [OF \<open>unat (of_nat m :: u32) = m\<close>]
      using assms(3) by (auto simp only: m_def)
  qed
  have pos: "0 < ?l \<longleftrightarrow> ?b \<noteq> []" using of_nat_eq_0_small(2) [OF h] by simp
  let ?ib1 = "grow ?ib ?l ?l"
  have src1: "in_src ?ib1 (?b @ ?rest)" using ah(1) by simp
  define ib' where "ib' = ?ib1\<lparr>ib_is := (ib_is ?ib1)\<lparr>pending := ?rest\<rparr>\<rparr>"
  have r1: "is_read (ib_is ?ib1) (length ?b) = (?b, ib_is ib')"
    using is_read_src [OF src1, of "length ?b"] by (simp add: ib'_def)
  have "src_rel big ib' [] cs"
    using ah c(4) grow_empty [OF ah(2,3)] by (simp add: ib'_def src_rel_empty)
  moreover have "ib_error ib' = ib_error ib" using ah(4) by (simp add: ib'_def)
  moreover have "xs_step num (ib, dest, pos, of_nat n, e) = xs_whole (type_bits (ctype c)) ?l (?ib, dest, pos, ?n)"
    using xs_step_cons [OF assms(1)] le assms(2,5) by (auto simp: Let_def)
  moreover have "xs_whole (type_bits (ctype c)) ?l (?ib, dest, pos, ?n) =
      xs_switch (type_bits (ctype c)) (ib', poke dest pos ?b, pos + length ?b, of_nat (n - length ?b))"
  proof (cases "?b = []")
    case True
    then have "ib' = ?ib1" using src1 by (simp add: ib'_def in_src_def)
    then show ?thesis using True by (simp add: xs_whole_def)
  next
    case False
    then show ?thesis
      using r1 pos ah(1) by (simp add: xs_whole_def h diff ib'_def)
  qed
  moreover have "xs_switch (type_bits (ctype c)) (ib', poke dest pos ?b, pos + length ?b, of_nat (n - length ?b)) =
      (ib', poke dest pos ?b, pos + length ?b, of_nat (n - length ?b),
       if ctype c = End_Chunk \<or> length ?b = n then Done else Running)"
    using assms(2) zero by (cases "ctype c") (simp_all add: xs_switch_def)
  ultimately show ?thesis by metis
qed

lemma xs_step_nil:
  assumes "src_rel big ib [] []"
  shows "\<exists>ib'. xs_step num (ib, dest, pos, left, e) = (ib', dest, pos, left, Returned EOF) \<and> ib_error ib' = ib_error ib"
proof -
  obtain h where "read_header ib = (h, ib\<lparr>ib_is := (ib_is ib)\<lparr>pending := [], eofbit := True, failbit := True\<rparr>\<rparr>)"
    using read_header_nil [of ib] assms by (auto simp: src_rel_def)
  then show ?thesis by (simp add: xs_step_def)
qed

lemma xs_running_simp [simp]: "xs_running (ib, dest, pos, left, e) \<longleftrightarrow> e = Running"
  by (simp add: xs_running_def)

text \<open>
  The loop against the specification.  \<open>read_post\<close> relates the result of a block read of \<open>n\<close>
  bytes to what \<open>gather\<close> computes.
\<close>

definition read_post :: "bool \<Rightarrow> inbuf \<Rightarrow> nat \<Rightarrow> u8 list \<times> u8 list \<times> chunk list \<times> stop \<Rightarrow> int \<Rightarrow> inbuf \<Rightarrow> bool" where
  "read_post big ib got = (\<lambda>(d, r, cs, e) ret ib'.
     case e of
       Filled \<Rightarrow> ret = not_eof (int (got + length d)) \<and> src_rel big ib' r cs \<and> ib_error ib' = ib_error ib
     | No_More \<Rightarrow> ret = EOF \<and> ib_error ib' = ib_error ib
     | Remote_Error m \<Rightarrow> ret = EOF \<and> src_rel big ib' [] cs \<and> ib_error ib' \<and> ib_message ib' = m)"

lemma gather_length: "length (fst (gather n cs)) \<le> n"
proof (induction n cs rule: gather.induct)
  case (2 n c cs)
  show ?case
    using 2 by (cases "length (body c) \<le> n") (auto simp: case_prod_beta)
qed simp

lemma while_option_step: "b s \<Longrightarrow> while_option b f s = while_option b f (f s)"
  by (subst while_option_unfold) simp

lemma while_option_stop: "\<not> b s \<Longrightarrow> while_option b f s = Some s"
  by (subst while_option_unfold) simp

lemma xs_loop:
  assumes "src_rel big ib [] cs" "0 < n" "n < 2 ^ 32" "pos + n = length dest"
  shows "\<exists>ret ib'. map_option (xs_result (length dest)) (while_option xs_running (xs_step (length dest))
      (ib, dest, pos, of_nat n, Running)) = Some (ret, poke dest pos (fst (gather n cs)), ib') \<and>
    read_post big ib pos (gather n cs) ret ib'"
  using assms
proof (induction cs arbitrary: ib n pos dest)
  case Nil
  then obtain ib' where st: "xs_step (length dest) (ib, dest, pos, of_nat n, Running) =
      (ib', dest, pos, of_nat n, Returned EOF)" "ib_error ib' = ib_error ib"
    using xs_step_nil by metis
  then show ?case
    by (simp add: while_option_step while_option_stop xs_result_def read_post_def)
next
  case (Cons c cs)
  note rel = Cons.prems(1)
  let ?num = "length dest" and ?st = "(ib, dest, pos, of_nat n :: u32, Running)"
  have run: "while_option xs_running (xs_step ?num) ?st = while_option xs_running (xs_step ?num) (xs_step ?num ?st)"
    by (simp add: while_option_step)
  consider (err) "ctype c = Err_Chunk" | (split) "ctype c \<noteq> Err_Chunk" "n < length (body c)"
    | (end0) "ctype c = End_Chunk" "body c = []" | (last) "ctype c \<noteq> Err_Chunk" "length (body c) \<le> n"
        "ctype c = End_Chunk \<or> length (body c) = n" "\<not> (body c = [] \<and> ctype c = End_Chunk)"
    | (more) "ctype c = Data_Chunk" "length (body c) < n"
    using less_linear [of n "length (body c)"] by (cases "ctype c") fastforce+
  then show ?case
  proof cases
    case err
    then show ?thesis
      using xs_step_error [OF rel err, of ?num dest pos "of_nat n" Running]
      by (auto simp: run while_option_stop xs_result_def read_post_def)
  next
    case split
    then show ?thesis
      using xs_step_split [OF rel split, of ?num dest pos Running] Cons.prems(4)
      by (auto simp: run while_option_stop xs_result_def read_post_def)
  next
    case end0
    have "int ?num - int n = int pos" using Cons.prems(4) by simp
    then show ?thesis
      using xs_step_end [OF rel end0 Cons.prems(3), of ?num dest pos Running] end0
      by (auto simp: run while_option_stop xs_result_def read_post_def)
  next
    case last
    define m where "m = n - length (body c)"
    obtain ib' where ib': "xs_step ?num ?st = (ib', poke dest pos (body c), pos + length (body c), of_nat m, Done)"
      "src_rel big ib' [] cs" "ib_error ib' = ib_error ib"
      using xs_step_whole [OF rel last(1,2) Cons.prems(3) last(4), of ?num dest pos Running] last(3)
      by (auto simp: m_def)
    have "uint (of_nat m :: u32) = int m" using Cons.prems(3) by (simp add: uint_nat unat_of_nat m_def)
    moreover have "int ?num - int m = int (pos + length (body c))"
      using Cons.prems(4) last(2) by (simp add: m_def)
    ultimately have "not_eof (int ?num - uint (of_nat m :: u32)) = not_eof (int (pos + length (body c)))"
      by (simp only:)
    moreover have "gather n (c # cs) = (body c, [], cs, Filled)" using last by auto
    ultimately show ?thesis
      using ib' by (simp add: run while_option_stop xs_result_def read_post_def)
  next
    case more
    define m where "m = n - length (body c)"
    let ?dest = "poke dest pos (body c)"
    have m: "0 < m" "m < 2 ^ 32" using more(2) Cons.prems(3) by (simp_all add: m_def)
    obtain ib1 where ib1: "xs_step ?num ?st = (ib1, ?dest, pos + length (body c), of_nat m, Running)"
      "src_rel big ib1 [] cs" "ib_error ib1 = ib_error ib"
      using xs_step_whole [OF rel _ _ Cons.prems(3), of ?num dest pos Running] more by (auto simp: m_def)
    have len: "length ?dest = ?num" "pos + length (body c) + m = length ?dest"
      using more(2) Cons.prems(4) by (simp_all add: m_def)
    obtain ret ib' where *: "map_option (xs_result ?num) (while_option xs_running (xs_step ?num)
          (ib1, ?dest, pos + length (body c), of_nat m, Running)) =
        Some (ret, poke ?dest (pos + length (body c)) (fst (gather m cs)), ib')"
        "read_post big ib1 (pos + length (body c)) (gather m cs) ret ib'"
      using Cons.IH [OF ib1(2) m len(2)] unfolding len(1) by blast
    have g: "gather n (c # cs) = (body c @ fst (gather m cs), snd (gather m cs))"
      using more by (auto simp: case_prod_beta m_def)
    have "read_post big ib pos (gather n (c # cs)) ret ib'"
      unfolding g using *(2) ib1(3)
      by (cases "gather m cs") (auto simp: read_post_def add.assoc split: stop.splits)
    moreover have "poke ?dest (pos + length (body c)) (fst (gather m cs)) = poke dest pos (fst (gather n (c # cs)))"
      unfolding g fst_conv using more(2) Cons.prems(4) by (intro poke_poke) simp
    ultimately show ?thesis
      using *(1) unfolding run ib1(1) by auto
  qed
qed

section \<open>Properties of the reader\<close>

definition gather_all :: "nat \<Rightarrow> u8 list \<Rightarrow> chunk list \<Rightarrow> u8 list \<times> u8 list \<times> chunk list \<times> stop" where
  "gather_all n buf cs =
     (if n \<le> length buf then (take n buf, drop n buf, cs, Filled)
      else case gather (n - length buf) cs of (d, r, ds, e) \<Rightarrow> (buf @ d, r, ds, e))"

lemma src_rel_advance:
  assumes "src_rel big ib buf cs" "n \<le> length buf"
  shows "src_rel big (ib\<lparr>ib_gptr := ib_gptr ib + n\<rparr>) (drop n buf) cs"
proof -
  have "length buf = ib_egptr ib - ib_gptr ib" "mem_ok ib"
    using assms(1) length_held by (auto simp: src_rel_def)
  then show ?thesis
    using assms by (auto simp: src_rel_def mem_ok_def held_def drop_take add.commute diff_diff_add)
qed

lemma not_eof_nat [simp]: "n < 2 ^ 31 \<Longrightarrow> not_eof (int n) = int n"
  by (rule not_eof_small) simp_all

lemma xsgetn_gather:
  assumes "src_rel big ib buf cs" "length dest < 2 ^ 31"
  shows "\<exists>ret ib'. xsgetn ib dest = Some (ret, poke dest 0 (fst (gather_all (length dest) buf cs)), ib') \<and>
    read_post big ib 0 (gather_all (length dest) buf cs) ret ib'"
proof -
  let ?n = "length dest"
  have len: "length buf = ib_egptr ib - ib_gptr ib" and ok: "mem_ok ib" and buf: "held ib = buf"
    using assms(1) length_held by (auto simp: src_rel_def)
  show ?thesis
  proof (cases "?n \<le> length buf")
    case True
    then show ?thesis
      using src_rel_advance [OF assms(1) True] assms(2) buf len
      by (simp add: xsgetn_def gather_all_def read_post_def poke_def Let_def held_def [symmetric])
  next
    case False
    define ib0 where "ib0 = (if ib_gptr ib < ib_egptr ib then ib\<lparr>ib_gptr := ib_egptr ib\<rparr> else ib)"
    define m where "m = ?n - length buf"
    let ?dest = "poke dest 0 buf"
    have m: "0 < m" "m < 2 ^ 32" using False assms(2) by (simp_all add: m_def)
    have rel0: "src_rel big ib0 [] cs"
      using src_rel_advance [OF assms(1), of "length buf"] assms(1) len ok
      by (cases "ib_gptr ib < ib_egptr ib") (auto simp: ib0_def mem_ok_def)
    have "(of_nat ?n - of_nat (length buf) :: u32) = of_nat m" using False by (simp add: of_nat_diff m_def)
    then have st: "xsgetn ib dest = map_option (xs_result ?n) (while_option xs_running (xs_step ?n)
        (ib0, ?dest, length buf, of_nat m, Running))"
      using False buf len ok
      by (simp add: xsgetn_def ib0_def held_def [symmetric] Let_def) (auto simp: mem_ok_def)
    have d: "length ?dest = ?n" "length buf + m = length ?dest" using False by (simp_all add: m_def)
    obtain ret ib' where *: "xsgetn ib dest = Some (ret, poke ?dest (length buf) (fst (gather m cs)), ib')"
      "read_post big ib0 (length buf) (gather m cs) ret ib'"
      using xs_loop [OF rel0 m d(2)] unfolding d(1) st by blast
    have g: "gather_all ?n buf cs = (buf @ fst (gather m cs), snd (gather m cs))"
      using False by (simp add: gather_all_def case_prod_beta m_def)
    have "ib_error ib0 = ib_error ib" by (simp add: ib0_def)
    then have "read_post big ib 0 (gather_all ?n buf cs) ret ib'"
      using *(2) by (cases "gather m cs") (auto simp: g read_post_def split: stop.splits)
    then show ?thesis
      using *(1) False poke_poke [of 0 buf dest "fst (gather m cs)"] by (simp add: g)
  qed
qed

text \<open>C17: A block read implements the specification \<open>gather_all\<close>: for a source that holds encoded chunks it ends,
  stores exactly the specified bytes in the destination, returns their number when it stopped
  because the request was filled or an end chunk was met (with the rest of a split chunk in the
  buffer and the source at the next chunk), returns \<open>EOF\<close> when the chunks ran out, and on an error chunk
  returns \<open>EOF\<close> with the error flag and the message set.\<close>

theorem xsgetn_refines:
  assumes "src_rel big ib buf cs" "length dest < 2 ^ 31"
  shows "\<exists>ret ib'. xsgetn ib dest = Some (ret, poke dest 0 (fst (gather_all (length dest) buf cs)), ib') \<and>
    read_post big ib 0 (gather_all (length dest) buf cs) ret ib'"
  using assms by (rule xsgetn_gather)

section \<open>Reading one chunk\<close>

lemma load_chunk_cons:
  assumes "src_rel big ib buf (c # cs)"
  defines "ib1 \<equiv> after_header big ib c cs"
  defines "ib2 \<equiv> grow ib1 (of_nat (length (body c))) (of_nat (length (body c)))"
  defines "ib3 \<equiv> ib2\<lparr>ib_is := (ib_is ib2)\<lparr>pending := encode_chunks big cs\<rparr>,
    ib_mem := body c @ drop (length (body c)) (ib_mem ib2), ib_gptr := 0, ib_egptr := length (body c)\<rparr>"
  shows "load_chunk ib =
    (if body c = [] \<and> ctype c = End_Chunk then (None, ib2)
     else if ctype c = Err_Chunk then (None, ib3\<lparr>ib_error := True, ib_message := body c\<rparr>)
     else (Some (length (body c)), ib3))" (is "_ = ?rhs")
    "src_rel big ib3 (body c) cs"
proof -
  note c = src_rel_cons [OF assms(1)]
  note h = header_of_chunk [OF c(2)]
  have nil: "of_nat (length (body c)) = (0 :: u32) \<longleftrightarrow> body c = []"
    using of_nat_eq_0_small(1) [OF h(2)] by simp
  have src: "in_src ib1 (body c @ encode_chunks big cs)" "mem_ok ib1"
    using c(1,3) by (simp_all add: ib1_def after_header_def)
  have src2: "in_src ib2 (body c @ encode_chunks big cs)" using src by (simp add: ib2_def)
  have "length (body c) \<le> length (ib_mem ib2)"
    using grow_room [OF src(2), of "of_nat (length (body c))" "of_nat (length (body c))"] h(2) by (simp add: ib2_def)
  moreover have "mem_ok ib2" using src(2) by (simp add: ib2_def)
  ultimately show "src_rel big ib3 (body c) cs"
    using src2 c(4) by (simp add: ib3_def src_rel_def held_def) (simp add: mem_ok_def)
  have r: "(read_mem ib2 (length (body c)))\<lparr>ib_gptr := 0, ib_egptr := length (body c)\<rparr> = ib3"
    "\<not> is_bad (ib_is (read_mem ib2 (length (body c))))"
    using read_mem_src [OF src2, of "length (body c)"] src2 by (simp_all add: ib3_def)
  have m: "take (length (body c)) (ib_mem ib3) = body c" by (simp add: ib3_def)
  have eof: "\<not> eofbit (ib_is ib)" using c(1) by simp
  have "load_chunk ib = (if body c = [] \<and> ctype c = End_Chunk then (None, ib2)
      else if ctype c = End_Chunk \<or> ctype c = Data_Chunk then (Some (length (body c)), ib3)
      else (None, ib3\<lparr>ib_error := True, ib_message := body c\<rparr>))"
    unfolding load_chunk_def case_prod_conv read_header_cons [OF c(1)] Let_def h(1,3) nil type_bits_iff
    using eof r m h(2)
    by (cases "ctype c") (simp_all add: ib2_def ib1_def after_header_def)
  then show "load_chunk ib = ?rhs" by (cases "ctype c") auto
qed

lemma twiddle_after_header:
  assumes "chunk_ok c" "\<not> ib_set_twiddle ib"
  shows "ib_twiddle (after_header big ib c cs) \<longleftrightarrow> \<not> ib_host_big ib \<and> big"
proof -
  have "header_word big (ctype c) (length (body c)) AND CHUNK_LITTLE_ENDIAN = order_bit big"
    using assms(1) by (intro header_fields(3)) (simp add: chunk_ok_def)
  then show ?thesis
    using assms(2) by (simp add: after_header_def note_byte_order_def order_bit_def CHUNK_LITTLE_ENDIAN_def)
qed

text \<open>Reading one chunk: with a data chunk, or an end chunk that has bytes, next on the source,
  \<open>read_next_chunk\<close> returns the chunk's size and the buffer holds exactly its bytes; with an empty end chunk it
  returns \<open>EOF\<close>; with an error chunk it returns \<open>EOF\<close> and records the message.\<close>

lemma read_next_chunk_spec:
  assumes "src_rel big ib buf (c # cs)"
  shows "if ctype c = Err_Chunk then fst (read_next_chunk ib) = EOF \<and> ib_error (snd (read_next_chunk ib))
           \<and> ib_message (snd (read_next_chunk ib)) = body c
         else if ctype c = End_Chunk \<and> body c = [] then fst (read_next_chunk ib) = EOF
         else fst (read_next_chunk ib) = int (length (body c)) \<and> src_rel big (snd (read_next_chunk ib)) (body c) cs"
proof -
  note l = load_chunk_cons [OF assms]
  have "not_eof (int (length (body c))) = int (length (body c))"
    using assms by (intro not_eof_nat) (simp add: src_rel_def chunk_ok_def)
  then show ?thesis
    using l(2) by (auto simp: read_next_chunk_def l(1))
qed

text \<open>The byte-order test of the reader: after the first chunk the flag says that bytes have to be
  swapped exactly when the sender is big endian and the host is not.  On a big-endian host the flag is
  never set, whatever the sender is, because 1 is compared with the masked header.\<close>

lemma twiddle_flag:
  assumes "src_rel big ib buf (c # cs)" "\<not> ib_set_twiddle ib" "ctype c = Data_Chunk"
  shows "ib_twiddle (snd (read_next_chunk ib)) \<longleftrightarrow> \<not> ib_host_big ib \<and> big"
  using load_chunk_cons(1) [OF assms(1)] twiddle_after_header [of c ib big cs] assms
  by (simp add: read_next_chunk_def grow_def m_buffer_alloc_def src_rel_def)

text \<open>A data chunk without bytes makes \<open>underflow\<close> deliver a byte that is not in the stream: it returns what
  the first cell of the buffer happens to hold, not \<open>EOF\<close> and not the next chunk's first byte.\<close>

lemma underflow_stale_byte:
  assumes "src_rel big ib [] (Chunk Data_Chunk [] # cs)"
  shows "fst (underflow ib) = uint (mem_at ib 0) \<and> fst (underflow ib) \<noteq> EOF \<and>
    src_rel big (snd (underflow ib)) [] cs"
proof -
  let ?c = "Chunk Data_Chunk []"
  define ib3 where "ib3 = (after_header big ib ?c cs)\<lparr>ib_gptr := 0, ib_egptr := 0\<rparr>"
  have empty: "ib_gptr ib = ib_egptr ib" using assms by (simp add: src_rel_empty)
  have p: "pending (ib_is (after_header big ib ?c cs)) = encode_chunks big cs" by (simp add: after_header_def)
  have "(ib_is (after_header big ib ?c cs))\<lparr>pending := encode_chunks big cs\<rparr> = ib_is (after_header big ib ?c cs)"
    by (simp flip: p)
  then have "load_chunk ib = (Some 0, ib3)" "src_rel big ib3 [] cs"
    using load_chunk_cons [OF assms] by (simp_all add: ib3_def grow_def)
  moreover have "mem_at ib3 0 = mem_at ib 0" by (simp add: ib3_def after_header_def mem_at_def note_byte_order_def)
  moreover have "ib_gptr ib3 = 0" by (simp add: ib3_def)
  moreover have "uint (mem_at ib 0) \<noteq> EOF"
  proof -
    have "0 \<le> uint (mem_at ib 0)" by simp
    then show ?thesis unfolding EOF_def by linarith
  qed
  ultimately show ?thesis using empty by (simp add: underflow_def)
qed

section \<open>From writer to reader\<close>

text \<open>A complete response: data chunks and one end chunk; \<open>[]\<close> is what is left when all is read.\<close>

fun response :: "chunk list \<Rightarrow> bool" where
  "response [] \<longleftrightarrow> True"
| "response (c # cs) \<longleftrightarrow> (if ctype c = End_Chunk then cs = [] else ctype c = Data_Chunk \<and> cs \<noteq> [] \<and> response cs)"

definition payload :: "chunk list \<Rightarrow> u8 list" where
  "payload cs = concat (map body cs)"

lemma payload_simps [simp]: "payload [] = []" "payload (c # cs) = body c @ payload cs"
  "payload (cs @ ds) = payload cs @ payload ds"
  by (simp_all add: payload_def)

lemma gather_response:
  assumes "response cs" "0 < n" "n \<le> length (payload cs)"
  shows "\<exists>r ds. gather n cs = (take n (payload cs), r, ds, Filled) \<and> r @ payload ds = drop n (payload cs) \<and> response ds
    \<and> set ds \<subseteq> set cs"
  using assms
proof (induction n cs rule: gather.induct)
  case (2 n c cs)
  then have t: "ctype c \<noteq> Err_Chunk" by auto
  consider "n < length (body c)" | "length (body c) = n" | "length (body c) < n" "ctype c = Data_Chunk" "response cs"
    using 2(2,4) t less_linear [of n "length (body c)"] by (cases "ctype c") auto
  then show ?case
  proof cases
    case 3
    then obtain r ds where "gather (n - length (body c)) cs = (take (n - length (body c)) (payload cs), r, ds, Filled)"
      "r @ payload ds = drop (n - length (body c)) (payload cs)" "response ds" "set ds \<subseteq> set cs"
      using 2(1) [OF t] 2(4) by (auto simp: le_diff_conv add.commute)
    then show ?thesis using 3 by auto
  qed (use 2(2) t in \<open>auto split: if_splits\<close>)
qed simp

definition available :: "u8 list \<Rightarrow> chunk list \<Rightarrow> u8 list" where
  "available buf cs = buf @ payload cs"

text \<open>A sequence of block reads, each into zeroed memory: the values returned and the bytes stored.\<close>

fun read_seq :: "inbuf \<Rightarrow> nat list \<Rightarrow> ((int \<times> u8 list) list \<times> inbuf) option" where
  "read_seq ib [] = Some ([], ib)"
| "read_seq ib (n # ns) =
     (case xsgetn ib (replicate n 0) of
        None \<Rightarrow> None
      | Some (r, bs, ib1) \<Rightarrow>
          (case read_seq ib1 ns of None \<Rightarrow> None | Some (rs, ib2) \<Rightarrow> Some ((r, bs) # rs, ib2)))"

fun slices :: "nat list \<Rightarrow> u8 list \<Rightarrow> (int \<times> u8 list) list" where
  "slices [] xs = []"
| "slices (n # ns) xs = (int n, take n xs) # slices ns (drop n xs)"

lemma xsgetn_response:
  assumes rel: "src_rel big ib buf cs" and resp: "response cs"
    and n: "length dest \<le> length (buf @ payload cs)" "length dest < 2 ^ 31"
  shows "\<exists>ib' buf' ds. xsgetn ib dest = Some (int (length dest), take (length dest) (buf @ payload cs), ib') \<and>
    src_rel big ib' buf' ds \<and> response ds \<and> buf' @ payload ds = drop (length dest) (buf @ payload cs)"
proof -
  let ?n = "length dest"
  obtain r ds where g: "gather_all ?n buf cs = (take ?n (buf @ payload cs), r, ds, Filled)" "response ds"
    "r @ payload ds = drop ?n (buf @ payload cs)"
  proof (cases "?n \<le> length buf")
    case True
    then show ?thesis using that [of "drop ?n buf" cs] resp by (simp add: gather_all_def)
  next
    case False
    then obtain r ds where "gather (?n - length buf) cs = (take (?n - length buf) (payload cs), r, ds, Filled)"
      "r @ payload ds = drop (?n - length buf) (payload cs)" "response ds"
      using gather_response [OF resp, of "?n - length buf"] n(1) False by (auto simp: le_diff_conv add.commute)
    then show ?thesis
      using False that [of r ds] by (simp add: gather_all_def)
  qed
  define all where "all = buf @ payload cs"
  have len: "length (take ?n all) = ?n" using n(1) by (simp add: all_def)
  then have "poke dest 0 (take ?n all) = take ?n all" by (simp add: poke_def)
  moreover obtain ret ib' where "xsgetn ib dest = Some (ret, poke dest 0 (take ?n all), ib')"
    "ret = not_eof (int (length (take ?n all)))" "src_rel big ib' r ds"
    using xsgetn_gather [OF rel n(2)] unfolding g(1) all_def [symmetric] by (auto simp: read_post_def)
  ultimately show ?thesis
    using g(2,3) n(2) len unfolding all_def [symmetric] by auto
qed

lemma read_seq_response:
  assumes "src_rel big ib buf cs" "response cs" "sum_list ns \<le> length (buf @ payload cs)" "\<forall>n \<in> set ns. n < 2 ^ 31"
  shows "\<exists>ib'. read_seq ib ns = Some (slices ns (buf @ payload cs), ib')"
  using assms
proof (induction ns arbitrary: ib buf cs)
  case (Cons n ns)
  obtain ib1 buf1 cs1 where x: "xsgetn ib (replicate n 0) = Some (int n, take n (buf @ payload cs), ib1)"
    "src_rel big ib1 buf1 cs1" "response cs1" "buf1 @ payload cs1 = drop n (buf @ payload cs)"
    using xsgetn_response [OF Cons.prems(1,2), of "replicate n 0"] Cons.prems(3,4) by auto
  have "sum_list ns \<le> length (buf1 @ payload cs1)"
    using Cons.prems(3) unfolding x(4) by simp
  then obtain ib2 where "read_seq ib1 ns = Some (slices ns (buf1 @ payload cs1), ib2)"
    using Cons.IH [OF x(2,3)] Cons.prems(4) by auto
  then show ?case using x(1) unfolding x(4) by simp
qed simp

text \<open>What a session writes, for sessions that send no end or error chunk before they are closed.\<close>

fun written :: "out_op list \<Rightarrow> u8 list" where
  "written [] = []"
| "written (Put b # xs) = b # written xs"
| "written (Write s # xs) = s @ written xs"
| "written (_ # xs) = written xs"

fun data_op :: "out_op \<Rightarrow> bool" where
  "data_op Write_End_Chunk \<longleftrightarrow> False"
| "data_op (Write_Err_Chunk m) \<longleftrightarrow> False"
| "data_op (Write s) \<longleftrightarrow> length s < 2 ^ 31"
| "data_op _ \<longleftrightarrow> True"

lemma stream_step_data [simp]: "data_op x \<Longrightarrow> stream_step k (st, False) x = (spec_step k st x, False)"
  by (cases x) (simp_all add: stream_step_def)

definition data_only :: "nat \<Rightarrow> chunk list \<Rightarrow> bool" where
  "data_only k cs \<longleftrightarrow> (\<forall>c \<in> set cs. ctype c = Data_Chunk \<and> length (body c) \<le> k)"

lemma spec_step_data:
  assumes "0 < k" "length buf < k" "data_op x"
  shows "payload (fst (spec_step k ([], buf) x)) @ snd (spec_step k ([], buf) x) = buf @ written [x]"
    "data_only k (fst (spec_step k ([], buf) x))"
proof -
  have p: "payload (map (Chunk Data_Chunk) fs) = concat fs" for fs
    by (induction fs) simp_all
  have d: "data_only k (map (Chunk Data_Chunk) (fst (split_full k xs)))" for xs
    using split_full_parts(3) [OF assms(1), of xs] by (auto simp: data_only_def)
  show "payload (fst (spec_step k ([], buf) x)) @ snd (spec_step k ([], buf) x) = buf @ written [x]"
    using assms by (cases x) (simp_all add: case_prod_beta p split_full_parts)
  show "data_only k (fst (spec_step k ([], buf) x))"
    using assms d by (cases x) (simp_all add: case_prod_beta, simp_all add: data_only_def)
qed

lemma written_append [simp]: "written (xs @ ys) = written xs @ written ys"
  by (induction xs rule: written.induct) simp_all

lemma spec_run_data:
  assumes "0 < k" "length buf < k" "\<forall>x \<in> set ops. data_op x"
  shows "\<exists>cs buf'. spec_run k (([], buf), False) ops = ((cs, buf'), False) \<and> payload cs @ buf' = buf @ written ops
    \<and> data_only k cs \<and> length buf' < k"
  using assms
proof (induction ops rule: rev_induct)
  case (snoc x ops)
  then obtain cs b where ih: "spec_run k (([], buf), False) ops = ((cs, b), False)" "payload cs @ b = buf @ written ops"
    "data_only k cs" "length b < k"
    by auto
  have x: "data_op x" using snoc.prems(3) by simp
  have "spec_run k (([], buf), False) (ops @ [x]) = stream_step k (spec_run k (([], buf), False) ops) x" by (simp add: spec_run_def)
  then have st: "spec_run k (([], buf), False) (ops @ [x]) =
      ((cs @ fst (spec_step k ([], b) x), snd (spec_step k ([], b) x)), False)"
    using x spec_step_base [of k cs b x] by (simp add: ih(1))
  note d = spec_step_data [OF snoc.prems(1) ih(4) x] spec_step_held [OF snoc.prems(1) ih(4), of "[]" x]
  have "payload cs @ (payload (fst (spec_step k ([], b) x)) @ snd (spec_step k ([], b) x)) = buf @ written ops @ written [x]"
    using d(1) ih(2) by (metis append_assoc)
  then show ?case using d(2,3) ih(3) by (simp add: st data_only_def ball_Un)
qed (simp add: spec_run_def data_only_def)

text \<open>A session of data on a stream that was just opened.\<close>

lemma data_session:
  assumes "out_ok ob" "ob_buf ob = []" "\<forall>x \<in> set ops. data_op x"
  obtains cs buf where "out_run (open_stream ob) ops = Some (open_stream (emit ob (cs, buf)))" "payload cs @ buf = written ops"
    "data_only (unat (ob_size ob)) cs" "length buf < unat (ob_size ob)"
proof -
  have k: "0 < unat (ob_size ob)" using assms(1) by (simp add: out_ok_def)
  obtain cs buf where d: "spec_run (unat (ob_size ob)) (([], []), False) ops = ((cs, buf), False)" "payload cs @ buf = written ops"
    "data_only (unat (ob_size ob)) cs" "length buf < unat (ob_size ob)"
    using spec_run_data [OF k, of "[]" ops] k assms(3) by auto
  have "out_run (open_stream ob) ops = Some (open_stream (emit ob (cs, buf)))"
    using out_run_emit [of "open_stream ob" ops] assms(1,2) by (simp add: open_stream_def emit_stream_def d(1))
  then show ?thesis using d(2-4) by (rule that)
qed

lemma response_data: "data_only k cs \<Longrightarrow> response (cs @ [Chunk End_Chunk b])"
  by (induction cs) (auto simp: data_only_def)

lemma make_inbuf_rel:
  assumes "make_inbuf host_big junk is n = Inr ib" "is_good is" "pending is = encode_chunks big cs"
    "\<forall>c \<in> set cs. chunk_ok c"
  shows "src_rel big ib [] cs"
proof -
  have "ib_gptr ib = ib_egptr ib" "ib_is ib = is" "mem_ok ib"
    using assms(1) by (auto simp: make_inbuf_def Let_def m_buffer_alloc_def mem_ok_def split: if_splits)
  then show ?thesis
    using assms(2-) by (simp add: src_rel_empty in_src_def)
qed

lemma closed_source:
  assumes "out_ok ob" "sent (ob_os ob) = []" "data_only (unat (ob_size ob)) cs" "length buf < unat (ob_size ob)"
    and "make_inbuf host_big junk \<lparr>pending = sent (close_outbuf (emit ob (cs, buf))),
           eofbit = False, failbit = False, is_bad = False\<rparr> sz = Inr ib"
  shows "src_rel (ob_big ob) ib [] (cs @ [Chunk End_Chunk buf]) \<and> response (cs @ [Chunk End_Chunk buf])"
proof -
  let ?cs = "cs @ [Chunk End_Chunk buf]"
  have k: "unat (ob_size ob) \<le> 0x00FFFFFF" "unlimited (ob_os ob)" using assms(1) by (auto simp: out_ok_def)
  have bytes: "sent (close_outbuf (emit ob (cs, buf))) = encode_chunks (ob_big ob) ?cs"
    using assms(2) k(2) by (simp add: close_outbuf_def end_chunk_eq) (simp add: emit_def)
  have ok: "\<forall>c \<in> set ?cs. chunk_ok c" using assms(3,4) k(1) by (auto simp: data_only_def chunk_ok_def)
  have "src_rel (ob_big ob) ib [] ?cs"
    by (rule make_inbuf_rel [OF assms(5)]) (use ok in \<open>simp_all only: is_good_def istream.simps bytes simp_thms\<close>)
  then show ?thesis using response_data [OF assms(3)] by simp
qed

text \<open>C5: Round trip: whatever is put on a chunked output stream with puts, flushes and writes of less than 2 GiB each, a chunked
  input stream on the bytes of the closed stream delivers again, in order and without a byte lost or added, for
  every way of cutting what was written into reads of less than 2 GiB each and whatever the two buffer sizes are.  The stream
  is new, its sink is empty and accepts everything, and no read goes beyond what was written.\<close>

theorem chunked_round_trip:
  assumes "out_ok ob" "ob_buf ob = []" "sent (ob_os ob) = []" "\<forall>x \<in> set ops. data_op x"
    and "make_inbuf host_big junk \<lparr>pending = sent (close_outbuf (d_cbuf (the (out_run (open_stream ob) ops)))),
           eofbit = False, failbit = False, is_bad = False\<rparr> sz = Inr ib"
    and "sum_list ns \<le> length (written ops)" "\<forall>n \<in> set ns. n < 2 ^ 31"
  shows "\<exists>ib'. read_seq ib ns = Some (slices ns (written ops), ib')"
proof -
  obtain cs buf where run: "out_run (open_stream ob) ops = Some (open_stream (emit ob (cs, buf)))"
    and sp: "payload cs @ buf = written ops" "data_only (unat (ob_size ob)) cs" "length buf < unat (ob_size ob)"
    using data_session [OF assms(1,2,4)] .
  have src: "src_rel (ob_big ob) ib [] (cs @ [Chunk End_Chunk buf])" "response (cs @ [Chunk End_Chunk buf])"
    using closed_source [OF assms(1,3) sp(2,3), of host_big junk sz ib] assms(5) by (simp_all add: run)
  then show ?thesis
    using read_seq_response [OF src, of ns] assms(6,7) sp(1) by auto
qed

text \<open>Reading past the end loses the count: when the end chunk has been consumed and the buffer still holds
  its last bytes, a block read for more bytes than that stores them in the destination but returns \<open>EOF\<close>
  instead of their number.\<close>

lemma read_past_end_returns_EOF:
  assumes "src_rel big ib buf []" "length buf < length dest" "length dest < 2 ^ 31"
  shows "\<exists>ib'. xsgetn ib dest = Some (EOF, poke dest 0 buf, ib')"
  using xsgetn_gather [OF assms(1,3)] assms(2) by (auto simp: gather_all_def read_post_def)

section \<open>Witnesses\<close>

definition demo_source :: "chunk list \<Rightarrow> istream" where
  "demo_source cs = \<lparr>pending = encode_chunks False cs, eofbit = False, failbit = False, is_bad = False\<rparr>"

definition demo_in :: "chunk list \<Rightarrow> inbuf" where
  "demo_in cs = \<lparr>ib_is = demo_source cs, ib_size = 4, ib_mem = [9, 9, 9, 9], ib_gptr = 0, ib_egptr = 0,
     ib_twiddle = False, ib_set_twiddle = False, ib_message = [], ib_error = False, ib_host_big = False,
     ib_junk = (\<lambda>_. 9)\<rparr>"

lemma demo_in_rel: "\<forall>c \<in> set cs. chunk_ok c \<Longrightarrow> src_rel False (demo_in cs) [] cs"
  by (simp add: src_rel_empty demo_in_def demo_source_def in_src_def is_good_def mem_ok_def)

theorem xsgetn_refines_witness:
  "\<exists>ib'. xsgetn (demo_in [Chunk Data_Chunk [1, 2], Chunk End_Chunk [3, 4]]) [0, 0, 0] = Some (3, [1, 2, 3], ib')
     \<and> src_rel False ib' [4] []"
  using xsgetn_refines [of False "demo_in [Chunk Data_Chunk [1, 2], Chunk End_Chunk [3, 4]]" "[]"
      "[Chunk Data_Chunk [1, 2], Chunk End_Chunk [3, 4]]" "[0, 0, 0]"]
  by (auto simp add: demo_in_rel chunk_ok_def gather_all_def read_post_def poke_def)

lemma read_next_chunk_spec_witness:
  "fst (read_next_chunk (demo_in [Chunk Err_Chunk [7, 8]])) = EOF
   \<and> ib_message (snd (read_next_chunk (demo_in [Chunk Err_Chunk [7, 8]]))) = [7, 8]"
  using read_next_chunk_spec [of False "demo_in [Chunk Err_Chunk [7, 8]]" "[]" "Chunk Err_Chunk [7, 8]" "[]"]
  by (simp add: demo_in_rel chunk_ok_def)

lemma twiddle_flag_witness:
  "\<not> ib_twiddle (snd (read_next_chunk (demo_in [Chunk Data_Chunk [1]])))"
  using twiddle_flag [of False "demo_in [Chunk Data_Chunk [1]]" "[]" "Chunk Data_Chunk [1]" "[]"]
    demo_in_rel [of "[Chunk Data_Chunk [1]]"]
  by (simp add: chunk_ok_def demo_in_def)

lemma underflow_stale_byte_witness:
  "fst (underflow (demo_in [Chunk Data_Chunk [], Chunk End_Chunk []])) = 9"
  using underflow_stale_byte [of False "demo_in [Chunk Data_Chunk [], Chunk End_Chunk []]" "[Chunk End_Chunk []]"]
    demo_in_rel [of "[Chunk Data_Chunk [], Chunk End_Chunk []]"]
  by (simp add: chunk_ok_def) (simp add: demo_in_def mem_at_def)

theorem chunked_round_trip_witness:
  "\<exists>ib'. read_seq (demo_in [Chunk Data_Chunk [1, 2, 3, 4], Chunk End_Chunk [5]]\<lparr>ib_mem := [9, 9, 9, 9]\<rparr>) [2, 3] =
     Some ([(2, [1, 2]), (3, [3, 4, 5])], ib')"
proof -
  let ?ops = "[Write [1, 2, 3], Put 4, Put 5]"
  have "sent (close_outbuf (d_cbuf (the (out_run (open_stream demo_out) ?ops)))) =
      encode_chunks False [Chunk Data_Chunk [1, 2, 3, 4], Chunk End_Chunk [5]]"
    using out_run_emit [of "open_stream demo_out" ?ops]
    by (simp add: open_stream_def emit_stream_def spec_run_def stream_step_def split_full.simps close_outbuf_def end_chunk_eq
        demo_out_ok(1) [unfolded out_ok_def])
      (simp add: emit_def demo_out_def)
  then have "make_inbuf False (\<lambda>_. 9) \<lparr>pending = sent (close_outbuf (d_cbuf (the (out_run (open_stream demo_out) ?ops)))),
      eofbit = False, failbit = False, is_bad = False\<rparr> 4 =
      Inr (demo_in [Chunk Data_Chunk [1, 2, 3, 4], Chunk End_Chunk [5]])"
    by (simp add: make_inbuf_def m_buffer_alloc_def demo_in_def demo_source_def CHUNK_TYPE_MASK_def upt_rec)
  from chunked_round_trip [OF _ _ _ _ this, of "[2, 3]"] show ?thesis
    by (simp add: demo_in_def) (simp add: demo_out_def)
qed

lemma read_past_end_returns_EOF_witness:
  "\<exists>ib'. xsgetn (demo_in []\<lparr>ib_egptr := 1\<rparr>) [0, 0] = Some (EOF, [9, 0], ib')"
proof -
  have "src_rel False (demo_in []\<lparr>ib_egptr := 1\<rparr>) [9] []"
    by (simp add: src_rel_def demo_in_def demo_source_def in_src_def is_good_def mem_ok_def held_def)
  from read_past_end_returns_EOF [OF this, of "[0, 0]"] show ?thesis by (simp add: poke_def)
qed

end
