(* ===== verification/D4Marshal.thy ===== *)
theory D4Marshal
  imports Crc StringUtil ChunkedIn
begin

text \<open>
  The DAP4 marshaller and unmarshaller (\<open>D4StreamMarshaller.cc\<close>, \<open>D4StreamUnMarshaller.cc\<close>): values
  are written in the byte order of the writing host, with a running checksum, and the reader swaps
  the bytes when it is told that the orders differ.  The stream is a parameter: the write and read
  operations of \<open>std::ostream\<close> and \<open>std::istream\<close> are virtual, so the operations take them as
  arguments, and two locales say what the marshallers rely on; they are interpreted on the plain
  streams and on the chunked streams.

  Modelled is the configuration with IEEE 754 reals (a real is its bit pattern) and without
  threads.  Both classes turn on the exceptions of their stream, so an operation that sets
  \<open>failbit\<close> or \<open>badbit\<close> throws.  An assertion that fails ends the program; it is the value
  \<open>assertion_failed\<close>.  A value \<open>None\<close> is an operation of the stream that does not return.
\<close>

section \<open>Values in memory\<close>

definition le_bytes :: "nat \<Rightarrow> 'a::len word \<Rightarrow> u8 list" where
  "le_bytes n w = map (\<lambda>i. ucast (drop_bit (8 * i) w)) [0..<n]"

fun le_val :: "u8 list \<Rightarrow> 'a::len word" where
  "le_val [] = 0"
| "le_val (b # bs) = ucast b OR push_bit 8 (le_val bs)"

text \<open>The bytes of a value in the memory of a host, and back.\<close>

definition mem_bytes :: "bool \<Rightarrow> nat \<Rightarrow> 'a::len word \<Rightarrow> u8 list" where
  "mem_bytes big n w = (if big then rev (le_bytes n w) else le_bytes n w)"

definition mem_val :: "bool \<Rightarrow> u8 list \<Rightarrow> 'a::len word" where
  "mem_val big bs = le_val (if big then rev bs else bs)"

text \<open>\<open>bswap_16\<close>, \<open>bswap_32\<close>, \<open>bswap_64\<close> of \<open>byteswap.h\<close>: the bytes in reverse order.\<close>

definition bswap :: "nat \<Rightarrow> 'a::len word \<Rightarrow> 'a word" where
  "bswap n w = le_val (rev (le_bytes n w))"

section \<open>Streams\<close>

type_synonym 's writer = "'s \<Rightarrow> u8 list \<Rightarrow> 's result option"
type_synonym 's reader = "'s \<Rightarrow> nat \<Rightarrow> (u8 list \<times> 's) result option"

definition stream_failure :: exn where "stream_failure = Std_Exception ''ios_base::failure''"
definition assertion_failed :: exn where "assertion_failed = Std_Exception ''assert''"
definition length_error :: exn where "length_error = Std_Exception ''length_error''"

definition bind :: "'a result option \<Rightarrow> ('a \<Rightarrow> 'b result option) \<Rightarrow> 'b result option" where
  "bind r f = (case r of None \<Rightarrow> None | Some (Inl e) \<Rightarrow> Some (Inl e) | Some (Inr x) \<Rightarrow> f x)"

abbreviation return :: "'a \<Rightarrow> 'a result option" where "return x \<equiv> Some (Inr x)"
abbreviation throw :: "exn \<Rightarrow> 'a result option" where "throw e \<equiv> Some (Inl e)"

lemma bind_simps [simp]: "bind (return x) f = f x" "bind (throw e) f = throw e" "bind None f = None"
  by (simp_all add: bind_def)

text \<open>The library streams, and the chunked streams behind \<open>ostream::write\<close> and \<open>istream::read\<close>.\<close>

definition plain_write :: "ostream writer" where
  "plain_write os bs = (let os1 = os_write os bs in if os_bad os1 then throw stream_failure else return os1)"

definition plain_read :: "istream reader" where
  "plain_read is n = (let (got, is1) = is_read is n in
     if failbit is1 \<or> is_bad is1 then throw stream_failure else return (got, is1))"

definition chunked_write :: "outbuf writer" where
  "chunked_write ob bs = (case xsputn ob bs of
     None \<Rightarrow> None
   | Some (r, ob1) \<Rightarrow> if r \<noteq> int (length bs) then throw stream_failure else return ob1)"

definition chunked_read :: "inbuf reader" where
  "chunked_read ib n = (case xsgetn ib (replicate n 0) of
     None \<Rightarrow> None
   | Some (r, got, ib1) \<Rightarrow> if r \<noteq> int n then throw stream_failure else return (got, ib1))"

section \<open>The marshaller\<close>

record 's marshaller =
  d_out :: 's
  d_write_data :: bool
  d_checksum :: u32
  host_big :: bool

definition make_marshaller :: "bool \<Rightarrow> 's \<Rightarrow> bool \<Rightarrow> 's marshaller" where
  "make_marshaller big out write_data =
     \<lparr>d_out = out, d_write_data = write_data, d_checksum = Reset, host_big = big\<rparr>"

definition reset_checksum :: "'s marshaller \<Rightarrow> 's marshaller" where
  "reset_checksum m = m\<lparr>d_checksum := Reset\<rparr>"

text \<open>\<open>oss << hex << setfill('0') << setw(8)\<close>\<close>

fun show_hex :: "nat \<Rightarrow> string" where
  "show_hex n = (if n < 16 then [''0123456789abcdef'' ! n] else show_hex (n div 16) @ [''0123456789abcdef'' ! (n mod 16)])"

declare show_hex.simps [simp del]

definition hex8 :: "u32 \<Rightarrow> string" where
  "hex8 w = (let s = show_hex (unat w) in replicate (8 - length s) CHR ''0'' @ s)"

definition get_checksum :: "'s marshaller \<Rightarrow> string" where
  "get_checksum m = hex8 (GetCrc32 (d_checksum m))"

definition write_out :: "'s writer \<Rightarrow> 's marshaller \<Rightarrow> u8 list \<Rightarrow> 's marshaller result option" where
  "write_out wr m bs = bind (wr (d_out m) bs) (\<lambda>s. return (m\<lparr>d_out := s\<rparr>))"

definition put_checksum :: "'s writer \<Rightarrow> 's marshaller \<Rightarrow> 's marshaller result option" where
  "put_checksum wr m = write_out wr m (mem_bytes (host_big m) 4 (GetCrc32 (d_checksum m)))"

text \<open>The length, an \<open>unsigned long\<close>, is converted to the \<open>uint32_t\<close> of \<open>AddData\<close>.\<close>

definition checksum_update :: "'s marshaller \<Rightarrow> u8 list \<Rightarrow> nat \<Rightarrow> 's marshaller" where
  "checksum_update m data len = m\<lparr>d_checksum := AddData (d_checksum m) data (of_nat len)\<rparr>"

text \<open>The pattern of the scalar operations: the bytes of the variable, to the checksum and to the stream.\<close>

definition put_val :: "nat \<Rightarrow> 's writer \<Rightarrow> 's marshaller \<Rightarrow> 'a::len word \<Rightarrow> 's marshaller result option" where
  "put_val n wr m v =
     (let bs = mem_bytes (host_big m) n v; m1 = checksum_update m bs n in
      if d_write_data m1 then write_out wr m1 bs else return m1)"

definition put_byte :: "'s writer \<Rightarrow> 's marshaller \<Rightarrow> u8 \<Rightarrow> 's marshaller result option" where
  "put_byte wr m v = put_val 1 wr m v"

definition put_int8 :: "'s writer \<Rightarrow> 's marshaller \<Rightarrow> u8 \<Rightarrow> 's marshaller result option" where
  "put_int8 wr m v = put_val 1 wr m v"

definition put_int16 :: "'s writer \<Rightarrow> 's marshaller \<Rightarrow> u16 \<Rightarrow> 's marshaller result option" where
  "put_int16 wr m v = put_val 2 wr m v"

definition put_int32 :: "'s writer \<Rightarrow> 's marshaller \<Rightarrow> u32 \<Rightarrow> 's marshaller result option" where
  "put_int32 wr m v = put_val 4 wr m v"

definition put_int64 :: "'s writer \<Rightarrow> 's marshaller \<Rightarrow> u64 \<Rightarrow> 's marshaller result option" where
  "put_int64 wr m v = put_val 8 wr m v"

definition put_float32 :: "'s writer \<Rightarrow> 's marshaller \<Rightarrow> u32 \<Rightarrow> 's marshaller result option" where
  "put_float32 wr m v = put_val 4 wr m v"

definition put_float64 :: "'s writer \<Rightarrow> 's marshaller \<Rightarrow> u64 \<Rightarrow> 's marshaller result option" where
  "put_float64 wr m v = put_val 8 wr m v"

definition put_uint16 :: "'s writer \<Rightarrow> 's marshaller \<Rightarrow> u16 \<Rightarrow> 's marshaller result option" where
  "put_uint16 wr m v = put_val 2 wr m v"

definition put_uint32 :: "'s writer \<Rightarrow> 's marshaller \<Rightarrow> u32 \<Rightarrow> 's marshaller result option" where
  "put_uint32 wr m v = put_val 4 wr m v"

definition put_uint64 :: "'s writer \<Rightarrow> 's marshaller \<Rightarrow> u64 \<Rightarrow> 's marshaller result option" where
  "put_uint64 wr m v = put_val 8 wr m v"

definition put_count :: "'s writer \<Rightarrow> 's marshaller \<Rightarrow> u64 \<Rightarrow> 's marshaller result option" where
  "put_count wr m count = write_out wr m (mem_bytes (host_big m) 8 count)"

text \<open>A string and an opaque value: the checksum is that of the bytes, the length goes to the stream only.\<close>

definition put_str :: "'s writer \<Rightarrow> 's marshaller \<Rightarrow> u8 list \<Rightarrow> 's marshaller result option" where
  "put_str wr m val =
     (let m1 = checksum_update m val (length val) in
      if d_write_data m1
      then let len = (of_nat (length val) :: u64) in
        bind (write_out wr m1 (mem_bytes (host_big m) 8 len)) (\<lambda>m2. write_out wr m2 val)
      else return m1)"

definition put_url :: "'s writer \<Rightarrow> 's marshaller \<Rightarrow> u8 list \<Rightarrow> 's marshaller result option" where
  "put_url wr m val = put_str wr m val"

definition put_opaque_dap4 :: "'s writer \<Rightarrow> 's marshaller \<Rightarrow> u8 list \<Rightarrow> u64 \<Rightarrow> 's marshaller result option" where
  "put_opaque_dap4 wr m val len =
     (if sint len < 0 then throw assertion_failed
      else
        let m1 = checksum_update m val (unat len) in
        if d_write_data m1
        then bind (write_out wr m1 (mem_bytes (host_big m) 8 len)) (\<lambda>m2. write_out wr m2 (take (unat len) val))
        else return m1)"

subsection \<open>Vectors\<close>

text \<open>\<open>val\<close> is the memory of the vector.\<close>

definition put_vector :: "'s writer \<Rightarrow> 's marshaller \<Rightarrow> u8 list \<Rightarrow> u64 \<Rightarrow> 's marshaller result option" where
  "put_vector wr m val num_bytes =
     (if sint num_bytes < 0 then throw assertion_failed
      else
        let m1 = checksum_update m val (unat num_bytes) in
        if d_write_data m1 then write_out wr m1 (take (unat num_bytes) val) else return m1)"

text \<open>The number of bytes of a vector; both classes compute it with the same assertions.\<close>

definition vector_bytes :: "u64 \<Rightarrow> int \<Rightarrow> u64 option" where
  "vector_bytes num_elem elem_size =
     (if sint num_elem < 0 \<or> elem_size \<le> 0 then None
      else if elem_size = 1 then None
      else if elem_size = 2
        then (if num_elem AND 0x4000000000000000 \<noteq> 0 then None else Some (push_bit 1 num_elem))
      else if elem_size = 4
        then (if num_elem AND 0x6000000000000000 \<noteq> 0 then None else Some (push_bit 2 num_elem))
      else if elem_size = 8
        then (if num_elem AND 0x7000000000000000 \<noteq> 0 then None else Some (push_bit 3 num_elem))
      else Some (num_elem * of_int elem_size))"

definition put_vector_elems :: "'s writer \<Rightarrow> 's marshaller \<Rightarrow> u8 list \<Rightarrow> u64 \<Rightarrow> int \<Rightarrow> 's marshaller result option" where
  "put_vector_elems wr m val num_elem elem_size =
     (case vector_bytes num_elem elem_size of
        None \<Rightarrow> throw assertion_failed
      | Some bytes \<Rightarrow>
          let m1 = checksum_update m val (unat bytes) in
          if d_write_data m1 then write_out wr m1 (take (nat (sint bytes)) val) else return m1)"

definition put_vector_float32 :: "'s writer \<Rightarrow> 's marshaller \<Rightarrow> u8 list \<Rightarrow> u64 \<Rightarrow> 's marshaller result option" where
  "put_vector_float32 wr m val num_elem =
     (if sint num_elem < 0 \<or> num_elem AND 0xe000000000000000 \<noteq> 0 then throw assertion_failed
      else
        let bytes = push_bit 2 num_elem; m1 = checksum_update m val (unat bytes) in
        if d_write_data m1 then write_out wr m1 (take (unat bytes) val) else return m1)"

definition put_vector_float64 :: "'s writer \<Rightarrow> 's marshaller \<Rightarrow> u8 list \<Rightarrow> u64 \<Rightarrow> 's marshaller result option" where
  "put_vector_float64 wr m val num_elem =
     (if sint num_elem < 0 \<or> num_elem AND 0xf000000000000000 \<noteq> 0 then throw assertion_failed
      else
        let bytes = push_bit 3 num_elem; m1 = checksum_update m val (unat bytes) in
        if d_write_data m1 then write_out wr m1 (take (unat bytes) val) else return m1)"

definition put_vector_part :: "'s writer \<Rightarrow> 's marshaller \<Rightarrow> u8 list \<Rightarrow> u32 \<Rightarrow> int \<Rightarrow> Type \<Rightarrow> 's marshaller result option" where
  "put_vector_part wr m val num width ty =
     (if width \<le> 0 then throw assertion_failed
      else if ty \<in> {dods_byte_c, dods_char_c, dods_int8_c, dods_uint8_c} then put_vector wr m val (ucast num)
      else if ty \<in> {dods_int16_c, dods_uint16_c, dods_int32_c, dods_uint32_c, dods_int64_c, dods_uint64_c}
        then put_vector_elems wr m val (ucast num) width
      else if ty = dods_enum_c
        then (if width = 1 then put_vector wr m val (ucast num) else put_vector_elems wr m val (ucast num) width)
      else if ty = dods_float32_c then put_vector_float32 wr m val (ucast num)
      else if ty = dods_float64_c then put_vector_float32 wr m val (ucast num)
      else if ty \<in> {dods_str_c, dods_url_c}
        then throw (InternalErr ''Array of String should not be passed to put_vector.'')
      else if ty = dods_array_c then throw (InternalErr ''Array of Array not allowed.'')
      else if ty \<in> {dods_opaque_c, dods_structure_c, dods_sequence_c}
        then throw (InternalErr ''Array of String should not be passed to put_vector.'')
      else if ty = dods_grid_c then throw (InternalErr ''Grid is not part of DAP4.'')
      else throw (InternalErr ''Unknown datatype.''))"

section \<open>The unmarshaller\<close>

record 's unmarshaller =
  d_in :: 's
  d_twiddle_bytes :: bool
  um_host_big :: bool

definition set_twiddle_bytes :: "'s unmarshaller \<Rightarrow> bool \<Rightarrow> 's unmarshaller" where
  "set_twiddle_bytes u twiddle = u\<lparr>d_twiddle_bytes := twiddle\<rparr>"

definition is_source_big_endian :: "'s unmarshaller \<Rightarrow> bool" where
  "is_source_big_endian u \<longleftrightarrow>
     um_host_big u \<and> \<not> d_twiddle_bytes u \<or> \<not> um_host_big u \<and> d_twiddle_bytes u"

definition read_in :: "'s reader \<Rightarrow> 's unmarshaller \<Rightarrow> nat \<Rightarrow> (u8 list \<times> 's unmarshaller) result option" where
  "read_in rd u n = bind (rd (d_in u) n) (\<lambda>(bs, s). return (bs, u\<lparr>d_in := s\<rparr>))"

text \<open>Reading the bytes of a variable, unswapped and swapped.\<close>

definition get_raw :: "nat \<Rightarrow> 's reader \<Rightarrow> 's unmarshaller \<Rightarrow> ('a::len word \<times> 's unmarshaller) result option" where
  "get_raw n rd u = bind (read_in rd u n) (\<lambda>(bs, u1). return (mem_val (um_host_big u) bs, u1))"

definition get_val :: "nat \<Rightarrow> 's reader \<Rightarrow> 's unmarshaller \<Rightarrow> ('a::len word \<times> 's unmarshaller) result option" where
  "get_val n rd u = bind (get_raw n rd u) (\<lambda>(v, u1). return (if d_twiddle_bytes u then bswap n v else v, u1))"

definition read_checksum :: "'s reader \<Rightarrow> 's unmarshaller \<Rightarrow> (u32 \<times> 's unmarshaller) result option" where
  "read_checksum rd u = get_raw 4 rd u"

definition get_checksum_str :: "'s reader \<Rightarrow> 's unmarshaller \<Rightarrow> (string \<times> 's unmarshaller) result option" where
  "get_checksum_str rd u = bind (read_checksum rd u) (\<lambda>(c, u1). return (hex8 c, u1))"

definition get_byte :: "'s reader \<Rightarrow> 's unmarshaller \<Rightarrow> (u8 \<times> 's unmarshaller) result option" where
  "get_byte rd u = get_raw 1 rd u"

definition get_int8 :: "'s reader \<Rightarrow> 's unmarshaller \<Rightarrow> (u8 \<times> 's unmarshaller) result option" where
  "get_int8 rd u = get_raw 1 rd u"

definition get_int16 :: "'s reader \<Rightarrow> 's unmarshaller \<Rightarrow> (u16 \<times> 's unmarshaller) result option" where
  "get_int16 rd u = get_val 2 rd u"

definition get_int32 :: "'s reader \<Rightarrow> 's unmarshaller \<Rightarrow> (u32 \<times> 's unmarshaller) result option" where
  "get_int32 rd u = get_val 4 rd u"

definition get_int64 :: "'s reader \<Rightarrow> 's unmarshaller \<Rightarrow> (u64 \<times> 's unmarshaller) result option" where
  "get_int64 rd u = get_val 8 rd u"

definition get_float32 :: "'s reader \<Rightarrow> 's unmarshaller \<Rightarrow> (u32 \<times> 's unmarshaller) result option" where
  "get_float32 rd u = get_val 4 rd u"

definition get_float64 :: "'s reader \<Rightarrow> 's unmarshaller \<Rightarrow> (u64 \<times> 's unmarshaller) result option" where
  "get_float64 rd u = get_val 8 rd u"

definition get_uint16 :: "'s reader \<Rightarrow> 's unmarshaller \<Rightarrow> (u16 \<times> 's unmarshaller) result option" where
  "get_uint16 rd u = get_val 2 rd u"

definition get_uint32 :: "'s reader \<Rightarrow> 's unmarshaller \<Rightarrow> (u32 \<times> 's unmarshaller) result option" where
  "get_uint32 rd u = get_val 4 rd u"

definition get_uint64 :: "'s reader \<Rightarrow> 's unmarshaller \<Rightarrow> (u64 \<times> 's unmarshaller) result option" where
  "get_uint64 rd u = get_val 8 rd u"

text \<open>\<open>resize\<close> throws when the length, converted to \<open>size_t\<close>, is above \<open>max_size\<close>, so for every negative one.\<close>

definition get_str :: "'s reader \<Rightarrow> 's unmarshaller \<Rightarrow> (u8 list \<times> 's unmarshaller) result option" where
  "get_str rd u = bind (get_raw 8 rd u) (\<lambda>(len :: u64, u1).
     if sint len < 0 then throw length_error else read_in rd u1 (unat len))"

definition get_url :: "'s reader \<Rightarrow> 's unmarshaller \<Rightarrow> (u8 list \<times> 's unmarshaller) result option" where
  "get_url rd u = get_str rd u"

definition get_count :: "'s reader \<Rightarrow> 's unmarshaller \<Rightarrow> (u64 \<times> 's unmarshaller) result option" where
  "get_count rd u = get_raw 8 rd u"

definition get_opaque_dap4 :: "'s reader \<Rightarrow> 's unmarshaller \<Rightarrow> (u8 list \<times> 's unmarshaller) result option" where
  "get_opaque_dap4 rd u = bind (get_raw 8 rd u) (\<lambda>(len :: u64, u1).
     if sint len < 0 then throw length_error else read_in rd u1 (unat len))"

subsection \<open>Vectors\<close>

text \<open>A read of a negative number of bytes, after a wrapped product, transfers nothing.\<close>

definition get_vector :: "'s reader \<Rightarrow> 's unmarshaller \<Rightarrow> u64 \<Rightarrow> (u8 list \<times> 's unmarshaller) result option" where
  "get_vector rd u bytes = read_in rd u (nat (sint bytes))"

text \<open>The loops of \<open>m_twidle_vector_elements\<close>: \<open>num\<close> elements of \<open>width\<close> bytes are swapped in place.\<close>

fun swap_elems :: "nat \<Rightarrow> nat \<Rightarrow> u8 list \<Rightarrow> u8 list" where
  "swap_elems width 0 vals = vals"
| "swap_elems width (Suc num) vals = rev (take width vals) @ swap_elems width num (drop width vals)"

definition m_twidle_vector_elements :: "u8 list \<Rightarrow> u64 \<Rightarrow> int \<Rightarrow> u8 list result option" where
  "m_twidle_vector_elements vals num width =
     (if width \<in> {2, 4, 8} then return (swap_elems (nat width) (unat num) vals)
      else throw (InternalErr ''Unrecognized word size.''))"

definition twiddled :: "'s unmarshaller \<Rightarrow> u64 \<Rightarrow> int \<Rightarrow> u8 list \<times> 's unmarshaller \<Rightarrow> (u8 list \<times> 's unmarshaller) result option" where
  "twiddled u num width = (\<lambda>(bs, u1).
     if d_twiddle_bytes u then bind (m_twidle_vector_elements bs num width) (\<lambda>bs1. return (bs1, u1))
     else return (bs, u1))"

definition get_vector_elems :: "'s reader \<Rightarrow> 's unmarshaller \<Rightarrow> u64 \<Rightarrow> int \<Rightarrow> (u8 list \<times> 's unmarshaller) result option" where
  "get_vector_elems rd u num_elem elem_size =
     (case vector_bytes num_elem elem_size of
        None \<Rightarrow> throw assertion_failed
      | Some bytes \<Rightarrow> bind (read_in rd u (nat (sint bytes))) (twiddled u num_elem elem_size))"

definition get_vector_float32 :: "'s reader \<Rightarrow> 's unmarshaller \<Rightarrow> u64 \<Rightarrow> (u8 list \<times> 's unmarshaller) result option" where
  "get_vector_float32 rd u num_elem =
     (if sint num_elem < 0 \<or> num_elem AND 0x6000000000000000 \<noteq> 0 then throw assertion_failed
      else bind (read_in rd u (nat (sint (push_bit 2 num_elem)))) (twiddled u num_elem 4))"

definition get_vector_float64 :: "'s reader \<Rightarrow> 's unmarshaller \<Rightarrow> u64 \<Rightarrow> (u8 list \<times> 's unmarshaller) result option" where
  "get_vector_float64 rd u num_elem =
     (if sint num_elem < 0 \<or> num_elem AND 0x7000000000000000 \<noteq> 0 then throw assertion_failed
      else bind (read_in rd u (nat (sint (push_bit 3 num_elem)))) (twiddled u num_elem 8))"

section \<open>Lemmas about memory\<close>

lemma bit_le_val:
  "bit (le_val bs :: 'a::len word) i \<longleftrightarrow> i < LENGTH('a) \<and> i < 8 * length bs \<and> bit (bs ! (i div 8)) (i mod 8)"
proof (induction bs arbitrary: i)
  case (Cons b bs)
  show ?case
  proof (cases "i < 8")
    case True
    then show ?thesis by (auto simp: bit_or_iff bit_push_bit_iff bit_ucast_iff)
  next
    case False
    then have "i div 8 = Suc ((i - 8) div 8)" "i mod 8 = (i - 8) mod 8"
      by (simp_all add: le_div_geq le_mod_geq)
    then show ?thesis
      using False Cons.IH [of "i - 8"] bit_imp_le_length [of b i]
      by (auto simp: bit_or_iff bit_push_bit_iff bit_ucast_iff)
  qed
qed simp

lemma length_le_bytes [simp]: "length (le_bytes n w) = n"
  by (simp add: le_bytes_def)

lemma bit_le_bytes: "k < n \<Longrightarrow> bit (le_bytes n w ! k) j \<longleftrightarrow> j < 8 \<and> bit w (8 * k + j)"
  by (auto simp: le_bytes_def bit_ucast_iff bit_drop_bit_eq)

lemma le_val_le_bytes: "LENGTH('a) \<le> 8 * n \<Longrightarrow> le_val (le_bytes n w) = (w :: 'a::len word)"
  by (rule bit_word_eqI) (auto simp: bit_le_val bit_le_bytes less_mult_imp_div_less mult.commute)

lemma le_bytes_le_val:
  assumes "8 * length bs \<le> LENGTH('a)"
  shows "le_bytes (length bs) (le_val bs :: 'a::len word) = bs"
proof (rule nth_equalityI)
  fix k assume k: "k < length (le_bytes (length bs) (le_val bs :: 'a word))"
  show "le_bytes (length bs) (le_val bs :: 'a word) ! k = bs ! k"
    by (rule bit_word_eqI) (use k assms in \<open>auto simp: bit_le_bytes bit_le_val\<close>)
qed simp

lemma length_mem_bytes [simp]: "length (mem_bytes big n w) = n"
  by (simp add: mem_bytes_def)

lemma rev_mem_bytes [simp]: "rev (mem_bytes big n w) = mem_bytes (\<not> big) n w"
  by (simp add: mem_bytes_def)

lemma mem_val_bytes [simp]: "LENGTH('a) \<le> 8 * n \<Longrightarrow> mem_val big (mem_bytes big n w) = (w :: 'a::len word)"
  by (simp add: mem_val_def mem_bytes_def le_val_le_bytes)

lemma bswap_mem_val:
  assumes "LENGTH('a) = 8 * n" "wb \<noteq> hb"
  shows "bswap n (mem_val hb (mem_bytes wb n w)) = (w :: 'a::len word)"
proof -
  have "mem_val hb (mem_bytes wb n w) = (le_val (rev (le_bytes n w)) :: 'a word)"
    using assms(2) by (auto simp: mem_val_def mem_bytes_def)
  moreover have "le_bytes n (le_val (rev (le_bytes n w)) :: 'a word) = rev (le_bytes n w)"
    using le_bytes_le_val [of "rev (le_bytes n w)", where 'a = 'a] assms(1) by simp
  ultimately show ?thesis using assms(1) by (simp add: bswap_def le_val_le_bytes)
qed

text \<open>The memory of a vector.\<close>

definition vec_mem :: "bool \<Rightarrow> nat \<Rightarrow> 'a::len word list \<Rightarrow> u8 list" where
  "vec_mem big n ws = concat (map (mem_bytes big n) ws)"

fun vec_val :: "bool \<Rightarrow> nat \<Rightarrow> nat \<Rightarrow> u8 list \<Rightarrow> 'a::len word list" where
  "vec_val big n 0 bs = []"
| "vec_val big n (Suc k) bs = mem_val big (take n bs) # vec_val big n k (drop n bs)"

lemma vec_mem_simps [simp]: "vec_mem big n [] = []" "vec_mem big n (w # ws) = mem_bytes big n w @ vec_mem big n ws"
  by (simp_all add: vec_mem_def)

lemma length_vec_mem [simp]: "length (vec_mem big n ws) = n * length ws"
  by (induction ws) simp_all

lemma vec_val_mem: "LENGTH('a) = 8 * n \<Longrightarrow> vec_val big n (length ws) (vec_mem big n ws) = (ws :: 'a::len word list)"
  by (induction ws) simp_all

lemma swap_vec_mem: "swap_elems n (length ws) (vec_mem big n ws) = vec_mem (\<not> big) n ws"
  by (induction ws) simp_all

subsection \<open>Sizes of vectors\<close>

lemma and_high_mask: "k < 2 ^ 32 \<Longrightarrow> (of_nat k :: u64) AND push_bit 60 q = 0"
proof (rule bit_word_eqI)
  fix i assume k: "k < 2 ^ 32" and "i < LENGTH(64)"
  have "\<not> bit k i" if "32 \<le> i"
    using k that by (metis bit_take_bit_iff linorder_not_le take_bit_nat_eq_self)
  then show "bit ((of_nat k :: u64) AND push_bit 60 q) i = bit (0 :: u64) i"
    by (auto simp: bit_and_iff bit_push_bit_iff bit_of_nat_iff)
qed

lemma high_masks:
  "(0x4000000000000000 :: u64) = push_bit 60 4" "(0x6000000000000000 :: u64) = push_bit 60 6"
  "(0x7000000000000000 :: u64) = push_bit 60 7" "(0xe000000000000000 :: u64) = push_bit 60 14"
  "(0xf000000000000000 :: u64) = push_bit 60 15"
  by (simp_all add: push_bit_eq_mult)

lemma and_high_masks [simp]:
  assumes "k < 2 ^ 32"
  shows "(of_nat k :: u64) AND 0x4000000000000000 = 0" "(of_nat k :: u64) AND 0x6000000000000000 = 0"
    "(of_nat k :: u64) AND 0x7000000000000000 = 0" "(of_nat k :: u64) AND 0xe000000000000000 = 0"
    "(of_nat k :: u64) AND 0xf000000000000000 = 0"
  unfolding high_masks by (rule and_high_mask [OF assms])+

lemma sint_small: "k < 2 ^ 63 \<Longrightarrow> sint (of_nat k :: u64) = int k"
proof -
  assume "k < 2 ^ 63"
  then have "int k < 2 ^ 63" by simp
  then have "signed_take_bit 63 (int k) = int k" by (intro signed_take_bit_int_eq_self) auto
  then show ?thesis by (simp only: signed_of_nat len_of_numeral_defs of_int_eq_id id_apply) simp
qed

lemma unat_small: "k < 2 ^ 64 \<Longrightarrow> unat (of_nat k :: u64) = k"
  by (simp add: unat_of_nat take_bit_nat_eq_self)

lemma push_of_nat: "push_bit j (of_nat k :: u64) = of_nat (2 ^ j * k)"
  by (simp add: push_bit_eq_mult mult.commute)

lemma vector_bytes_small:
  assumes "k < 2 ^ 32"
  shows "vector_bytes (of_nat k) 2 = Some (of_nat (2 * k))" "vector_bytes (of_nat k) 4 = Some (of_nat (4 * k))"
    "vector_bytes (of_nat k) 8 = Some (of_nat (8 * k))"
  using assms sint_small [of k] and_high_masks [OF assms] by (simp_all add: vector_bytes_def push_of_nat)

section \<open>What the marshallers rely on\<close>

text \<open>
  A sink: \<open>holds s xs\<close> says that \<open>s\<close> is in order and has taken the bytes \<open>xs\<close>; a write of fewer
  than 2 GiB returns and the sink then holds them as well.  A source: \<open>yields s xs\<close> says that \<open>s\<close>
  is in order and has exactly the bytes \<open>xs\<close> to deliver.  A channel connects the two.
\<close>

locale byte_sink =
  fixes wr :: "'s writer" and holds :: "'s \<Rightarrow> u8 list \<Rightarrow> bool"
  assumes write_ok: "holds s xs \<Longrightarrow> length bs < 2 ^ 31 \<Longrightarrow> \<exists>s1. wr s bs = return s1 \<and> holds s1 (xs @ bs)"

locale byte_source =
  fixes rd :: "'r reader" and yields :: "'r \<Rightarrow> u8 list \<Rightarrow> bool"
  assumes read_ok: "yields s xs \<Longrightarrow> n \<le> length xs \<Longrightarrow> n < 2 ^ 31 \<Longrightarrow>
    \<exists>s1. rd s n = return (take n xs, s1) \<and> yields s1 (drop n xs)"

locale byte_channel = byte_sink wr holds + byte_source rd yields
  for wr :: "'s writer" and holds and rd :: "'r reader" and yields +
  fixes connected :: "'s \<Rightarrow> 'r \<Rightarrow> bool"
  assumes connect_ok: "holds s xs \<Longrightarrow> connected s r \<Longrightarrow> yields r xs"

section \<open>Values\<close>

text \<open>
  The values of the interface.  A vector is the list of its elements, a text or an opaque value the
  list of its bytes.
\<close>

datatype d4val =
    V_Byte u8 | V_Int8 u8 | V_Int16 u16 | V_Int32 u32 | V_Int64 u64
  | V_UInt16 u16 | V_UInt32 u32 | V_UInt64 u64 | V_Float32 u32 | V_Float64 u64
  | V_Str "u8 list" | V_Url "u8 list" | V_Opaque "u8 list" | V_Count u64
  | V_Bytes "u8 list" | V_Vec16 "u16 list" | V_Vec32 "u32 list" | V_Vec64 "u64 list"
  | V_Float32s "u32 list" | V_Float64s "u64 list"

fun put_d4 :: "'s writer \<Rightarrow> 's marshaller \<Rightarrow> d4val \<Rightarrow> 's marshaller result option" where
  "put_d4 wr m (V_Byte v) = put_byte wr m v"
| "put_d4 wr m (V_Int8 v) = put_int8 wr m v"
| "put_d4 wr m (V_Int16 v) = put_int16 wr m v"
| "put_d4 wr m (V_Int32 v) = put_int32 wr m v"
| "put_d4 wr m (V_Int64 v) = put_int64 wr m v"
| "put_d4 wr m (V_UInt16 v) = put_uint16 wr m v"
| "put_d4 wr m (V_UInt32 v) = put_uint32 wr m v"
| "put_d4 wr m (V_UInt64 v) = put_uint64 wr m v"
| "put_d4 wr m (V_Float32 v) = put_float32 wr m v"
| "put_d4 wr m (V_Float64 v) = put_float64 wr m v"
| "put_d4 wr m (V_Str s) = put_str wr m s"
| "put_d4 wr m (V_Url s) = put_url wr m s"
| "put_d4 wr m (V_Opaque s) = put_opaque_dap4 wr m s (of_nat (length s))"
| "put_d4 wr m (V_Count v) = put_count wr m v"
| "put_d4 wr m (V_Bytes s) = put_vector wr m s (of_nat (length s))"
| "put_d4 wr m (V_Vec16 ws) = put_vector_elems wr m (vec_mem (host_big m) 2 ws) (of_nat (length ws)) 2"
| "put_d4 wr m (V_Vec32 ws) = put_vector_elems wr m (vec_mem (host_big m) 4 ws) (of_nat (length ws)) 4"
| "put_d4 wr m (V_Vec64 ws) = put_vector_elems wr m (vec_mem (host_big m) 8 ws) (of_nat (length ws)) 8"
| "put_d4 wr m (V_Float32s ws) = put_vector_float32 wr m (vec_mem (host_big m) 4 ws) (of_nat (length ws))"
| "put_d4 wr m (V_Float64s ws) = put_vector_float64 wr m (vec_mem (host_big m) 8 ws) (of_nat (length ws))"

text \<open>What the reader has to know: the type, and the length of a vector.\<close>

datatype d4shape =
    S_Byte | S_Int8 | S_Int16 | S_Int32 | S_Int64 | S_UInt16 | S_UInt32 | S_UInt64 | S_Float32 | S_Float64
  | S_Str | S_Url | S_Opaque | S_Count
  | S_Bytes nat | S_Vec16 nat | S_Vec32 nat | S_Vec64 nat | S_Float32s nat | S_Float64s nat

fun shape :: "d4val \<Rightarrow> d4shape" where
  "shape (V_Byte v) = S_Byte" | "shape (V_Int8 v) = S_Int8" | "shape (V_Int16 v) = S_Int16"
| "shape (V_Int32 v) = S_Int32" | "shape (V_Int64 v) = S_Int64" | "shape (V_UInt16 v) = S_UInt16"
| "shape (V_UInt32 v) = S_UInt32" | "shape (V_UInt64 v) = S_UInt64" | "shape (V_Float32 v) = S_Float32"
| "shape (V_Float64 v) = S_Float64" | "shape (V_Str s) = S_Str" | "shape (V_Url s) = S_Url"
| "shape (V_Opaque s) = S_Opaque" | "shape (V_Count v) = S_Count" | "shape (V_Bytes s) = S_Bytes (length s)"
| "shape (V_Vec16 ws) = S_Vec16 (length ws)" | "shape (V_Vec32 ws) = S_Vec32 (length ws)"
| "shape (V_Vec64 ws) = S_Vec64 (length ws)" | "shape (V_Float32s ws) = S_Float32s (length ws)"
| "shape (V_Float64s ws) = S_Float64s (length ws)"

abbreviation value_of :: "('a \<times> 'r unmarshaller) result option \<Rightarrow> ('a \<Rightarrow> d4val) \<Rightarrow> (d4val \<times> 'r unmarshaller) result option" where
  "value_of r f \<equiv> bind r (\<lambda>(v, u). return (f v, u))"

fun get_d4 :: "'r reader \<Rightarrow> 'r unmarshaller \<Rightarrow> d4shape \<Rightarrow> (d4val \<times> 'r unmarshaller) result option" where
  "get_d4 rd u S_Byte = value_of (get_byte rd u) V_Byte"
| "get_d4 rd u S_Int8 = value_of (get_int8 rd u) V_Int8"
| "get_d4 rd u S_Int16 = value_of (get_int16 rd u) V_Int16"
| "get_d4 rd u S_Int32 = value_of (get_int32 rd u) V_Int32"
| "get_d4 rd u S_Int64 = value_of (get_int64 rd u) V_Int64"
| "get_d4 rd u S_UInt16 = value_of (get_uint16 rd u) V_UInt16"
| "get_d4 rd u S_UInt32 = value_of (get_uint32 rd u) V_UInt32"
| "get_d4 rd u S_UInt64 = value_of (get_uint64 rd u) V_UInt64"
| "get_d4 rd u S_Float32 = value_of (get_float32 rd u) V_Float32"
| "get_d4 rd u S_Float64 = value_of (get_float64 rd u) V_Float64"
| "get_d4 rd u S_Str = value_of (get_str rd u) V_Str"
| "get_d4 rd u S_Url = value_of (get_url rd u) V_Url"
| "get_d4 rd u S_Opaque = value_of (get_opaque_dap4 rd u) V_Opaque"
| "get_d4 rd u S_Count = value_of (get_count rd u) V_Count"
| "get_d4 rd u (S_Bytes n) = value_of (get_vector rd u (of_nat n)) V_Bytes"
| "get_d4 rd u (S_Vec16 n) = value_of (get_vector_elems rd u (of_nat n) 2) (\<lambda>bs. V_Vec16 (vec_val (um_host_big u) 2 n bs))"
| "get_d4 rd u (S_Vec32 n) = value_of (get_vector_elems rd u (of_nat n) 4) (\<lambda>bs. V_Vec32 (vec_val (um_host_big u) 4 n bs))"
| "get_d4 rd u (S_Vec64 n) = value_of (get_vector_elems rd u (of_nat n) 8) (\<lambda>bs. V_Vec64 (vec_val (um_host_big u) 8 n bs))"
| "get_d4 rd u (S_Float32s n) = value_of (get_vector_float32 rd u (of_nat n)) (\<lambda>bs. V_Float32s (vec_val (um_host_big u) 4 n bs))"
| "get_d4 rd u (S_Float64s n) = value_of (get_vector_float64 rd u (of_nat n)) (\<lambda>bs. V_Float64s (vec_val (um_host_big u) 8 n bs))"

text \<open>The bytes that enter the checksum, and the bytes on the stream.\<close>

fun checked :: "bool \<Rightarrow> d4val \<Rightarrow> u8 list" where
  "checked big (V_Byte v) = [v]" | "checked big (V_Int8 v) = [v]"
| "checked big (V_Int16 v) = mem_bytes big 2 v" | "checked big (V_Int32 v) = mem_bytes big 4 v"
| "checked big (V_Int64 v) = mem_bytes big 8 v" | "checked big (V_UInt16 v) = mem_bytes big 2 v"
| "checked big (V_UInt32 v) = mem_bytes big 4 v" | "checked big (V_UInt64 v) = mem_bytes big 8 v"
| "checked big (V_Float32 v) = mem_bytes big 4 v" | "checked big (V_Float64 v) = mem_bytes big 8 v"
| "checked big (V_Str s) = s" | "checked big (V_Url s) = s" | "checked big (V_Opaque s) = s"
| "checked big (V_Count v) = []" | "checked big (V_Bytes s) = s"
| "checked big (V_Vec16 ws) = vec_mem big 2 ws" | "checked big (V_Vec32 ws) = vec_mem big 4 ws"
| "checked big (V_Vec64 ws) = vec_mem big 8 ws" | "checked big (V_Float32s ws) = vec_mem big 4 ws"
| "checked big (V_Float64s ws) = vec_mem big 8 ws"

text \<open>A text, an opaque value and a count carry a number that the reader does not swap.\<close>

fun prefixed :: "d4val \<Rightarrow> bool" where
  "prefixed (V_Str s) = True" | "prefixed (V_Url s) = True" | "prefixed (V_Opaque s) = True"
| "prefixed (V_Count v) = True" | "prefixed v = False"

fun prefix_of :: "bool \<Rightarrow> d4val \<Rightarrow> u8 list" where
  "prefix_of big (V_Count v) = mem_bytes big 8 v"
| "prefix_of big v = (if prefixed v then mem_bytes big 8 (of_nat (length (checked big v)) :: u64) else [])"

definition on_stream :: "bool \<Rightarrow> d4val \<Rightarrow> u8 list" where
  "on_stream big v = prefix_of big v @ checked big v"

definition fits :: "d4val \<Rightarrow> bool" where
  "fits v \<longleftrightarrow> length (checked False v) < 2 ^ 31"

section \<open>One value\<close>

lemma length_checked: "length (checked big v) = length (checked False v)"
  by (cases v) simp_all

lemma fits_length: "fits v \<Longrightarrow> length (checked big v) < 2 ^ 31"
  by (simp add: fits_def length_checked [of big])

subsection \<open>Writing\<close>

text \<open>The writes one operation makes.\<close>

fun writes :: "'s writer \<Rightarrow> 's marshaller \<Rightarrow> u8 list list \<Rightarrow> 's marshaller result option" where
  "writes wr m [] = return m"
| "writes wr m (bs # bss) = bind (write_out wr m bs) (\<lambda>m1. writes wr m1 bss)"

definition blocks :: "bool \<Rightarrow> d4val \<Rightarrow> u8 list list" where
  "blocks big v = (if prefixed v then [prefix_of big v] else []) @ (case v of V_Count c \<Rightarrow> [] | _ \<Rightarrow> [checked big v])"

lemma concat_blocks: "concat (blocks big v) = on_stream big v"
  by (cases v) (simp_all add: blocks_def on_stream_def)

definition updated :: "'s marshaller \<Rightarrow> d4val \<Rightarrow> 's marshaller" where
  "updated m v = m\<lparr>d_checksum := foldl crc_step (d_checksum m) (checked (host_big m) v)\<rparr>"

lemma updated_simps [simp]: "d_out (updated m v) = d_out m" "d_write_data (updated m v) = d_write_data m"
  "host_big (updated m v) = host_big m"
  "d_checksum (updated m v) = foldl crc_step (d_checksum m) (checked (host_big m) v)"
  by (simp_all add: updated_def)

fun is_count :: "d4val \<Rightarrow> bool" where
  "is_count (V_Count c) = True" | "is_count v = False"

lemma bind_return [simp]: "bind r return = r"
  by (simp add: bind_def split: option.splits sum.splits)

lemma checksum_update_all:
  "length data < 2 ^ 32 \<Longrightarrow> n = length data \<Longrightarrow>
    checksum_update m data n = m\<lparr>d_checksum := foldl crc_step (d_checksum m) data\<rparr>"
  by (simp add: checksum_update_def AddData_all)

lemma mem_bytes_byte [simp]: "mem_bytes big 1 (v :: u8) = [v]" "mem_bytes big (Suc 0) (v :: u8) = [v]"
  by (simp_all add: mem_bytes_def le_bytes_def)

lemma not_neg_small: "k < 2 ^ 63 \<Longrightarrow> \<not> sint (of_nat k :: u64) < 0"
  by (simp add: sint_small)

lemma nat_sint_small: "k < 2 ^ 63 \<Longrightarrow> nat (sint (of_nat k :: u64)) = k"
  by (simp add: sint_small)

lemmas put_defs = put_byte_def put_int8_def put_int16_def put_int32_def put_int64_def put_uint16_def
  put_uint32_def put_uint64_def put_float32_def put_float64_def put_val_def put_str_def put_url_def
  put_opaque_dap4_def put_count_def put_vector_def put_vector_elems_def put_vector_float32_def put_vector_float64_def

lemmas get_defs = get_byte_def get_int8_def get_int16_def get_int32_def get_int64_def get_uint16_def
  get_uint32_def get_uint64_def get_float32_def get_float64_def get_str_def get_url_def
  get_opaque_dap4_def get_count_def get_vector_def get_vector_elems_def get_vector_float32_def get_vector_float64_def

lemma put_d4_eq:
  assumes "fits v"
  shows "put_d4 wr m v =
    (if d_write_data m \<or> is_count v then writes wr (updated m v) (blocks (host_big m) v) else return (updated m v))"
proof -
  have len: "length (checked (host_big m) v) < 2 ^ 31" by (rule fits_length [OF assms])
  then show ?thesis
    by (cases v) (simp_all add: put_defs checksum_update_all not_neg_small unat_small nat_sint_small
        vector_bytes_small push_of_nat updated_def blocks_def Let_def del: of_nat_mult)
qed

context byte_sink
begin

lemma write_out_ok:
  assumes "holds (d_out m) xs" "length bs < 2 ^ 31"
  shows "\<exists>s. write_out wr m bs = return (m\<lparr>d_out := s\<rparr>) \<and> holds s (xs @ bs)"
  using write_ok [OF assms] by (auto simp: write_out_def)

lemma writes_ok:
  assumes "holds (d_out m) xs" "\<forall>bs \<in> set bss. length bs < 2 ^ 31"
  shows "\<exists>s. writes wr m bss = return (m\<lparr>d_out := s\<rparr>) \<and> holds s (xs @ concat bss)"
  using assms
proof (induction bss arbitrary: m xs)
  case Nil
  then show ?case by (intro exI [of _ "d_out m"]) simp
next
  case (Cons bs bss)
  then obtain s where s: "write_out wr m bs = return (m\<lparr>d_out := s\<rparr>)" "holds s (xs @ bs)"
    using write_out_ok [of m xs bs] by auto
  then show ?case
    using Cons.IH [of "m\<lparr>d_out := s\<rparr>" "xs @ bs"] Cons.prems(2) by simp
qed

lemma put_ok:
  assumes "holds (d_out m) xs" "fits v" "d_write_data m"
  shows "\<exists>s. put_d4 wr m v = return ((updated m v)\<lparr>d_out := s\<rparr>) \<and> holds s (xs @ on_stream (host_big m) v)"
proof -
  have "\<forall>bs \<in> set (blocks (host_big m) v). length bs < 2 ^ 31"
    using fits_length [OF assms(2), of "host_big m"] by (cases v) (auto simp: blocks_def)
  then show ?thesis
    using writes_ok [of "updated m v" xs "blocks (host_big m) v"] assms
    by (simp add: put_d4_eq concat_blocks)
qed

end

subsection \<open>Reading\<close>

text \<open>Whether the value survives the transport from a host of byte order \<open>wb\<close> to one of order \<open>hb\<close>.\<close>

definition portable :: "bool \<Rightarrow> bool \<Rightarrow> d4val \<Rightarrow> bool" where
  "portable wb hb v \<longleftrightarrow> wb = hb \<or> \<not> prefixed v"

context byte_source
begin

lemma read_in_ok:
  assumes "yields (d_in u) (xs @ ys)" "length xs = n" "n < 2 ^ 31"
  shows "\<exists>s. read_in rd u n = return (xs, u\<lparr>d_in := s\<rparr>) \<and> yields s ys"
  using read_ok [OF assms(1), of n] assms(2,3) by (auto simp: read_in_def)

lemma get_raw_ok:
  assumes "yields (d_in u) (mem_bytes wb n w @ ys)" "n < 2 ^ 31"
  shows "\<exists>s. get_raw n rd u = return (mem_val (um_host_big u) (mem_bytes wb n w), u\<lparr>d_in := s\<rparr>) \<and> yields s ys"
  using read_in_ok [OF assms(1)] assms(2) by (auto simp: get_raw_def)

lemma get_raw_same:
  assumes "yields (d_in u) (mem_bytes (um_host_big u) n w @ ys)" "LENGTH('a) \<le> 8 * n" "n < 2 ^ 31"
  shows "\<exists>s. get_raw n rd u = return (w :: 'a::len word, u\<lparr>d_in := s\<rparr>) \<and> yields s ys"
proof -
  obtain s where "get_raw n rd u = return (mem_val (um_host_big u) (mem_bytes (um_host_big u) n w) :: 'a word, u\<lparr>d_in := s\<rparr>)"
    "yields s ys"
    using get_raw_ok [OF assms(1,3)] by blast
  then show ?thesis using assms(2) by auto
qed

lemma get_val_ok:
  assumes "yields (d_in u) (mem_bytes wb n w @ ys)" "LENGTH('a) = 8 * n" "n < 2 ^ 31"
    and "d_twiddle_bytes u \<longleftrightarrow> wb \<noteq> um_host_big u"
  shows "\<exists>s. get_val n rd u = return (w :: 'a::len word, u\<lparr>d_in := s\<rparr>) \<and> yields s ys"
proof -
  obtain s where "get_raw n rd u = return (mem_val (um_host_big u) (mem_bytes wb n w) :: 'a word, u\<lparr>d_in := s\<rparr>)"
    "yields s ys"
    using get_raw_ok [OF assms(1,3)] by blast
  then show ?thesis
    using assms(2,4) by (cases "wb = um_host_big u") (auto simp: get_val_def bswap_mem_val)
qed

lemma get_text_ok:
  assumes "yields (d_in u) (mem_bytes (um_host_big u) 8 (of_nat (length s) :: u64) @ s @ ys)" "length s < 2 ^ 31"
  shows "\<exists>r. bind (get_raw 8 rd u) (\<lambda>(len :: u64, u1).
     if sint len < 0 then throw length_error else read_in rd u1 (unat len)) = return (s, u\<lparr>d_in := r\<rparr>) \<and> yields r ys"
proof -
  obtain r where r: "get_raw 8 rd u = return (of_nat (length s) :: u64, u\<lparr>d_in := r\<rparr>)" "yields r (s @ ys)"
    using get_raw_same [OF assms(1)] by auto
  obtain r' where "read_in rd (u\<lparr>d_in := r\<rparr>) (length s) = return (s, u\<lparr>d_in := r'\<rparr>)" "yields r' ys"
    using read_in_ok [of "u\<lparr>d_in := r\<rparr>" s ys "length s"] r(2) assms(2) by auto
  then show ?thesis
    using r(1) assms(2) by (auto simp: not_neg_small unat_small)
qed

lemma get_elems_ok:
  assumes "yields (d_in u) (vec_mem wb n ws @ ys)" "n * length ws < 2 ^ 31" "n \<in> {2, 4, 8}"
    and "d_twiddle_bytes u \<longleftrightarrow> wb \<noteq> um_host_big u"
  shows "\<exists>s. bind (read_in rd u (n * length ws)) (twiddled u (of_nat (length ws)) (int n)) =
    return (vec_mem (um_host_big u) n ws, u\<lparr>d_in := s\<rparr>) \<and> yields s ys"
proof -
  obtain s where s: "read_in rd u (n * length ws) = return (vec_mem wb n ws, u\<lparr>d_in := s\<rparr>)" "yields s ys"
    using read_in_ok [OF assms(1)] assms(2) by auto
  have "length ws < 2 ^ 64" using assms(2,3) by auto
  then have "m_twidle_vector_elements (vec_mem wb n ws) (of_nat (length ws)) (int n) = return (vec_mem (\<not> wb) n ws)"
    using assms(3) by (auto simp: m_twidle_vector_elements_def unat_small swap_vec_mem)
  then show ?thesis
    using s assms(4) by (cases "wb = um_host_big u") (auto simp: twiddled_def)
qed

lemma value_ofI:
  "\<exists>s. r = return (x, u\<lparr>d_in := s\<rparr>) \<and> P s \<Longrightarrow> \<exists>s. value_of r f = return (f x, u\<lparr>d_in := s\<rparr>) \<and> P s"
  by auto

lemma get_ok:
  assumes "yields (d_in u) (on_stream wb v @ ys)" "fits v" "portable wb (um_host_big u) v"
    and tw: "d_twiddle_bytes u \<longleftrightarrow> wb \<noteq> um_host_big u"
  shows "\<exists>s. get_d4 rd u (shape v) = return (v, u\<lparr>d_in := s\<rparr>) \<and> yields s ys"
proof -
  have len: "length (checked wb v) < 2 ^ 31" using assms(2) by (rule fits_length)
  have same: "wb = um_host_big u" if "prefixed v" using assms(3) that by (simp add: portable_def)
  note y = assms(1) [unfolded on_stream_def]
  show ?thesis
  proof (cases v)
    case (V_Byte w)
    then show ?thesis
      using y get_raw_same [of u 1 w ys] by (auto simp: get_defs intro!: value_ofI)
  next
    case (V_Int8 w)
    then show ?thesis
      using y get_raw_same [of u 1 w ys] by (auto simp: get_defs intro!: value_ofI)
  next
    case (V_Count w)
    then show ?thesis
      using y same get_raw_same [of u 8 w ys] by (auto simp: get_defs intro!: value_ofI)
  next
    case (V_Bytes s)
    then show ?thesis
      using y len read_in_ok [of u s ys] by (auto simp: get_defs nat_sint_small intro!: value_ofI)
  next
    case (V_Vec16 ws)
    then show ?thesis
      using y len get_elems_ok [of u wb 2 ws ys] tw
      by (auto simp: get_defs vector_bytes_small nat_sint_small vec_val_mem simp del: of_nat_mult intro!: value_ofI)
  next
    case (V_Vec32 ws)
    then show ?thesis
      using y len get_elems_ok [of u wb 4 ws ys] tw
      by (auto simp: get_defs vector_bytes_small nat_sint_small vec_val_mem simp del: of_nat_mult)
  next
    case (V_Vec64 ws)
    then show ?thesis
      using y len get_elems_ok [of u wb 8 ws ys] tw
      by (auto simp: get_defs vector_bytes_small nat_sint_small vec_val_mem simp del: of_nat_mult)
  next
    case (V_Float32s ws)
    then show ?thesis
      using y len get_elems_ok [of u wb 4 ws ys] tw
      by (auto simp: get_defs not_neg_small push_of_nat nat_sint_small vec_val_mem simp del: of_nat_mult)
  next
    case (V_Float64s ws)
    then show ?thesis
      using y len get_elems_ok [of u wb 8 ws ys] tw
      by (auto simp: get_defs not_neg_small push_of_nat nat_sint_small vec_val_mem simp del: of_nat_mult)
  qed (use y len same tw in \<open>auto simp: get_defs intro!: value_ofI get_val_ok get_text_ok\<close>)
qed

end

section \<open>Responses\<close>

text \<open>A response: values in order, then the checksum of all of them.\<close>

fun put_all :: "'s writer \<Rightarrow> 's marshaller \<Rightarrow> d4val list \<Rightarrow> 's marshaller result option" where
  "put_all wr m [] = return m"
| "put_all wr m (v # vs) = bind (put_d4 wr m v) (\<lambda>m1. put_all wr m1 vs)"

fun get_all :: "'r reader \<Rightarrow> 'r unmarshaller \<Rightarrow> d4shape list \<Rightarrow> (d4val list \<times> 'r unmarshaller) result option" where
  "get_all rd u [] = return ([], u)"
| "get_all rd u (sh # shs) = bind (get_d4 rd u sh) (\<lambda>(v, u1).
     bind (get_all rd u1 shs) (\<lambda>(vs, u2). return (v # vs, u2)))"

definition put_response :: "'s writer \<Rightarrow> 's marshaller \<Rightarrow> d4val list \<Rightarrow> 's marshaller result option" where
  "put_response wr m vs = bind (put_all wr m vs) (put_checksum wr)"

definition get_response :: "'r reader \<Rightarrow> 'r unmarshaller \<Rightarrow> d4shape list \<Rightarrow> (d4val list \<times> u32 \<times> 'r unmarshaller) result option" where
  "get_response rd u shs = bind (get_all rd u shs) (\<lambda>(vs, u1).
     bind (read_checksum rd u1) (\<lambda>(c, u2). return (vs, c, u2)))"

definition all_checked :: "bool \<Rightarrow> d4val list \<Rightarrow> u8 list" where
  "all_checked big vs = concat (map (checked big) vs)"

lemma all_checked_simps [simp]: "all_checked big [] = []" "all_checked big (v # vs) = checked big v @ all_checked big vs"
  by (simp_all add: all_checked_def)

text \<open>With \<open>write_data\<close> false only the checksum is computed.\<close>

lemma put_all_checksum:
  assumes "\<forall>v \<in> set vs. fits v \<and> \<not> is_count v" "\<not> d_write_data m"
  shows "put_all wr m vs = return (m\<lparr>d_checksum := foldl crc_step (d_checksum m) (all_checked (host_big m) vs)\<rparr>)"
  using assms by (induction vs arbitrary: m) (simp_all add: put_d4_eq updated_def)

context byte_sink
begin

lemma put_all_ok:
  assumes "holds (d_out m) xs" "\<forall>v \<in> set vs. fits v" "d_write_data m"
  shows "\<exists>s. put_all wr m vs =
      return (m\<lparr>d_out := s, d_checksum := foldl crc_step (d_checksum m) (all_checked (host_big m) vs)\<rparr>)
    \<and> holds s (xs @ concat (map (on_stream (host_big m)) vs))"
  using assms
proof (induction vs arbitrary: m xs)
  case Nil
  then show ?case by (intro exI [of _ "d_out m"]) simp
next
  case (Cons v vs)
  then obtain s where s: "put_d4 wr m v = return ((updated m v)\<lparr>d_out := s\<rparr>)" "holds s (xs @ on_stream (host_big m) v)"
    using put_ok [of m xs v] by auto
  then show ?case
    using Cons.IH [of "(updated m v)\<lparr>d_out := s\<rparr>" "xs @ on_stream (host_big m) v"] Cons.prems(2,3)
    by (auto simp: updated_def)
qed

lemma put_response_ok:
  assumes "holds (d_out m) []" "\<forall>v \<in> set vs. fits v" "d_write_data m"
  shows "\<exists>m'. put_response wr m vs = return m' \<and>
    holds (d_out m') (concat (map (on_stream (host_big m)) vs) @
      mem_bytes (host_big m) 4 (GetCrc32 (foldl crc_step (d_checksum m) (all_checked (host_big m) vs))))"
proof -
  obtain s where s: "put_all wr m vs =
      return (m\<lparr>d_out := s, d_checksum := foldl crc_step (d_checksum m) (all_checked (host_big m) vs)\<rparr>)"
    "holds s (concat (map (on_stream (host_big m)) vs))"
    using put_all_ok [OF assms] by auto
  define m1 where "m1 = m\<lparr>d_out := s, d_checksum := foldl crc_step (d_checksum m) (all_checked (host_big m) vs)\<rparr>"
  obtain s' where "write_out wr m1 (mem_bytes (host_big m) 4 (GetCrc32 (d_checksum m1))) = return (m1\<lparr>d_out := s'\<rparr>)"
    "holds s' (concat (map (on_stream (host_big m)) vs) @ mem_bytes (host_big m) 4 (GetCrc32 (d_checksum m1)))"
    using write_out_ok [of m1 _ "mem_bytes (host_big m) 4 (GetCrc32 (d_checksum m1))"] s(2) by (auto simp: m1_def)
  then show ?thesis
    using s(1) by (simp add: put_response_def put_checksum_def m1_def)
qed

end

context byte_source
begin

lemma get_all_ok:
  assumes "yields (d_in u) (concat (map (on_stream wb) vs) @ ys)"
    "\<forall>v \<in> set vs. fits v \<and> portable wb (um_host_big u) v" "d_twiddle_bytes u \<longleftrightarrow> wb \<noteq> um_host_big u"
  shows "\<exists>s. get_all rd u (map shape vs) = return (vs, u\<lparr>d_in := s\<rparr>) \<and> yields s ys"
  using assms
proof (induction vs arbitrary: u)
  case Nil
  then show ?case by (intro exI [of _ "d_in u"]) simp
next
  case (Cons v vs)
  then obtain s where s: "get_d4 rd u (shape v) = return (v, u\<lparr>d_in := s\<rparr>)" "yields s (concat (map (on_stream wb) vs) @ ys)"
    using get_ok [of u wb v "concat (map (on_stream wb) vs) @ ys"] by auto
  then show ?case
    using Cons.IH [of "u\<lparr>d_in := s\<rparr>"] Cons.prems(2,3) by auto
qed

lemma get_response_ok:
  assumes "yields (d_in u) (concat (map (on_stream wb) vs) @ mem_bytes wb 4 (c :: u32))"
    "\<forall>v \<in> set vs. fits v \<and> portable wb (um_host_big u) v" "d_twiddle_bytes u \<longleftrightarrow> wb \<noteq> um_host_big u"
  shows "\<exists>u'. get_response rd u (map shape vs) = return (vs, mem_val (um_host_big u) (mem_bytes wb 4 c), u')"
proof -
  obtain s where s: "get_all rd u (map shape vs) = return (vs, u\<lparr>d_in := s\<rparr>)" "yields s (mem_bytes wb 4 c)"
    using get_all_ok [OF assms] by auto
  obtain s' where "get_raw 4 rd (u\<lparr>d_in := s\<rparr>) =
      return (mem_val (um_host_big u) (mem_bytes wb 4 c) :: u32, u\<lparr>d_in := s'\<rparr>)"
    using get_raw_ok [of "u\<lparr>d_in := s\<rparr>" wb 4 c "[]"] s(2) by auto
  then show ?thesis
    using s(1) by (auto simp: get_response_def read_checksum_def)
qed

end

context byte_channel
begin

lemma response_round_trip:
  assumes "holds (d_out m) []" "\<forall>v \<in> set vs. fits v \<and> portable (host_big m) (um_host_big u) v" "d_write_data m"
    and "d_twiddle_bytes u \<longleftrightarrow> host_big m \<noteq> um_host_big u"
  shows "\<exists>m'. put_response wr m vs = return m' \<and> (connected (d_out m') (d_in u) \<longrightarrow>
    (\<exists>u'. get_response rd u (map shape vs) = return (vs, mem_val (um_host_big u) (mem_bytes (host_big m) 4
       (GetCrc32 (foldl crc_step (d_checksum m) (all_checked (host_big m) vs)))), u')))"
proof -
  obtain m' where m': "put_response wr m vs = return m'"
    "holds (d_out m') (concat (map (on_stream (host_big m)) vs) @
      mem_bytes (host_big m) 4 (GetCrc32 (foldl crc_step (d_checksum m) (all_checked (host_big m) vs))))"
    using put_response_ok assms(1-3) by blast
  then show ?thesis
    using get_response_ok [OF connect_ok [OF m'(2)] assms(2,4)] by blast
qed

end

subsection \<open>The plain streams and the chunked streams are channels\<close>

definition plain_holds :: "ostream \<Rightarrow> u8 list \<Rightarrow> bool" where
  "plain_holds os xs \<longleftrightarrow> unlimited os \<and> sent os = xs"

definition plain_yields :: "istream \<Rightarrow> u8 list \<Rightarrow> bool" where
  "plain_yields is xs \<longleftrightarrow> is_good is \<and> pending is = xs"

definition opened :: "u8 list \<Rightarrow> istream" where
  "opened bs = \<lparr>pending = bs, eofbit = False, failbit = False, is_bad = False\<rparr>"

definition plain_connected :: "ostream \<Rightarrow> istream \<Rightarrow> bool" where
  "plain_connected os is \<longleftrightarrow> is = opened (sent os)"

interpretation plain: byte_channel plain_write plain_holds plain_read plain_yields plain_connected
proof unfold_locales
  fix s xs and bs :: "u8 list"
  assume "plain_holds s xs"
  then show "\<exists>s1. plain_write s bs = return s1 \<and> plain_holds s1 (xs @ bs)"
    by (auto simp: plain_write_def plain_holds_def unlimited_def os_write_def)
next
  fix s xs and n :: nat
  assume "plain_yields s xs" "n \<le> length xs"
  then show "\<exists>s1. plain_read s n = return (take n xs, s1) \<and> plain_yields s1 (drop n xs)"
    by (auto simp: plain_read_def plain_yields_def is_read_def is_good_def)
next
  fix s xs r
  assume "plain_holds s xs" "plain_connected s r"
  then show "plain_yields r xs"
    by (simp add: plain_holds_def plain_connected_def plain_yields_def opened_def is_good_def)
qed

text \<open>A chunked output stream in the middle of a session that has written \<open>xs\<close>.\<close>

definition chunked_holds :: "outbuf \<Rightarrow> u8 list \<Rightarrow> bool" where
  "chunked_holds ob xs \<longleftrightarrow> (\<exists>ob0 ops. out_ok ob0 \<and> ob_buf ob0 = [] \<and> sent (ob_os ob0) = [] \<and>
     (\<forall>x \<in> set ops. data_op x) \<and> out_run (open_stream ob0) ops = Some (open_stream ob) \<and> written ops = xs)"

definition chunked_yields :: "inbuf \<Rightarrow> u8 list \<Rightarrow> bool" where
  "chunked_yields ib xs \<longleftrightarrow> (\<exists>big buf cs. src_rel big ib buf cs \<and> response cs \<and> buf @ payload cs = xs)"

definition chunked_connected :: "outbuf \<Rightarrow> inbuf \<Rightarrow> bool" where
  "chunked_connected ob ib \<longleftrightarrow> (\<exists>hb junk sz. make_inbuf hb junk (opened (sent (close_outbuf ob))) sz = Inr ib)"

lemma out_run_append: "out_run ob (xs @ ys) = (case out_run ob xs of None \<Rightarrow> None | Some ob1 \<Rightarrow> out_run ob1 ys)"
  by (induction xs arbitrary: ob) (auto split: option.splits)

lemma out_run_out_ok:
  assumes "out_ok ob0" "ob_buf ob0 = []" "\<forall>x \<in> set ops. data_op x" "out_run (open_stream ob0) ops = Some (open_stream ob)"
  shows "out_ok ob"
proof -
  obtain cs buf where d: "out_run (open_stream ob0) ops = Some (open_stream (emit ob0 (cs, buf)))" "length buf < unat (ob_size ob0)"
    using data_session [OF assms(1-3)] .
  then have "ob = emit ob0 (cs, buf)" using assms(4) by (simp add: open_stream_def)
  then show ?thesis using assms(1) d(2) by simp
qed

interpretation chunked: byte_channel chunked_write chunked_holds chunked_read chunked_yields chunked_connected
proof unfold_locales
  fix ob xs and bs :: "u8 list"
  assume "chunked_holds ob xs" and len: "length bs < 2 ^ 31"
  then obtain ob0 ops where ob: "out_ok ob0" "ob_buf ob0 = []" "sent (ob_os ob0) = []"
    "\<forall>x \<in> set ops. data_op x" "out_run (open_stream ob0) ops = Some (open_stream ob)" "written ops = xs"
    by (auto simp: chunked_holds_def)
  then have "out_ok ob" using out_run_out_ok by blast
  then obtain ob1 where w: "xsputn ob bs = Some (int (length bs), ob1)"
    using xsputn_eq [of ob bs] len by auto
  then have "out_run (open_stream ob0) (ops @ [Write bs]) = Some (open_stream ob1)"
    using ob(5) by (simp add: out_run_append open_stream_def)
  moreover have "\<forall>x \<in> set (ops @ [Write bs]). data_op x" using ob(4) len by auto
  ultimately have "chunked_holds ob1 (xs @ bs)"
    unfolding chunked_holds_def using ob(1-3,6) by (intro exI [of _ ob0] exI [of _ "ops @ [Write bs]"]) simp
  then show "\<exists>s1. chunked_write ob bs = return s1 \<and> chunked_holds s1 (xs @ bs)"
    using w by (simp add: chunked_write_def)
next
  fix ib xs and n :: nat
  assume "chunked_yields ib xs" "n \<le> length xs" "n < 2 ^ 31"
  then show "\<exists>s1. chunked_read ib n = return (take n xs, s1) \<and> chunked_yields s1 (drop n xs)"
    using xsgetn_response [of _ ib _ _ "replicate n 0"] by (fastforce simp: chunked_yields_def chunked_read_def)
next
  fix ob xs ib
  assume "chunked_holds ob xs" "chunked_connected ob ib"
  then obtain ob0 ops hb junk sz where ob: "out_ok ob0" "ob_buf ob0 = []" "sent (ob_os ob0) = []"
    "\<forall>x \<in> set ops. data_op x" "out_run (open_stream ob0) ops = Some (open_stream ob)" "written ops = xs"
    and ib: "make_inbuf hb junk (opened (sent (close_outbuf ob))) sz = Inr ib"
    by (auto simp: chunked_holds_def chunked_connected_def)
  obtain cs buf where run: "out_run (open_stream ob0) ops = Some (open_stream (emit ob0 (cs, buf)))"
    and sp: "payload cs @ buf = xs" "data_only (unat (ob_size ob0)) cs" "length buf < unat (ob_size ob0)"
    using data_session [OF ob(1,2,4)] ob(6) by metis
  have "ob = emit ob0 (cs, buf)" using run ob(5) by (simp add: open_stream_def)
  then show "chunked_yields ib xs"
    using closed_source [OF ob(1,3) sp(2,3), of hb junk sz ib] ib sp(1)
    by (fastforce simp: chunked_yields_def opened_def)
qed

section \<open>Other lemmas\<close>

definition send_part :: "'s writer \<Rightarrow> 's marshaller \<Rightarrow> u8 list \<Rightarrow> nat \<Rightarrow> 's marshaller result option" where
  "send_part wr m val k =
     (let m1 = checksum_update m val k in
      if d_write_data m1 then write_out wr m1 (take k val) else return m1)"

lemma send_part_plain:
  assumes "plain_holds (d_out m) xs" "d_write_data m" "k < 2 ^ 31" "k \<le> length val"
  shows "\<exists>m'. send_part plain_write m val k = return m' \<and>
    sent (d_out m') = xs @ take k val \<and> d_checksum m' = foldl crc_step (d_checksum m) (take k val)"
proof -
  have "checksum_update m val k = m\<lparr>d_checksum := foldl crc_step (d_checksum m) (take k val)\<rparr>"
    using assms(3,4) by (simp add: checksum_update_def AddData_def unat_of_nat take_bit_nat_eq_self)
  moreover obtain s where "write_out plain_write (m\<lparr>d_checksum := foldl crc_step (d_checksum m) (take k val)\<rparr>) (take k val) =
      return (m\<lparr>d_checksum := foldl crc_step (d_checksum m) (take k val), d_out := s\<rparr>)"
    "plain_holds s (xs @ take k val)"
    using plain.write_out_ok [of "m\<lparr>d_checksum := foldl crc_step (d_checksum m) (take k val)\<rparr>" xs "take k val"]
      assms(1,3,4) by (auto simp: min_absorb2)
  ultimately show ?thesis using assms(2) by (simp add: send_part_def plain_holds_def)
qed

lemma put_vector_small: "k < 2 ^ 31 \<Longrightarrow> put_vector wr m val (of_nat k) = send_part wr m val k"
  by (simp add: put_vector_def send_part_def not_neg_small unat_small Let_def)

lemma put_vector_elems_small:
  "w \<in> {2, 4, 8} \<Longrightarrow> w * k < 2 ^ 31 \<Longrightarrow> put_vector_elems wr m val (of_nat k) (int w) = send_part wr m val (w * k)"
  by (auto simp: put_vector_elems_def send_part_def vector_bytes_small unat_small nat_sint_small Let_def
      simp del: of_nat_mult)

lemma put_vector_float32_small:
  "4 * k < 2 ^ 31 \<Longrightarrow> put_vector_float32 wr m val (of_nat k) = send_part wr m val (4 * k)"
  by (simp add: put_vector_float32_def send_part_def not_neg_small push_of_nat unat_small Let_def del: of_nat_mult)

text \<open>The element types of \<open>put_vector_part\<close> and their widths.\<close>

definition element :: "Type \<Rightarrow> int \<Rightarrow> bool" where
  "element ty width \<longleftrightarrow>
     ty \<in> {dods_byte_c, dods_char_c, dods_int8_c, dods_uint8_c} \<and> width = 1 \<or>
     ty \<in> {dods_int16_c, dods_uint16_c} \<and> width = 2 \<or>
     ty \<in> {dods_int32_c, dods_uint32_c, dods_float32_c} \<and> width = 4 \<or>
     ty \<in> {dods_int64_c, dods_uint64_c, dods_float64_c} \<and> width = 8 \<or>
     ty = dods_enum_c \<and> width \<in> {1, 2, 4, 8}"

lemma ucast_num: "(ucast (num :: u32) :: u64) = of_nat (unat num)"
  by simp

lemma rev_le_bytes_small:
  assumes "k < 256"
  shows "le_val (rev (le_bytes 8 (of_nat k :: u64))) = (of_nat (2 ^ 56 * k) :: u64)"
proof -
  have "le_bytes 8 (of_nat k :: u64) = of_nat k # replicate 7 0"
  proof (rule nth_equalityI)
    fix i assume i: "i < length (le_bytes 8 (of_nat k :: u64))"
    have "take_bit 8 k = k" using assms by (simp add: take_bit_nat_eq_self)
    then have high: "\<not> bit k n" if "8 \<le> n" for n
      using that by (metis bit_take_bit_iff linorder_not_le)
    show "le_bytes 8 (of_nat k :: u64) ! i = (of_nat k # replicate 7 0) ! i"
      by (rule bit_word_eqI) (use i high in \<open>auto simp: bit_le_bytes bit_of_nat_iff nth_Cons split: nat.splits\<close>)
  qed simp
  then have "le_val (rev (le_bytes 8 (of_nat k :: u64))) = push_bit 56 (ucast (of_nat k :: u8) :: u64)"
    by (simp add: eval_nat_numeral)
  also have "(ucast (of_nat k :: u8) :: u64) = of_nat k"
    using assms by (simp add: unsigned_of_nat take_bit_nat_eq_self)
  finally show ?thesis by (simp add: push_of_nat)
qed

section \<open>Properties\<close>

text \<open>C1: A response over the chunked streams: any list of values (scalars, reals, strings, opaque values, counts
  and vectors of less than 2 GiB each), written by the marshaller on a chunked output stream of any chunk size
  and followed by its checksum, is read back value by value by the unmarshaller from a chunked input
  stream on the closed stream, whatever the two byte orders and the buffer size, when the reader
  swaps exactly if the orders differ and, if they do, no value has a length prefix; the checksum read is
  the CRC of the bytes sent, as the reading host sees its four bytes.\<close>

theorem d4_response_over_chunks:
  assumes "out_ok ob" "ob_buf ob = []" "sent (ob_os ob) = []"
    and "\<forall>v \<in> set vs. fits v \<and> portable wb hb v"
  shows "\<exists>m'. put_response chunked_write (make_marshaller wb ob True) vs = return m' \<and>
    (\<forall>junk sz ib. make_inbuf hb junk (opened (sent (close_outbuf (d_out m')))) sz = Inr ib \<longrightarrow>
      (\<exists>u'. get_response chunked_read \<lparr>d_in = ib, d_twiddle_bytes = (wb \<noteq> hb), um_host_big = hb\<rparr> (map shape vs) =
        return (vs, mem_val hb (mem_bytes wb 4 (GetCrc32 (foldl crc_step Reset (all_checked wb vs)))), u')))"
proof -
  let ?m = "make_marshaller wb ob True" and ?u = "\<lambda>ib. \<lparr>d_in = ib, d_twiddle_bytes = (wb \<noteq> hb), um_host_big = hb\<rparr>"
  have m: "chunked_holds (d_out ?m) []" "d_write_data ?m"
    using assms(1-3) by (auto simp: chunked_holds_def make_marshaller_def intro!: exI [of _ ob] exI [of _ "[]"])
  have "\<forall>v \<in> set vs. fits v \<and> portable (host_big ?m) (um_host_big (?u ib)) v"
    "d_twiddle_bytes (?u ib) \<longleftrightarrow> host_big ?m \<noteq> um_host_big (?u ib)" for ib
    using assms(4) by (simp_all add: make_marshaller_def)
  note rt = chunked.response_round_trip [OF m(1) this(1) m(2) this(2)]
  obtain m' where m': "put_response chunked_write ?m vs = return m'" using rt by blast
  have "\<exists>u'. get_response chunked_read (?u ib) (map shape vs) =
      return (vs, mem_val hb (mem_bytes wb 4 (GetCrc32 (foldl crc_step Reset (all_checked wb vs)))), u')"
    if "make_inbuf hb junk (opened (sent (close_outbuf (d_out m')))) sz = Inr ib" for junk sz ib
  proof -
    have "chunked_connected (d_out m') (d_in (?u ib))" using that by (auto simp: chunked_connected_def)
    then show ?thesis using rt [of ib] m' by (simp add: make_marshaller_def)
  qed
  then show ?thesis using m' by blast
qed

text \<open>C34: \<open>put_vector_part\<close> sends a part of an array, and adds it to the checksum, byte for byte, for every
  element type it accepts, with one exception: an array of \<open>Float64\<close> is sent by the routine for \<open>Float32\<close>,
  so only the first four bytes per element, the first half of the part, go out.\<close>

theorem put_vector_part_spec:
  assumes "plain_holds (d_out m) xs" "d_write_data m" "element ty width"
    and "length val = unat num * nat width" "length val < 2 ^ 31"
  defines "n \<equiv> (if ty = dods_float64_c then 4 * unat num else length val)"
  shows "\<exists>m'. put_vector_part plain_write m val num width ty = return m' \<and>
    sent (d_out m') = xs @ take n val \<and> d_checksum m' = foldl crc_step (d_checksum m) (take n val)"
proof -
  obtain w where w: "width = int w" "w \<in> {1, 2, 4, 8}"
    using assms(3) by (intro that [of "nat width"]) (auto simp: element_def)
  have len: "length val = w * unat num" using assms(4) w(1) by (simp add: mult.commute)
  have le: "unat num \<le> w * unat num" using w(2) by auto
  have wide: "4 * unat num \<le> w * unat num" if "4 \<le> w" using that by simp
  have small: "w * unat num < 2 ^ 31" "unat num < 2 ^ 31" using assms(5) le unfolding len by linarith+
  have n: "n < 2 ^ 31" "n \<le> length val"
    using assms(3,5) len w(1) wide by (auto simp: n_def element_def)
  have num: "(ucast num :: u64) = of_nat (unat num)" by simp
  note part = put_vector_part_def num
  consider "ty \<in> {dods_byte_c, dods_char_c, dods_int8_c, dods_uint8_c, dods_enum_c}" "w = 1"
    | "ty \<in> {dods_int16_c, dods_uint16_c, dods_int32_c, dods_uint32_c, dods_int64_c, dods_uint64_c, dods_enum_c}"
        "w \<in> {2, 4, 8}"
    | "ty \<in> {dods_float32_c, dods_float64_c}" "4 \<le> w"
    using assms(3) w(1) by (auto simp: element_def)
  then have "put_vector_part plain_write m val num width ty = send_part plain_write m val n"
  proof cases
    case 1
    then have "put_vector_part plain_write m val num width ty = put_vector plain_write m val (of_nat (unat num))"
      unfolding part w(1) by (elim insertE emptyE) (simp_all del: of_nat_unat)
    then show ?thesis using 1 put_vector_small [OF small(2)] len by (auto simp: n_def)
  next
    case 2
    then have "put_vector_part plain_write m val num width ty =
        put_vector_elems plain_write m val (of_nat (unat num)) (int w)"
      unfolding part w(1) by (elim insertE emptyE) (simp_all del: of_nat_unat)
    then show ?thesis using 2(1) put_vector_elems_small [OF 2(2) small(1)] len by (auto simp: n_def)
  next
    case 3
    then have "put_vector_part plain_write m val num width ty =
        put_vector_float32 plain_write m val (of_nat (unat num))"
      unfolding part w(1) by (elim insertE emptyE) (simp_all del: of_nat_unat)
    moreover have "n = 4 * unat num" using 3 assms(3) len w(1) by (auto simp: n_def element_def)
    moreover have "4 * unat num < 2 ^ 31" using wide [OF 3(2)] small(1) by linarith
    ultimately show ?thesis by (simp only: put_vector_float32_small)
  qed
  then show ?thesis using send_part_plain [OF assms(1,2) n] by simp
qed

text \<open>Receiver-makes-right does not cover lengths: a non-empty string (or opaque value) shorter than 256
  bytes that a host of the other byte order has sent cannot be read, whatever the twiddle flag is: the length
  is taken in the wrong byte order, and \<open>get_str\<close> throws \<open>length_error\<close> or the failure of the stream.\<close>

lemma text_length_not_swapped:
  assumes "plain_yields (d_in u) (on_stream wb (V_Str s) @ ys)" "wb \<noteq> um_host_big u"
    and "s \<noteq> []" "length s < 256" "length ys < 2 ^ 55"
  shows "get_str plain_read u \<in> {throw length_error, throw stream_failure}"
proof -
  let ?k = "length s"
  have y: "plain_yields (d_in u) (mem_bytes wb 8 (of_nat ?k :: u64) @ s @ ys)"
    using assms(1) by (simp add: on_stream_def)
  have "mem_val (um_host_big u) (mem_bytes wb 8 (of_nat ?k :: u64)) = (of_nat (2 ^ 56 * ?k) :: u64)"
    using assms(2) rev_le_bytes_small [OF assms(4)]
    by (cases wb) (simp_all add: mem_val_def mem_bytes_def)
  moreover obtain r where "get_raw 8 plain_read u =
      return (mem_val (um_host_big u) (mem_bytes wb 8 (of_nat ?k :: u64)) :: u64, u\<lparr>d_in := r\<rparr>)"
    and r2: "plain_yields r (s @ ys)"
    using plain.get_raw_ok [OF y, simplified] by auto
  ultimately have r: "get_raw 8 plain_read u = return (of_nat (2 ^ 56 * ?k) :: u64, u\<lparr>d_in := r\<rparr>)"
    by (simp del: of_nat_mult)
  have "unat (of_nat (2 ^ 56 * ?k) :: u64) = 2 ^ 56 * ?k"
    using assms(4) by (intro unat_small) simp
  moreover have "length (s @ ys) < 2 ^ 56 * ?k"
  proof -
    have "2 ^ 56 * 1 \<le> 2 ^ 56 * ?k" using assms(3) by (intro mult_le_mono2) (simp add: Suc_le_eq)
    then show ?thesis using assms(4,5) by simp
  qed
  then have "plain_read r (2 ^ 56 * ?k) = throw stream_failure"
    using r2 by (simp add: plain_read_def plain_yields_def is_read_def)
  ultimately show ?thesis
    using r by (auto simp: get_str_def read_in_def simp del: of_nat_mult)
qed

section \<open>Witnesses\<close>

theorem d4_response_over_chunks_witness:
  "\<exists>m' ib u' c. put_response chunked_write (make_marshaller True demo_out True) [V_Int32 7, V_Vec16 [1, 2]] = return m' \<and>
    make_inbuf False (\<lambda>_. 0) (opened (sent (close_outbuf (d_out m')))) 4 = Inr ib \<and>
    get_response chunked_read \<lparr>d_in = ib, d_twiddle_bytes = True, um_host_big = False\<rparr> [S_Int32, S_Vec16 2] =
      return ([V_Int32 7, V_Vec16 [1, 2]], c, u')"
proof -
  let ?vs = "[V_Int32 7, V_Vec16 [1, 2]]"
  have "ob_buf demo_out = []" "sent (ob_os demo_out) = []" "\<forall>v \<in> set ?vs. fits v \<and> portable True False v"
    by (simp_all add: demo_out_def fits_def portable_def)
  note r = d4_response_over_chunks [OF demo_out_ok(1) this]
  then obtain m' where m': "put_response chunked_write (make_marshaller True demo_out True) ?vs = return m'"
    "\<And>ib. make_inbuf False (\<lambda>_. 0) (opened (sent (close_outbuf (d_out m')))) 4 = Inr ib \<Longrightarrow>
      \<exists>c u'. get_response chunked_read \<lparr>d_in = ib, d_twiddle_bytes = (True \<noteq> False), um_host_big = False\<rparr> (map shape ?vs) =
        return (?vs, c, u')"
    by blast
  obtain ib where "make_inbuf False (\<lambda>_. 0) (opened (sent (close_outbuf (d_out m')))) 4 = Inr ib"
    by (simp add: make_inbuf_def CHUNK_TYPE_MASK_def)
  then obtain c u' where "get_response chunked_read \<lparr>d_in = ib, d_twiddle_bytes = (True \<noteq> False), um_host_big = False\<rparr>
      (map shape ?vs) = return (?vs, c, u')"
    "make_inbuf False (\<lambda>_. 0) (opened (sent (close_outbuf (d_out m')))) 4 = Inr ib"
    using m'(2) by blast
  then show ?thesis using m'(1) by (intro exI [of _ m'] exI [of _ ib] exI [of _ u'] exI [of _ c]) (simp add: numeral_2_eq_2)
qed

definition demo_marshaller :: "ostream marshaller" where
  "demo_marshaller = make_marshaller False \<lparr>sent = [], room = None, os_bad = False\<rparr> True"

theorem put_vector_part_spec_witness:
  "\<exists>m'. put_vector_part plain_write demo_marshaller [1, 2, 3, 4, 5, 6, 7, 8] 1 8 dods_float64_c = return m' \<and>
    sent (d_out m') = [1, 2, 3, 4]"
  using put_vector_part_spec [of demo_marshaller "[]" dods_float64_c 8 "[1, 2, 3, 4, 5, 6, 7, 8]" 1]
  by (auto simp: demo_marshaller_def make_marshaller_def plain_holds_def unlimited_def element_def)

lemma text_length_not_swapped_witness:
  "get_str plain_read \<lparr>d_in = opened (on_stream True (V_Str [104, 105])), d_twiddle_bytes = True, um_host_big = False\<rparr>
     \<in> {throw length_error, throw stream_failure}"
  by (rule text_length_not_swapped [where wb = True and s = "[104, 105]" and ys = "[]"])
     (simp_all add: plain_yields_def opened_def is_good_def)

end
