(* ===== verification/WriterThread.thy ===== *)
theory WriterThread
  imports D4Marshal
begin

text \<open>
  The writer threads of the marshallers (\<open>MarshallerThread.cc\<close>): with \<open>USE_POSIX_THREADS\<close> a vector
  is written by a detached child thread while the main thread goes on, and a mutex, a condition variable and the
  counter \<open>d_child_thread_count\<close> keep the writes in order.  The threads are a step relation:
  \<open>Locker\<close>, the body of a put operation, the child with its \<open>ChildLocker\<close>, and the destructor of
  \<open>MarshallerThread\<close>.  A step holds the mutex from its lock to its unlock as the code does; waiting
  on the condition releases it.  POSIX allows a wait to return without a signal and a thread not to be created: these
  are steps of their own kind, so that a theorem says which of them it allows.
\<close>

section \<open>State\<close>

text \<open>
  The arguments of \<open>write_thread\<close> (\<open>write_args\<close>): the whole buffer, or for
  \<open>write_thread_part\<close> the buffer without its first four bytes, and the number of bytes, which passes through an
  \<open>unsigned int\<close> parameter into an \<open>int\<close> field.
\<close>

datatype job = Job (whole: bool) (d_buf: "u8 list") (d_num: int)

definition make_job :: "bool \<Rightarrow> u8 list \<Rightarrow> int \<Rightarrow> job" where
  "make_job wh buf bytes = Job wh buf (to_int (to_uint bytes))"

definition job_bytes :: "job \<Rightarrow> u8 list" where
  "job_bytes j = take (nat (d_num j)) (if whole j then d_buf j else drop 4 (d_buf j))"

text \<open>
  What one put operation does inside its \<open>Locker\<close>: the blocks it writes itself, then possibly a
  child thread for a buffer.
\<close>

datatype op = Op "u8 list list" "(bool \<times> u8 list \<times> int) option"

datatype owner = Main | Child

datatype main_pc =
    Idle | Checking | Sleeping | Woken | Inside "u8 list list" "(bool \<times> u8 list \<times> int) option" | Spawning job
  | Dtor_Checking | Dtor_Sleeping | Dtor_Woken | Destroyed

datatype child_pc = Started | Writing | Written

record sys =
  s_out :: ostream
  s_throws :: bool
  s_count :: int
  s_mutex :: "owner option"
  s_main :: main_pc
  s_todo :: "op list"
  s_children :: "(child_pc \<times> job) list"
  s_error :: bool
  s_threw :: bool
  s_terminated :: bool

text \<open>\<open>s_throws\<close>: the exceptions of the stream are on, as \<open>D4StreamMarshaller\<close> sets them.\<close>

definition start_sys :: "bool \<Rightarrow> ostream \<Rightarrow> op list \<Rightarrow> sys" where
  "start_sys throws out ops = \<lparr>s_out = out, s_throws = throws, s_count = 0, s_mutex = None, s_main = Idle,
     s_todo = ops, s_children = [], s_error = False, s_threw = False, s_terminated = False\<rparr>"

section \<open>Steps\<close>

datatype event = Normal | Spurious | No_Thread

text \<open>The constructor of \<open>Locker\<close>: lock, wait while there is a child, go on.\<close>

inductive locker_step :: "sys \<Rightarrow> sys \<Rightarrow> bool" where
  lock: "s_main s = Idle \<Longrightarrow> s_todo s \<noteq> [] \<Longrightarrow> s_mutex s = None \<Longrightarrow>
    locker_step s (s\<lparr>s_mutex := Some Main, s_main := Checking\<rparr>)"
| wait: "s_main s = Checking \<Longrightarrow> s_count s \<noteq> 0 \<Longrightarrow>
    locker_step s (s\<lparr>s_mutex := None, s_main := Sleeping\<rparr>)"
| wake: "s_main s = Woken \<Longrightarrow> s_mutex s = None \<Longrightarrow>
    locker_step s (s\<lparr>s_mutex := Some Main, s_main := Checking\<rparr>)"
| enter: "s_main s = Checking \<Longrightarrow> s_count s = 0 \<Longrightarrow> s_todo s = Op ds sp # ops \<Longrightarrow>
    locker_step s (s\<lparr>s_main := Inside ds sp, s_todo := ops\<rparr>)"

text \<open>An exception in the main thread: the lock is released on the way out, and the marshaller is destroyed.\<close>

definition throw_main :: "sys \<Rightarrow> sys" where
  "throw_main s = s\<lparr>s_mutex := None, s_main := Idle, s_todo := [], s_threw := True\<rparr>"

text \<open>\<open>start_thread\<close>, called with the count already incremented, creates the child or throws.\<close>

inductive spawn_step :: "event \<Rightarrow> sys \<Rightarrow> sys \<Rightarrow> bool" where
  create: "s_main s = Spawning j \<Longrightarrow>
    spawn_step Normal s (s\<lparr>s_children := s_children s @ [(Started, j)], s_main := Inside [] None\<rparr>)"
| create_fails: "s_main s = Spawning j \<Longrightarrow> spawn_step No_Thread s (throw_main s)"

text \<open>The body of a put operation, with the destructor of \<open>Locker\<close> at its end.\<close>

inductive body_step :: "sys \<Rightarrow> sys \<Rightarrow> bool" where
  direct: "s_main s = Inside (bs # ds) sp \<Longrightarrow> \<not> os_bad (os_write (s_out s) bs) \<Longrightarrow>
    body_step s (s\<lparr>s_out := os_write (s_out s) bs, s_main := Inside ds sp\<rparr>)"
| direct_fails: "s_main s = Inside (bs # ds) sp \<Longrightarrow> os_bad (os_write (s_out s) bs) \<Longrightarrow>
    body_step s (throw_main (s\<lparr>s_out := os_write (s_out s) bs\<rparr>))"
| increment: "s_main s = Inside [] (Some (wh, buf, bytes)) \<Longrightarrow>
    body_step s (s\<lparr>s_count := s_count s + 1, s_main := Spawning (make_job wh buf bytes)\<rparr>)"
| leave: "s_main s = Inside [] None \<Longrightarrow> body_step s (s\<lparr>s_mutex := None, s_main := Idle\<rparr>)"

text \<open>The destructor of \<open>ChildLocker\<close>: reset the count, signal, unlock.\<close>

definition signalled :: "main_pc \<Rightarrow> main_pc" where
  "signalled pc = (case pc of Sleeping \<Rightarrow> Woken | Dtor_Sleeping \<Rightarrow> Dtor_Woken | _ \<Rightarrow> pc)"

definition child_exit :: "sys \<Rightarrow> sys" where
  "child_exit s = s\<lparr>s_count := 0, s_main := signalled (s_main s), s_mutex := None\<rparr>"

text \<open>
  \<open>write_thread\<close> and \<open>write_thread_part\<close>.  A write that fails sets the error string when the stream
  does not throw; when it does, the exception leaves the thread function and ends the process.
\<close>

inductive child_step :: "sys \<Rightarrow> sys \<Rightarrow> bool" where
  child_lock: "s_children s = xs @ (Started, j) # ys \<Longrightarrow> s_mutex s = None \<Longrightarrow>
    child_step s (s\<lparr>s_mutex := Some Child, s_children := xs @ (Writing, j) # ys\<rparr>)"
| child_write: "s_children s = xs @ (Writing, j) # ys \<Longrightarrow> \<not> os_bad (os_write (s_out s) (job_bytes j)) \<Longrightarrow>
    child_step s (s\<lparr>s_out := os_write (s_out s) (job_bytes j), s_children := xs @ (Written, j) # ys\<rparr>)"
| child_error: "s_children s = xs @ (Writing, j) # ys \<Longrightarrow> os_bad (os_write (s_out s) (job_bytes j)) \<Longrightarrow> \<not> s_throws s \<Longrightarrow>
    child_step s (s\<lparr>s_out := os_write (s_out s) (job_bytes j), s_children := xs @ (Written, j) # ys, s_error := True\<rparr>)"
| child_throws: "s_children s = xs @ (Writing, j) # ys \<Longrightarrow> os_bad (os_write (s_out s) (job_bytes j)) \<Longrightarrow> s_throws s \<Longrightarrow>
    child_step s (s\<lparr>s_out := os_write (s_out s) (job_bytes j), s_terminated := True\<rparr>)"
| child_done: "s_children s = xs @ (Written, j) # ys \<Longrightarrow>
    child_step s (child_exit (s\<lparr>s_children := xs @ ys\<rparr>))"

text \<open>The destructor of \<open>MarshallerThread\<close>: it waits once, without testing the count again.\<close>

inductive dtor_step :: "sys \<Rightarrow> sys \<Rightarrow> bool" where
  dtor_lock: "s_main s = Idle \<Longrightarrow> s_todo s = [] \<Longrightarrow> s_mutex s = None \<Longrightarrow>
    dtor_step s (s\<lparr>s_mutex := Some Main, s_main := Dtor_Checking\<rparr>)"
| dtor_wait: "s_main s = Dtor_Checking \<Longrightarrow> s_count s \<noteq> 0 \<Longrightarrow>
    dtor_step s (s\<lparr>s_mutex := None, s_main := Dtor_Sleeping\<rparr>)"
| dtor_wake: "s_main s = Dtor_Woken \<Longrightarrow> s_mutex s = None \<Longrightarrow>
    dtor_step s (s\<lparr>s_count := 0, s_main := Destroyed\<rparr>)"
| dtor_done: "s_main s = Dtor_Checking \<Longrightarrow> s_count s = 0 \<Longrightarrow>
    dtor_step s (s\<lparr>s_mutex := None, s_main := Destroyed\<rparr>)"

text \<open>A wait that returns without a signal.\<close>

inductive spurious_step :: "sys \<Rightarrow> sys \<Rightarrow> bool" where
  spurious: "s_main s \<in> {Sleeping, Dtor_Sleeping} \<Longrightarrow> spurious_step s (s\<lparr>s_main := signalled (s_main s)\<rparr>)"

definition step :: "event \<Rightarrow> sys \<Rightarrow> sys \<Rightarrow> bool" where
  "step e s s' \<longleftrightarrow> \<not> s_terminated s \<and>
     (e = Normal \<and> (locker_step s s' \<or> body_step s s' \<or> child_step s s' \<or> dtor_step s s') \<or>
      spawn_step e s s' \<or> e = Spurious \<and> spurious_step s s')"

text \<open>The states reached by steps of the kinds in \<open>E\<close>.\<close>

inductive runs :: "event set \<Rightarrow> sys \<Rightarrow> sys \<Rightarrow> bool" for E s where
  here: "runs E s s"
| there: "runs E s t \<Longrightarrow> e \<in> E \<Longrightarrow> step e t u \<Longrightarrow> runs E s u"

lemma stepI:
  "\<not> s_terminated s \<Longrightarrow> locker_step s s' \<Longrightarrow> step Normal s s'"
  "\<not> s_terminated s \<Longrightarrow> body_step s s' \<Longrightarrow> step Normal s s'"
  "\<not> s_terminated s \<Longrightarrow> child_step s s' \<Longrightarrow> step Normal s s'"
  "\<not> s_terminated s \<Longrightarrow> dtor_step s s' \<Longrightarrow> step Normal s s'"
  "\<not> s_terminated s \<Longrightarrow> spawn_step e s s' \<Longrightarrow> step e s s'"
  "\<not> s_terminated s \<Longrightarrow> spurious_step s s' \<Longrightarrow> step Spurious s s'"
  by (auto simp: step_def)

lemmas step_cases = locker_step.cases body_step.cases child_step.cases dtor_step.cases spawn_step.cases spurious_step.cases

section \<open>The invariant\<close>

definition op_bytes :: "op \<Rightarrow> u8 list" where
  "op_bytes x = (case x of Op ds sp \<Rightarrow> concat ds @ (case sp of None \<Rightarrow> [] | Some (wh, buf, bytes) \<Rightarrow> job_bytes (make_job wh buf bytes)))"

definition main_bytes :: "main_pc \<Rightarrow> u8 list" where
  "main_bytes pc = (case pc of Inside ds sp \<Rightarrow> op_bytes (Op ds sp) | Spawning j \<Rightarrow> job_bytes j | _ \<Rightarrow> [])"

fun pending_bytes :: "child_pc \<times> job \<Rightarrow> u8 list" where
  "pending_bytes (pc, j) = (if pc = Written then [] else job_bytes j)"

definition all_bytes :: "sys \<Rightarrow> u8 list" where
  "all_bytes s = sent (s_out s) @ concat (map pending_bytes (s_children s)) @ main_bytes (s_main s)
     @ concat (map op_bytes (s_todo s))"

definition holds_lock :: "main_pc \<Rightarrow> bool" where
  "holds_lock pc = (case pc of Checking \<Rightarrow> True | Inside ds sp \<Rightarrow> True | Spawning j \<Rightarrow> True | Dtor_Checking \<Rightarrow> True | _ \<Rightarrow> False)"

definition in_dtor :: "main_pc \<Rightarrow> bool" where
  "in_dtor pc \<longleftrightarrow> pc \<in> {Dtor_Checking, Dtor_Sleeping, Dtor_Woken, Destroyed}"

text \<open>Whether the main thread is where no child may be.\<close>

definition alone :: "main_pc \<Rightarrow> bool" where
  "alone pc = (case pc of Inside ds sp \<Rightarrow> ds \<noteq> [] \<or> sp \<noteq> None | Spawning j \<Rightarrow> True | _ \<Rightarrow> False)"

definition sys_ok :: "u8 list \<Rightarrow> sys \<Rightarrow> bool" where
  "sys_ok bs s \<longleftrightarrow> unlimited (s_out s) \<and> \<not> s_terminated s \<and> \<not> s_threw s \<and>
     length (s_children s) \<le> 1 \<and>
     s_count s = (case s_main s of Spawning j \<Rightarrow> 1 | Destroyed \<Rightarrow> 0 | _ \<Rightarrow> int (length (s_children s))) \<and>
     (alone (s_main s) \<longrightarrow> s_children s = []) \<and>
     (s_mutex s = Some Main \<longleftrightarrow> holds_lock (s_main s)) \<and>
     (s_mutex s = Some Child \<longleftrightarrow> (\<exists>c \<in> set (s_children s). fst c \<noteq> Started)) \<and>
     (s_main s \<in> {Sleeping, Dtor_Sleeping} \<longrightarrow> s_children s \<noteq> []) \<and>
     (in_dtor (s_main s) \<longrightarrow> s_todo s = []) \<and> (s_main s \<in> {Checking, Sleeping, Woken} \<longrightarrow> s_todo s \<noteq> []) \<and>
     all_bytes s = bs"

text \<open>What holds in addition when no wait returns without a signal.\<close>

definition quiet_ok :: "sys \<Rightarrow> bool" where
  "quiet_ok s \<longleftrightarrow> (s_main s \<in> {Woken, Dtor_Woken, Destroyed} \<longrightarrow> s_children s = [])"

lemma one_child: "length (xs @ c # ys) \<le> 1 \<Longrightarrow> xs = [] \<and> ys = []"
  by simp

lemmas sys_defs = sys_ok_def quiet_ok_def all_bytes_def main_bytes_def op_bytes_def alone_def holds_lock_def in_dtor_def

lemma locker_step_ok: "locker_step s s' \<Longrightarrow> sys_ok bs s \<Longrightarrow> sys_ok bs s' \<and> (quiet_ok s \<longrightarrow> quiet_ok s')"
  by (erule locker_step.cases) (auto simp: sys_defs)

lemma spawn_step_ok: "spawn_step Normal s s' \<Longrightarrow> sys_ok bs s \<Longrightarrow> sys_ok bs s' \<and> (quiet_ok s \<longrightarrow> quiet_ok s')"
  by (erule spawn_step.cases) (auto simp: sys_defs)

lemma os_write_good: "unlimited os \<Longrightarrow> os_write os bs = os\<lparr>sent := sent os @ bs\<rparr>"
  by (simp add: os_write_def unlimited_def)

lemma body_step_ok: "body_step s s' \<Longrightarrow> sys_ok bs s \<Longrightarrow> sys_ok bs s' \<and> (quiet_ok s \<longrightarrow> quiet_ok s')"
proof (erule body_step.cases, goal_cases)
  case (1 sa b ds sp)
  then show ?case by (auto simp: sys_defs os_write_good)
next
  case (2 sa b ds sp)
  then show ?case by (simp add: sys_ok_def unlimited_def os_write_good)
next
  case (3 sa wh buf bytes)
  then show ?case by (auto simp: sys_defs)
next
  case (4 sa)
  then show ?case by (auto simp: sys_defs)
qed

lemma dtor_step_ok: "dtor_step s s' \<Longrightarrow> sys_ok bs s \<Longrightarrow> sys_ok bs s' \<and> (quiet_ok s \<longrightarrow> quiet_ok s')"
  by (erule dtor_step.cases) (auto simp: sys_defs)

lemma spurious_step_ok: "spurious_step s s' \<Longrightarrow> sys_ok bs s \<Longrightarrow> sys_ok bs s'"
proof (erule spurious_step.cases, goal_cases)
  case (1 sa)
  then consider "s_main sa = Sleeping" | "s_main sa = Dtor_Sleeping" by blast
  then show ?case using 1 by cases (auto simp: sys_defs signalled_def)
qed

lemma child_step_ok: "child_step s s' \<Longrightarrow> sys_ok bs s \<Longrightarrow> sys_ok bs s' \<and> (quiet_ok s \<longrightarrow> quiet_ok s')"
proof (erule child_step.cases, goal_cases)
  case (1 sa xs j ys)
  then have "xs = []" "ys = []" using one_child by (auto simp: sys_ok_def)
  with 1 show ?case by (auto simp: sys_defs split: main_pc.splits)
next
  case (2 sa xs j ys)
  then have "xs = []" "ys = []" using one_child by (auto simp: sys_ok_def)
  with 2 show ?case by (auto simp: sys_defs unlimited_def split: main_pc.splits)
next
  case (5 sa xs j ys)
  then have "xs = []" "ys = []" using one_child by (auto simp: sys_ok_def)
  with 5 show ?case by (auto simp: sys_defs child_exit_def signalled_def split: main_pc.splits)
qed (auto simp: sys_ok_def unlimited_def os_write_def)

lemma step_ok:
  assumes "step e s s'" "sys_ok bs s" "e \<noteq> No_Thread"
  shows "sys_ok bs s'" "e = Normal \<Longrightarrow> quiet_ok s \<Longrightarrow> quiet_ok s'"
proof -
  have spawn: "spawn_step e s s' \<Longrightarrow> e = Normal" using assms(3) by (auto elim: spawn_step.cases)
  show "sys_ok bs s'"
    using assms locker_step_ok body_step_ok child_step_ok dtor_step_ok spawn_step_ok spurious_step_ok spawn
    unfolding step_def by blast
  show "e = Normal \<Longrightarrow> quiet_ok s \<Longrightarrow> quiet_ok s'"
    using assms locker_step_ok body_step_ok child_step_ok dtor_step_ok spawn_step_ok unfolding step_def by blast
qed

lemma start_ok: "unlimited out \<Longrightarrow> sys_ok (sent out @ concat (map op_bytes ops)) (start_sys throws out ops)"
  "quiet_ok (start_sys throws out ops)"
  by (simp_all add: sys_defs start_sys_def)

lemma runs_ok:
  assumes "runs E s t" "No_Thread \<notin> E" "sys_ok bs s"
  shows "sys_ok bs t" "E \<subseteq> {Normal} \<Longrightarrow> quiet_ok s \<Longrightarrow> quiet_ok t"
proof -
  have "sys_ok bs t \<and> (E \<subseteq> {Normal} \<longrightarrow> quiet_ok s \<longrightarrow> quiet_ok t)"
    using assms(1)
  proof induction
    case (there t e u)
    then have "e \<noteq> No_Thread" using assms(2) by auto
    then show ?case using there step_ok [of e t u bs] by blast
  qed (use assms(3) in simp)
  then show "sys_ok bs t" "E \<subseteq> {Normal} \<Longrightarrow> quiet_ok s \<Longrightarrow> quiet_ok t" by blast+
qed

section \<open>Progress and termination\<close>

definition finished :: "sys \<Rightarrow> bool" where
  "finished s \<longleftrightarrow> s_main s = Destroyed \<and> s_children s = []"

lemma progress:
  assumes ok: "sys_ok bs s" and q: "quiet_ok s" and nf: "\<not> finished s"
  shows "\<exists>s'. step Normal s s'"
proof -
  have t: "\<not> s_terminated s" using ok by (simp add: sys_ok_def)
  have un: "unlimited (s_out s)" using ok by (simp add: sys_ok_def)
  have good: "\<not> os_bad (os_write (s_out s) b)" for b using un by (simp add: os_write_def unlimited_def)
  consider (main) "holds_lock (s_main s)" | (child) "s_mutex s = Some Child" | (free) "s_mutex s = None"
    using ok by (cases "s_mutex s") (auto simp: sys_ok_def intro: owner.exhaust)
  then show ?thesis
  proof cases
    case main
    show ?thesis
    proof (cases "s_main s")
      case Checking
      then have "s_todo s \<noteq> []" using ok by (simp add: sys_ok_def)
      then obtain ds sp ops where "s_todo s = Op ds sp # ops" by (metis op.exhaust neq_Nil_conv)
      then show ?thesis
        using Checking t unfolding step_def by (cases "s_count s = 0") (blast intro: locker_step.intros)+
    next
      case (Inside ds sp)
      show ?thesis
      proof (cases ds)
        case (Cons b ds')
        then show ?thesis using Inside t good unfolding step_def by (blast intro: body_step.intros)
      next
        case Nil
        show ?thesis
        proof (cases sp)
          case None
          then show ?thesis using Inside Nil t unfolding step_def by (blast intro: body_step.intros)
        next
          case (Some x)
          obtain wh buf n where "x = (wh, buf, n)" by (cases x)
          then show ?thesis using Inside Nil Some t unfolding step_def by (blast intro: body_step.intros)
        qed
      qed
    next
      case (Spawning j)
      then show ?thesis using t unfolding step_def by (blast intro: spawn_step.intros)
    next
      case Dtor_Checking
      then show ?thesis using t unfolding step_def by (cases "s_count s = 0") (blast intro: dtor_step.intros)+
    qed (use main in \<open>simp_all add: holds_lock_def\<close>)
  next
    case child
    then obtain c where "c \<in> set (s_children s)" "fst c \<noteq> Started" using ok by (auto simp: sys_ok_def)
    moreover obtain pc j where "c = (pc, j)" by (cases c)
    ultimately obtain xs ys where "s_children s = xs @ (pc, j) # ys" "pc \<noteq> Started" by (auto dest: split_list)
    then show ?thesis
      using t good unfolding step_def by (cases pc) (blast intro: child_step.intros)+
  next
    case free
    show ?thesis
    proof (cases "s_children s")
      case (Cons c cs)
      then have "fst c = Started" using ok free by (auto simp: sys_ok_def)
      then have "s_children s = [] @ (Started, snd c) # cs" using Cons by (cases c) simp
      then show ?thesis using free t unfolding step_def by (blast intro: child_step.intros)
    next
      case Nil
      then have "s_main s \<in> {Idle, Woken, Dtor_Woken}"
        using ok free nf by (cases "s_main s") (auto simp: sys_ok_def finished_def holds_lock_def)
      then show ?thesis
        using free t unfolding step_def by (cases "s_todo s = []") (blast intro: locker_step.intros dtor_step.intros)+
    qed
  qed
qed

text \<open>Every step that needs no luck brings the end nearer.\<close>

definition op_weight :: "op \<Rightarrow> nat" where
  "op_weight x = (case x of Op ds sp \<Rightarrow> 10 + length ds + (case sp of None \<Rightarrow> 0 | Some y \<Rightarrow> 40))"

definition main_weight :: "main_pc \<Rightarrow> nat" where
  "main_weight pc = (case pc of Idle \<Rightarrow> 3 | Checking \<Rightarrow> 2 | Sleeping \<Rightarrow> 1 | Woken \<Rightarrow> 3
     | Inside ds sp \<Rightarrow> 4 + length ds + (case sp of None \<Rightarrow> 0 | Some y \<Rightarrow> 40) | Spawning j \<Rightarrow> 40
     | Dtor_Checking \<Rightarrow> 2 | Dtor_Sleeping \<Rightarrow> 1 | Dtor_Woken \<Rightarrow> 3 | Destroyed \<Rightarrow> 0)"

fun child_weight :: "child_pc \<times> job \<Rightarrow> nat" where
  "child_weight (Started, j) = 30" | "child_weight (Writing, j) = 20" | "child_weight (Written, j) = 10"

definition weight :: "sys \<Rightarrow> nat" where
  "weight s = main_weight (s_main s) + sum_list (map op_weight (s_todo s)) + sum_list (map child_weight (s_children s))"

lemma step_weight:
  assumes "step Normal s s'" "unlimited (s_out s)"
  shows "weight s' < weight s"
proof -
  have good: "\<not> os_bad (os_write (s_out s) b)" for b
    using assms(2) by (simp add: os_write_def unlimited_def)
  have "locker_step s s' \<Longrightarrow> weight s' < weight s"
    by (erule locker_step.cases) (simp_all add: weight_def main_weight_def op_weight_def)
  moreover have "body_step s s' \<Longrightarrow> weight s' < weight s"
    by (erule body_step.cases) (use good in \<open>simp_all add: weight_def main_weight_def\<close>)
  moreover have "dtor_step s s' \<Longrightarrow> weight s' < weight s"
    by (erule dtor_step.cases) (simp_all add: weight_def main_weight_def)
  moreover have "spawn_step Normal s s' \<Longrightarrow> weight s' < weight s"
    by (erule spawn_step.cases) (simp_all add: weight_def main_weight_def)
  moreover have "child_step s s' \<Longrightarrow> weight s' < weight s"
    by (erule child_step.cases)
       (use good in \<open>auto simp: weight_def main_weight_def child_exit_def signalled_def split: main_pc.splits\<close>)
  ultimately show ?thesis using assms(1) by (auto simp: step_def)
qed

lemma no_infinite_run:
  assumes "sys_ok bs (f 0)" "\<forall>i. step Normal (f i) (f (Suc i))"
  shows False
proof -
  have ok: "sys_ok bs (f i)" for i
    using assms step_ok(1) [of Normal] by (induction i) auto
  have "weight (f (Suc i)) < weight (f i)" for i
    using assms(2) ok [of i] by (intro step_weight) (auto simp: sys_ok_def)
  note less = this
  have "weight (f i) + i \<le> weight (f 0)" for i
  proof (induction i)
    case (Suc i)
    then show ?case using less [of i] by linarith
  qed simp
  from this [of "Suc (weight (f 0))"] show False by simp
qed

lemma finished_sent: "sys_ok bs s \<Longrightarrow> finished s \<Longrightarrow> sent (s_out s) = bs"
  by (auto simp: finished_def sys_ok_def all_bytes_def main_bytes_def in_dtor_def)

section \<open>The put operations of D4StreamMarshaller with threads\<close>

text \<open>
  The branches under \<open>USE_POSIX_THREADS\<close>: scalars, texts and lengths are written by the main thread, the
  bytes of a vector and of an opaque value by a child.
\<close>

fun threaded_op :: "bool \<Rightarrow> d4val \<Rightarrow> op" where
  "threaded_op big (V_Str s) = Op [mem_bytes big 8 (of_nat (length s) :: u64), s] None"
| "threaded_op big (V_Url s) = Op [mem_bytes big 8 (of_nat (length s) :: u64), s] None"
| "threaded_op big (V_Opaque s) = Op [mem_bytes big 8 (of_nat (length s) :: u64)] (Some (True, s, int (length s)))"
| "threaded_op big (V_Count c) = Op [mem_bytes big 8 c] None"
| "threaded_op big (V_Bytes s) = Op [] (Some (True, s, int (length s)))"
| "threaded_op big (V_Vec16 ws) = Op [] (Some (True, vec_mem big 2 ws, 2 * int (length ws)))"
| "threaded_op big (V_Vec32 ws) = Op [] (Some (True, vec_mem big 4 ws, 4 * int (length ws)))"
| "threaded_op big (V_Vec64 ws) = Op [] (Some (True, vec_mem big 8 ws, 8 * int (length ws)))"
| "threaded_op big (V_Float32s ws) = Op [] (Some (True, vec_mem big 4 ws, 4 * int (length ws)))"
| "threaded_op big (V_Float64s ws) = Op [] (Some (True, vec_mem big 8 ws, 8 * int (length ws)))"
| "threaded_op big v = Op [checked big v] None"

lemma make_job_small: "int (length buf) = n \<Longrightarrow> n < 2 ^ 31 \<Longrightarrow> job_bytes (make_job True buf n) = buf"
  by (auto simp: make_job_def job_bytes_def to_uint_def)

lemma threaded_op_bytes: "fits v \<Longrightarrow> op_bytes (threaded_op big v) = on_stream big v"
  by (cases v) (simp_all add: op_bytes_def on_stream_def fits_def make_job_small)

lemma threaded_ops_bytes:
  "\<forall>v \<in> set vs. fits v \<Longrightarrow> concat (map op_bytes (map (threaded_op big) vs)) = concat (map (on_stream big) vs)"
  by (induction vs) (simp_all add: threaded_op_bytes)

section \<open>Properties\<close>

text \<open>C20: Mutual exclusion and order: in every state that the marshaller with writer threads can reach (waits may
  also return without a signal, threads are always created, the stream takes everything), there is at most one
  child thread, the count is 0 or 1, main thread and child never hold the lock at once, and what is on the
  stream is a prefix of what the operations write in program order: the stream, the buffer of the
  child, the rest of the current operation and the operations to come always make up the whole.\<close>

theorem threads_keep_order:
  assumes "runs E (start_sys throws out ops) s" "No_Thread \<notin> E" "unlimited out"
  shows "length (s_children s) \<le> 1 \<and> s_count s \<in> {0, 1} \<and>
    \<not> (holds_lock (s_main s) \<and> (\<exists>c \<in> set (s_children s). fst c \<noteq> Started)) \<and>
    sent (s_out s) @ concat (map pending_bytes (s_children s)) @ main_bytes (s_main s) @ concat (map op_bytes (s_todo s))
      = sent out @ concat (map op_bytes ops)"
proof -
  have "sys_ok (sent out @ concat (map op_bytes ops)) s"
    by (rule runs_ok(1) [OF assms(1,2) start_ok(1) [OF assms(3)]])
  then have ok: "length (s_children s) \<le> 1"
    "s_count s = (case s_main s of Spawning j \<Rightarrow> 1 | Destroyed \<Rightarrow> 0 | _ \<Rightarrow> int (length (s_children s)))"
    "s_mutex s = Some Main \<longleftrightarrow> holds_lock (s_main s)"
    "s_mutex s = Some Child \<longleftrightarrow> (\<exists>c \<in> set (s_children s). fst c \<noteq> Started)"
    "all_bytes s = sent out @ concat (map op_bytes ops)"
    by (simp_all add: sys_ok_def)
  have "length (s_children s) = 0 \<or> length (s_children s) = 1" using ok(1) by linarith
  then have "s_count s \<in> {0, 1}" using ok(2) by (cases "s_main s") auto
  then show ?thesis using ok by (auto simp: all_bytes_def)
qed


text \<open>C8: The build with threads writes what the build without threads writes: for values of less than 2 GiB each,
  every complete run of the threaded put operations (each with its \<open>Locker\<close>, vectors and opaque
  values by a child) leaves on the stream exactly the bytes that the sequential marshaller
  leaves.\<close>

theorem threaded_equals_sequential:
  assumes "runs {Normal} (start_sys True out (map (threaded_op big) vs)) s" "finished s"
    and "unlimited out" "\<forall>v \<in> set vs. fits v"
  shows "\<exists>m. put_all plain_write (make_marshaller big out True) vs = return m \<and> sent (d_out m) = sent (s_out s)"
proof -
  let ?m = "make_marshaller big out True"
  have "sys_ok (sent out @ concat (map op_bytes (map (threaded_op big) vs))) s"
    using runs_ok(1) [OF assms(1) _ start_ok(1) [OF assms(3)]] by auto
  then have "sent (s_out s) = sent out @ concat (map (on_stream big) vs)"
    using finished_sent [OF _ assms(2)] threaded_ops_bytes [OF assms(4), of big] by metis
  moreover have "plain_holds (d_out ?m) (sent out)" "d_write_data ?m"
    using assms(3) by (simp_all add: plain_holds_def make_marshaller_def)
  ultimately show ?thesis
    using plain.put_all_ok [of ?m "sent out" vs] assms(4)
    by (fastforce simp: plain_holds_def make_marshaller_def)
qed

text \<open>C39: A thread that cannot be created hangs the program: the count has been incremented before
  \<open>start_thread\<close> throws and nothing resets it, so from any state at that point the exception leads to the
  destructor of \<open>MarshallerThread\<close>, which waits for a child that does not exist; no thread can
  take a step any more.\<close>

theorem failed_thread_hangs:
  assumes "runs {Normal} (start_sys throws out ops) s" "unlimited out" "s_main s = Spawning j"
  shows "\<exists>t. runs {Normal, No_Thread} s t \<and> s_threw t \<and> s_main t = Dtor_Sleeping \<and> (\<forall>t'. \<not> step Normal t t')"
proof -
  have ok: "sys_ok (sent out @ concat (map op_bytes ops)) s"
    using runs_ok(1) [OF assms(1) _ start_ok(1) [OF assms(2)]] by auto
  then have s: "s_children s = []" "s_count s = 1" "\<not> s_terminated s"
    using assms(3) by (simp_all add: sys_ok_def alone_def)
  define s1 where "s1 = throw_main s"
  define s2 where "s2 = s1\<lparr>s_mutex := Some Main, s_main := Dtor_Checking\<rparr>"
  define t where "t = s2\<lparr>s_mutex := None, s_main := Dtor_Sleeping\<rparr>"
  have "runs {Normal, No_Thread} s s1"
    unfolding s1_def by (rule runs.there [OF runs.here, of No_Thread]) (use assms(3) s in \<open>auto simp: step_def intro: create_fails\<close>)
  moreover have "step Normal s1 s2"
    unfolding s2_def by (rule stepI(4) [OF _ dtor_step.dtor_lock]) (use s in \<open>simp_all add: s1_def throw_main_def\<close>)
  moreover have "step Normal s2 t"
    unfolding t_def by (rule stepI(4) [OF _ dtor_step.dtor_wait]) (use s in \<open>simp_all add: s2_def s1_def throw_main_def\<close>)
  ultimately have "runs {Normal, No_Thread} s t"
    by (meson insertI1 runs.there)
  moreover have "\<not> step Normal t t'" for t'
    using s by (auto simp: step_def t_def s2_def s1_def throw_main_def elim!: step_cases)
  ultimately show ?thesis
    by (intro exI [of _ t]) (simp add: t_def s2_def s1_def throw_main_def)
qed

text \<open>The destructor does not test the count again after its wait: when that wait returns without a
  signal, the marshaller, and with it the mutex and the condition variable, is destroyed while the child
  that is to use them has not even started to write.\<close>

lemma destructor_may_leave_child:
  assumes "unlimited out"
  shows "\<exists>t. runs {Normal, Spurious} (start_sys throws out [Op [] (Some (True, buf, n))]) t \<and>
    s_main t = Destroyed \<and> s_children t = [(Started, make_job True buf n)]"
proof -
  let ?E = "{Normal, Spurious}" and ?j = "make_job True buf n"
  define s where "s = start_sys throws out [Op [] (Some (True, buf, n))]"
  define s1 where "s1 = s\<lparr>s_mutex := Some Main, s_main := Checking\<rparr>"
  define s2 where "s2 = s1\<lparr>s_main := Inside [] (Some (True, buf, n)), s_todo := []\<rparr>"
  define s3 where "s3 = s2\<lparr>s_count := s_count s2 + 1, s_main := Spawning ?j\<rparr>"
  define s4 where "s4 = s3\<lparr>s_children := s_children s3 @ [(Started, ?j)], s_main := Inside [] None\<rparr>"
  define s5 where "s5 = s4\<lparr>s_mutex := None, s_main := Idle\<rparr>"
  define s6 where "s6 = s5\<lparr>s_mutex := Some Main, s_main := Dtor_Checking\<rparr>"
  define s7 where "s7 = s6\<lparr>s_mutex := None, s_main := Dtor_Sleeping\<rparr>"
  define s8 where "s8 = s7\<lparr>s_main := signalled (s_main s7)\<rparr>"
  define s9 where "s9 = s8\<lparr>s_count := 0, s_main := Destroyed\<rparr>"
  note defs = s_def s1_def s2_def s3_def s4_def s5_def s6_def s7_def s8_def start_sys_def signalled_def
  have "step Normal s s1" unfolding s1_def by (rule stepI(1) [OF _ locker_step.lock]) (simp_all add: defs)
  moreover have "step Normal s1 s2" unfolding s2_def by (rule stepI(1) [OF _ locker_step.enter]) (simp_all add: defs)
  moreover have "step Normal s2 s3" unfolding s3_def by (rule stepI(2) [OF _ body_step.increment]) (simp_all add: defs)
  moreover have "step Normal s3 s4" unfolding s4_def by (rule stepI(5) [OF _ spawn_step.create]) (simp_all add: defs)
  moreover have "step Normal s4 s5" unfolding s5_def by (rule stepI(2) [OF _ body_step.leave]) (simp_all add: defs)
  moreover have "step Normal s5 s6" unfolding s6_def by (rule stepI(4) [OF _ dtor_step.dtor_lock]) (simp_all add: defs)
  moreover have "step Normal s6 s7" unfolding s7_def by (rule stepI(4) [OF _ dtor_step.dtor_wait]) (simp_all add: defs)
  moreover have "step Spurious s7 s8" unfolding s8_def by (rule stepI(6) [OF _ spurious_step.spurious]) (simp_all add: defs)
  moreover have "step Normal s8 s9" unfolding s9_def by (rule stepI(4) [OF _ dtor_step.dtor_wake]) (simp_all add: defs)
  ultimately have "runs ?E s s9"
    by (meson insertI1 insertI2 runs.here runs.there)
  then show ?thesis
    unfolding s_def [symmetric] by (intro exI [of _ s9]) (simp add: s9_def defs)
qed

section \<open>Witnesses\<close>

definition demo_stream :: ostream where
  "demo_stream = \<lparr>sent = [], room = None, os_bad = False\<rparr>"

lemma demo_stream [simp]: "unlimited demo_stream" "sent demo_stream = []"
  by (simp_all add: demo_stream_def unlimited_def)

theorem threads_keep_order_witness:
  "length (s_children (start_sys True demo_stream [Op [[1]] None])) \<le> 1"
  using threads_keep_order [of "{Normal}" True demo_stream "[Op [[1]] None]"] by (simp add: runs.here)


text \<open>A finished run, by taking steps while there are any.\<close>

lemma runs_finish:
  assumes "sys_ok bs s" "quiet_ok s"
  shows "\<exists>t. runs {Normal} s t \<and> finished t"
  using assms
proof (induction "weight s" arbitrary: s rule: less_induct)
  case less
  show ?case
  proof (cases "finished s")
    case False
    then obtain s' where s': "step Normal s s'" using progress less.prems by blast
    have "weight s' < weight s" using s' less.prems(1) by (intro step_weight) (simp_all add: sys_ok_def)
    then obtain t where t: "runs {Normal} s' t" "finished t"
      using less.hyps step_ok [OF s' less.prems(1)] less.prems(2) by blast
    have "runs {Normal} s s'" using s' by (blast intro: runs.intros)
    moreover have "runs {Normal} s' t \<Longrightarrow> runs {Normal} s s' \<Longrightarrow> runs {Normal} s t"
      by (induction rule: runs.induct) (auto intro: runs.there)
    ultimately show ?thesis using t by blast
  qed (auto intro: runs.here)
qed

theorem threaded_equals_sequential_witness:
  "\<exists>s m. runs {Normal} (start_sys True demo_stream (map (threaded_op False) [V_Bytes [1, 2]])) s \<and>
    put_all plain_write (make_marshaller False demo_stream True) [V_Bytes [1, 2]] = return m \<and> sent (d_out m) = sent (s_out s)"
proof -
  obtain s where "runs {Normal} (start_sys True demo_stream (map (threaded_op False) [V_Bytes [1, 2]])) s" "finished s"
    using runs_finish [OF start_ok] demo_stream(1) by blast
  then show ?thesis
    using threaded_equals_sequential [of demo_stream False "[V_Bytes [1, 2]]" s] by (fastforce simp: fits_def)
qed

theorem failed_thread_hangs_witness:
  "\<exists>t. s_threw t \<and> s_main t = Dtor_Sleeping \<and> (\<forall>t'. \<not> step Normal t t')"
proof -
  define s where "s = start_sys True demo_stream [Op [] (Some (True, [1], 1))]"
  define s1 where "s1 = s\<lparr>s_mutex := Some Main, s_main := Checking\<rparr>"
  define s2 where "s2 = s1\<lparr>s_main := Inside [] (Some (True, [1], 1)), s_todo := []\<rparr>"
  define s3 where "s3 = s2\<lparr>s_count := s_count s2 + 1, s_main := Spawning (make_job True [1] 1)\<rparr>"
  note defs = s_def s1_def s2_def start_sys_def
  have "step Normal s s1" unfolding s1_def by (rule stepI(1) [OF _ locker_step.lock]) (simp_all add: defs)
  moreover have "step Normal s1 s2" unfolding s2_def by (rule stepI(1) [OF _ locker_step.enter]) (simp_all add: defs)
  moreover have "step Normal s2 s3" unfolding s3_def by (rule stepI(2) [OF _ body_step.increment]) (simp_all add: defs)
  ultimately have "runs {Normal} s s3" by (meson insertI1 runs.here runs.there)
  then show ?thesis
    using failed_thread_hangs [of True demo_stream "[Op [] (Some (True, [1], 1))]" s3 "make_job True [1] 1"]
    by (auto simp: s_def s3_def)
qed

lemma destructor_may_leave_child_witness:
  "\<exists>t. runs {Normal, Spurious} (start_sys True demo_stream [Op [] (Some (True, [1], 1))]) t \<and> s_main t = Destroyed \<and>
    s_children t \<noteq> []"
  using destructor_may_leave_child [of demo_stream True "[1]" 1] by fastforce

end
