(* ===== verification/Scalars.thy ===== *)
theory Scalars
  imports D4Marshal ParserUtil Escaping
begin

text \<open>
  The scalar variables of a dataset (\<open>Byte.cc\<close>, \<open>Int8.cc\<close>, ..., \<open>Float64.cc\<close>, \<open>Str.cc\<close>, \<open>Url.cc\<close>,
  \<open>D4Opaque.cc\<close>, \<open>D4Enum.cc\<close>): setting and reading the value, the memory interface
  (\<open>val2buf\<close>, \<open>buf2val\<close>), printing, the checksum, and writing to and reading from a DAP4 response.
  The state that \<open>BaseType\<close> keeps for every variable is a record that the value extends; an integer is kept at
  its width and a floating point number as its bits.  \<open>read\<close> is virtual and implemented by the
  servers, so it is an argument; the version of the library is \<open>BaseType_read\<close>.
\<close>

section \<open>The state of a variable\<close>

record 'a scalar =
  d_name :: string
  d_dataset :: string
  d_is_read :: bool
  d_is_send :: bool
  d_is_synthesized :: bool
  d_is_dap4 :: bool
  d_buf :: 'a

type_synonym 'v vread = "'v \<Rightarrow> (bool \<times> 'v) result"

definition make_scalar :: "string \<Rightarrow> string \<Rightarrow> bool \<Rightarrow> 'a \<Rightarrow> 'a scalar" where
  "make_scalar n d is_dap4 z = \<lparr>d_name = n, d_dataset = d, d_is_read = False, d_is_send = False,
     d_is_synthesized = False, d_is_dap4 = is_dap4, d_buf = z\<rparr>"

definition BaseType_set_read_p :: "bool \<Rightarrow> ('a, 'm) scalar_scheme \<Rightarrow> ('a, 'm) scalar_scheme" where
  "BaseType_set_read_p state v = (if d_is_synthesized v then v else v\<lparr>d_is_read := state\<rparr>)"

definition BaseType_read :: "('a, 'm) scalar_scheme vread" where
  "BaseType_read v =
     (if d_is_read v then Inr (True, v)
      else Inl (InternalErr (''Unimplemented BaseType::read() method called for the variable named: '' @ d_name v)))"

text \<open>\<open>if (!read_p()) read();\<close> at the start of every \<open>serialize\<close>.\<close>

definition ensure_read :: "('a, 'm) scalar_scheme vread \<Rightarrow> ('a, 'm) scalar_scheme \<Rightarrow> ('a, 'm) scalar_scheme result" where
  "ensure_read rd v = (if d_is_read v then Inr v else case rd v of Inl e \<Rightarrow> Inl e | Inr (_, v1) \<Rightarrow> Inr v1)"

definition BaseType_type_name :: "Type \<Rightarrow> ('a, 'm) scalar_scheme \<Rightarrow> string result" where
  "BaseType_type_name ty v = (if d_is_dap4 v then D4type_name ty else D2type_name ty)"

definition BaseType_print_decl :: "Type \<Rightarrow> ('a, 'm) scalar_scheme \<Rightarrow> string \<Rightarrow> bool \<Rightarrow> bool \<Rightarrow> bool \<Rightarrow> string result" where
  "BaseType_print_decl ty v space print_semi constraint_info constrained =
     (if constrained \<and> \<not> d_is_send v then Inr []
      else case BaseType_type_name ty v of Inl e \<Rightarrow> Inl e | Inr tn \<Rightarrow>
        Inr (space @ tn @ '' '' @ id2www (d_name v) www_allowable
          @ (if constraint_info then if d_is_send v then '': Send True'' else '': Send False'' else [])
          @ (if print_semi then '';'' @ [CHR 0x0A] else [])))"

section \<open>What the classes share\<close>

definition set_value :: "'a \<Rightarrow> ('a, 'm) scalar_scheme \<Rightarrow> bool \<times> ('a, 'm) scalar_scheme" where
  "set_value x v = (True, BaseType_set_read_p True (v\<lparr>d_buf := x\<rparr>))"

text \<open>A pointer to a value is an option; \<open>buf2val\<close> takes a pointer to such a pointer.\<close>

definition null_data :: exn where
  "null_data = InternalErr ''The incoming pointer does not contain any data.''"

definition null_pointer :: exn where
  "null_pointer = InternalErr ''NULL pointer.''"

definition val2buf :: "exn \<Rightarrow> nat \<Rightarrow> 'a option \<Rightarrow> ('a, 'm) scalar_scheme \<Rightarrow> (nat \<times> ('a, 'm) scalar_scheme) result" where
  "val2buf e w val v = (case val of None \<Rightarrow> Inl e | Some x \<Rightarrow> Inr (w, v\<lparr>d_buf := x\<rparr>))"

definition buf2val :: "exn \<Rightarrow> nat \<Rightarrow> 'a option option \<Rightarrow> ('a, 'm) scalar_scheme \<Rightarrow> (nat \<times> 'a) result" where
  "buf2val e w val v = (case val of None \<Rightarrow> Inl e | Some _ \<Rightarrow> Inr (w, d_buf v))"

definition serialize ::
    "('a, 'm) scalar_scheme vread \<Rightarrow> ('s marshaller \<Rightarrow> 'a \<Rightarrow> 's marshaller result option) \<Rightarrow> ('a, 'm) scalar_scheme \<Rightarrow> 's marshaller
      \<Rightarrow> (('a, 'm) scalar_scheme \<times> 's marshaller) result option" where
  "serialize rd put v m =
     bind (Some (ensure_read rd v)) (\<lambda>v1. bind (put m (d_buf v1)) (\<lambda>m1. return (v1, m1)))"

definition deserialize ::
    "('s unmarshaller \<Rightarrow> ('a \<times> 's unmarshaller) result option) \<Rightarrow> ('a, 'm) scalar_scheme \<Rightarrow> 's unmarshaller
      \<Rightarrow> (('a, 'm) scalar_scheme \<times> 's unmarshaller) result option" where
  "deserialize get v u = bind (get u) (\<lambda>(x, u1). return (v\<lparr>d_buf := x\<rparr>, u1))"

definition print_val :: "Type \<Rightarrow> ('a \<Rightarrow> string) \<Rightarrow> ('a, 'm) scalar_scheme \<Rightarrow> string \<Rightarrow> bool \<Rightarrow> string result" where
  "print_val ty shw v space print_decl_p =
     (if print_decl_p
      then (case BaseType_print_decl ty v space False False False of Inl e \<Rightarrow> Inl e
            | Inr decl \<Rightarrow> Inr (decl @ '' = '' @ shw (d_buf v) @ '';'' @ [CHR 0x0A]))
      else Inr (shw (d_buf v)))"

section \<open>The number classes\<close>

text \<open>
  The type of a \<open>Byte\<close> is that of its constructor, or the one that the DAP4 factory sets for \<open>Char\<close> and \<open>UInt8\<close>, which have no
  class of their own.
\<close>

datatype byte_type = Type_Byte | Type_Char | Type_UInt8

fun type_of_byte :: "byte_type \<Rightarrow> Type" where
  "type_of_byte Type_Byte = dods_byte_c" | "type_of_byte Type_Char = dods_char_c" | "type_of_byte Type_UInt8 = dods_uint8_c"

lemma type_of_byte_eq:
  "type_of_byte k = t \<longleftrightarrow> k = Type_Byte \<and> t = dods_byte_c \<or> k = Type_Char \<and> t = dods_char_c \<or> k = Type_UInt8 \<and> t = dods_uint8_c"
  "t = type_of_byte k \<longleftrightarrow> k = Type_Byte \<and> t = dods_byte_c \<or> k = Type_Char \<and> t = dods_char_c \<or> k = Type_UInt8 \<and> t = dods_uint8_c"
  by (cases k; auto)+

record d4byte = "u8 scalar" +
  d_type :: byte_type

definition Byte_new :: "string \<Rightarrow> string \<Rightarrow> d4byte" where
  "Byte_new n d = scalar.extend (make_scalar n d False 0) \<lparr>d_type = Type_Byte\<rparr>"

definition NewByte :: "string \<Rightarrow> d4byte" where "NewByte n = (Byte_new n [])\<lparr>d_is_dap4 := True\<rparr>"

definition NewChar :: "string \<Rightarrow> d4byte" where
  "NewChar n = (Byte_new n [])\<lparr>d_type := Type_Char, d_is_dap4 := True\<rparr>"

definition NewUInt8 :: "string \<Rightarrow> d4byte" where
  "NewUInt8 n = (Byte_new n [])\<lparr>d_type := Type_UInt8, d_is_dap4 := True\<rparr>"

definition Byte_width :: nat where "Byte_width = 1"

definition Byte_set_value :: "u8 \<Rightarrow> d4byte \<Rightarrow> bool \<times> d4byte" where
  "Byte_set_value x v = set_value x v"

definition Byte_value :: "d4byte \<Rightarrow> u8" where "Byte_value v = d_buf v"

definition Byte_val2buf :: "u8 option \<Rightarrow> d4byte \<Rightarrow> (nat \<times> d4byte) result" where
  "Byte_val2buf val v = val2buf (InternalErr ''the incoming pointer does not contain any data.'') Byte_width val v"

definition Byte_buf2val :: "u8 option option \<Rightarrow> d4byte \<Rightarrow> (nat \<times> u8) result" where
  "Byte_buf2val val v = buf2val (InternalErr ''NULL pointer'') Byte_width val v"

definition Byte_print_val :: "d4byte \<Rightarrow> string \<Rightarrow> bool \<Rightarrow> string result" where
  "Byte_print_val v = print_val (type_of_byte (d_type v)) (\<lambda>w. show_int (int (unat w))) v"

definition Byte_compute_checksum :: "bool \<Rightarrow> u32 \<Rightarrow> d4byte \<Rightarrow> u32" where
  "Byte_compute_checksum big c v = AddData c (mem_bytes big 1 (d_buf v)) 1"

definition Byte_serialize :: "d4byte vread \<Rightarrow> 's writer \<Rightarrow> d4byte \<Rightarrow> 's marshaller \<Rightarrow> (d4byte \<times> 's marshaller) result option" where
  "Byte_serialize rd wr v m = serialize rd (put_byte wr) v m"

definition Byte_deserialize :: "'s reader \<Rightarrow> d4byte \<Rightarrow> 's unmarshaller \<Rightarrow> (d4byte \<times> 's unmarshaller) result option" where
  "Byte_deserialize rd v u = deserialize (D4Marshal.get_byte rd) v u"

definition Int8_new :: "string \<Rightarrow> string \<Rightarrow> u8 scalar" where "Int8_new n d = make_scalar n d True 0"

definition Int8_width :: nat where "Int8_width = 1"

definition Int8_set_value :: "u8 \<Rightarrow> u8 scalar \<Rightarrow> bool \<times> u8 scalar" where
  "Int8_set_value x v = set_value x v"

definition Int8_value :: "u8 scalar \<Rightarrow> u8" where "Int8_value v = d_buf v"

definition Int8_print_val :: "u8 scalar \<Rightarrow> string \<Rightarrow> bool \<Rightarrow> string result" where
  "Int8_print_val v = print_val dods_int8_c (\<lambda>w. show_int (sint w)) v"

definition Int8_compute_checksum :: "bool \<Rightarrow> u32 \<Rightarrow> u8 scalar \<Rightarrow> u32" where
  "Int8_compute_checksum big c v = AddData c (mem_bytes big 1 (d_buf v)) 1"

definition Int8_serialize :: "u8 scalar vread \<Rightarrow> 's writer \<Rightarrow> u8 scalar \<Rightarrow> 's marshaller \<Rightarrow> (u8 scalar \<times> 's marshaller) result option" where
  "Int8_serialize rd wr v m = serialize rd (put_int8 wr) v m"

definition Int8_deserialize :: "'s reader \<Rightarrow> u8 scalar \<Rightarrow> 's unmarshaller \<Rightarrow> (u8 scalar \<times> 's unmarshaller) result option" where
  "Int8_deserialize rd v u = deserialize (D4Marshal.get_int8 rd) v u"

definition Int16_new :: "string \<Rightarrow> string \<Rightarrow> u16 scalar" where "Int16_new n d = make_scalar n d False 0"

definition Int16_width :: nat where "Int16_width = 2"

definition Int16_set_value :: "u16 \<Rightarrow> u16 scalar \<Rightarrow> bool \<times> u16 scalar" where
  "Int16_set_value x v = set_value x v"

definition Int16_value :: "u16 scalar \<Rightarrow> u16" where "Int16_value v = d_buf v"

definition Int16_val2buf :: "u16 option \<Rightarrow> u16 scalar \<Rightarrow> (nat \<times> u16 scalar) result" where
  "Int16_val2buf val v = val2buf null_data Int16_width val v"

definition Int16_buf2val :: "u16 option option \<Rightarrow> u16 scalar \<Rightarrow> (nat \<times> u16) result" where
  "Int16_buf2val val v = buf2val null_pointer Int16_width val v"

definition Int16_print_val :: "u16 scalar \<Rightarrow> string \<Rightarrow> bool \<Rightarrow> string result" where
  "Int16_print_val v = print_val dods_int16_c (\<lambda>w. show_int (sint w)) v"

definition Int16_compute_checksum :: "bool \<Rightarrow> u32 \<Rightarrow> u16 scalar \<Rightarrow> u32" where
  "Int16_compute_checksum big c v = AddData c (mem_bytes big 2 (d_buf v)) 2"

definition Int16_serialize :: "u16 scalar vread \<Rightarrow> 's writer \<Rightarrow> u16 scalar \<Rightarrow> 's marshaller \<Rightarrow> (u16 scalar \<times> 's marshaller) result option" where
  "Int16_serialize rd wr v m = serialize rd (put_int16 wr) v m"

definition Int16_deserialize :: "'s reader \<Rightarrow> u16 scalar \<Rightarrow> 's unmarshaller \<Rightarrow> (u16 scalar \<times> 's unmarshaller) result option" where
  "Int16_deserialize rd v u = deserialize (D4Marshal.get_int16 rd) v u"

definition UInt16_new :: "string \<Rightarrow> string \<Rightarrow> u16 scalar" where "UInt16_new n d = make_scalar n d False 0"

definition UInt16_width :: nat where "UInt16_width = 2"

definition UInt16_set_value :: "u16 \<Rightarrow> u16 scalar \<Rightarrow> bool \<times> u16 scalar" where
  "UInt16_set_value x v = set_value x v"

definition UInt16_value :: "u16 scalar \<Rightarrow> u16" where "UInt16_value v = d_buf v"

definition UInt16_val2buf :: "u16 option \<Rightarrow> u16 scalar \<Rightarrow> (nat \<times> u16 scalar) result" where
  "UInt16_val2buf val v = val2buf null_data UInt16_width val v"

definition UInt16_buf2val :: "u16 option option \<Rightarrow> u16 scalar \<Rightarrow> (nat \<times> u16) result" where
  "UInt16_buf2val val v = buf2val null_pointer UInt16_width val v"

definition UInt16_print_val :: "u16 scalar \<Rightarrow> string \<Rightarrow> bool \<Rightarrow> string result" where
  "UInt16_print_val v = print_val dods_uint16_c (\<lambda>w. show_int (int (unat w))) v"

definition UInt16_compute_checksum :: "bool \<Rightarrow> u32 \<Rightarrow> u16 scalar \<Rightarrow> u32" where
  "UInt16_compute_checksum big c v = AddData c (mem_bytes big 2 (d_buf v)) 2"

definition UInt16_serialize :: "u16 scalar vread \<Rightarrow> 's writer \<Rightarrow> u16 scalar \<Rightarrow> 's marshaller \<Rightarrow> (u16 scalar \<times> 's marshaller) result option" where
  "UInt16_serialize rd wr v m = serialize rd (put_uint16 wr) v m"

definition UInt16_deserialize :: "'s reader \<Rightarrow> u16 scalar \<Rightarrow> 's unmarshaller \<Rightarrow> (u16 scalar \<times> 's unmarshaller) result option" where
  "UInt16_deserialize rd v u = deserialize (D4Marshal.get_uint16 rd) v u"

definition Int32_new :: "string \<Rightarrow> string \<Rightarrow> u32 scalar" where "Int32_new n d = make_scalar n d False 0"

definition Int32_width :: nat where "Int32_width = 4"

definition Int32_set_value :: "u32 \<Rightarrow> u32 scalar \<Rightarrow> bool \<times> u32 scalar" where
  "Int32_set_value x v = set_value x v"

definition Int32_value :: "u32 scalar \<Rightarrow> u32" where "Int32_value v = d_buf v"

definition Int32_val2buf :: "u32 option \<Rightarrow> u32 scalar \<Rightarrow> (nat \<times> u32 scalar) result" where
  "Int32_val2buf val v = val2buf null_data Int32_width val v"

definition Int32_buf2val :: "u32 option option \<Rightarrow> u32 scalar \<Rightarrow> (nat \<times> u32) result" where
  "Int32_buf2val val v = buf2val null_pointer Int32_width val v"

definition Int32_print_val :: "u32 scalar \<Rightarrow> string \<Rightarrow> bool \<Rightarrow> string result" where
  "Int32_print_val v = print_val dods_int32_c (\<lambda>w. show_int (sint w)) v"

definition Int32_compute_checksum :: "bool \<Rightarrow> u32 \<Rightarrow> u32 scalar \<Rightarrow> u32" where
  "Int32_compute_checksum big c v = AddData c (mem_bytes big 4 (d_buf v)) 4"

definition Int32_serialize :: "u32 scalar vread \<Rightarrow> 's writer \<Rightarrow> u32 scalar \<Rightarrow> 's marshaller \<Rightarrow> (u32 scalar \<times> 's marshaller) result option" where
  "Int32_serialize rd wr v m = serialize rd (put_int32 wr) v m"

definition Int32_deserialize :: "'s reader \<Rightarrow> u32 scalar \<Rightarrow> 's unmarshaller \<Rightarrow> (u32 scalar \<times> 's unmarshaller) result option" where
  "Int32_deserialize rd v u = deserialize (D4Marshal.get_int32 rd) v u"

definition UInt32_new :: "string \<Rightarrow> string \<Rightarrow> u32 scalar" where "UInt32_new n d = make_scalar n d False 0"

definition UInt32_width :: nat where "UInt32_width = 4"

definition UInt32_set_value :: "u32 \<Rightarrow> u32 scalar \<Rightarrow> bool \<times> u32 scalar" where
  "UInt32_set_value x v = set_value x v"

definition UInt32_value :: "u32 scalar \<Rightarrow> u32" where "UInt32_value v = d_buf v"

definition UInt32_val2buf :: "u32 option \<Rightarrow> u32 scalar \<Rightarrow> (nat \<times> u32 scalar) result" where
  "UInt32_val2buf val v = val2buf null_data UInt32_width val v"

definition UInt32_buf2val :: "u32 option option \<Rightarrow> u32 scalar \<Rightarrow> (nat \<times> u32) result" where
  "UInt32_buf2val val v = buf2val null_pointer UInt32_width val v"

definition UInt32_print_val :: "u32 scalar \<Rightarrow> string \<Rightarrow> bool \<Rightarrow> string result" where
  "UInt32_print_val v = print_val dods_uint32_c (\<lambda>w. show_int (int (unat w))) v"

definition UInt32_compute_checksum :: "bool \<Rightarrow> u32 \<Rightarrow> u32 scalar \<Rightarrow> u32" where
  "UInt32_compute_checksum big c v = AddData c (mem_bytes big 4 (d_buf v)) 4"

definition UInt32_serialize :: "u32 scalar vread \<Rightarrow> 's writer \<Rightarrow> u32 scalar \<Rightarrow> 's marshaller \<Rightarrow> (u32 scalar \<times> 's marshaller) result option" where
  "UInt32_serialize rd wr v m = serialize rd (put_uint32 wr) v m"

definition UInt32_deserialize :: "'s reader \<Rightarrow> u32 scalar \<Rightarrow> 's unmarshaller \<Rightarrow> (u32 scalar \<times> 's unmarshaller) result option" where
  "UInt32_deserialize rd v u = deserialize (D4Marshal.get_uint32 rd) v u"

definition Int64_new :: "string \<Rightarrow> string \<Rightarrow> u64 scalar" where "Int64_new n d = make_scalar n d True 0"

definition Int64_width :: nat where "Int64_width = 8"

definition Int64_set_value :: "u64 \<Rightarrow> u64 scalar \<Rightarrow> bool \<times> u64 scalar" where
  "Int64_set_value x v = set_value x v"

definition Int64_value :: "u64 scalar \<Rightarrow> u64" where "Int64_value v = d_buf v"

definition Int64_buf2val :: "u64 option option \<Rightarrow> u64 scalar \<Rightarrow> (nat \<times> u64) result" where
  "Int64_buf2val val v = buf2val null_pointer Int64_width val v"

definition Int64_print_val :: "u64 scalar \<Rightarrow> string \<Rightarrow> bool \<Rightarrow> string result" where
  "Int64_print_val v = print_val dods_int64_c (\<lambda>w. show_int (sint w)) v"

definition Int64_compute_checksum :: "bool \<Rightarrow> u32 \<Rightarrow> u64 scalar \<Rightarrow> u32" where
  "Int64_compute_checksum big c v = AddData c (mem_bytes big 8 (d_buf v)) 8"

definition Int64_serialize :: "u64 scalar vread \<Rightarrow> 's writer \<Rightarrow> u64 scalar \<Rightarrow> 's marshaller \<Rightarrow> (u64 scalar \<times> 's marshaller) result option" where
  "Int64_serialize rd wr v m = serialize rd (put_int64 wr) v m"

definition Int64_deserialize :: "'s reader \<Rightarrow> u64 scalar \<Rightarrow> 's unmarshaller \<Rightarrow> (u64 scalar \<times> 's unmarshaller) result option" where
  "Int64_deserialize rd v u = deserialize (D4Marshal.get_int64 rd) v u"

definition UInt64_new :: "string \<Rightarrow> string \<Rightarrow> u64 scalar" where "UInt64_new n d = make_scalar n d True 0"

definition UInt64_width :: nat where "UInt64_width = 8"

definition UInt64_set_value :: "u64 \<Rightarrow> u64 scalar \<Rightarrow> bool \<times> u64 scalar" where
  "UInt64_set_value x v = set_value x v"

definition UInt64_value :: "u64 scalar \<Rightarrow> u64" where "UInt64_value v = d_buf v"

definition UInt64_buf2val :: "u64 option option \<Rightarrow> u64 scalar \<Rightarrow> (nat \<times> u64) result" where
  "UInt64_buf2val val v = buf2val null_pointer UInt64_width val v"

definition UInt64_print_val :: "u64 scalar \<Rightarrow> string \<Rightarrow> bool \<Rightarrow> string result" where
  "UInt64_print_val v = print_val dods_uint64_c (\<lambda>w. show_int (int (unat w))) v"

definition UInt64_compute_checksum :: "bool \<Rightarrow> u32 \<Rightarrow> u64 scalar \<Rightarrow> u32" where
  "UInt64_compute_checksum big c v = AddData c (mem_bytes big 8 (d_buf v)) 8"

definition UInt64_serialize :: "u64 scalar vread \<Rightarrow> 's writer \<Rightarrow> u64 scalar \<Rightarrow> 's marshaller \<Rightarrow> (u64 scalar \<times> 's marshaller) result option" where
  "UInt64_serialize rd wr v m = serialize rd (put_uint64 wr) v m"

definition UInt64_deserialize :: "'s reader \<Rightarrow> u64 scalar \<Rightarrow> 's unmarshaller \<Rightarrow> (u64 scalar \<times> 's unmarshaller) result option" where
  "UInt64_deserialize rd v u = deserialize (D4Marshal.get_uint64 rd) v u"

definition Float32_new :: "string \<Rightarrow> string \<Rightarrow> u32 scalar" where "Float32_new n d = make_scalar n d False 0"

definition Float32_width :: nat where "Float32_width = 4"

definition Float32_set_value :: "u32 \<Rightarrow> u32 scalar \<Rightarrow> bool \<times> u32 scalar" where
  "Float32_set_value x v = set_value x v"

definition Float32_value :: "u32 scalar \<Rightarrow> u32" where "Float32_value v = d_buf v"

definition Float32_val2buf :: "u32 option \<Rightarrow> u32 scalar \<Rightarrow> (nat \<times> u32 scalar) result" where
  "Float32_val2buf val v = val2buf null_data Float32_width val v"

definition Float32_buf2val :: "u32 option option \<Rightarrow> u32 scalar \<Rightarrow> (nat \<times> u32) result" where
  "Float32_buf2val val v = buf2val null_pointer Float32_width val v"

definition Float32_compute_checksum :: "bool \<Rightarrow> u32 \<Rightarrow> u32 scalar \<Rightarrow> u32" where
  "Float32_compute_checksum big c v = AddData c (mem_bytes big 4 (d_buf v)) 4"

definition Float32_serialize :: "u32 scalar vread \<Rightarrow> 's writer \<Rightarrow> u32 scalar \<Rightarrow> 's marshaller \<Rightarrow> (u32 scalar \<times> 's marshaller) result option" where
  "Float32_serialize rd wr v m = serialize rd (put_float32 wr) v m"

definition Float32_deserialize :: "'s reader \<Rightarrow> u32 scalar \<Rightarrow> 's unmarshaller \<Rightarrow> (u32 scalar \<times> 's unmarshaller) result option" where
  "Float32_deserialize rd v u = deserialize (D4Marshal.get_float32 rd) v u"

definition Float64_new :: "string \<Rightarrow> string \<Rightarrow> u64 scalar" where "Float64_new n d = make_scalar n d False 0"

definition Float64_width :: nat where "Float64_width = 8"

definition Float64_set_value :: "u64 \<Rightarrow> u64 scalar \<Rightarrow> bool \<times> u64 scalar" where
  "Float64_set_value x v = set_value x v"

definition Float64_value :: "u64 scalar \<Rightarrow> u64" where "Float64_value v = d_buf v"

definition Float64_val2buf :: "u64 option \<Rightarrow> u64 scalar \<Rightarrow> (nat \<times> u64 scalar) result" where
  "Float64_val2buf val v = val2buf null_data Float64_width val v"

definition Float64_buf2val :: "u64 option option \<Rightarrow> u64 scalar \<Rightarrow> (nat \<times> u64) result" where
  "Float64_buf2val val v = buf2val null_pointer Float64_width val v"

definition Float64_compute_checksum :: "bool \<Rightarrow> u32 \<Rightarrow> u64 scalar \<Rightarrow> u32" where
  "Float64_compute_checksum big c v = AddData c (mem_bytes big 8 (d_buf v)) 8"

definition Float64_serialize :: "u64 scalar vread \<Rightarrow> 's writer \<Rightarrow> u64 scalar \<Rightarrow> 's marshaller \<Rightarrow> (u64 scalar \<times> 's marshaller) result option" where
  "Float64_serialize rd wr v m = serialize rd (put_float64 wr) v m"

definition Float64_deserialize :: "'s reader \<Rightarrow> u64 scalar \<Rightarrow> 's unmarshaller \<Rightarrow> (u64 scalar \<times> 's unmarshaller) result option" where
  "Float64_deserialize rd v u = deserialize (D4Marshal.get_float64 rd) v u"

section \<open>Texts and opaque values\<close>

text \<open>A character is a byte of the response.\<close>

definition chars_of :: "u8 list \<Rightarrow> string" where
  "chars_of bs = map (\<lambda>b. char_of (unat b)) bs"

definition Str_new :: "string \<Rightarrow> string \<Rightarrow> string scalar" where "Str_new n d = make_scalar n d False []"

definition Str_length :: "string scalar \<Rightarrow> int" where "Str_length v = to_int (int (length (d_buf v)))"

definition Str_set_value :: "string \<Rightarrow> string scalar \<Rightarrow> bool \<times> string scalar" where
  "Str_set_value x v = set_value x v"

definition Str_value :: "string scalar \<Rightarrow> string" where "Str_value v = d_buf v"

text \<open>Both return the size of a pointer.\<close>

definition Str_val2buf :: "string option \<Rightarrow> string scalar \<Rightarrow> (nat \<times> string scalar) result" where
  "Str_val2buf val v = val2buf null_pointer 8 val v"

definition Str_buf2val :: "string option option \<Rightarrow> string scalar \<Rightarrow> (nat \<times> string) result" where
  "Str_buf2val val v = buf2val (InternalErr ''No place to store a reference to the data.'') 8 val v"

definition Str_print_val :: "string scalar \<Rightarrow> string \<Rightarrow> bool \<Rightarrow> string result" where
  "Str_print_val v = print_val dods_str_c (\<lambda>s. [CHR 0x22] @ escattr s @ [CHR 0x22]) v"

definition Str_compute_checksum :: "u32 \<Rightarrow> string scalar \<Rightarrow> u32" where
  "Str_compute_checksum c v = AddData c (bytes_of (d_buf v)) (of_nat (length (d_buf v)))"

definition Str_serialize :: "string scalar vread \<Rightarrow> 's writer \<Rightarrow> string scalar \<Rightarrow> 's marshaller \<Rightarrow> (string scalar \<times> 's marshaller) result option" where
  "Str_serialize rd wr v m = serialize rd (\<lambda>m s. put_str wr m (bytes_of s)) v m"

definition Str_deserialize :: "'s reader \<Rightarrow> string scalar \<Rightarrow> 's unmarshaller \<Rightarrow> (string scalar \<times> 's unmarshaller) result option" where
  "Str_deserialize rd v u = deserialize (\<lambda>u. bind (get_str rd u) (\<lambda>(bs, u1). return (chars_of bs, u1))) v u"

text \<open>\<open>D4Opaque\<close>: \<open>buf2val\<close> gives the caller an empty vector when it has to allocate one.\<close>

definition Opaque_set_value :: "u8 list \<Rightarrow> u8 list scalar \<Rightarrow> bool \<times> u8 list scalar" where
  "Opaque_set_value x v = set_value x v"

definition Opaque_value :: "u8 list scalar \<Rightarrow> u8 list" where "Opaque_value v = d_buf v"

definition Opaque_val2buf :: "u8 list option \<Rightarrow> u8 list scalar \<Rightarrow> (nat \<times> u8 list scalar) result" where
  "Opaque_val2buf val v = val2buf assertion_failed 8 val v"

definition Opaque_buf2val :: "u8 list option option \<Rightarrow> u8 list scalar \<Rightarrow> (nat \<times> u8 list) result" where
  "Opaque_buf2val val v = (case val of
     None \<Rightarrow> Inl assertion_failed
   | Some None \<Rightarrow> Inr (8, [])
   | Some (Some _) \<Rightarrow> Inr (8, d_buf v))"

definition Opaque_compute_checksum :: "u32 \<Rightarrow> u8 list scalar \<Rightarrow> u32" where
  "Opaque_compute_checksum c v = AddData c (d_buf v) (of_nat (length (d_buf v)))"

definition Opaque_serialize :: "u8 list scalar vread \<Rightarrow> 's writer \<Rightarrow> u8 list scalar \<Rightarrow> 's marshaller \<Rightarrow> (u8 list scalar \<times> 's marshaller) result option" where
  "Opaque_serialize rd wr v m = serialize rd (\<lambda>m bs. put_opaque_dap4 wr m bs (of_nat (length bs))) v m"

definition Opaque_deserialize :: "'s reader \<Rightarrow> u8 list scalar \<Rightarrow> 's unmarshaller \<Rightarrow> (u8 list scalar \<times> 's unmarshaller) result option" where
  "Opaque_deserialize rd v u = deserialize (get_opaque_dap4 rd) v u"

fun comma_separated :: "string list \<Rightarrow> string" where
  "comma_separated [] = []"
| "comma_separated [x] = x"
| "comma_separated (x # y # ys) = x @ '','' @ comma_separated (y # ys)"

definition Opaque_print_val :: "u8 list scalar \<Rightarrow> string \<Rightarrow> bool \<Rightarrow> string result" where
  "Opaque_print_val v space print_decl_p =
     (let body = comma_separated (map (\<lambda>b. show_nat (unat b)) (d_buf v)) in
      if print_decl_p
      then (case BaseType_print_decl dods_opaque_c v space False False False of Inl e \<Rightarrow> Inl e
            | Inr decl \<Rightarrow> Inr (decl @ body @ '';'' @ [CHR 0x0A]))
      else Inr body)"

section \<open>Enumerations\<close>

text \<open>The value is kept in 64 bits; the element type says how many of them are sent.\<close>

record d4enum = "u64 scalar" +
  d_element_type :: Type
  d_is_signed :: bool

definition DODS_SCHAR_MAX :: int where "DODS_SCHAR_MAX = 127"

definition m_type_width :: "Type \<Rightarrow> nat result" where
  "m_type_width t =
     (if t \<in> {dods_byte_c, dods_int8_c, dods_uint8_c} then Inr 1
      else if t \<in> {dods_int16_c, dods_uint16_c} then Inr 2
      else if t \<in> {dods_int32_c, dods_uint32_c} then Inr 4
      else if t \<in> {dods_int64_c, dods_uint64_c} then Inr 8
      else Inl assertion_failed)"

definition does_not_fit :: "int \<Rightarrow> string \<Rightarrow> exn" where
  "does_not_fit v what = Error unknown_error (''The value '' @ show_int v @ '' will not fit in an '' @ what @ ''. (m_check_value)'')"

text \<open>The argument is an \<open>int64_t\<close>; the comparison with an unsigned limit is one of \<open>uint64_t\<close>.\<close>

definition m_check_value :: "Type \<Rightarrow> int \<Rightarrow> unit result" where
  "m_check_value t v =
     (let u = v mod 2 ^ 64 in
      if t \<in> {dods_byte_c, dods_uint8_c}
        then (if u > DODS_UCHAR_MAX \<or> v < 0 then Inl (does_not_fit v ''unsigned byte'') else Inr ())
      else if t = dods_uint16_c
        then (if u > DODS_USHRT_MAX \<or> v < 0 then Inl (does_not_fit v ''unsigned 16-bit integer'') else Inr ())
      else if t = dods_uint32_c
        then (if u > DODS_UINT_MAX \<or> v < 0 then Inl (does_not_fit v ''unsigned 32-bit integer'') else Inr ())
      else if t = dods_uint64_c then Inr ()
      else if t = dods_int8_c
        then (if v > DODS_SCHAR_MAX \<or> v < DODS_SCHAR_MIN then Inl (does_not_fit v ''unsigned byte'') else Inr ())
      else if t = dods_int16_c
        then (if v > DODS_SHRT_MAX \<or> v < DODS_SHRT_MIN then Inl (does_not_fit v ''unsigned byte'') else Inr ())
      else if t = dods_int32_c
        then (if v > DODS_INT_MAX \<or> v < DODS_INT_MIN then Inl (does_not_fit v ''unsigned byte'') else Inr ())
      else if t = dods_int64_c then Inr ()
      else Inl assertion_failed)"

definition set_is_signed :: "Type \<Rightarrow> d4enum \<Rightarrow> d4enum result" where
  "set_is_signed t v =
     (if t \<in> {dods_byte_c, dods_uint8_c, dods_uint16_c, dods_uint32_c, dods_uint64_c} then Inr (v\<lparr>d_is_signed := False\<rparr>)
      else if t \<in> {dods_int8_c, dods_int16_c, dods_int32_c, dods_int64_c} then Inr (v\<lparr>d_is_signed := True\<rparr>)
      else Inl (InternalErr ''Illegal type''))"

definition Enum_new :: "string \<Rightarrow> string \<Rightarrow> Type \<Rightarrow> d4enum result" where
  "Enum_new n d t =
     (let et = (if is_integer_type t then t else dods_uint64_c) in
      set_is_signed et \<lparr>d_name = n, d_dataset = d, d_is_read = False, d_is_send = False, d_is_synthesized = False,
        d_is_dap4 = True, d_buf = 0, d_element_type = et, d_is_signed = False\<rparr>)"

text \<open>\<open>set_enumeration\<close> takes the type of the definition and leaves the sign alone.\<close>

definition set_enumeration :: "Type \<Rightarrow> d4enum \<Rightarrow> d4enum" where
  "set_enumeration t v = v\<lparr>d_element_type := t\<rparr>"

text \<open>
  \<open>value\<close> and \<open>set_value\<close> are templates over the type of the value.  It is converted to
  \<open>int64_t\<close> for the check and for the store.
\<close>

definition Enum_value :: "d4enum \<Rightarrow> 'a::len word" where
  "Enum_value v = ucast (d_buf v)"

definition Enum_set_value :: "bool \<Rightarrow> int \<Rightarrow> d4enum \<Rightarrow> d4enum result" where
  "Enum_set_value check_value x v =
     (let y = (of_int x :: u64) in
      case (if check_value then m_check_value (d_element_type v) (sint y) else Inr ()) of
        Inl e \<Rightarrow> Inl e
      | Inr _ \<Rightarrow> Inr (v\<lparr>d_buf := y\<rparr>))"

definition Enum_width :: "d4enum \<Rightarrow> nat result" where
  "Enum_width v = m_type_width (d_element_type v)"

definition Enum_compute_checksum :: "bool \<Rightarrow> u32 \<Rightarrow> d4enum \<Rightarrow> u32 result" where
  "Enum_compute_checksum big c v =
     (let t = d_element_type v in
      if t \<in> {dods_byte_c, dods_uint8_c, dods_int8_c} then Inr (AddData c (mem_bytes big 1 (ucast (d_buf v) :: u8)) 1)
      else if t \<in> {dods_uint16_c, dods_int16_c} then Inr (AddData c (mem_bytes big 2 (ucast (d_buf v) :: u16)) 2)
      else if t \<in> {dods_uint32_c, dods_int32_c} then Inr (AddData c (mem_bytes big 4 (ucast (d_buf v) :: u32)) 4)
      else if t \<in> {dods_uint64_c, dods_int64_c} then Inr (AddData c (mem_bytes big 8 (d_buf v)) 8)
      else Inl assertion_failed)"

definition Enum_put :: "'s writer \<Rightarrow> Type \<Rightarrow> 's marshaller \<Rightarrow> u64 \<Rightarrow> 's marshaller result option" where
  "Enum_put wr t m w =
     (if t \<in> {dods_byte_c, dods_uint8_c} then put_byte wr m (ucast w)
      else if t = dods_uint16_c then put_uint16 wr m (ucast w)
      else if t = dods_uint32_c then put_uint32 wr m (ucast w)
      else if t = dods_uint64_c then put_uint64 wr m w
      else if t = dods_int8_c then put_int8 wr m (ucast w)
      else if t = dods_int16_c then put_int16 wr m (ucast w)
      else if t = dods_int32_c then put_int32 wr m (ucast w)
      else if t = dods_int64_c then put_int64 wr m w
      else throw assertion_failed)"

definition Enum_serialize :: "d4enum vread \<Rightarrow> 's writer \<Rightarrow> d4enum \<Rightarrow> 's marshaller \<Rightarrow> (d4enum \<times> 's marshaller) result option" where
  "Enum_serialize rd wr v m =
     bind (Some (ensure_read rd v)) (\<lambda>v1. bind (Enum_put wr (d_element_type v1) m (d_buf v1)) (\<lambda>m1. return (v1, m1)))"

text \<open>A value that has been read is widened to 64 bits according to its type.\<close>

definition Enum_get :: "'s reader \<Rightarrow> Type \<Rightarrow> 's unmarshaller \<Rightarrow> (u64 \<times> 's unmarshaller) result option" where
  "Enum_get rd t u =
     (if t \<in> {dods_byte_c, dods_uint8_c} then bind (get_byte rd u) (\<lambda>(x, u1). return (ucast x, u1))
      else if t = dods_uint16_c then bind (D4Marshal.get_uint16 rd u) (\<lambda>(x, u1). return (ucast x, u1))
      else if t = dods_uint32_c then bind (D4Marshal.get_uint32 rd u) (\<lambda>(x, u1). return (ucast x, u1))
      else if t = dods_uint64_c then D4Marshal.get_uint64 rd u
      else if t = dods_int8_c then bind (D4Marshal.get_int8 rd u) (\<lambda>(x, u1). return (scast x, u1))
      else if t = dods_int16_c then bind (D4Marshal.get_int16 rd u) (\<lambda>(x, u1). return (scast x, u1))
      else if t = dods_int32_c then bind (D4Marshal.get_int32 rd u) (\<lambda>(x, u1). return (scast x, u1))
      else if t = dods_int64_c then D4Marshal.get_int64 rd u
      else throw assertion_failed)"

definition Enum_deserialize :: "'s reader \<Rightarrow> d4enum \<Rightarrow> 's unmarshaller \<Rightarrow> (d4enum \<times> 's unmarshaller) result option" where
  "Enum_deserialize rd v u = bind (Enum_get rd (d_element_type v) u) (\<lambda>(x, u1). return (v\<lparr>d_buf := x\<rparr>, u1))"

text \<open>The memory interface: the pointer is to a value of the element type, given here as its bits.\<close>

definition widen :: "Type \<Rightarrow> u64 \<Rightarrow> u64 result" where
  "widen t w =
     (if t \<in> {dods_byte_c, dods_uint8_c} then Inr (ucast (ucast w :: u8))
      else if t = dods_uint16_c then Inr (ucast (ucast w :: u16))
      else if t = dods_uint32_c then Inr (ucast (ucast w :: u32))
      else if t = dods_int8_c then Inr (scast (ucast w :: u8))
      else if t = dods_int16_c then Inr (scast (ucast w :: u16))
      else if t = dods_int32_c then Inr (scast (ucast w :: u32))
      else if t \<in> {dods_uint64_c, dods_int64_c} then Inr w
      else Inl assertion_failed)"

definition Enum_val2buf :: "u64 option \<Rightarrow> d4enum \<Rightarrow> (nat \<times> d4enum) result" where
  "Enum_val2buf val v = (case val of
     None \<Rightarrow> Inl (InternalErr ''The incoming pointer does not contain any data.'')
   | Some w \<Rightarrow> (case widen (d_element_type v) w of
       Inl e \<Rightarrow> Inl e
     | Inr x \<Rightarrow> (case Enum_width v of Inl e \<Rightarrow> Inl e | Inr n \<Rightarrow> Inr (n, v\<lparr>d_buf := x\<rparr>))))"

definition Enum_print_val :: "d4enum \<Rightarrow> string \<Rightarrow> bool \<Rightarrow> string result" where
  "Enum_print_val v space print_decl_p =
     print_val dods_enum_c (\<lambda>w. if d_is_signed v then show_int (sint w) else show_int (int (unat w))) v space print_decl_p"

section \<open>Any variable\<close>

text \<open>A pointer to \<open>BaseType\<close> with its dynamic type; the constructor types have no scalar value.\<close>

datatype BaseType =
    Byte d4byte | Int8 "u8 scalar" | Int16 "u16 scalar" | UInt16 "u16 scalar" | Int32 "u32 scalar" | UInt32 "u32 scalar"
  | Int64 "u64 scalar" | UInt64 "u64 scalar" | Float32 "u32 scalar" | Float64 "u64 scalar" | Str "string scalar" | Url "string scalar"
  | Opaque "u8 list scalar" | Enum d4enum | Other_Type Type "unit scalar"

definition var_type :: "BaseType \<Rightarrow> Type" where
  "var_type b = (case b of
     Byte v \<Rightarrow> type_of_byte (d_type v) | Int8 _ \<Rightarrow> dods_int8_c | Int16 _ \<Rightarrow> dods_int16_c | UInt16 _ \<Rightarrow> dods_uint16_c
   | Int32 _ \<Rightarrow> dods_int32_c | UInt32 _ \<Rightarrow> dods_uint32_c | Int64 _ \<Rightarrow> dods_int64_c | UInt64 _ \<Rightarrow> dods_uint64_c
   | Float32 _ \<Rightarrow> dods_float32_c | Float64 _ \<Rightarrow> dods_float64_c | Str _ \<Rightarrow> dods_str_c | Url _ \<Rightarrow> dods_url_c
   | Opaque _ \<Rightarrow> dods_opaque_c | Enum _ \<Rightarrow> dods_enum_c | Other_Type t _ \<Rightarrow> t)"


text \<open>The virtual functions \<open>serialize\<close> and \<open>deserialize\<close>, with the library's own \<open>read\<close>.\<close>

definition remap :: "('a \<Rightarrow> BaseType) \<Rightarrow> ('a \<times> 'm) result option \<Rightarrow> (BaseType \<times> 'm) result option" where
  "remap f r = bind r (\<lambda>(v, m). return (f v, m))"

fun var_serialize :: "'s writer \<Rightarrow> BaseType \<Rightarrow> 's marshaller \<Rightarrow> (BaseType \<times> 's marshaller) result option" where
  "var_serialize wr (Byte v) m = remap Byte (Byte_serialize BaseType_read wr v m)"
| "var_serialize wr (Int8 v) m = remap Int8 (Int8_serialize BaseType_read wr v m)"
| "var_serialize wr (Int16 v) m = remap Int16 (Int16_serialize BaseType_read wr v m)"
| "var_serialize wr (UInt16 v) m = remap UInt16 (UInt16_serialize BaseType_read wr v m)"
| "var_serialize wr (Int32 v) m = remap Int32 (Int32_serialize BaseType_read wr v m)"
| "var_serialize wr (UInt32 v) m = remap UInt32 (UInt32_serialize BaseType_read wr v m)"
| "var_serialize wr (Int64 v) m = remap Int64 (Int64_serialize BaseType_read wr v m)"
| "var_serialize wr (UInt64 v) m = remap UInt64 (UInt64_serialize BaseType_read wr v m)"
| "var_serialize wr (Float32 v) m = remap Float32 (Float32_serialize BaseType_read wr v m)"
| "var_serialize wr (Float64 v) m = remap Float64 (Float64_serialize BaseType_read wr v m)"
| "var_serialize wr (Str v) m = remap Str (Str_serialize BaseType_read wr v m)"
| "var_serialize wr (Url v) m = remap Url (Str_serialize BaseType_read wr v m)"
| "var_serialize wr (Opaque v) m = remap Opaque (Opaque_serialize BaseType_read wr v m)"
| "var_serialize wr (Enum v) m = remap Enum (Enum_serialize BaseType_read wr v m)"

fun var_deserialize :: "'s reader \<Rightarrow> BaseType \<Rightarrow> 's unmarshaller \<Rightarrow> (BaseType \<times> 's unmarshaller) result option" where
  "var_deserialize rd (Byte v) u = remap Byte (Byte_deserialize rd v u)"
| "var_deserialize rd (Int8 v) u = remap Int8 (Int8_deserialize rd v u)"
| "var_deserialize rd (Int16 v) u = remap Int16 (Int16_deserialize rd v u)"
| "var_deserialize rd (UInt16 v) u = remap UInt16 (UInt16_deserialize rd v u)"
| "var_deserialize rd (Int32 v) u = remap Int32 (Int32_deserialize rd v u)"
| "var_deserialize rd (UInt32 v) u = remap UInt32 (UInt32_deserialize rd v u)"
| "var_deserialize rd (Int64 v) u = remap Int64 (Int64_deserialize rd v u)"
| "var_deserialize rd (UInt64 v) u = remap UInt64 (UInt64_deserialize rd v u)"
| "var_deserialize rd (Float32 v) u = remap Float32 (Float32_deserialize rd v u)"
| "var_deserialize rd (Float64 v) u = remap Float64 (Float64_deserialize rd v u)"
| "var_deserialize rd (Str v) u = remap Str (Str_deserialize rd v u)"
| "var_deserialize rd (Url v) u = remap Url (Str_deserialize rd v u)"
| "var_deserialize rd (Opaque v) u = remap Opaque (Opaque_deserialize rd v u)"
| "var_deserialize rd (Enum v) u = remap Enum (Enum_deserialize rd v u)"

section \<open>Variables as values of the marshaller\<close>

definition enum_content :: "Type \<Rightarrow> u64 \<Rightarrow> d4val" where
  "enum_content t w =
     (if t \<in> {dods_byte_c, dods_uint8_c} then V_Byte (ucast w) else if t = dods_uint16_c then V_UInt16 (ucast w)
      else if t = dods_uint32_c then V_UInt32 (ucast w) else if t = dods_uint64_c then V_UInt64 w
      else if t = dods_int8_c then V_Int8 (ucast w) else if t = dods_int16_c then V_Int16 (ucast w)
      else if t = dods_int32_c then V_Int32 (ucast w) else V_Int64 w)"

fun content :: "BaseType \<Rightarrow> d4val" where
  "content (Byte v) = V_Byte (d_buf v)" | "content (Int8 v) = V_Int8 (d_buf v)" | "content (Int16 v) = V_Int16 (d_buf v)"
| "content (UInt16 v) = V_UInt16 (d_buf v)" | "content (Int32 v) = V_Int32 (d_buf v)" | "content (UInt32 v) = V_UInt32 (d_buf v)"
| "content (Int64 v) = V_Int64 (d_buf v)" | "content (UInt64 v) = V_UInt64 (d_buf v)" | "content (Float32 v) = V_Float32 (d_buf v)"
| "content (Float64 v) = V_Float64 (d_buf v)" | "content (Str v) = V_Str (bytes_of (d_buf v))"
| "content (Url v) = V_Str (bytes_of (d_buf v))" | "content (Opaque v) = V_Opaque (d_buf v)"
| "content (Enum v) = enum_content (d_element_type v) (d_buf v)"

definition enum_types :: "Type set" where
  "enum_types = {dods_byte_c, dods_uint8_c, dods_uint16_c, dods_uint32_c, dods_uint64_c, dods_int8_c, dods_int16_c, dods_int32_c, dods_int64_c}"

text \<open>A variable that can be sent: its value is in memory, and that of an enumeration is one of its type.\<close>

fun ready :: "BaseType \<Rightarrow> bool" where
  "ready (Byte v) = d_is_read v" | "ready (Int8 v) = d_is_read v" | "ready (Int16 v) = d_is_read v"
| "ready (UInt16 v) = d_is_read v" | "ready (Int32 v) = d_is_read v" | "ready (UInt32 v) = d_is_read v"
| "ready (Int64 v) = d_is_read v" | "ready (UInt64 v) = d_is_read v" | "ready (Float32 v) = d_is_read v"
| "ready (Float64 v) = d_is_read v" | "ready (Str v) = d_is_read v" | "ready (Url v) = d_is_read v"
| "ready (Opaque v) = d_is_read v"
| "ready (Enum v) = (d_is_read v \<and> d_element_type v \<in> enum_types \<and> widen (d_element_type v) (d_buf v) = Inr (d_buf v))"
| "ready (Other_Type t v) = False"

text \<open>A variable of the sender, the one of the same class that the receiver has prepared, and that one with the sender's value.\<close>

inductive received :: "BaseType \<Rightarrow> BaseType \<Rightarrow> BaseType \<Rightarrow> bool" where
  "received (Byte v) (Byte w) (Byte (w\<lparr>d_buf := d_buf v\<rparr>))"
| "received (Int8 v) (Int8 w) (Int8 (w\<lparr>d_buf := d_buf v\<rparr>))"
| "received (Int16 v) (Int16 w) (Int16 (w\<lparr>d_buf := d_buf v\<rparr>))"
| "received (UInt16 v) (UInt16 w) (UInt16 (w\<lparr>d_buf := d_buf v\<rparr>))"
| "received (Int32 v) (Int32 w) (Int32 (w\<lparr>d_buf := d_buf v\<rparr>))"
| "received (UInt32 v) (UInt32 w) (UInt32 (w\<lparr>d_buf := d_buf v\<rparr>))"
| "received (Int64 v) (Int64 w) (Int64 (w\<lparr>d_buf := d_buf v\<rparr>))"
| "received (UInt64 v) (UInt64 w) (UInt64 (w\<lparr>d_buf := d_buf v\<rparr>))"
| "received (Float32 v) (Float32 w) (Float32 (w\<lparr>d_buf := d_buf v\<rparr>))"
| "received (Float64 v) (Float64 w) (Float64 (w\<lparr>d_buf := d_buf v\<rparr>))"
| "received (Str v) (Str w) (Str (w\<lparr>d_buf := d_buf v\<rparr>))"
| "received (Url v) (Url w) (Url (w\<lparr>d_buf := d_buf v\<rparr>))"
| "received (Opaque v) (Opaque w) (Opaque (w\<lparr>d_buf := d_buf v\<rparr>))"
| "d_element_type w = d_element_type v \<Longrightarrow> received (Enum v) (Enum w) (Enum (w\<lparr>d_buf := d_buf v\<rparr>))"

lemma chars_of_bytes_of [simp]: "chars_of (bytes_of s) = s"
  by (induction s) (simp_all add: chars_of_def bytes_of_def unat_of_nat take_bit_nat_eq_self)

lemma ensure_read_ready [simp]: "d_is_read v \<Longrightarrow> ensure_read rd v = Inr v"
  by (simp add: ensure_read_def)

lemma remap_bind: "remap f (bind r (\<lambda>x. return (v, x))) = bind r (\<lambda>x. return (f v, x))"
  by (auto simp: remap_def bind_def split: option.splits sum.splits)

lemmas scalar_serialize_defs = Byte_serialize_def Int8_serialize_def Int16_serialize_def UInt16_serialize_def
  Int32_serialize_def UInt32_serialize_def Int64_serialize_def UInt64_serialize_def Float32_serialize_def
  Float64_serialize_def Str_serialize_def Opaque_serialize_def Enum_serialize_def serialize_def

lemmas scalar_deserialize_defs = Byte_deserialize_def Int8_deserialize_def Int16_deserialize_def UInt16_deserialize_def
  Int32_deserialize_def UInt32_deserialize_def Int64_deserialize_def UInt64_deserialize_def Float32_deserialize_def
  Float64_deserialize_def Str_deserialize_def Opaque_deserialize_def Enum_deserialize_def deserialize_def

lemma Enum_put_content: "t \<in> enum_types \<Longrightarrow> Enum_put wr t m w = put_d4 wr m (enum_content t w)"
  by (auto simp: enum_types_def Enum_put_def enum_content_def)

lemma var_serialize_ready: "ready v \<Longrightarrow> var_serialize wr v m = bind (put_d4 wr m (content v)) (\<lambda>m1. return (v, m1))"
  by (cases v) (simp_all add: scalar_serialize_defs remap_bind Enum_put_content)

lemma value_ofD: "value_of r f = return (f x, u1) \<Longrightarrow> (\<And>a. f a = f x \<Longrightarrow> a = x) \<Longrightarrow> r = return (x, u1)"
  by (auto simp: bind_def split: option.splits sum.splits)

text \<open>How a value that has been read enters a variable.\<close>

lemma Enum_get_content:
  assumes "t \<in> enum_types" "widen t w = Inr w" "get_d4 rd u (shape (enum_content t w)) = return (enum_content t w, u1)"
  shows "Enum_get rd t u = return (w, u1)"
  using assms(1) unfolding enum_types_def
proof (elim insertE emptyE)
qed (use assms(2,3) in \<open>auto simp: Enum_get_def enum_content_def widen_def dest!: value_ofD\<close>)

lemma deserialize_value: "get u = return (x, u1) \<Longrightarrow> remap f (deserialize get v u) = return (f (v\<lparr>d_buf := x\<rparr>), u1)"
  by (simp add: remap_def deserialize_def)

lemma var_deserialize_content:
  assumes "received v w w'" "ready v" "get_d4 rd u (shape (content v)) = return (content v, u1)"
  shows "var_deserialize rd w u = return (w', u1)"
  using assms(1)
proof cases
  case (14 w v)
  then have "Enum_get rd (d_element_type v) u = return (d_buf v, u1)"
    using assms(2,3) by (intro Enum_get_content) auto
  then show ?thesis using 14 by (simp add: Enum_deserialize_def remap_def)
qed (use assms(2,3) in \<open>auto simp: scalar_deserialize_defs(1-12) get_url_def dest!: value_ofD intro!: deserialize_value\<close>)

section \<open>Values of an enumeration\<close>

lemma ucast_of_int: "LENGTH('a) \<le> LENGTH('b) \<Longrightarrow> (ucast (of_int k :: 'b::len word) :: 'a::len word) = of_int k"
  by (intro word_uint_eqI) (simp add: unsigned_ucast_eq unsigned_of_int min_def)

lemma ucast_ucast_small:
  assumes "0 \<le> sint w" "sint w < 2 ^ LENGTH('a)" "LENGTH('a) \<le> 64"
  shows "(ucast (ucast (w :: u64) :: 'a::len word) :: u64) = w"
proof -
  define k where "k = sint w"
  have w: "w = of_int k" by (simp add: k_def)
  have "(ucast w :: 'a word) = of_int k" using assms(3) unfolding w by (intro ucast_of_int) simp
  moreover have "uint (of_int k :: 'a word) = k"
    using assms(1,2) by (simp add: k_def [symmetric] unsigned_of_int take_bit_int_eq_self)
  ultimately have "uint (ucast w :: 'a word) = k" by simp
  then have "(ucast (ucast w :: 'a word) :: u64) = of_int k" using ucast_eq [of "ucast w :: 'a word"] by metis
  then show ?thesis by (simp only: w)
qed

lemma scast_ucast_small:
  assumes "- (2 ^ (LENGTH('a) - 1)) \<le> sint w" "sint w < 2 ^ (LENGTH('a) - 1)" "LENGTH('a) \<le> 64"
  shows "(scast (ucast (w :: u64) :: 'a::len word) :: u64) = w"
proof -
  define k where "k = sint w"
  have w: "w = of_int k" by (simp add: k_def)
  have "(ucast w :: 'a word) = of_int k" using assms(3) unfolding w by (intro ucast_of_int) simp
  moreover have "sint (of_int k :: 'a word) = k"
    using assms(1,2) by (simp add: k_def [symmetric] signed_of_int signed_take_bit_int_eq_self)
  ultimately have "sint (ucast w :: 'a word) = k" by simp
  then have "(scast (ucast w :: 'a word) :: u64) = of_int k" using scast_eq [of "ucast w :: 'a word"] by metis
  then show ?thesis by (simp only: w)
qed

text \<open>The values of an integer type.\<close>

fun fits_type :: "Type \<Rightarrow> int \<Rightarrow> bool" where
  "fits_type dods_byte_c k = (0 \<le> k \<and> k < 2 ^ 8)" | "fits_type dods_uint8_c k = (0 \<le> k \<and> k < 2 ^ 8)"
| "fits_type dods_uint16_c k = (0 \<le> k \<and> k < 2 ^ 16)" | "fits_type dods_uint32_c k = (0 \<le> k \<and> k < 2 ^ 32)"
| "fits_type dods_int8_c k = (- (2 ^ 7) \<le> k \<and> k < 2 ^ 7)" | "fits_type dods_int16_c k = (- (2 ^ 15) \<le> k \<and> k < 2 ^ 15)"
| "fits_type dods_int32_c k = (- (2 ^ 31) \<le> k \<and> k < 2 ^ 31)" | "fits_type _ k = True"

lemma m_check_value_fits:
  assumes "t \<in> enum_types" "- (2 ^ 63) \<le> k" "k < 2 ^ 63"
  shows "m_check_value t k = Inr () \<longleftrightarrow> fits_type t k"
proof -
  have "k mod 2 ^ 64 = k" if "0 \<le> k" using that assms(3) by simp
  then show ?thesis
    using assms(1) unfolding enum_types_def
    by (elim insertE emptyE) (auto simp: m_check_value_def Let_def dods_limits DODS_SCHAR_MAX_def)
qed

lemma fits_type_widen: "t \<in> enum_types \<Longrightarrow> fits_type t (sint w) \<Longrightarrow> widen t w = Inr w"
  unfolding enum_types_def
  by (elim insertE emptyE) (simp_all add: widen_def ucast_ucast_small scast_ucast_small)

section \<open>Properties\<close>

text \<open>C40: Setting an enumeration: with the check, \<open>set_value\<close> accepts exactly the values of the element
  type (the argument taken as an \<open>int64_t\<close>), stores them so that sending the value at the width of the
  type and widening it again gives it back, and throws an \<open>Error\<close> for every other value.\<close>

theorem enum_set_value_spec:
  assumes "t \<in> enum_types" "d_element_type v = t"
    and "y = (of_int x :: u64)"
  shows "if fits_type t (sint y)
    then Enum_set_value True x v = Inr (v\<lparr>d_buf := y\<rparr>) \<and> widen t y = Inr y
    else \<exists>msg. Enum_set_value True x v = Inl (Error unknown_error msg)"
proof -
  have "m_check_value t (sint y) = Inr () \<longleftrightarrow> fits_type t (sint y)"
    using sint_ge [of y] sint_lt [of y] by (intro m_check_value_fits [OF assms(1)]) simp_all
  moreover have "\<exists>msg. m_check_value t (sint y) = Inl (Error unknown_error msg)" if "\<not> fits_type t (sint y)"
  proof (rule ccontr)
    assume a: "\<not> ?thesis"
    have "m_check_value t (sint y) = Inr () \<or> (\<exists>msg. m_check_value t (sint y) = Inl (Error unknown_error msg))"
      using assms(1) unfolding enum_types_def
      by (elim insertE emptyE) (auto simp: m_check_value_def Let_def does_not_fit_def)
    then show False using a that calculation by blast
  qed
  ultimately show ?thesis
    using fits_type_widen [OF assms(1)] assms(2) assms(3) by (auto simp: Enum_set_value_def)
qed

definition demo_enum :: d4enum where
  "demo_enum = \<lparr>d_name = ''colour'', d_dataset = [], d_is_read = False, d_is_send = False, d_is_synthesized = False,
     d_is_dap4 = True, d_buf = 0, d_element_type = dods_int8_c, d_is_signed = True\<rparr>"

theorem enum_set_value_spec_witness:
  "Enum_set_value True (-5) demo_enum = Inr (demo_enum\<lparr>d_buf := -5\<rparr>) \<and>
   (\<exists>msg. Enum_set_value True 200 demo_enum = Inl (Error unknown_error msg))"
  using enum_set_value_spec [of dods_int8_c demo_enum "-5 :: u64" "-5"]
    enum_set_value_spec [of dods_int8_c demo_enum "200 :: u64" 200]
  by (simp add: enum_types_def demo_enum_def)

end
