(* ===== verification/Floats.thy ===== *)
theory Floats
  imports CLib Complex_Main
begin

text \<open>
  Floating point as the sources use it (\<open>dods_float32\<close>, \<open>dods_float64\<close>): the bit patterns of IEEE 754
  single and double numbers, their values, comparison, the conversions between the two and from integers
  (rounding to nearest, ties to even), and \<open>strtod\<close>.  A finite value is an integer times a power of 2;
  the two zeros have the same value.
\<close>

datatype fval = NaN | Inf bool | Fin int int

text \<open>\<open>Fin m e\<close> is \<open>m * 2 ^ e\<close>; \<open>Inf True\<close> is the negative infinity.\<close>

definition real_of :: "int \<Rightarrow> int \<Rightarrow> real" where
  "real_of m e = of_int m * 2 powi e"

section \<open>Bit patterns\<close>

definition decode :: "nat \<Rightarrow> nat \<Rightarrow> nat \<Rightarrow> fval" where
  "decode ew fw bits =
     (let neg = odd (bits div 2 ^ (ew + fw)); ex = bits div 2 ^ fw mod 2 ^ ew; fr = bits mod 2 ^ fw;
          bias = 2 ^ (ew - 1) - 1; sign = (\<lambda>m. if neg then - m else m) in
      if ex = 2 ^ ew - 1 then (if fr = 0 then Inf neg else NaN)
      else if ex = 0 then Fin (sign (int fr)) (1 - bias - int fw)
      else Fin (sign (int (2 ^ fw + fr))) (int ex - bias - int fw))"

definition single :: "u32 \<Rightarrow> fval" where "single w = decode 8 23 (unat w)"

definition double :: "u64 \<Rightarrow> fval" where "double w = decode 11 52 (unat w)"

section \<open>Comparison\<close>

text \<open>Two finite values over the smaller of the two exponents.\<close>

definition aligned :: "(int \<Rightarrow> int \<Rightarrow> bool) \<Rightarrow> int \<Rightarrow> int \<Rightarrow> int \<Rightarrow> int \<Rightarrow> bool" where
  "aligned r m1 e1 m2 e2 = (let e = min e1 e2 in r (m1 * 2 ^ nat (e1 - e)) (m2 * 2 ^ nat (e2 - e)))"

fun fval_eq :: "fval \<Rightarrow> fval \<Rightarrow> bool" where
  "fval_eq (Fin m1 e1) (Fin m2 e2) = aligned (=) m1 e1 m2 e2"
| "fval_eq (Inf a) (Inf b) = (a = b)"
| "fval_eq _ _ = False"

fun fval_less :: "fval \<Rightarrow> fval \<Rightarrow> bool" where
  "fval_less NaN _ = False"
| "fval_less _ NaN = False"
| "fval_less (Inf a) (Inf b) = (a \<and> \<not> b)"
| "fval_less (Inf a) (Fin m e) = a"
| "fval_less (Fin m e) (Inf b) = (\<not> b)"
| "fval_less (Fin m1 e1) (Fin m2 e2) = aligned (<) m1 e1 m2 e2"

definition fval_le :: "fval \<Rightarrow> fval \<Rightarrow> bool" where
  "fval_le x y \<longleftrightarrow> fval_less x y \<or> fval_eq x y"

section \<open>Rounding\<close>

fun bitlen :: "nat \<Rightarrow> nat" where
  "bitlen n = (if n = 0 then 0 else Suc (bitlen (n div 2)))"

declare bitlen.simps [simp del]

text \<open>Dividing by \<open>2 ^ s\<close>, to nearest, ties to even.\<close>

definition nearest_even :: "nat \<Rightarrow> nat \<Rightarrow> nat" where
  "nearest_even a s =
     (let q = a div 2 ^ s; r = a mod 2 ^ s in
      if 2 * r > 2 ^ s \<or> 2 * r = 2 ^ s \<and> odd q then q + 1 else q)"

text \<open>
  Rounding to \<open>p\<close> bits of precision, with \<open>emin\<close> the exponent of the smallest subnormal number; what
  reaches \<open>2 ^ emax\<close> is infinite.
\<close>

definition round_to :: "nat \<Rightarrow> int \<Rightarrow> int \<Rightarrow> int \<Rightarrow> int \<Rightarrow> fval" where
  "round_to p emin emax m e =
     (let a = nat \<bar>m\<bar>; e' = max (e + int (bitlen a) - int p) emin in
      if m = 0 then Fin 0 0
      else
        let (q, f) = (if e' \<le> e then (a, e) else (nearest_even a (nat (e' - e)), e')) in
        if f + int (bitlen q) > emax then Inf (m < 0) else Fin (sgn m * int q) f)"

fun to_single :: "fval \<Rightarrow> fval" where
  "to_single (Fin m e) = round_to 24 (-149) 128 m e"
| "to_single v = v"

fun to_double :: "fval \<Rightarrow> fval" where
  "to_double (Fin m e) = round_to 53 (-1074) 1024 m e"
| "to_double v = v"

section \<open>Reading a number\<close>

text \<open>
  A quotient \<open>num / den\<close> as a double: enough bits of the quotient for the rounding to see, and one more
  bit that tells whether the division left a remainder.
\<close>

definition quotient_double :: "bool \<Rightarrow> nat \<Rightarrow> nat \<Rightarrow> fval" where
  "quotient_double neg num den =
     (let k = 56 + bitlen den - bitlen num; a = num * 2 ^ k div den;
          b = 2 * a + (if num * 2 ^ k mod den = 0 then 0 else 1) in
      to_double (Fin (if neg then - int b else int b) (- int k - 1)))"

text \<open>Whether \<open>strtod\<close> sets \<open>errno\<close>: overflow, or an inexact result below the normal numbers.\<close>

definition range_error :: "nat \<Rightarrow> nat \<Rightarrow> fval \<Rightarrow> bool" where
  "range_error num den v = (case v of
     Fin m e \<Rightarrow> fval_less (Fin \<bar>m\<bar> e) (Fin 1 (-1022)) \<and> int num * 2 ^ nat (- e) \<noteq> \<bar>m\<bar> * int den
   | _ \<Rightarrow> True)"

definition lower_starts :: "string \<Rightarrow> string \<Rightarrow> bool" where
  "lower_starts w s = starts_with w (map to_lower s)"

text \<open>Digits with a point: all of them, and how many follow the point.\<close>

definition mantissa :: "nat \<Rightarrow> string \<Rightarrow> string \<times> nat \<times> string" where
  "mantissa base s =
     (let d = takeWhile (\<lambda>c. digit_val c < base) s; r = drop (length d) s;
          f = (if starts_with ''.'' r then takeWhile (\<lambda>c. digit_val c < base) (tl r) else []) in
      (d @ f, length f, if d @ f \<noteq> [] \<and> starts_with ''.'' r then drop (length f + 1) r else r))"

text \<open>An exponent after \<open>e\<close> or \<open>p\<close>, when it has a digit.\<close>

definition exponent :: "char \<Rightarrow> string \<Rightarrow> int \<times> string" where
  "exponent mark s =
     (if s \<noteq> [] \<and> to_lower (hd s) = mark
      then let r = tl s; neg = starts_with ''-'' r; t = (if neg \<or> starts_with ''+'' r then tl r else r);
             d = takeWhile is_digit t; n = int (digits_value 10 d) in
        if d = [] then (0, s) else (if neg then - n else n, drop (length d) t)
      else (0, s))"

text \<open>The value, whether \<open>errno\<close> becomes \<open>ERANGE\<close>, and what follows the number.\<close>

definition number :: "bool \<Rightarrow> nat \<Rightarrow> nat \<Rightarrow> int \<Rightarrow> fval \<times> bool" where
  "number neg b n e =
     (let num = n * b ^ nat e; den = b ^ nat (- e); v = quotient_double neg num den in
      if n = 0 then (Fin 0 0, False) else (v, range_error num den v))"

definition nan_rest :: "string \<Rightarrow> string" where
  "nan_rest s =
     (let t = dropWhile (\<lambda>c. is_digit c \<or> is_alpha c \<or> c = CHR ''_'') (tl s) in
      if starts_with ''('' s \<and> starts_with '')'' t then tl t else s)"

definition strtod :: "string \<Rightarrow> fval \<times> bool \<times> string" where
  "strtod s =
     (let t = dropWhile is_space s; neg = starts_with ''-'' t;
          u = (if neg \<or> starts_with ''+'' t then tl t else t) in
      if lower_starts ''infinity'' u then (Inf neg, False, drop 8 u)
      else if lower_starts ''inf'' u then (Inf neg, False, drop 3 u)
      else if lower_starts ''nan'' u then (NaN, False, nan_rest (drop 3 u))
      else if lower_starts ''0x'' u \<and> fst (mantissa 16 (drop 2 u)) \<noteq> []
        then let (ds, k, r) = mantissa 16 (drop 2 u); (e, r1) = exponent CHR ''p'' r;
               (v, er) = number neg 2 (digits_value 16 ds) (e - 4 * int k) in (v, er, r1)
      else let (ds, k, r) = mantissa 10 u in
        if ds = [] then (Fin 0 0, False, s)
        else let (e, r1) = exponent CHR ''e'' r; (v, er) = number neg 10 (digits_value 10 ds) (e - int k) in (v, er, r1))"

section \<open>The checks of \<open>parser-util.cc\<close>\<close>

fun fval_abs :: "fval \<Rightarrow> fval" where
  "fval_abs NaN = NaN" | "fval_abs (Inf neg) = Inf False" | "fval_abs (Fin m e) = Fin \<bar>m\<bar> e"

definition DODS_DBL_MAX :: fval where "DODS_DBL_MAX = Fin (2 ^ 53 - 1) 971"
definition DODS_DBL_MIN :: fval where "DODS_DBL_MIN = Fin 1 (-1022)"
definition DODS_FLT_MAX :: fval where "DODS_FLT_MAX = Fin (2 ^ 24 - 1) 104"
definition DODS_FLT_MIN :: fval where "DODS_FLT_MIN = Fin 1 (-126)"

definition check_float :: "fval \<Rightarrow> fval \<Rightarrow> string \<Rightarrow> int" where
  "check_float least most val =
     (case strtod val of (v, erange, ptr) \<Rightarrow>
       if erange \<or> fval_eq v (Fin 0 0) \<and> ptr = val \<or> ptr \<noteq> [] then 0
       else let abs_val = fval_abs v in
         if fval_less most abs_val \<or> \<not> fval_eq abs_val (Fin 0 0) \<and> fval_less abs_val least then 0 else 1)"

definition check_float32 :: "string \<Rightarrow> int" where
  "check_float32 val = check_float DODS_FLT_MIN DODS_FLT_MAX val"

definition check_float64 :: "string \<Rightarrow> int" where
  "check_float64 val = check_float DODS_DBL_MIN DODS_DBL_MAX val"

text \<open>The bits of a double (a zero is the positive one).\<close>

fun encode_double :: "fval \<Rightarrow> u64" where
  "encode_double NaN = 0x7ff8000000000000"
| "encode_double (Inf neg) = (if neg then 0xfff0000000000000 else 0x7ff0000000000000)"
| "encode_double (Fin m e) =
     (let a = nat \<bar>m\<bar>; n = bitlen a; x = e + int n - 1; sign = (if m < 0 then 2 ^ 63 else 0) in
      if a = 0 then 0
      else if x < -1022 then of_nat (sign + a * 2 ^ nat (e + 1074) div 2 ^ nat (- e - 1074))
      else of_nat (sign + nat (x + 1023) * 2 ^ 52 + (a * 2 ^ (53 - n) div 2 ^ (n - 53) - 2 ^ 52)))"

section \<open>Facts\<close>

lemma real_of_shift: "e \<le> e1 \<Longrightarrow> real_of (m * 2 ^ nat (e1 - e)) e = real_of m e1"
proof -
  assume "e \<le> e1"
  then have "(2::real) ^ nat (e1 - e) * 2 powi e = 2 powi (e1 - e) * 2 powi e" by (simp add: power_int_def)
  then have "(2::real) ^ nat (e1 - e) * 2 powi e = 2 powi e1" by (simp flip: power_int_add)
  then show ?thesis by (simp add: real_of_def mult.assoc)
qed

lemma real_of_mono: "real_of m e < real_of n e \<longleftrightarrow> m < n" "real_of m e = real_of n e \<longleftrightarrow> m = n"
  by (simp_all add: real_of_def)

text \<open>Comparison is that of the values.\<close>

lemma compare_finite:
  "fval_less (Fin m1 e1) (Fin m2 e2) \<longleftrightarrow> real_of m1 e1 < real_of m2 e2"
  "fval_eq (Fin m1 e1) (Fin m2 e2) \<longleftrightarrow> real_of m1 e1 = real_of m2 e2"
  using real_of_shift [of "min e1 e2" e1 m1] real_of_shift [of "min e1 e2" e2 m2] real_of_mono
  by (simp_all add: aligned_def Let_def) (metis real_of_mono)+

lemma compare_ints [simp]: "fval_less (Fin m 0) (Fin n 0) \<longleftrightarrow> m < n" "fval_eq (Fin m 0) (Fin n 0) \<longleftrightarrow> m = n"
  by (simp_all add: aligned_def)

lemma bitlen_le: "n < 2 ^ k \<Longrightarrow> bitlen n \<le> k"
proof (induction k arbitrary: n)
  case 0
  then show ?case by (simp add: bitlen.simps)
next
  case (Suc k)
  then show ?case by (subst bitlen.simps) (auto intro!: Suc.IH)
qed

lemma round_to_exact:
  assumes "\<bar>m\<bar> < 2 ^ p" "emin \<le> e" "e + int p \<le> emax"
  shows "round_to p emin emax m e = (if m = 0 then Fin 0 0 else Fin m e)"
proof -
  have "bitlen (nat \<bar>m\<bar>) \<le> p" using assms(1) by (intro bitlen_le) (simp add: nat_less_iff)
  moreover have "sgn m * \<bar>m\<bar> = m" by (simp add: sgn_mult_abs)
  ultimately show ?thesis using assms by (auto simp: round_to_def Let_def)
qed

lemma round_exact:
  "\<bar>m\<bar> < 2 ^ p \<Longrightarrow> emin \<le> 0 \<Longrightarrow> int p \<le> emax \<Longrightarrow> round_to p emin emax m 0 = Fin m 0"
  using round_to_exact [of m p emin 0 emax] by (cases "m = 0") (auto simp: round_to_def)

lemma int_to_double [simp]: "\<bar>i\<bar> < 2 ^ 53 \<Longrightarrow> to_double (Fin i 0) = Fin i 0"
  by (simp add: round_exact)

lemma int_to_single [simp]: "\<bar>i\<bar> < 2 ^ 24 \<Longrightarrow> to_single (Fin i 0) = Fin i 0"
  by (simp add: round_exact)

end
