(* ===== verification/Relops.thy ===== *)
theory Relops
  imports Scalars Floats
begin

text \<open>
  The relational operators (\<open>Operators.h\<close>) and their use by the variables: \<open>ops\<close> and \<open>d4_ops\<close> of the
  classes of \<open>Scalars\<close>.  The usual arithmetic conversions of C++ that the templates \<open>Cmp<T1, T2>\<close> imply
  are written out.  Variables are shared by pointer, and \<open>ops\<close> reads them when they have no value yet,
  so a heap maps addresses to variables.
\<close>

text \<open>The codes of the scanner, and those that \<open>D4FilterClause\<close> adds.\<close>

datatype relop = SCAN_EQUAL | SCAN_NOT_EQUAL | SCAN_GREATER | SCAN_GREATER_EQL | SCAN_LESS | SCAN_LESS_EQL | SCAN_REGEXP
  | Null_Op | Map_Op | ND_Op

section \<open>Arithmetic conversions\<close>

text \<open>An operand: an integer of a width, or a floating point number.\<close>

datatype operand = Signed nat int | Unsigned nat int | Single fval | Double fval

fun as_double :: "operand \<Rightarrow> fval" where
  "as_double (Signed w v) = to_double (Fin v 0)" | "as_double (Unsigned w v) = to_double (Fin v 0)"
| "as_double (Single v) = v" | "as_double (Double v) = v"

fun as_single :: "operand \<Rightarrow> fval" where
  "as_single (Signed w v) = to_single (Fin v 0)" | "as_single (Unsigned w v) = to_single (Fin v 0)"
| "as_single (Single v) = v" | "as_single (Double v) = to_single v"

fun promote :: "operand \<Rightarrow> operand" where
  "promote (Signed w v) = Signed (max w 32) v"
| "promote (Unsigned w v) = (if w < 32 then Signed 32 v else Unsigned w v)"
| "promote x = x"

text \<open>The values that are compared, both of the common type.\<close>

datatype common = Ints int int | Floats fval fval

fun integral :: "operand \<Rightarrow> operand \<Rightarrow> common" where
  "integral (Signed w v) (Signed w' v') = Ints v v'"
| "integral (Unsigned w v) (Unsigned w' v') = Ints v v'"
| "integral (Signed w v) (Unsigned w' v') = (if w' < w then Ints v v' else Ints (v mod 2 ^ w') v')"
| "integral (Unsigned w v) (Signed w' v') = (if w < w' then Ints v v' else Ints v (v' mod 2 ^ w))"
| "integral x y = Floats (as_double x) (as_double y)"

definition usual :: "operand \<Rightarrow> operand \<Rightarrow> common" where
  "usual x y = (case (x, y) of
     (Double _, _) \<Rightarrow> Floats (as_double x) (as_double y)
   | (_, Double _) \<Rightarrow> Floats (as_double x) (as_double y)
   | (Single _, _) \<Rightarrow> Floats (as_single x) (as_single y)
   | (_, Single _) \<Rightarrow> Floats (as_single x) (as_single y)
   | _ \<Rightarrow> integral (promote x) (promote y))"

fun c_eq :: "common \<Rightarrow> bool" where
  "c_eq (Ints a b) = (a = b)" | "c_eq (Floats a b) = fval_eq a b"

fun c_less :: "common \<Rightarrow> bool" where
  "c_less (Ints a b) = (a < b)" | "c_less (Floats a b) = fval_less a b"

fun c_greater :: "common \<Rightarrow> bool" where
  "c_greater (Ints a b) = (b < a)" | "c_greater (Floats a b) = fval_less b a"

fun c_le :: "common \<Rightarrow> bool" where
  "c_le (Ints a b) = (a \<le> b)" | "c_le (Floats a b) = fval_le a b"

fun c_ge :: "common \<Rightarrow> bool" where
  "c_ge (Ints a b) = (b \<le> a)" | "c_ge (Floats a b) = fval_le b a"

section \<open>\<open>Cmp\<close> and \<open>StrCmp\<close>\<close>

definition Cmp :: "relop \<Rightarrow> operand \<Rightarrow> operand \<Rightarrow> bool result" where
  "Cmp op v1 v2 =
     (let c = usual v1 v2 in case op of
        SCAN_EQUAL \<Rightarrow> Inr (c_eq c)
      | SCAN_NOT_EQUAL \<Rightarrow> Inr (\<not> c_eq c)
      | SCAN_GREATER \<Rightarrow> Inr (c_greater c)
      | SCAN_GREATER_EQL \<Rightarrow> Inr (c_ge c)
      | SCAN_LESS \<Rightarrow> Inr (c_less c)
      | SCAN_LESS_EQL \<Rightarrow> Inr (c_le c)
      | SCAN_REGEXP \<Rightarrow> Inl (Error malformed_expr ''Regular expressions are supported for strings only.'')
      | _ \<Rightarrow> Inl (Error malformed_expr ''Unrecognized operator.''))"

text \<open>Strings are compared by their characters as bytes.\<close>

fun str_less :: "string \<Rightarrow> string \<Rightarrow> bool" where
  "str_less s [] = False"
| "str_less [] (c # t) = True"
| "str_less (b # s) (c # t) = ((of_char b :: nat) < of_char c \<or> b = c \<and> str_less s t)"

subsection \<open>Regular expressions\<close>

text \<open>
  \<open>regcomp\<close>, \<open>regerror\<close> and \<open>regexec\<close> are those of the system: the error message of a pattern that does
  not compile, and the extent of the match in a text.  \<open>Regex::match\<close> offers \<open>len\<close> places for matches,
  so when \<open>len\<close> is 0 the first place, which it reads, keeps what the memory held.
\<close>

record regex_lib =
  re_error :: "string \<Rightarrow> string option"
  re_exec :: "string \<Rightarrow> string \<Rightarrow> (int \<times> int) option"
  re_junk :: "int \<times> int"

definition Regex_init :: "regex_lib \<Rightarrow> string \<Rightarrow> string result" where
  "Regex_init lib t = (case re_error lib t of
     Some msg \<Rightarrow> Inl (Error unknown_error (''Regex error: '' @ msg))
   | None \<Rightarrow> Inr t)"

definition first_place :: "regex_lib \<Rightarrow> int \<Rightarrow> int \<times> int \<Rightarrow> int \<times> int" where
  "first_place lib len r = (if len > 0 then r else re_junk lib)"

definition Regex_match :: "regex_lib \<Rightarrow> string \<Rightarrow> string \<Rightarrow> int \<Rightarrow> nat \<Rightarrow> int" where
  "Regex_match lib pattern s len pos =
     (if len > 32766 then -1
      else case re_exec lib pattern (substr s pos (nat len - pos)) of
        None \<Rightarrow> -1
      | Some r \<Rightarrow> (case first_place lib len r of (so, eo) \<Rightarrow> eo - so))"

subsection \<open>Strings\<close>

definition StrCmp :: "regex_lib \<Rightarrow> relop \<Rightarrow> string \<Rightarrow> string \<Rightarrow> bool result" where
  "StrCmp rx op v1 v2 = (case op of
     SCAN_EQUAL \<Rightarrow> Inr (v1 = v2)
   | SCAN_NOT_EQUAL \<Rightarrow> Inr (v1 \<noteq> v2)
   | SCAN_GREATER \<Rightarrow> Inr (str_less v2 v1)
   | SCAN_GREATER_EQL \<Rightarrow> Inr (\<not> str_less v1 v2)
   | SCAN_LESS \<Rightarrow> Inr (str_less v1 v2)
   | SCAN_LESS_EQL \<Rightarrow> Inr (\<not> str_less v2 v1)
   | SCAN_REGEXP \<Rightarrow> (case Regex_init rx (c_str v2) of
       Inl e \<Rightarrow> Inl e
     | Inr r \<Rightarrow> Inr (Regex_match rx r (c_str v1) (to_int (int (length v1))) 0 > 0))
   | _ \<Rightarrow> Inl (Error malformed_expr ''Unrecognized operator.''))"

section \<open>The operators of the classes\<close>

text \<open>
  The value of a numeric variable as the second operand: the functions look at its type, and know that of a byte but not those of
  a \<open>Char\<close> or \<open>UInt8\<close>.
\<close>

fun number_of :: "BaseType \<Rightarrow> operand option" where
  "number_of (Byte v) = (if d_type v = Type_Byte then Some (Unsigned 8 (uint (d_buf v))) else None)"
| "number_of (Int8 v) = Some (Signed 8 (sint (d_buf v)))"
| "number_of (Int16 v) = Some (Signed 16 (sint (d_buf v)))"
| "number_of (UInt16 v) = Some (Unsigned 16 (uint (d_buf v)))"
| "number_of (Int32 v) = Some (Signed 32 (sint (d_buf v)))"
| "number_of (UInt32 v) = Some (Unsigned 32 (uint (d_buf v)))"
| "number_of (Int64 v) = Some (Signed 64 (sint (d_buf v)))"
| "number_of (UInt64 v) = Some (Unsigned 64 (uint (d_buf v)))"
| "number_of (Float32 v) = Some (Single (single (d_buf v)))"
| "number_of (Float64 v) = Some (Double (double (d_buf v)))"
| "number_of _ = None"

definition not_scalar :: exn where
  "not_scalar = Error malformed_expr ''Relational operators only work with scalar types.''"

definition number_string :: exn where
  "number_string = Error malformed_expr ''Relational operators can only compare compatible types (number, string).''"

definition string_number :: exn where
  "string_number = Error malformed_expr ''Relational operators can only compare compatible types (string, number).''"

text \<open>The cases over the type of the other variable that the number classes have in common.\<close>

definition number_d4_ops :: "operand \<Rightarrow> BaseType \<Rightarrow> relop \<Rightarrow> bool result" where
  "number_d4_ops a b op = (case number_of b of
     Some n \<Rightarrow> Cmp op a n
   | None \<Rightarrow> (if var_type b \<in> {dods_str_c, dods_url_c} then Inl number_string else Inl not_scalar))"

text \<open>The unsigned classes answer no instead of throwing.\<close>

definition number_or_false :: "operand \<Rightarrow> BaseType \<Rightarrow> relop \<Rightarrow> bool result" where
  "number_or_false a b op = (case number_of b of Some n \<Rightarrow> Cmp op a n | None \<Rightarrow> Inr False)"

definition Byte_d4_ops :: "u8 \<Rightarrow> BaseType \<Rightarrow> relop \<Rightarrow> bool result" where
  "Byte_d4_ops d b op = number_d4_ops (Unsigned 8 (uint d)) b op"

definition Int8_d4_ops :: "u8 \<Rightarrow> BaseType \<Rightarrow> relop \<Rightarrow> bool result" where
  "Int8_d4_ops d b op = number_d4_ops (Signed 8 (sint d)) b op"

definition Int16_d4_ops :: "u16 \<Rightarrow> BaseType \<Rightarrow> relop \<Rightarrow> bool result" where
  "Int16_d4_ops d b op = number_d4_ops (Signed 16 (sint d)) b op"

definition Int32_d4_ops :: "u32 \<Rightarrow> BaseType \<Rightarrow> relop \<Rightarrow> bool result" where
  "Int32_d4_ops d b op = number_d4_ops (Signed 32 (sint d)) b op"

definition Int64_d4_ops :: "u64 \<Rightarrow> BaseType \<Rightarrow> relop \<Rightarrow> bool result" where
  "Int64_d4_ops d b op = number_d4_ops (Signed 64 (sint d)) b op"

definition UInt64_d4_ops :: "u64 \<Rightarrow> BaseType \<Rightarrow> relop \<Rightarrow> bool result" where
  "UInt64_d4_ops d b op = number_or_false (Unsigned 64 (uint d)) b op"

text \<open>Between the two floating point types the smaller one decides.\<close>

definition Float32_d4_ops :: "u32 \<Rightarrow> BaseType \<Rightarrow> relop \<Rightarrow> bool result" where
  "Float32_d4_ops d b op = (case b of
     Float64 v \<Rightarrow> Cmp op (Single (single d)) (Single (to_single (double (d_buf v))))
   | _ \<Rightarrow> number_d4_ops (Single (single d)) b op)"

definition Float64_d4_ops :: "u64 \<Rightarrow> BaseType \<Rightarrow> relop \<Rightarrow> bool result" where
  "Float64_d4_ops d b op = (case b of
     Float32 v \<Rightarrow> Cmp op (Single (to_single (double d))) (Single (single (d_buf v)))
   | _ \<Rightarrow> number_d4_ops (Double (double d)) b op)"

definition Str_d4_ops :: "regex_lib \<Rightarrow> string \<Rightarrow> BaseType \<Rightarrow> relop \<Rightarrow> bool result" where
  "Str_d4_ops rx d b op = (case b of
     Str v \<Rightarrow> StrCmp rx op d (d_buf v)
   | Url v \<Rightarrow> StrCmp rx op d (d_buf v)
   | _ \<Rightarrow> if number_of b \<noteq> None then Inl string_number else Inl not_scalar)"

definition BaseType_d4_ops :: "bool result" where
  "BaseType_d4_ops = Inl (InternalErr ''Unimplemented operator.'')"

text \<open>Dispatch on the class of the first operand: \<open>UInt16\<close>, \<open>UInt32\<close> and \<open>D4Enum\<close> have no \<open>d4_ops\<close> of their own.\<close>

definition d4_ops :: "regex_lib \<Rightarrow> BaseType \<Rightarrow> BaseType \<Rightarrow> relop \<Rightarrow> bool result" where
  "d4_ops rx a b op = (case a of
     Byte v \<Rightarrow> Byte_d4_ops (d_buf v) b op | Int8 v \<Rightarrow> Int8_d4_ops (d_buf v) b op
   | Int16 v \<Rightarrow> Int16_d4_ops (d_buf v) b op | Int32 v \<Rightarrow> Int32_d4_ops (d_buf v) b op
   | Int64 v \<Rightarrow> Int64_d4_ops (d_buf v) b op | UInt64 v \<Rightarrow> UInt64_d4_ops (d_buf v) b op
   | Float32 v \<Rightarrow> Float32_d4_ops (d_buf v) b op | Float64 v \<Rightarrow> Float64_d4_ops (d_buf v) b op
   | Str v \<Rightarrow> Str_d4_ops rx (d_buf v) b op | Url v \<Rightarrow> Str_d4_ops rx (d_buf v) b op
   | _ \<Rightarrow> BaseType_d4_ops)"

section \<open>\<open>ops\<close>: variables in memory\<close>

type_synonym heap = "nat \<Rightarrow> BaseType option"

text \<open>The virtual \<open>read\<close> of a server: it may change any variable.\<close>

type_synonym reader = "nat \<Rightarrow> heap \<Rightarrow> (bool \<times> heap) result"

fun is_read :: "BaseType \<Rightarrow> bool" where
  "is_read (Byte v) = d_is_read v" | "is_read (Int8 v) = d_is_read v" | "is_read (Int16 v) = d_is_read v"
| "is_read (UInt16 v) = d_is_read v" | "is_read (Int32 v) = d_is_read v" | "is_read (UInt32 v) = d_is_read v"
| "is_read (Int64 v) = d_is_read v" | "is_read (UInt64 v) = d_is_read v" | "is_read (Float32 v) = d_is_read v"
| "is_read (Float64 v) = d_is_read v" | "is_read (Str v) = d_is_read v" | "is_read (Url v) = d_is_read v"
| "is_read (Opaque v) = d_is_read v" | "is_read (Enum v) = d_is_read v" | "is_read (Other_Type t v) = d_is_read v"

text \<open>\<open>x->read_p() || x->read()\<close>; an address that holds no variable has no defined behaviour.\<close>

definition has_value :: "reader \<Rightarrow> heap \<Rightarrow> nat \<Rightarrow> (bool \<times> heap) result" where
  "has_value rd h x = (case h x of
     None \<Rightarrow> Inl invalid_pointer
   | Some b \<Rightarrow> if is_read b then Inr (True, h) else rd x h)"

text \<open>The two tests at the start of every \<open>ops\<close>, and then the comparison of what is in memory.\<close>

definition read_both ::
    "exn \<Rightarrow> exn \<Rightarrow> exn \<Rightarrow> reader \<Rightarrow> heap \<Rightarrow> nat \<Rightarrow> nat option \<Rightarrow> (BaseType \<Rightarrow> BaseType \<Rightarrow> bool result) \<Rightarrow> (bool \<times> heap) result" where
  "read_both e1 null e2 rd h this b compare =
     (case has_value rd h this of
        Inl e \<Rightarrow> Inl e
      | Inr (False, _) \<Rightarrow> Inl e1
      | Inr (True, h1) \<Rightarrow> (case b of
          None \<Rightarrow> Inl null
        | Some y \<Rightarrow> (case has_value rd h1 y of
            Inl e \<Rightarrow> Inl e
          | Inr (False, _) \<Rightarrow> Inl e2
          | Inr (True, h2) \<Rightarrow> (case (h2 this, h2 y) of
              (Some u, Some w) \<Rightarrow> (case compare u w of Inl e \<Rightarrow> Inl e | Inr r \<Rightarrow> Inr (r, h2))
            | _ \<Rightarrow> Inl invalid_pointer))))"

definition not_read :: exn where "not_read = InternalErr ''This value not read!''"

definition was_not_read :: exn where "was_not_read = InternalErr ''This value was not read!''"

definition Byte_ops :: "regex_lib \<Rightarrow> reader \<Rightarrow> heap \<Rightarrow> nat \<Rightarrow> nat option \<Rightarrow> relop \<Rightarrow> (bool \<times> heap) result" where
  "Byte_ops rx rd h this b op = read_both not_read not_read not_read rd h this b (\<lambda>u w. d4_ops rx u w op)"

definition Int8_ops :: "regex_lib \<Rightarrow> reader \<Rightarrow> heap \<Rightarrow> nat \<Rightarrow> nat option \<Rightarrow> relop \<Rightarrow> (bool \<times> heap) result" where
  "Int8_ops rx rd h this b op = read_both not_read not_read not_read rd h this b (\<lambda>u w. d4_ops rx u w op)"

definition Int16_ops :: "regex_lib \<Rightarrow> reader \<Rightarrow> heap \<Rightarrow> nat \<Rightarrow> nat option \<Rightarrow> relop \<Rightarrow> (bool \<times> heap) result" where
  "Int16_ops rx rd h this b op = read_both not_read not_read not_read rd h this b (\<lambda>u w. d4_ops rx u w op)"

definition Int32_ops :: "regex_lib \<Rightarrow> reader \<Rightarrow> heap \<Rightarrow> nat \<Rightarrow> nat option \<Rightarrow> relop \<Rightarrow> (bool \<times> heap) result" where
  "Int32_ops rx rd h this b op = read_both not_read not_read not_read rd h this b (\<lambda>u w. d4_ops rx u w op)"

definition Int64_ops :: "regex_lib \<Rightarrow> reader \<Rightarrow> heap \<Rightarrow> nat \<Rightarrow> nat option \<Rightarrow> relop \<Rightarrow> (bool \<times> heap) result" where
  "Int64_ops rx rd h this b op = read_both not_read not_read not_read rd h this b (\<lambda>u w. d4_ops rx u w op)"

definition Float32_ops :: "regex_lib \<Rightarrow> reader \<Rightarrow> heap \<Rightarrow> nat \<Rightarrow> nat option \<Rightarrow> relop \<Rightarrow> (bool \<times> heap) result" where
  "Float32_ops rx rd h this b op = read_both not_read not_read not_read rd h this b (\<lambda>u w. d4_ops rx u w op)"

definition Float64_ops :: "regex_lib \<Rightarrow> reader \<Rightarrow> heap \<Rightarrow> nat \<Rightarrow> nat option \<Rightarrow> relop \<Rightarrow> (bool \<times> heap) result" where
  "Float64_ops rx rd h this b op = read_both not_read not_read not_read rd h this b (\<lambda>u w. d4_ops rx u w op)"

definition Str_ops :: "regex_lib \<Rightarrow> reader \<Rightarrow> heap \<Rightarrow> nat \<Rightarrow> nat option \<Rightarrow> relop \<Rightarrow> (bool \<times> heap) result" where
  "Str_ops rx rd h this b op =
     read_both was_not_read (InternalErr ''Argument value was not read!'') (InternalErr ''Argument value was not read!'') rd h this b (\<lambda>u w. d4_ops rx u w op)"

text \<open>The unsigned classes compare on their own, with a value that is not a number giving no.\<close>

definition unsigned_ops :: "BaseType \<Rightarrow> BaseType \<Rightarrow> relop \<Rightarrow> bool result" where
  "unsigned_ops u w op = (case number_of u of Some a \<Rightarrow> number_or_false a w op | None \<Rightarrow> Inr False)"

definition UInt16_ops :: "reader \<Rightarrow> heap \<Rightarrow> nat \<Rightarrow> nat option \<Rightarrow> relop \<Rightarrow> (bool \<times> heap) result" where
  "UInt16_ops rd h this b op = read_both was_not_read was_not_read was_not_read rd h this b (\<lambda>u w. unsigned_ops u w op)"

definition UInt32_ops :: "reader \<Rightarrow> heap \<Rightarrow> nat \<Rightarrow> nat option \<Rightarrow> relop \<Rightarrow> (bool \<times> heap) result" where
  "UInt32_ops rd h this b op = read_both was_not_read was_not_read was_not_read rd h this b (\<lambda>u w. unsigned_ops u w op)"

definition UInt64_ops :: "reader \<Rightarrow> heap \<Rightarrow> nat \<Rightarrow> nat option \<Rightarrow> relop \<Rightarrow> (bool \<times> heap) result" where
  "UInt64_ops rd h this b op = read_both was_not_read was_not_read was_not_read rd h this b (\<lambda>u w. unsigned_ops u w op)"

text \<open>An enumeration is compared as a signed 64-bit integer, and not with the 64-bit classes; it does not test the pointer.\<close>

definition enum_compare :: "BaseType \<Rightarrow> BaseType \<Rightarrow> relop \<Rightarrow> bool result" where
  "enum_compare u w op = (case u of
     Enum v \<Rightarrow> (if var_type w \<in> {dods_int64_c, dods_uint64_c} then Inr False
               else number_or_false (Signed 64 (sint (d_buf v))) w op)
   | _ \<Rightarrow> Inr False)"

definition Enum_ops :: "reader \<Rightarrow> heap \<Rightarrow> nat \<Rightarrow> nat option \<Rightarrow> relop \<Rightarrow> (bool \<times> heap) result" where
  "Enum_ops rd h this b op = read_both not_read invalid_pointer not_read rd h this b (\<lambda>u w. enum_compare u w op)"

definition BaseType_ops :: "(bool \<times> heap) result" where
  "BaseType_ops = Inl (InternalErr ''Unimplemented operator.'')"

definition ops :: "regex_lib \<Rightarrow> reader \<Rightarrow> heap \<Rightarrow> nat \<Rightarrow> nat option \<Rightarrow> relop \<Rightarrow> (bool \<times> heap) result" where
  "ops rx rd h this b op = (case h this of
     None \<Rightarrow> Inl invalid_pointer
   | Some v \<Rightarrow> (case v of
       Byte _ \<Rightarrow> Byte_ops rx rd h this b op | Int8 _ \<Rightarrow> Int8_ops rx rd h this b op
     | Int16 _ \<Rightarrow> Int16_ops rx rd h this b op | UInt16 _ \<Rightarrow> UInt16_ops rd h this b op
     | Int32 _ \<Rightarrow> Int32_ops rx rd h this b op | UInt32 _ \<Rightarrow> UInt32_ops rd h this b op
     | Int64 _ \<Rightarrow> Int64_ops rx rd h this b op | UInt64 _ \<Rightarrow> UInt64_ops rd h this b op
     | Float32 _ \<Rightarrow> Float32_ops rx rd h this b op | Float64 _ \<Rightarrow> Float64_ops rx rd h this b op
     | Str _ \<Rightarrow> Str_ops rx rd h this b op | Url _ \<Rightarrow> Str_ops rx rd h this b op
     | Enum _ \<Rightarrow> Enum_ops rd h this b op
     | Opaque _ \<Rightarrow> Inl (InternalErr ''Unimplemented method'')
     | Other_Type _ _ \<Rightarrow> BaseType_ops))"

section \<open>What a comparison means\<close>

text \<open>The relation that a code stands for, over a linear order.\<close>

definition meaning :: "relop \<Rightarrow> 'a::linorder \<Rightarrow> 'a \<Rightarrow> bool result" where
  "meaning op a b = (case op of
     SCAN_EQUAL \<Rightarrow> Inr (a = b) | SCAN_NOT_EQUAL \<Rightarrow> Inr (a \<noteq> b) | SCAN_GREATER \<Rightarrow> Inr (b < a)
   | SCAN_GREATER_EQL \<Rightarrow> Inr (b \<le> a) | SCAN_LESS \<Rightarrow> Inr (a < b) | SCAN_LESS_EQL \<Rightarrow> Inr (a \<le> b)
   | SCAN_REGEXP \<Rightarrow> Inl (Error malformed_expr ''Regular expressions are supported for strings only.'')
   | _ \<Rightarrow> Inl (Error malformed_expr ''Unrecognized operator.''))"

text \<open>Integer operands, with the values their types can have.\<close>

fun int_operand :: "operand \<Rightarrow> bool" where
  "int_operand (Signed w v) = (w \<in> {8, 16, 32, 64} \<and> - (2 ^ (w - 1)) \<le> v \<and> v < 2 ^ (w - 1))"
| "int_operand (Unsigned w v) = (w \<in> {8, 16, 32, 64} \<and> 0 \<le> v \<and> v < 2 ^ w)"
| "int_operand _ = False"

fun int_value :: "operand \<Rightarrow> int" where
  "int_value (Signed w v) = v" | "int_value (Unsigned w v) = v" | "int_value _ = 0"

text \<open>A negative number against an unsigned type of at least its width (and that of \<open>int\<close>).\<close>

fun sign_clash :: "operand \<Rightarrow> operand \<Rightarrow> bool" where
  "sign_clash (Signed w v) (Unsigned w' v') = (v < 0 \<and> max w 32 \<le> w')"
| "sign_clash _ _ = False"

text \<open>The value that takes part in the comparison.\<close>

fun compared :: "operand \<Rightarrow> operand \<Rightarrow> int" where
  "compared (Signed w v) (Unsigned w' v') = (if v < 0 \<and> max w 32 \<le> w' then v + 2 ^ w' else v)"
| "compared x _ = int_value x"

lemma compared_no_clash: "int_operand x \<Longrightarrow> \<not> sign_clash x y \<Longrightarrow> compared x y = int_value x"
  by (cases x; cases y) auto

lemma Cmp_common: "usual x y = Ints a b \<Longrightarrow> Cmp op x y = meaning op a b"
  by (cases op) (simp_all add: Cmp_def meaning_def)

lemma mod_above: "- (2 ^ w) \<le> v \<Longrightarrow> v < 0 \<Longrightarrow> (v :: int) mod 2 ^ w = v + 2 ^ w"
proof -
  assume "- (2 ^ w) \<le> v" "v < 0"
  then have "(v + 2 ^ w) mod 2 ^ w = v + 2 ^ w" by (intro mod_pos_pos_trivial) simp_all
  then show ?thesis by simp
qed

lemma signed_mod:
  assumes "- (2 ^ (w - 1)) \<le> v" "v < 2 ^ (w - 1)" "w \<le> w'" "0 < w"
  shows "(v :: int) mod 2 ^ w' = (if v < 0 then v + 2 ^ w' else v)"
proof -
  have p: "(2 :: int) ^ (w - 1) \<le> 2 ^ w'" using assms(3) by (intro power_increasing) simp_all
  show ?thesis
  proof (cases "v < 0")
    case True
    then show ?thesis using mod_above [of w' v] assms(1) p by simp
  next
    case False
    then have "v mod 2 ^ w' = v" using assms(2) p by (intro mod_pos_pos_trivial) linarith+
    then show ?thesis using False by simp
  qed
qed

lemma usual_ints:
  assumes "int_operand x" "int_operand y"
  shows "usual x y = Ints (compared x y) (compared y x)"
proof (cases x)
  case (Signed w v)
  show ?thesis
  proof (cases y)
    case y: (Unsigned w' v')
    then have "max w 32 \<le> w' \<Longrightarrow> v mod 2 ^ w' = (if v < 0 then v + 2 ^ w' else v)"
      using assms Signed by (intro signed_mod [of w]) auto
    then show ?thesis using assms Signed y by (auto simp: usual_def max_def)
  qed (use assms Signed in \<open>auto simp: usual_def\<close>)
next
  case (Unsigned w v)
  show ?thesis
  proof (cases y)
    case y: (Signed w' v')
    then have "max w' 32 \<le> w \<Longrightarrow> v' mod 2 ^ w = (if v' < 0 then v' + 2 ^ w else v')"
      using assms Unsigned by (intro signed_mod [of w']) auto
    then show ?thesis using assms Unsigned y by (auto simp: usual_def max_def)
  qed (use assms Unsigned in \<open>auto simp: usual_def\<close>)
qed (use assms in auto)

lemma Cmp_ints: "int_operand x \<Longrightarrow> int_operand y \<Longrightarrow> Cmp op x y = meaning op (compared x y) (compared y x)"
  by (rule Cmp_common) (rule usual_ints)

text \<open>The integer classes have integer operands; as the first one a variable is used by its class, whatever its type is.\<close>

definition own_number :: "BaseType \<Rightarrow> operand option" where
  "own_number b = (case b of Byte v \<Rightarrow> Some (Unsigned 8 (uint (d_buf v))) | _ \<Rightarrow> number_of b)"

definition integer_var :: "BaseType \<Rightarrow> bool" where
  "integer_var b \<longleftrightarrow> (case b of Byte _ \<Rightarrow> True | Int8 _ \<Rightarrow> True | Int16 _ \<Rightarrow> True | UInt16 _ \<Rightarrow> True | Int32 _ \<Rightarrow> True
     | UInt32 _ \<Rightarrow> True | Int64 _ \<Rightarrow> True | UInt64 _ \<Rightarrow> True | _ \<Rightarrow> False)"

lemma word_operand:
  "- (2 ^ 7) \<le> sint (a :: u8)" "sint a < 2 ^ 7" "- (2 ^ 15) \<le> sint (b :: u16)" "sint b < 2 ^ 15"
  "- (2 ^ 31) \<le> sint (c :: u32)" "sint c < 2 ^ 31" "- (2 ^ 63) \<le> sint (d :: u64)" "sint d < 2 ^ 63"
  using sint_ge [of a] sint_lt [of a] sint_ge [of b] sint_lt [of b] sint_ge [of c] sint_lt [of c] sint_ge [of d] sint_lt [of d]
  by simp_all

lemma uint_operand:
  "uint (a :: u8) < 2 ^ 8" "uint (b :: u16) < 2 ^ 16" "uint (c :: u32) < 2 ^ 32" "uint (d :: u64) < 2 ^ 64"
  using uint_lt2p [of a] uint_lt2p [of b] uint_lt2p [of c] uint_lt2p [of d] by simp_all

lemma integer_operand: "integer_var b \<Longrightarrow> \<exists>x. own_number b = Some x \<and> int_operand x"
  using word_operand uint_operand by (cases b) (auto simp: integer_var_def own_number_def)

lemma own_number_of: "number_of b = Some x \<Longrightarrow> own_number b = Some x"
  by (cases b) (auto simp: own_number_def split: if_splits)

definition int_of :: "BaseType \<Rightarrow> int" where
  "int_of b = (case own_number b of Some x \<Rightarrow> int_value x | None \<Rightarrow> 0)"

text \<open>The integer classes with a \<open>d4_ops\<close> of their own.\<close>

definition has_d4_ops :: "BaseType \<Rightarrow> bool" where
  "has_d4_ops b \<longleftrightarrow> (case b of UInt16 _ \<Rightarrow> False | UInt32 _ \<Rightarrow> False | _ \<Rightarrow> integer_var b)"

lemmas int_d4_ops_defs = Byte_d4_ops_def Int8_d4_ops_def Int16_d4_ops_def Int32_d4_ops_def Int64_d4_ops_def UInt64_d4_ops_def

lemma d4_ops_cases:
  assumes "has_d4_ops a" "own_number a = Some x"
  shows "d4_ops rx a b op = (case a of UInt64 _ \<Rightarrow> number_or_false x b op | _ \<Rightarrow> number_d4_ops x b op)"
  using assms by (cases a) (simp_all add: has_d4_ops_def integer_var_def own_number_def d4_ops_def int_d4_ops_defs)

lemma d4_ops_Cmp:
  assumes "has_d4_ops a" "own_number a = Some x" "number_of b = Some y"
  shows "d4_ops rx a b op = Cmp op x y"
  using assms(3) by (simp add: d4_ops_cases [OF assms(1,2)] number_d4_ops_def number_or_false_def split: BaseType.splits)

lemma d4_ops_no_number:
  assumes "has_d4_ops a" "own_number a = Some x" "integer_var b" "number_of b = None"
  shows "d4_ops rx a b op = (case a of UInt64 _ \<Rightarrow> Inr False | _ \<Rightarrow> Inl not_scalar)"
proof -
  obtain v where "b = Byte v" using assms(3,4) by (cases b) (auto simp: integer_var_def)
  then have "var_type b \<notin> {dods_str_c, dods_url_c}" by (cases "d_type v") (simp_all add: var_type_def)
  then show ?thesis using assms(4) by (simp add: d4_ops_cases [OF assms(1,2)] number_d4_ops_def number_or_false_def split: BaseType.splits)
qed

section \<open>Properties\<close>

text \<open>C30: Comparing integer variables: \<open>d4_ops\<close> of the integer classes that define it (all but \<open>UInt16\<close> and \<open>UInt32\<close>), with a second
  variable of any integer class, decides the relation between
  their mathematical values, for every operator and all widths, unless a negative value meets an unsigned type that is
  at least as wide as its own promoted type; then the negative value takes part as itself plus a power of 2.  A second
  variable of type \<open>Char\<close> or \<open>UInt8\<close>, which is a \<open>Byte\<close> of another type, is not known: \<open>UInt64\<close> answers no and the other classes
  throw an \<open>Error\<close>.\<close>

theorem d4_ops_integers:
  assumes "has_d4_ops a" "integer_var b" "own_number a = Some x"
  shows "case number_of b of
      Some y \<Rightarrow> d4_ops rx a b op = meaning op (compared x y) (compared y x) \<and>
        (\<not> sign_clash x y \<and> \<not> sign_clash y x \<longrightarrow> d4_ops rx a b op = meaning op (int_of a) (int_of b))
    | None \<Rightarrow> var_type b \<in> {dods_char_c, dods_uint8_c} \<and>
        d4_ops rx a b op = (case a of UInt64 _ \<Rightarrow> Inr False | _ \<Rightarrow> Inl not_scalar)"
proof (cases "number_of b")
  case None
  then obtain v where "b = Byte v" "d_type v \<noteq> Type_Byte" using assms(2) by (cases b) (auto simp: integer_var_def split: if_splits)
  then have "var_type b \<in> {dods_char_c, dods_uint8_c}" by (cases "d_type v") (simp_all add: var_type_def)
  then show ?thesis using None d4_ops_no_number [OF assms(1,3,2)] by simp
next
  case (Some y)
  have "integer_var a" using assms(1) by (cases a) (simp_all add: has_d4_ops_def)
  then have ints: "int_operand x" "int_operand y" using integer_operand assms(2,3) own_number_of [OF Some] by fastforce+
  then have "d4_ops rx a b op = meaning op (compared x y) (compared y x)"
    using d4_ops_Cmp [OF assms(1,3) Some] Cmp_ints by simp
  then show ?thesis using ints assms(3) own_number_of [OF Some] Some by (simp add: compared_no_clash int_of_def)
qed

text \<open>An integer variable compared with a \<open>Float64\<close>: when the integer has less than 54 bits, the relation is
  that of the integer and the exact value of the floating point number; an infinity is above or below every integer, a NaN
  is different from every integer and no other relation with it holds.\<close>

lemma d4_ops_int_float64:
  assumes "has_d4_ops a" "\<bar>int_of a\<bar> < 2 ^ 53"
  shows "case double (d_buf f) of
      Fin m e \<Rightarrow> d4_ops rx a (Float64 f) op = meaning op (real_of_int (int_of a)) (real_of m e)
    | Inf neg \<Rightarrow> d4_ops rx a (Float64 f) op = meaning op (0 :: int) (if neg then -1 else 1)
    | NaN \<Rightarrow> d4_ops rx a (Float64 f) op = (case meaning op (0 :: int) 0 of Inl e \<Rightarrow> Inl e | Inr _ \<Rightarrow> Inr (op = SCAN_NOT_EQUAL))"
proof -
  have "integer_var a" using assms(1) by (cases a) (simp_all add: has_d4_ops_def)
  then obtain x where x: "own_number a = Some x" "int_operand x" using integer_operand by blast
  then have "as_double x = Fin (int_of a) 0"
    using assms(2) by (cases x) (simp_all add: int_of_def del: to_double.simps)
  then have c: "usual x (Double g) = Floats (Fin (int_of a) 0) g" for g
    using x(2) by (cases x) (simp_all add: usual_def)
  have d: "d4_ops rx a (Float64 f) op = Cmp op x (Double (double (d_buf f)))"
    using d4_ops_Cmp [OF assms(1) x(1)] by simp
  have r: "real_of (int_of a) 0 = real_of_int (int_of a)" by (simp add: real_of_def)
  show ?thesis
  proof (cases "double (d_buf f)")
    case (Fin m e)
    then show ?thesis
      unfolding d using c [of "Fin m e"] r
      by (cases op) (auto simp: Cmp_def meaning_def fval_le_def compare_finite simp del: fval_less.simps fval_eq.simps)
  next
    case NaN
    then show ?thesis unfolding d using c [of NaN] by (cases op) (auto simp: Cmp_def meaning_def fval_le_def)
  next
    case (Inf neg)
    then show ?thesis unfolding d using c [of "Inf neg"] by (cases op) (auto simp: Cmp_def meaning_def fval_le_def)
  qed
qed

section \<open>Witnesses\<close>

definition demo_int8 :: "u8 \<Rightarrow> BaseType" where
  "demo_int8 w = Int8 ((make_scalar ''a'' [] True w)\<lparr>d_is_read := True\<rparr>)"

definition demo_uint64 :: "u64 \<Rightarrow> u64 scalar" where
  "demo_uint64 w = (make_scalar ''b'' [] True w)\<lparr>d_is_read := True\<rparr>"

lemma demo_numbers [simp]:
  "number_of (demo_int8 w) = Some (Signed 8 (sint w))" "own_number (demo_int8 w) = Some (Signed 8 (sint w))"
  "has_d4_ops (demo_int8 w)" "integer_var (demo_int8 w)" "integer_var (Byte c)"
  "integer_var (UInt64 y)" "d_buf (demo_uint64 x) = x"
  by (simp_all add: demo_int8_def demo_uint64_def make_scalar_def has_d4_ops_def integer_var_def own_number_def)

definition demo_rx :: regex_lib where
  "demo_rx = \<lparr>re_error = (\<lambda>_. None), re_exec = (\<lambda>_ _. None), re_junk = (0, 0)\<rparr>"

theorem d4_ops_integers_witness:
  "d4_ops demo_rx (demo_int8 (-1)) (UInt64 (demo_uint64 5)) SCAN_LESS = Inr False \<and>
   d4_ops demo_rx (demo_int8 (-1)) (demo_int8 5) SCAN_LESS = Inr True \<and>
   d4_ops demo_rx (demo_int8 (-1)) (Byte (NewByte ''c'')) SCAN_LESS = Inr True \<and>
   d4_ops demo_rx (demo_int8 (-1)) (Byte (NewUInt8 ''c'')) SCAN_LESS = Inl not_scalar"
  using d4_ops_integers [of "demo_int8 (-1)" "UInt64 (demo_uint64 5)" "Signed 8 (-1)" demo_rx SCAN_LESS]
    d4_ops_integers [of "demo_int8 (-1)" "demo_int8 5" "Signed 8 (-1)" demo_rx SCAN_LESS]
    d4_ops_integers [of "demo_int8 (-1)" "Byte (NewByte ''c'')" "Signed 8 (-1)" demo_rx SCAN_LESS]
    d4_ops_integers [of "demo_int8 (-1)" "Byte (NewUInt8 ''c'')" "Signed 8 (-1)" demo_rx SCAN_LESS]
  by (simp add: meaning_def NewByte_def NewUInt8_def Byte_new_def make_scalar_def scalar.defs) (simp add: demo_int8_def)

lemma d4_ops_int_float64_witness:
  "d4_ops demo_rx (demo_int8 3) (Float64 (demo_uint64 0x7ff0000000000000)) SCAN_LESS = Inr True"
  using d4_ops_int_float64 [of "demo_int8 3", where f = "demo_uint64 0x7ff0000000000000" and rx = demo_rx and op = SCAN_LESS]
  by (simp add: int_of_def double_def decode_def meaning_def)

end
