(* ===== verification/Filters.thy ===== *)
theory Filters
  imports Relops
begin

text \<open>
  Selections and filters: the functions a server offers (\<open>ServerFunctionsList.cc\<close>), values of a DAP2
  constraint (\<open>RValue.cc\<close>), its clauses (\<open>Clause.cc\<close>) and their evaluation (\<open>ConstraintEvaluator.cc\<close>),
  and the filters of DAP4 (\<open>D4RValue.cc\<close>, \<open>D4FilterClause.cc\<close>, with the part of
  \<open>D4ConstraintEvaluator.cc\<close> that builds them).  Variables live in the heap of \<open>Relops\<close>; a server
  function and the virtual \<open>read\<close> get the heap and return it.
\<close>

section \<open>Server functions\<close>

type_synonym bool_func = "nat option list \<Rightarrow> heap \<Rightarrow> (bool \<times> heap) result"
type_synonym btp_func = "nat option list \<Rightarrow> heap \<Rightarrow> (nat option \<times> heap) result"

record server_function =
  sf_name :: string
  sf_bool_func :: "bool_func option"
  sf_btp_func :: "btp_func option"

text \<open>The list is a multimap by name: sorted, and equal names in the order of insertion.\<close>

fun add_function :: "server_function \<Rightarrow> server_function list \<Rightarrow> server_function list" where
  "add_function f [] = [f]"
| "add_function f (g # gs) = (if str_less (sf_name f) (sf_name g) then f # g # gs else g # add_function f gs)"

definition find_bool_function :: "server_function list \<Rightarrow> string \<Rightarrow> bool_func option" where
  "find_bool_function fs name = (case filter (\<lambda>f. sf_name f = name \<and> sf_bool_func f \<noteq> None) fs of
     [] \<Rightarrow> None | f # _ \<Rightarrow> sf_bool_func f)"

definition find_btp_function :: "server_function list \<Rightarrow> string \<Rightarrow> btp_func option" where
  "find_btp_function fs name = (case filter (\<lambda>f. sf_name f = name \<and> sf_btp_func f \<noteq> None) fs of
     [] \<Rightarrow> None | f # _ \<Rightarrow> sf_btp_func f)"

definition getFunctionNames :: "server_function list \<Rightarrow> string list" where
  "getFunctionNames fs = map sf_name fs"

section \<open>Values of a constraint\<close>

text \<open>A variable or constant, a function call, or the empty value.\<close>

datatype rvalue = RV_Value nat | RV_Func btp_func "rvalue list" | RV_Empty

definition make_rvalue_list :: "rvalue \<Rightarrow> rvalue list" where
  "make_rvalue_list rv = [rv]"

definition append_rvalue_list :: "rvalue list \<Rightarrow> rvalue \<Rightarrow> rvalue list" where
  "append_rvalue_list rvals rv = rvals @ [rv]"

definition argc_error :: "nat \<Rightarrow> exn" where
  "argc_error argc = Error malformed_expr (''Malformed argument list ('' @ show_nat argc @ '').'')"

text \<open>\<open>bvalue\<close>, and the loop of \<open>build_btp_args\<close> after its check of the allocation size.\<close>

fun bvalue :: "rvalue \<Rightarrow> heap \<Rightarrow> (nat option \<times> heap) result" and bvalues :: "rvalue list \<Rightarrow> heap \<Rightarrow> (nat option list \<times> heap) result" where
  "bvalue (RV_Value x) h = Inr (Some x, h)"
| "bvalue (RV_Func f args) h =
     (if \<not> size_ok 8 (of_nat (length args) + 1) then Inl (argc_error (length args))
      else case bvalues args h of Inl e \<Rightarrow> Inl e | Inr (argv, h1) \<Rightarrow> f argv h1)"
| "bvalue RV_Empty h = Inr (None, h)"
| "bvalues [] h = Inr ([], h)"
| "bvalues (a # as) h = (case bvalue a h of
     Inl e \<Rightarrow> Inl e
   | Inr (x, h1) \<Rightarrow> (case bvalues as h1 of Inl e \<Rightarrow> Inl e | Inr (xs, h2) \<Rightarrow> Inr (x # xs, h2)))"

definition build_btp_args :: "rvalue list option \<Rightarrow> heap \<Rightarrow> (nat option list \<times> heap) result" where
  "build_btp_args args h =
     (let as = (case args of None \<Rightarrow> [] | Some xs \<Rightarrow> xs) in
      if \<not> size_ok 8 (of_nat (length as) + 1) then Inl (argc_error (length as)) else bvalues as h)"

section \<open>Clauses\<close>

record clause =
  c_op :: "relop option"
  c_b_func :: "bool_func option"
  c_bt_func :: "btp_func option"
  c_argc :: nat
  c_arg1 :: "rvalue option"
  c_args :: "rvalue list option"

definition Clause_OK :: "clause \<Rightarrow> bool" where
  "Clause_OK c \<longleftrightarrow>
     (let relational = (c_op c \<noteq> None \<and> c_b_func c = None \<and> c_bt_func c = None);
          boolean = (c_op c = None \<and> c_b_func c \<noteq> None \<and> c_bt_func c = None);
          basetype = (c_op c = None \<and> c_b_func c = None \<and> c_bt_func c \<noteq> None) in
      if relational then c_arg1 c \<noteq> None \<and> c_args c \<noteq> None else boolean \<or> basetype)"

definition arg_count :: "rvalue list option \<Rightarrow> nat" where
  "arg_count rv = (case rv of None \<Rightarrow> 0 | Some xs \<Rightarrow> length xs)"

definition Clause_rel :: "relop \<Rightarrow> rvalue option \<Rightarrow> rvalue list option \<Rightarrow> clause result" where
  "Clause_rel oper a1 rv =
     (let c = \<lparr>c_op = Some oper, c_b_func = None, c_bt_func = None, c_argc = 0, c_arg1 = a1, c_args = rv\<rparr> in
      if Clause_OK c then Inr c else Inl assertion_failed)"

definition Clause_bool :: "bool_func \<Rightarrow> rvalue list option \<Rightarrow> clause" where
  "Clause_bool f rv = \<lparr>c_op = None, c_b_func = Some f, c_bt_func = None, c_argc = arg_count rv, c_arg1 = None, c_args = rv\<rparr>"

definition Clause_btp :: "btp_func \<Rightarrow> rvalue list option \<Rightarrow> clause" where
  "Clause_btp f rv = \<lparr>c_op = None, c_b_func = None, c_bt_func = Some f, c_argc = arg_count rv, c_arg1 = None, c_args = rv\<rparr>"

definition boolean_clause :: "clause \<Rightarrow> bool result" where
  "boolean_clause c = (if Clause_OK c then Inr (c_op c \<noteq> None \<or> c_b_func c \<noteq> None) else Inl assertion_failed)"

definition value_clause :: "clause \<Rightarrow> bool result" where
  "value_clause c = (if Clause_OK c then Inr (c_bt_func c \<noteq> None) else Inl assertion_failed)"

text \<open>The values on the right are alternatives: the loop stops at the first that the relation holds for.\<close>

fun clause_or :: "regex_lib \<Rightarrow> reader \<Rightarrow> nat option \<Rightarrow> relop \<Rightarrow> rvalue list \<Rightarrow> heap \<Rightarrow> (bool \<times> heap) result" where
  "clause_or rx rd btp oper [] h = Inr (False, h)"
| "clause_or rx rd btp oper (a # as) h = (case bvalue a h of
     Inl e \<Rightarrow> Inl e
   | Inr (b, h1) \<Rightarrow> (case (case btp of None \<Rightarrow> Inl invalid_pointer | Some x \<Rightarrow> ops rx rd h1 x b oper) of
       Inl e \<Rightarrow> Inl e
     | Inr (r, h2) \<Rightarrow> if r then Inr (True, h2) else clause_or rx rd btp oper as h2))"

definition Clause_value :: "regex_lib \<Rightarrow> reader \<Rightarrow> clause \<Rightarrow> heap \<Rightarrow> (bool \<times> heap) result" where
  "Clause_value rx rd c h =
     (if \<not> Clause_OK c \<or> c_op c = None \<and> c_b_func c = None then Inl assertion_failed
      else case c_op c of
        Some oper \<Rightarrow> (case (c_arg1 c, c_args c) of
          (Some a1, Some as) \<Rightarrow> (case bvalue a1 h of
            Inl e \<Rightarrow> Inl e
          | Inr (btp, h1) \<Rightarrow> clause_or rx rd btp oper as h1)
        | _ \<Rightarrow> Inl assertion_failed)
      | None \<Rightarrow> (case c_b_func c of
          Some f \<Rightarrow> (case build_btp_args (c_args c) h of Inl e \<Rightarrow> Inl e | Inr (argv, h1) \<Rightarrow> f argv h1)
        | None \<Rightarrow> Inl (InternalErr ''A selection expression must contain only boolean clauses.'')))"

text \<open>\<open>set_send_p(true)\<close> and \<open>set_read_p(true)\<close> on a variable of any class.\<close>

definition sent_and_read :: "bool \<Rightarrow> ('a, 'm) scalar_scheme \<Rightarrow> ('a, 'm) scalar_scheme" where
  "sent_and_read send v = BaseType_set_read_p True (if send then v\<lparr>d_is_send := True\<rparr> else v)"

fun mark_var :: "bool \<Rightarrow> BaseType \<Rightarrow> BaseType" where
  "mark_var s (Byte v) = Byte (sent_and_read s v)" | "mark_var s (Int8 v) = Int8 (sent_and_read s v)"
| "mark_var s (Int16 v) = Int16 (sent_and_read s v)" | "mark_var s (UInt16 v) = UInt16 (sent_and_read s v)"
| "mark_var s (Int32 v) = Int32 (sent_and_read s v)" | "mark_var s (UInt32 v) = UInt32 (sent_and_read s v)"
| "mark_var s (Int64 v) = Int64 (sent_and_read s v)" | "mark_var s (UInt64 v) = UInt64 (sent_and_read s v)"
| "mark_var s (Float32 v) = Float32 (sent_and_read s v)" | "mark_var s (Float64 v) = Float64 (sent_and_read s v)"
| "mark_var s (Str v) = Str (sent_and_read s v)" | "mark_var s (Url v) = Url (sent_and_read s v)"
| "mark_var s (Opaque v) = Opaque (sent_and_read s v)" | "mark_var s (Enum v) = Enum (sent_and_read s v)"
| "mark_var s (Other_Type t v) = Other_Type t (sent_and_read s v)"

definition mark_heap :: "bool \<Rightarrow> nat \<Rightarrow> heap \<Rightarrow> heap" where
  "mark_heap send x h = (case h x of None \<Rightarrow> h | Some v \<Rightarrow> h(x \<mapsto> mark_var send v))"

text \<open>\<open>value\<close> of a clause that returns a variable: whether there is one, and which.\<close>

definition Clause_value_btp :: "clause \<Rightarrow> heap \<Rightarrow> (nat option \<times> heap) result" where
  "Clause_value_btp c h =
     (if \<not> Clause_OK c then Inl assertion_failed
      else case c_bt_func c of
        None \<Rightarrow> Inl assertion_failed
      | Some f \<Rightarrow> (case build_btp_args (c_args c) h of
          Inl e \<Rightarrow> Inl e
        | Inr (argv, h1) \<Rightarrow> (case f argv h1 of
            Inl e \<Rightarrow> Inl e
          | Inr (None, h2) \<Rightarrow> Inr (None, h2)
          | Inr (Some x, h2) \<Rightarrow> Inr (Some x, mark_heap True x h2))))"

section \<open>The evaluator\<close>

record evaluator =
  ce_expr :: "clause list"
  ce_constants :: "nat list"
  ce_functions :: "server_function list"

definition append_clause :: "clause \<Rightarrow> evaluator \<Rightarrow> evaluator" where
  "append_clause c ce = ce\<lparr>ce_expr := ce_expr ce @ [c]\<rparr>"

definition append_rel_clause :: "relop \<Rightarrow> rvalue option \<Rightarrow> rvalue list option \<Rightarrow> evaluator \<Rightarrow> evaluator result" where
  "append_rel_clause oper a1 a2 ce = (case Clause_rel oper a1 a2 of Inl e \<Rightarrow> Inl e | Inr c \<Rightarrow> Inr (append_clause c ce))"

definition append_bool_clause :: "bool_func \<Rightarrow> rvalue list option \<Rightarrow> evaluator \<Rightarrow> evaluator" where
  "append_bool_clause f args ce = append_clause (Clause_bool f args) ce"

definition append_btp_clause :: "btp_func \<Rightarrow> rvalue list option \<Rightarrow> evaluator \<Rightarrow> evaluator" where
  "append_btp_clause f args ce = append_clause (Clause_btp f args) ce"

definition append_constant :: "nat \<Rightarrow> evaluator \<Rightarrow> evaluator" where
  "append_constant x ce = ce\<lparr>ce_constants := ce_constants ce @ [x]\<rparr>"

definition clause_value :: "regex_lib \<Rightarrow> reader \<Rightarrow> nat \<Rightarrow> evaluator \<Rightarrow> heap \<Rightarrow> (bool \<times> heap) result" where
  "clause_value rx rd i ce h =
     (if ce_expr ce = [] then Inl (InternalErr ''There are no CE clauses for *this* DDS object.'')
      else if i < length (ce_expr ce) then Clause_value rx rd (ce_expr ce ! i) h
      else Inl invalid_pointer)"

definition functional_expression :: "evaluator \<Rightarrow> bool result" where
  "functional_expression ce = (case ce_expr ce of [] \<Rightarrow> Inr False | c # _ \<Rightarrow> value_clause c)"

definition eval_function :: "evaluator \<Rightarrow> heap \<Rightarrow> (nat option \<times> heap) result" where
  "eval_function ce h = (case ce_expr ce of
     [c] \<Rightarrow> Clause_value_btp c h
   | _ \<Rightarrow> Inl (InternalErr ''The length of the list of CE clauses is not 1.''))"

fun all_value_clauses :: "clause list \<Rightarrow> bool result" where
  "all_value_clauses [] = Inr True"
| "all_value_clauses (c # cs) = (case value_clause c of
     Inl e \<Rightarrow> Inl e | Inr b \<Rightarrow> if b then all_value_clauses cs else Inr False)"

definition function_clauses :: "evaluator \<Rightarrow> bool result" where
  "function_clauses ce = (if ce_expr ce = [] then Inr False else all_value_clauses (ce_expr ce))"

text \<open>The variables of the new dataset, in the order of the clauses.\<close>

fun function_results :: "clause list \<Rightarrow> heap \<Rightarrow> (nat list \<times> heap) result" where
  "function_results [] h = Inr ([], h)"
| "function_results (c # cs) h = (case Clause_value_btp c h of
     Inl e \<Rightarrow> Inl e
   | Inr (None, h1) \<Rightarrow> Inl (Error internal_error ''A function was called but failed to return a value.'')
   | Inr (Some x, h1) \<Rightarrow> (case function_results cs h1 of Inl e \<Rightarrow> Inl e | Inr (xs, h2) \<Rightarrow> Inr (x # xs, h2)))"

definition eval_function_clauses :: "evaluator \<Rightarrow> heap \<Rightarrow> (nat list \<times> heap) result" where
  "eval_function_clauses ce h =
     (if ce_expr ce = [] then Inl (InternalErr ''The constraint expression is empty.'') else function_results (ce_expr ce) h)"

text \<open>\<open>boolean && (*i)->boolean_clause()\<close> over all clauses.\<close>

fun all_boolean :: "clause list \<Rightarrow> bool \<Rightarrow> bool result" where
  "all_boolean [] b = Inr b"
| "all_boolean (c # cs) b = (if \<not> b then all_boolean cs False else
     case boolean_clause c of Inl e \<Rightarrow> Inl e | Inr b1 \<Rightarrow> all_boolean cs b1)"

definition boolean_expression :: "evaluator \<Rightarrow> bool result" where
  "boolean_expression ce = (if ce_expr ce = [] then Inr False else all_boolean (ce_expr ce) True)"

text \<open>The clauses are a conjunction; the loop stops at the first that is false.\<close>

fun selection_and :: "regex_lib \<Rightarrow> reader \<Rightarrow> clause list \<Rightarrow> heap \<Rightarrow> (bool \<times> heap) result" where
  "selection_and rx rd [] h = Inr (True, h)"
| "selection_and rx rd (c # cs) h = (case boolean_clause c of
     Inl e \<Rightarrow> Inl e
   | Inr b \<Rightarrow> if \<not> b then Inl (InternalErr ''A selection expression must contain only boolean clauses.'')
       else (case Clause_value rx rd c h of
         Inl e \<Rightarrow> Inl e
       | Inr (r, h1) \<Rightarrow> if r then selection_and rx rd cs h1 else Inr (False, h1)))"

definition eval_selection :: "regex_lib \<Rightarrow> reader \<Rightarrow> evaluator \<Rightarrow> heap \<Rightarrow> (bool \<times> heap) result" where
  "eval_selection rx rd ce h = (if ce_expr ce = [] then Inr (True, h) else selection_and rx rd (ce_expr ce) h)"

section \<open>Values of DAP4\<close>

text \<open>A pointer to a variable of the dataset or to one that the value owns.\<close>

datatype ref = Addr nat | Owned BaseType

definition deref :: "heap \<Rightarrow> ref \<Rightarrow> BaseType result" where
  "deref h r = (case r of Owned b \<Rightarrow> Inr b | Addr x \<Rightarrow> (case h x of None \<Rightarrow> Inl invalid_pointer | Some b \<Rightarrow> Inr b))"

text \<open>A function is given with its arguments.\<close>

datatype d4rvalue = D4_Unknown | D4_Variable nat | D4_Function "heap \<Rightarrow> (ref \<times> heap) result" | D4_Constant BaseType

definition D4RValue_ull :: "int \<Rightarrow> d4rvalue" where
  "D4RValue_ull ull = D4_Constant (UInt64 (snd (UInt64_set_value (of_int ull) (UInt64_new ''constant'' []))))"

definition D4RValue_ll :: "int \<Rightarrow> d4rvalue" where
  "D4RValue_ll ll = D4_Constant (Int64 (snd (Int64_set_value (of_int ll) (Int64_new ''constant'' []))))"

definition D4RValue_double :: "fval \<Rightarrow> d4rvalue" where
  "D4RValue_double r = D4_Constant (Float64 (snd (Float64_set_value (encode_double r) (Float64_new ''constant'' []))))"

definition D4RValue_string :: "string \<Rightarrow> d4rvalue" where
  "D4RValue_string cpps = D4_Constant (Str (snd (Str_set_value (remove_quotes cpps) (Str_new ''constant'' []))))"

definition D4RValueFactory :: "string \<Rightarrow> d4rvalue" where
  "D4RValueFactory cpps =
     (let s = c_str cpps in
      if check_uint64 s \<noteq> 0 then D4RValue_ull (fst (strtoul 0 s))
      else if check_int64 s \<noteq> 0 then D4RValue_ll (fst (strtol 0 s))
      else if check_float64 s \<noteq> 0 then D4RValue_double (fst (strtod s))
      else D4RValue_string cpps)"

text \<open>A variable is read each time, whether it has a value or not.\<close>

definition read_variable :: "reader \<Rightarrow> nat \<Rightarrow> heap \<Rightarrow> (ref \<times> heap) result" where
  "read_variable rd x h = (case rd x h of Inl e \<Rightarrow> Inl e | Inr (_, h1) \<Rightarrow> Inr (Addr x, mark_heap False x h1))"

definition D4RValue_value_dmr :: "reader \<Rightarrow> d4rvalue \<Rightarrow> heap \<Rightarrow> (ref \<times> heap) result" where
  "D4RValue_value_dmr rd v h = (case v of
     D4_Variable x \<Rightarrow> read_variable rd x h
   | D4_Function f \<Rightarrow> f h
   | D4_Constant b \<Rightarrow> Inr (Owned b, h)
   | D4_Unknown \<Rightarrow> Inl (InternalErr ''Unknown rvalue type.''))"

definition D4RValue_value :: "reader \<Rightarrow> d4rvalue \<Rightarrow> heap \<Rightarrow> (ref \<times> heap) result" where
  "D4RValue_value rd v h = (case v of
     D4_Variable x \<Rightarrow> read_variable rd x h
   | D4_Function f \<Rightarrow>
       Inl (Error malformed_expr ''An expression that included a function call was used in a place where that won't work.'')
   | D4_Constant b \<Rightarrow> Inr (Owned b, h)
   | D4_Unknown \<Rightarrow> Inl (InternalErr ''Unknown rvalue type.''))"

section \<open>Filters of DAP4\<close>

record d4clause =
  fc_op :: relop
  fc_arg1 :: d4rvalue
  fc_arg2 :: d4rvalue

definition D4FilterClause :: "relop \<Rightarrow> d4rvalue \<Rightarrow> d4rvalue \<Rightarrow> d4clause result" where
  "D4FilterClause oper a1 a2 =
     (if oper = Null_Op then Inl assertion_failed else Inr \<lparr>fc_op = oper, fc_arg1 = a1, fc_arg2 = a2\<rparr>)"

definition filter_msg :: "string \<Rightarrow> exn" where
  "filter_msg s = InternalErr (''While evaluating a constraint filter clause: '' @ s)"

definition cmp :: "regex_lib \<Rightarrow> relop \<Rightarrow> heap \<Rightarrow> ref \<Rightarrow> ref \<Rightarrow> (bool \<times> heap) result" where
  "cmp rx oper h r1 r2 = (case (deref h r1, deref h r2) of
     (Inr b1, Inr b2) \<Rightarrow> (case d4_ops rx b1 b2 oper of Inl e \<Rightarrow> Inl e | Inr r \<Rightarrow> Inr (r, h))
   | _ \<Rightarrow> Inl invalid_pointer)"

text \<open>
  The arguments of the comparison are evaluated from left to right here; C++ leaves the order open, and it
  makes no difference when one of them is a constant, as \<open>add_filter_clause\<close> demands.
\<close>

definition filter_clause_value ::
    "(d4rvalue \<Rightarrow> heap \<Rightarrow> (ref \<times> heap) result) \<Rightarrow> regex_lib \<Rightarrow> d4clause \<Rightarrow> heap \<Rightarrow> (bool \<times> heap) result" where
  "filter_clause_value val rx c h =
     (if fc_op c = Null_Op then Inl (filter_msg ''Found a null operator'')
      else if fc_op c = ND_Op \<or> fc_op c = Map_Op then Inl (filter_msg ''Filter operator not implemented'')
      else case val (fc_arg1 c) h of
        Inl e \<Rightarrow> Inl e
      | Inr (r1, h1) \<Rightarrow> (case val (fc_arg2 c) h1 of
          Inl e \<Rightarrow> Inl e
        | Inr (r2, h2) \<Rightarrow> cmp rx (fc_op c) h2 r1 r2))"

definition D4FilterClause_value_dmr :: "regex_lib \<Rightarrow> reader \<Rightarrow> d4clause \<Rightarrow> heap \<Rightarrow> (bool \<times> heap) result" where
  "D4FilterClause_value_dmr rx rd c h = filter_clause_value (D4RValue_value_dmr rd) rx c h"

definition D4FilterClause_value :: "regex_lib \<Rightarrow> reader \<Rightarrow> d4clause \<Rightarrow> heap \<Rightarrow> (bool \<times> heap) result" where
  "D4FilterClause_value rx rd c h = filter_clause_value (D4RValue_value rd) rx c h"

fun clauses_and :: "(d4clause \<Rightarrow> heap \<Rightarrow> (bool \<times> heap) result) \<Rightarrow> d4clause list \<Rightarrow> heap \<Rightarrow> (bool \<times> heap) result" where
  "clauses_and val [] h = Inr (True, h)"
| "clauses_and val (c # cs) h = (case val c h of
     Inl e \<Rightarrow> Inl e
   | Inr (r, h1) \<Rightarrow> if r then clauses_and val cs h1 else Inr (False, h1))"

definition D4FilterClauseList_value_dmr :: "regex_lib \<Rightarrow> reader \<Rightarrow> d4clause list \<Rightarrow> heap \<Rightarrow> (bool \<times> heap) result" where
  "D4FilterClauseList_value_dmr rx rd cs h = clauses_and (D4FilterClause_value_dmr rx rd) cs h"

definition D4FilterClauseList_value :: "regex_lib \<Rightarrow> reader \<Rightarrow> d4clause list \<Rightarrow> heap \<Rightarrow> (bool \<times> heap) result" where
  "D4FilterClauseList_value rx rd cs h = clauses_and (D4FilterClause_value rx rd) cs h"

text \<open>Copying a list: the constructor starts with an empty list, the assignment does not clear the old one.\<close>

definition m_duplicate :: "d4clause list \<Rightarrow> d4clause list \<Rightarrow> d4clause list" where
  "m_duplicate this src = this @ src"

definition copy_clauses :: "d4clause list \<Rightarrow> d4clause list" where
  "copy_clauses src = m_duplicate [] src"

definition assign_clauses :: "d4clause list \<Rightarrow> d4clause list \<Rightarrow> d4clause list" where
  "assign_clauses this rhs = m_duplicate this rhs"

definition get_clause :: "nat \<Rightarrow> d4clause list \<Rightarrow> d4clause result" where
  "get_clause i cs = (if i < length cs then Inr (cs ! i) else Inl (Std_Exception ''out_of_range''))"

definition get_op_code :: "string \<Rightarrow> relop result" where
  "get_op_code oper =
     (if oper = ''<'' then Inr SCAN_LESS else if oper = ''>'' then Inr SCAN_GREATER
      else if oper = ''<='' then Inr SCAN_LESS_EQL else if oper = ''>='' then Inr SCAN_GREATER_EQL
      else if oper = ''=='' then Inr SCAN_EQUAL else if oper = ''!='' then Inr SCAN_NOT_EQUAL
      else if oper = ''~='' then Inr SCAN_REGEXP
      else Inl (Error malformed_expr (''The opertator '' @ [CHR 0x27] @ oper @ [CHR 0x27] @ '' is not supported.'')))"

definition expr_msg :: "string \<Rightarrow> string \<Rightarrow> string \<Rightarrow> string" where
  "expr_msg oper arg1 arg2 = ''('' @ arg1 @ '' '' @ oper @ '' '' @ arg2 @ '').''"

text \<open>The sequence on top of the parser's stack, if it is one: the lookup of its fields, and its filters.\<close>

record d4sequence =
  s_var :: "string \<Rightarrow> nat option"
  s_clauses :: "d4clause list"

definition add_filter_clause :: "d4sequence option \<Rightarrow> string \<Rightarrow> string \<Rightarrow> string \<Rightarrow> d4sequence result" where
  "add_filter_clause tos oper arg1 arg2 = (case tos of
     None \<Rightarrow> Inl (Error malformed_expr (''When a filter expression is used, it must be bound to a Sequence variable: '' @ expr_msg oper arg1 arg2))
   | Some s \<Rightarrow> (case (s_var s arg1, s_var s arg2) of
       (Some _, Some _) \<Rightarrow> Inl (Error malformed_expr (''One of the arguments in a filter expression must be a constant: '' @ expr_msg oper arg1 arg2))
     | (None, None) \<Rightarrow> Inl (Error malformed_expr (''One of the arguments in a filter expression must be a variable in a Sequence: '' @ expr_msg oper arg1 arg2))
     | (Some a1, None) \<Rightarrow> (case get_op_code oper of
         Inl e \<Rightarrow> Inl e
       | Inr r \<Rightarrow> (case D4FilterClause r (D4_Variable a1) (D4RValueFactory arg2) of
           Inl e \<Rightarrow> Inl e | Inr c \<Rightarrow> Inr (s\<lparr>s_clauses := s_clauses s @ [c]\<rparr>)))
     | (None, Some a2) \<Rightarrow> (case get_op_code oper of
         Inl e \<Rightarrow> Inl e
       | Inr r \<Rightarrow> (case D4FilterClause r (D4RValueFactory arg1) (D4_Variable a2) of
           Inl e \<Rightarrow> Inl e | Inr c \<Rightarrow> Inr (s\<lparr>s_clauses := s_clauses s @ [c]\<rparr>)))))"

section \<open>Facts\<close>

lemma number_of_mark [simp]: "number_of (mark_var s v) = number_of v"
  by (cases v) (simp_all add: sent_and_read_def BaseType_set_read_p_def)

lemma class_of_mark [simp]: "integer_var (mark_var s v) = integer_var v" "has_d4_ops (mark_var s v) = has_d4_ops v"
  by (cases v; simp add: integer_var_def has_d4_ops_def)+

lemma own_number_mark [simp]: "own_number (mark_var s v) = own_number v"
  by (cases v) (simp_all add: own_number_def sent_and_read_def BaseType_set_read_p_def)

lemma int_of_mark [simp]: "int_of (mark_var s v) = int_of v"
  by (simp add: int_of_def)

lemma set_value_buf [simp]: "d_buf (snd (set_value x v)) = x"
  by (simp add: set_value_def BaseType_set_read_p_def)

lemma constant_numbers:
  "0 \<le> n \<Longrightarrow> n < 2 ^ 64 \<Longrightarrow> \<exists>v. D4RValue_ull n = D4_Constant (UInt64 v) \<and> number_of (UInt64 v) = Some (Unsigned 64 n)"
  "- (2 ^ 63) \<le> n \<Longrightarrow> n < 2 ^ 63 \<Longrightarrow> \<exists>v. D4RValue_ll n = D4_Constant (Int64 v) \<and> number_of (Int64 v) = Some (Signed 64 n)"
  by (simp_all add: D4RValue_ull_def UInt64_set_value_def D4RValue_ll_def Int64_set_value_def
      unsigned_of_int take_bit_int_eq_self signed_of_int signed_take_bit_int_eq_self)

lemma to_int_zero: "to_int (int n) = 0 \<longleftrightarrow> n mod 2 ^ 32 = 0"
proof -
  have "to_int (int n) = 0 \<longleftrightarrow> (of_int (int n) :: u32) = 0" unfolding to_int_def by (rule signed_eq_0_iff)
  also have "\<dots> \<longleftrightarrow> 2 ^ 32 dvd n" by (simp add: word_of_nat_eq_0_iff)
  finally show ?thesis by (simp only: dvd_eq_mod_eq_0)
qed

lemma show_nat_text: "c_str (show_nat n) = show_nat n" "\<not> leading_minus (show_nat n)"
proof -
  obtain d s where c: "show_nat n = digit d # s" "d < 10" using show_nat_Cons [of n] by blast
  have "\<not> is_space (digit d)" "digit d \<noteq> CHR ''-''" using digit_facts [OF c(2)] by auto
  then show "\<not> leading_minus (show_nat n)" by (simp add: leading_minus_def c(1) starts_with_def)
  have "x \<noteq> NUL" if "x \<in> set (show_nat n)" for x
  proof -
    obtain d where d: "d < 10" "x = digit d" using decimal_show_nat [of n] \<open>x \<in> set (show_nat n)\<close> unfolding decimal_def by blast
    then show ?thesis using digit_facts [OF d(1)] by simp
  qed
  then show "c_str (show_nat n) = show_nat n" by (simp add: c_str_def takeWhile_eq_all_conv)
qed

lemma factory_decimal:
  assumes "n < 2 ^ 63"
  shows "D4RValueFactory (show_nat n) = (if n mod 2 ^ 32 = 0 then D4RValue_ll (int n) else D4RValue_ull (int n))"
proof -
  have "show_nat n \<noteq> []" using show_nat_Cons [of n] by auto
  moreover have "clamp_long (int n) = int n" using assms by (simp add: clamp_long_def)
  ultimately show ?thesis
    using assms to_int_zero [of n]
    by (simp add: D4RValueFactory_def show_nat_text check_uint64_def check_int64_def strtoul_def strtol_def strto_show
        strtoul_erange_def strtol_erange_def bad_text_def Let_def DODS_ULLONG_MAX_def)
qed

text \<open>The operators that do not throw on numbers.\<close>

definition order_op :: "relop \<Rightarrow> bool" where
  "order_op r \<longleftrightarrow> r \<in> {SCAN_EQUAL, SCAN_NOT_EQUAL, SCAN_GREATER, SCAN_GREATER_EQL, SCAN_LESS, SCAN_LESS_EQL}"

definition holds :: "relop \<Rightarrow> int \<Rightarrow> int \<Rightarrow> bool" where
  "holds r a b = (case r of
     SCAN_EQUAL \<Rightarrow> a = b | SCAN_NOT_EQUAL \<Rightarrow> a \<noteq> b | SCAN_GREATER \<Rightarrow> a > b | SCAN_GREATER_EQL \<Rightarrow> a \<ge> b
   | SCAN_LESS \<Rightarrow> a < b | SCAN_LESS_EQL \<Rightarrow> a \<le> b | _ \<Rightarrow> False)"

lemma meaning_holds: "order_op r \<Longrightarrow> meaning r a b = Inr (holds r a b)"
  by (auto simp: order_op_def meaning_def holds_def)

lemma clause_value_constant:
  assumes "rd x h = Inr (ok, h1)" "h1 x = Some v" "order_op r"
  shows "D4FilterClause_value rx rd \<lparr>fc_op = r, fc_arg1 = D4_Variable x, fc_arg2 = D4_Constant b\<rparr> h =
      (case d4_ops rx (mark_var False v) b r of Inl e \<Rightarrow> Inl e | Inr t \<Rightarrow> Inr (t, mark_heap False x h1))"
    and "D4FilterClause_value rx rd \<lparr>fc_op = r, fc_arg1 = D4_Constant b, fc_arg2 = D4_Variable x\<rparr> h =
      (case d4_ops rx b (mark_var False v) r of Inl e \<Rightarrow> Inl e | Inr t \<Rightarrow> Inr (t, mark_heap False x h1))"
proof -
  have "mark_heap False x h1 = h1(x \<mapsto> mark_var False v)" using assms(2) by (simp add: mark_heap_def)
  moreover have "r \<notin> {Null_Op, ND_Op, Map_Op}" using assms(3) by (auto simp: order_op_def)
  ultimately show "D4FilterClause_value rx rd \<lparr>fc_op = r, fc_arg1 = D4_Variable x, fc_arg2 = D4_Constant b\<rparr> h =
      (case d4_ops rx (mark_var False v) b r of Inl e \<Rightarrow> Inl e | Inr t \<Rightarrow> Inr (t, mark_heap False x h1))"
    "D4FilterClause_value rx rd \<lparr>fc_op = r, fc_arg1 = D4_Constant b, fc_arg2 = D4_Variable x\<rparr> h =
      (case d4_ops rx b (mark_var False v) r of Inl e \<Rightarrow> Inl e | Inr t \<Rightarrow> Inr (t, mark_heap False x h1))"
    using assms(1) by (simp_all add: D4FilterClause_value_def filter_clause_value_def D4RValue_value_def read_variable_def
        cmp_def deref_def split: sum.splits)
qed

section \<open>Properties\<close>

text \<open>The signed integer variables.\<close>

definition signed_var :: "BaseType \<Rightarrow> bool" where
  "signed_var v \<longleftrightarrow> (case v of Int8 _ \<Rightarrow> True | Int16 _ \<Rightarrow> True | Int32 _ \<Rightarrow> True | Int64 _ \<Rightarrow> True | _ \<Rightarrow> False)"

text \<open>C14: A DAP4 filter with a non-negative constant is wrong for negative values: the factory makes the
  constant a \<open>UInt64\<close> (unless it is a multiple of \<open>2 ^ 32\<close>, zero included, which becomes an \<open>Int64\<close>), so a
  negative value of a signed variable is compared as a number of at least \<open>2 ^ 63\<close>: with \<open>x = -1\<close> the filter
  \<open>x < 5\<close> is false and \<open>x > 5\<close> is true.  For values that are not negative the filter decides the relation.\<close>

theorem filter_signed_variable:
  assumes "rd x h = Inr (ok, h1)" "h1 x = Some v" "signed_var v" "n < 2 ^ 63" "order_op r"
  shows "D4FilterClause_value rx rd \<lparr>fc_op = r, fc_arg1 = D4_Variable x, fc_arg2 = D4RValueFactory (show_nat n)\<rparr> h =
    Inr (holds r (if int_of v < 0 \<and> n mod 2 ^ 32 \<noteq> 0 then int_of v + 2 ^ 64 else int_of v) (int n), mark_heap False x h1)"
proof -
  obtain w where w: "own_number v = Some (Signed w (int_of v))" "w \<in> {8, 16, 32, 64}" "has_d4_ops v"
    using assms(3) by (cases v) (auto simp: signed_var_def int_of_def own_number_def has_d4_ops_def integer_var_def)
  obtain b y where b: "D4RValueFactory (show_nat n) = D4_Constant b" "integer_var b" "number_of b = Some y"
    "y = (if n mod 2 ^ 32 = 0 then Signed 64 (int n) else Unsigned 64 (int n))"
    using factory_decimal [OF assms(4)] constant_numbers [of "int n"] assms(4)
    by (cases "n mod 2 ^ 32 = 0") (auto simp: integer_var_def)
  have "int_operand (Signed w (int_of v))" "int_operand y"
    using integer_operand [of v] integer_operand [OF b(2)] w own_number_of [OF b(3)] by (auto simp: has_d4_ops_def split: BaseType.splits)
  then have "Cmp r (Signed w (int_of v)) y = meaning r (compared (Signed w (int_of v)) y) (compared y (Signed w (int_of v)))"
    by (rule Cmp_ints)
  moreover have "d4_ops rx (mark_var False v) b r = Cmp r (Signed w (int_of v)) y"
    by (rule d4_ops_Cmp) (simp_all add: w b(3))
  moreover have "compared (Signed w (int_of v)) y = (if int_of v < 0 \<and> n mod 2 ^ 32 \<noteq> 0 then int_of v + 2 ^ 64 else int_of v)"
    using w(2) by (auto simp: b(4))
  moreover have "compared y (Signed w (int_of v)) = int n" by (simp add: b(4))
  ultimately show ?thesis
    using clause_value_constant(1) [of rd x h ok h1 v r rx b, OF assms(1,2,5)] by (simp add: b(1) meaning_holds [OF assms(5)])
qed

text \<open>A DAP4 filter on a \<open>UInt16\<close> or \<open>UInt32\<close> variable does not work: these classes do not define
  \<open>d4_ops\<close>, so the filter throws whatever the constant is.  With the constant on the left it is evaluated, and for
  a decimal constant it decides the relation.\<close>

lemma filter_unsigned_variable:
  assumes "rd x h = Inr (ok, h1)" "h1 x = Some v" "case v of UInt16 _ \<Rightarrow> True | UInt32 _ \<Rightarrow> True | _ \<Rightarrow> False"
    and "order_op r" "n < 2 ^ 63"
  shows "D4FilterClause_value rx rd \<lparr>fc_op = r, fc_arg1 = D4_Variable x, fc_arg2 = D4RValueFactory (show_nat n)\<rparr> h =
      Inl (InternalErr ''Unimplemented operator.'') \<and>
    D4FilterClause_value rx rd \<lparr>fc_op = r, fc_arg1 = D4RValueFactory (show_nat n), fc_arg2 = D4_Variable x\<rparr> h =
      Inr (holds r (int n) (int_of v), mark_heap False x h1)"
proof -
  obtain b y where b: "D4RValueFactory (show_nat n) = D4_Constant b" "has_d4_ops b" "number_of b = Some y"
    "y = (if n mod 2 ^ 32 = 0 then Signed 64 (int n) else Unsigned 64 (int n))"
    using factory_decimal [OF assms(5)] constant_numbers [of "int n"] assms(5)
    by (cases "n mod 2 ^ 32 = 0") (auto simp: integer_var_def has_d4_ops_def)
  obtain w where w: "number_of v = Some (Unsigned w (int_of v))" "w \<in> {16, 32}" "integer_var v"
    using assms(3) by (cases v) (auto simp: int_of_def own_number_def integer_var_def)
  have "int_operand (Unsigned w (int_of v))" "int_operand y"
    using integer_operand [of v] integer_operand [of b] w b(2) own_number_of [OF w(1)] own_number_of [OF b(3)]
    by (auto simp: has_d4_ops_def split: BaseType.splits)
  then have "Cmp r y (Unsigned w (int_of v)) = meaning r (compared y (Unsigned w (int_of v))) (compared (Unsigned w (int_of v)) y)"
    using Cmp_ints by blast
  moreover have "d4_ops rx b (mark_var False v) r = Cmp r y (Unsigned w (int_of v))"
    by (rule d4_ops_Cmp) (simp_all add: w b own_number_of [OF b(3)])
  moreover have "compared y (Unsigned w (int_of v)) = int n" "compared (Unsigned w (int_of v)) y = int_of v"
    by (simp_all add: b(4))
  moreover have "d4_ops rx (mark_var False v) b r = Inl (InternalErr ''Unimplemented operator.'')"
    using assms(3) by (cases v) (simp_all add: d4_ops_def BaseType_d4_ops_def)
  ultimately show ?thesis
    using clause_value_constant [of rd x h ok h1 v r rx b, OF assms(1,2,4)] by (simp add: b(1) meaning_holds [OF assms(4)])
qed

text \<open>A selection over variables in memory: per clause an operator, the variable on the left, and those on the right.\<close>

definition rel_clause :: "relop \<times> nat \<times> nat list \<Rightarrow> clause" where
  "rel_clause q = (case q of (r, x, ys) \<Rightarrow>
     \<lparr>c_op = Some r, c_b_func = None, c_bt_func = None, c_argc = 0, c_arg1 = Some (RV_Value x), c_args = Some (map RV_Value ys)\<rparr>)"

definition in_memory :: "heap \<Rightarrow> nat \<Rightarrow> bool" where
  "in_memory h x \<longleftrightarrow> (case h x of Some v \<Rightarrow> is_read v \<and> integer_var v | None \<Rightarrow> False)"

definition operand_at :: "heap \<Rightarrow> nat \<Rightarrow> operand" where
  "operand_at h x = the (own_number (the (h x)))"

definition int_at :: "heap \<Rightarrow> nat \<Rightarrow> int" where
  "int_at h x = int_value (operand_at h x)"

text \<open>A variable on the right: a \<open>Byte\<close> has the type of its class there.\<close>

definition known_in_memory :: "heap \<Rightarrow> nat \<Rightarrow> bool" where
  "known_in_memory h y \<longleftrightarrow> in_memory h y \<and> (case h y of Some v \<Rightarrow> number_of v \<noteq> None | None \<Rightarrow> False)"

lemma ops_in_memory:
  assumes "in_memory h x" "known_in_memory h y" "order_op r"
    and "\<not> sign_clash (operand_at h x) (operand_at h y)" "\<not> sign_clash (operand_at h y) (operand_at h x)"
  shows "ops rx rd h x (Some y) r = Inr (holds r (int_at h x) (int_at h y), h)"
proof -
  obtain u w q where u: "h x = Some u" "is_read u" "integer_var u" and w: "h y = Some w" "is_read w" "integer_var w" "number_of w = Some q"
    using assms(1,2) by (auto simp: in_memory_def known_in_memory_def split: option.splits)
  obtain p where p: "own_number u = Some p" "int_operand p" using integer_operand u(3) by blast
  have q: "own_number w = Some q" "int_operand q" using integer_operand [OF w(3)] own_number_of [OF w(4)] by auto
  have at: "operand_at h x = p" "operand_at h y = q" using u(1) w(1) p(1) q(1) by (simp_all add: operand_at_def)
  have c: "Cmp r p q = Inr (holds r (int_at h x) (int_at h y))"
    using assms(4,5) p(2) q(2) by (simp add: Cmp_ints compared_no_clash at int_at_def meaning_holds [OF assms(3)])
  have both: "read_both e1 e2 e3 rd h x (Some y) cmpr = (case cmpr u w of Inl e \<Rightarrow> Inl e | Inr t \<Rightarrow> Inr (t, h))" for e1 e2 e3 cmpr
    using u(1,2) w(1,2) by (simp add: read_both_def has_value_def)
  show ?thesis
  proof (cases "has_d4_ops u")
    case True
    then show ?thesis using u(1,3) c p(1) w(4) d4_ops_Cmp [OF True p(1) w(4)]
      by (cases u) (simp_all add: ops_def both Byte_ops_def Int8_ops_def Int16_ops_def Int32_ops_def Int64_ops_def
          UInt64_ops_def unsigned_ops_def number_or_false_def integer_var_def has_d4_ops_def own_number_def)
  next
    case False
    then show ?thesis using u(1,3) c p(1) w(4)
      by (cases u) (simp_all add: ops_def both UInt16_ops_def UInt32_ops_def unsigned_ops_def number_or_false_def
          integer_var_def has_d4_ops_def own_number_def)
  qed
qed

lemma clause_or_in_memory:
  assumes "in_memory h x" "order_op r"
    and "\<forall>y \<in> set ys. known_in_memory h y \<and> \<not> sign_clash (operand_at h x) (operand_at h y) \<and> \<not> sign_clash (operand_at h y) (operand_at h x)"
  shows "clause_or rx rd (Some x) r (map RV_Value ys) h = Inr (\<exists>y \<in> set ys. holds r (int_at h x) (int_at h y), h)"
  using assms(3) by (induction ys) (simp_all add: ops_in_memory [OF assms(1) _ assms(2)])

text \<open>The selections that \<open>eval_selection\<close> is about: relations over integer variables in memory without a clash of signs, and
  without a \<open>Char\<close> or \<open>UInt8\<close> on the right.\<close>

definition plain_query :: "heap \<Rightarrow> relop \<times> nat \<times> nat list \<Rightarrow> bool" where
  "plain_query h q \<longleftrightarrow> (case q of (r, x, ys) \<Rightarrow> order_op r \<and> in_memory h x \<and>
     (\<forall>y \<in> set ys. known_in_memory h y \<and> \<not> sign_clash (operand_at h x) (operand_at h y) \<and> \<not> sign_clash (operand_at h y) (operand_at h x)))"

lemma Clause_value_query:
  assumes "plain_query h q"
  shows "Clause_value rx rd (rel_clause q) h = Inr ((case q of (r, x, ys) \<Rightarrow> \<exists>y \<in> set ys. holds r (int_at h x) (int_at h y)), h)"
    and "boolean_clause (rel_clause q) = Inr True"
proof -
  obtain r x ys where q: "q = (r, x, ys)" by (metis prod_cases3)
  have ok: "Clause_OK (rel_clause q)" by (simp add: q rel_clause_def Clause_OK_def)
  then show "boolean_clause (rel_clause q) = Inr True" by (simp add: boolean_clause_def rel_clause_def q)
  show "Clause_value rx rd (rel_clause q) h = Inr ((case q of (r, x, ys) \<Rightarrow> \<exists>y \<in> set ys. holds r (int_at h x) (int_at h y)), h)"
    using ok assms clause_or_in_memory [of h x r ys rx rd]
    by (simp add: q Clause_value_def rel_clause_def plain_query_def)
qed

text \<open>C16: A DAP2 selection is a conjunction of disjunctions: for relational clauses over integer variables in memory,
  without a negative value against a wide unsigned one and without a \<open>Byte\<close> of the DAP4 types \<open>Char\<close> or \<open>UInt8\<close> on the right, \<open>eval_selection\<close> returns whether every clause has a value
  on its right to which the value on its left has the relation, and changes nothing.\<close>

theorem eval_selection_cnf:
  assumes "ce_expr ce = map rel_clause qs" "\<forall>q \<in> set qs. plain_query h q"
  shows "eval_selection rx rd ce h =
    Inr (\<forall>(r, x, ys) \<in> set qs. \<exists>y \<in> set ys. holds r (int_at h x) (int_at h y), h)"
proof -
  have "selection_and rx rd (map rel_clause qs) h =
      Inr (\<forall>(r, x, ys) \<in> set qs. \<exists>y \<in> set ys. holds r (int_at h x) (int_at h y), h)"
    using assms(2)
  proof (induction qs)
    case (Cons q qs)
    then have q: "plain_query h q" by simp
    show ?case
      using Cons.IH Cons.prems
      by (auto simp: Clause_value_query(1) [OF q] Clause_value_query(2) [OF q])
  qed simp
  then show ?thesis using assms(1) by (auto simp: eval_selection_def)
qed

section \<open>Other lemmas\<close>

text \<open>Assigning a list of filters keeps the old ones: both have to hold afterwards.\<close>

lemma clauses_and_append:
  "clauses_and val (as @ bs) h = (case clauses_and val as h of
     Inr (True, h1) \<Rightarrow> clauses_and val bs h1 | r \<Rightarrow> r)"
  by (induction as arbitrary: h) (auto split: sum.splits bool.splits)

lemma assign_clauses_keeps_old:
  "D4FilterClauseList_value rx rd (assign_clauses this rhs) h = (case D4FilterClauseList_value rx rd this h of
     Inr (True, h1) \<Rightarrow> D4FilterClauseList_value rx rd rhs h1 | r \<Rightarrow> r)"
  by (simp add: D4FilterClauseList_value_def assign_clauses_def m_duplicate_def clauses_and_append split: sum.splits bool.splits)

text \<open>A pattern that matches the empty string: against an empty value the answer is what the memory held.\<close>

lemma empty_text_match:
  "re_error lib p = None \<Longrightarrow> re_exec lib p [] = Some r \<Longrightarrow> c_str p = p \<Longrightarrow>
    StrCmp lib SCAN_REGEXP [] p = Inr (snd (re_junk lib) - fst (re_junk lib) > 0)"
  by (simp add: StrCmp_def Regex_init_def Regex_match_def first_place_def substr_def c_str_def [of "[]"] case_prod_beta)

section \<open>Witnesses\<close>

definition demo_int32 :: "int \<Rightarrow> BaseType" where
  "demo_int32 k = Int32 (snd (Int32_set_value (of_int k) (Int32_new ''x'' [])))"

definition demo_uint32 :: "int \<Rightarrow> BaseType" where
  "demo_uint32 k = UInt32 (snd (UInt32_set_value (of_int k) (UInt32_new ''y'' [])))"

definition demo_heap :: heap where
  "demo_heap = (\<lambda>_. None)(0 \<mapsto> demo_int32 (-1), 1 \<mapsto> demo_uint32 7, 2 \<mapsto> demo_int32 3)"

lemmas demo_defs = demo_heap_def demo_int32_def demo_uint32_def Int32_set_value_def UInt32_set_value_def

text \<open>The library's own \<open>read\<close>: a variable without a value throws.\<close>

definition lib_read :: reader where
  "lib_read x h = (case h x of
     None \<Rightarrow> Inl invalid_pointer
   | Some b \<Rightarrow> if is_read b then Inr (True, h)
       else Inl (InternalErr ''Unimplemented BaseType::read() method called for the variable named: ''))"

lemma lib_read_demo: "lib_read 0 demo_heap = Inr (True, demo_heap)" "lib_read 1 demo_heap = Inr (True, demo_heap)"
  by (simp_all add: lib_read_def demo_defs set_value_def BaseType_set_read_p_def Int32_new_def UInt32_new_def make_scalar_def)

theorem filter_signed_variable_witness:
  "\<exists>h1. D4FilterClause_value demo_rx lib_read \<lparr>fc_op = SCAN_LESS, fc_arg1 = D4_Variable 0, fc_arg2 = D4RValueFactory (show_nat 5)\<rparr> demo_heap
    = Inr (False, h1)"
  using filter_signed_variable [of lib_read 0 demo_heap True demo_heap "demo_int32 (-1)" 5 SCAN_LESS demo_rx]
  lib_read_demo by (simp add: demo_defs signed_var_def order_op_def holds_def int_of_def own_number_def)

lemma filter_unsigned_variable_witness:
  "D4FilterClause_value demo_rx lib_read \<lparr>fc_op = SCAN_LESS, fc_arg1 = D4_Variable 1, fc_arg2 = D4RValueFactory (show_nat 9)\<rparr> demo_heap
    = Inl (InternalErr ''Unimplemented operator.'')"
  using filter_unsigned_variable [of lib_read 1 demo_heap True demo_heap "demo_uint32 7" SCAN_LESS 9 demo_rx]
  lib_read_demo by (simp add: demo_defs order_op_def)

theorem eval_selection_cnf_witness:
  "eval_selection demo_rx lib_read \<lparr>ce_expr = [rel_clause (SCAN_LESS, 0, [2]), rel_clause (SCAN_EQUAL, 2, [0, 2])], ce_constants = [], ce_functions = []\<rparr>
     demo_heap = Inr (True, demo_heap)"
proof -
  let ?qs = "[(SCAN_LESS, 0, [2]), (SCAN_EQUAL, 2, [0, 2])]"
  have at: "operand_at demo_heap 0 = Signed 32 (-1)" "operand_at demo_heap 2 = Signed 32 3"
    by (simp_all add: operand_at_def own_number_def demo_defs)
  have "in_memory demo_heap 0" "known_in_memory demo_heap 0" "in_memory demo_heap 2" "known_in_memory demo_heap 2"
    by (simp_all add: known_in_memory_def in_memory_def demo_defs integer_var_def set_value_def BaseType_set_read_p_def Int32_new_def make_scalar_def)
  then have "\<forall>q \<in> set ?qs. plain_query demo_heap q" by (simp add: plain_query_def order_op_def at)
  then show ?thesis
    using eval_selection_cnf [of "\<lparr>ce_expr = map rel_clause ?qs, ce_constants = [], ce_functions = []\<rparr>" ?qs demo_heap demo_rx lib_read]
    by (simp add: holds_def int_at_def at)
qed

end
