(* ===== verification/Xml.thy ===== *)
theory Xml
  imports CLib
begin

text \<open>
  XML documents on both sides of libxml2: the calls of the writer (\<open>XMLWriter.cc\<close> and the \<open>print_dap4\<close> functions)
  and the call-backs of the SAX reader (\<open>D4ParserSax2.cc\<close>).  libxml2 is not code of this program; what it reports for
  a document that was written is the relation \<open>reported\<close>, with the freedom it has: white space of the
  indentation, text in pieces, line numbers.  A character that XML cannot carry has no rule, nor has raw text.
\<close>

section \<open>Writing\<close>

datatype xml_event =
    StartElement string
  | WriteAttribute string string
  | WriteString string
  | WriteRaw string
  | EndElement

text \<open>The writer is called with C strings.\<close>

definition xml_element :: "string \<Rightarrow> (string \<times> string) list \<Rightarrow> xml_event list \<Rightarrow> xml_event list" where
  "xml_element n as body = StartElement n # map (\<lambda>(a, v). WriteAttribute a (c_str v)) as @ body @ [EndElement]"

section \<open>Reading\<close>

text \<open>An attribute as the reader reports it; a null prefix or namespace is the empty string, as \<open>XMLAttribute\<close> has it.\<close>

record sax_attr =
  xa_prefix :: string
  xa_uri :: string
  xa_value :: string

datatype callback =
    Start_Document
  | End_Document
  | Start_Element string "string option" "string option" "(string option \<times> string) list" "(string \<times> sax_attr) list"
  | End_Element string "string option" "string option"
  | Characters string
  | Ignorable_Whitespace string
  | Cdata_Block string
  | Reader_Error string
  | Reader_Fatal_Error string

type_synonym callbacks = "(int \<times> callback) list"

definition xml_text :: "string \<Rightarrow> bool" where
  "xml_text s \<longleftrightarrow> (\<forall>c \<in> set s. let n = of_char c :: nat in n \<in> {9, 10, 13} \<or> 32 \<le> n \<and> n < 128)"

definition xml_ns :: string where "xml_ns = ''http://www.w3.org/XML/1998/namespace''"

text \<open>The attributes that are written at the start of an element.\<close>

fun written_attrs :: "xml_event list \<Rightarrow> (string \<times> string) list \<times> xml_event list" where
  "written_attrs (WriteAttribute a v # evs) = (case written_attrs evs of (as, r) \<Rightarrow> ((a, v) # as, r))"
| "written_attrs evs = ([], evs)"

fun sax_attrs :: "(string \<times> string) list \<Rightarrow> (string \<times> sax_attr) list" where
  "sax_attrs [] = []"
| "sax_attrs ((a, v) # as) =
     (if a = ''xmlns'' then sax_attrs as
      else if starts_with ''xml:'' a then (drop 4 a, \<lparr>xa_prefix = ''xml'', xa_uri = xml_ns, xa_value = v\<rparr>) # sax_attrs as
      else (a, \<lparr>xa_prefix = [], xa_uri = [], xa_value = v\<rparr>) # sax_attrs as)"

definition namespaces :: "(string \<times> string) list \<Rightarrow> (string option \<times> string) list" where
  "namespaces as = (case map_of as ''xmlns'' of None \<Rightarrow> [] | Some u \<Rightarrow> [(None, u)])"

definition default_ns :: "(string \<times> string) list \<Rightarrow> string option \<Rightarrow> string option" where
  "default_ns as outer = (case map_of as ''xmlns'' of None \<Rightarrow> outer | Some u \<Rightarrow> if u = [] then None else Some u)"

definition prefix_ok :: "string \<Rightarrow> bool" where
  "prefix_ok a \<longleftrightarrow> CHR '':'' \<notin> set a \<or> starts_with ''xml:'' a"

text \<open>
  The open elements with the default namespace inside them; whether an end tag has just been reported, after which the
  writer may have put a line break.  It indents before a tag, never inside an element that holds text.
\<close>

inductive reported :: "bool \<Rightarrow> (string \<times> string option) list \<Rightarrow> xml_event list \<Rightarrow> callbacks \<Rightarrow> bool" where
  r_nil: "reported after [] [] []"
| r_start: "written_attrs evs = (as, body) \<Longrightarrow> ns = (case st of [] \<Rightarrow> None | (m, u) # st' \<Rightarrow> u) \<Longrightarrow>
    CHR '':'' \<notin> set n \<Longrightarrow> distinct (map fst as) \<Longrightarrow> \<forall>(a, v) \<in> set as. prefix_ok a \<and> xml_text v \<Longrightarrow>
    reported False ((n, default_ns as ns) # st) body cs \<Longrightarrow>
    reported after st (StartElement n # evs) ((l, Start_Element n None (default_ns as ns) (namespaces as) (sax_attrs as)) # cs)"
| r_indent: "list_all is_space w \<Longrightarrow> reported after st (StartElement n # evs) cs \<Longrightarrow>
    c \<in> {Characters w, Ignorable_Whitespace w} \<Longrightarrow> reported after st (StartElement n # evs) ((l, c) # cs)"
| r_text: "xml_text s \<Longrightarrow> concat ws = s \<Longrightarrow> reported False st evs cs \<Longrightarrow>
    reported after st (WriteString s # evs) (map (\<lambda>(l, w). (l, Characters w)) (zip ls ws) @ cs)" if "length ls = length ws"
| r_end: "reported True st evs cs \<Longrightarrow> reported after ((n, u) # st) (EndElement # evs) ((l, End_Element n None u) # cs)"
| r_break: "list_all is_space w \<Longrightarrow> reported True st evs cs \<Longrightarrow> st \<noteq> [] \<Longrightarrow>
    c \<in> {Characters w, Ignorable_Whitespace w} \<Longrightarrow> reported True st evs ((l, c) # cs)"

text \<open>A whole document, from the first call-back to the last.\<close>

definition document_reported :: "xml_event list \<Rightarrow> callbacks \<Rightarrow> bool" where
  "document_reported evs cs \<longleftrightarrow>
     (\<exists>l body l'. cs = (l, Start_Document) # body @ [(l', End_Document)] \<and> reported False [] evs body)"

end
