(* ===== verification/Arrays.thy ===== *)
theory Arrays
  imports Scalars
begin

text \<open>
  Shared dimensions and enumeration definitions (\<open>D4Dimensions.cc\<close>, \<open>D4EnumDefs.cc\<close>) and the shape of an
  array: its dimensions, their constraints and the number of elements they select (\<open>Array.cc\<close>).  A
  \<open>D4Dimension\<close> is known by its address, since arrays point to it; an iterator over a vector is an index.
  An \<open>int\<close> that overflows wraps.
\<close>

section \<open>Shared dimensions\<close>

record d4dimension =
  dd_addr :: nat
  dd_name :: string
  dd_size :: u64
  dd_constrained :: bool
  dd_start :: u64
  dd_stride :: u64
  dd_stop :: u64
  dd_used_by_projected_var :: bool

definition D4Dimension :: "nat \<Rightarrow> string \<Rightarrow> u64 \<Rightarrow> d4dimension" where
  "D4Dimension a n sz = \<lparr>dd_addr = a, dd_name = n, dd_size = sz, dd_constrained = False, dd_start = 0, dd_stride = 0,
     dd_stop = 0, dd_used_by_projected_var = False\<rparr>"

text \<open>\<open>iss >> value\<close> for an \<open>unsigned long\<close>: whether it failed, the value, and what is left.\<close>

definition get_ulong :: "string \<Rightarrow> bool \<times> u64 \<times> string" where
  "get_ulong s =
     (let t = dropWhile is_space s;
          u = (if starts_with ''-'' t \<or> starts_with ''+'' t then tl t else t);
          ds = takeWhile is_digit u; n = digits_value 10 ds in
      if ds = [] then (True, 0, u)
      else if 2 ^ 64 \<le> n then (True, - 1, drop (length ds) u)
      else (False, if starts_with ''-'' t then - of_nat n else of_nat n, drop (length ds) u))"

definition set_size :: "u64 \<Rightarrow> d4dimension \<Rightarrow> d4dimension" where
  "set_size n d = d\<lparr>dd_size := n\<rparr>"

definition set_size_text :: "string \<Rightarrow> d4dimension \<Rightarrow> d4dimension result" where
  "set_size_text txt d = (case get_ulong txt of (failed, value, rest) \<Rightarrow>
     if failed \<or> rest \<noteq> []
     then Inl (Error unknown_error (''Invalid value '' @ [CHR 0x27] @ txt @ [CHR 0x27] @ '' passed to D4Dimension::set_size.''))
     else Inr (set_size value d))"

definition set_constraint :: "u64 \<Rightarrow> u64 \<Rightarrow> u64 \<Rightarrow> d4dimension \<Rightarrow> d4dimension" where
  "set_constraint start stride stop d =
     d\<lparr>dd_start := start, dd_stride := stride, dd_stop := stop, dd_constrained := True\<rparr>"

definition find_dim :: "string \<Rightarrow> d4dimension list \<Rightarrow> d4dimension option" where
  "find_dim name ds = find (\<lambda>d. dd_name d = name) ds"

definition add_dim_nocopy :: "d4dimension \<Rightarrow> d4dimension list \<Rightarrow> d4dimension list" where
  "add_dim_nocopy d ds = ds @ [d]"

definition insert_dim_nocopy :: "d4dimension \<Rightarrow> nat \<Rightarrow> d4dimension list \<Rightarrow> d4dimension list" where
  "insert_dim_nocopy d i ds = take i ds @ d # drop i ds"

text \<open>
  A copy is a new object: the \<open>i\<close>-th gets the address \<open>fresh i\<close>.  The constructor copies into an empty list, the
  assignment appends to what is there.
\<close>

definition dims_duplicate :: "(nat \<Rightarrow> nat) \<Rightarrow> d4dimension list \<Rightarrow> d4dimension list \<Rightarrow> d4dimension list" where
  "dims_duplicate fresh this rhs = this @ map (\<lambda>(i, d). d\<lparr>dd_addr := fresh i\<rparr>) (enumerate 0 rhs)"

definition add_dim :: "nat \<Rightarrow> d4dimension \<Rightarrow> d4dimension list \<Rightarrow> d4dimension list" where
  "add_dim a d ds = add_dim_nocopy (d\<lparr>dd_addr := a\<rparr>) ds"

section \<open>Enumeration definitions\<close>

record d4enumdef =
  ed_addr :: nat
  ed_name :: string
  ed_type :: Type
  ed_tuples :: "(string \<times> u64) list"

definition D4EnumDef :: "nat \<Rightarrow> string \<Rightarrow> Type \<Rightarrow> d4enumdef" where
  "D4EnumDef a n t = \<lparr>ed_addr = a, ed_name = n, ed_type = t, ed_tuples = []\<rparr>"

definition add_value :: "string \<Rightarrow> u64 \<Rightarrow> d4enumdef \<Rightarrow> d4enumdef" where
  "add_value label value e = e\<lparr>ed_tuples := ed_tuples e @ [(label, value)]\<rparr>"

definition is_valid_enum_value :: "u64 \<Rightarrow> d4enumdef \<Rightarrow> bool" where
  "is_valid_enum_value value e =
     (let v = sint value; t = ed_type e in
      if t = dods_int8_c then DODS_SCHAR_MIN \<le> v \<and> v \<le> DODS_SCHAR_MAX
      else if t \<in> {dods_byte_c, dods_uint8_c} then 0 \<le> v \<and> uint value \<le> DODS_UCHAR_MAX
      else if t = dods_int16_c then DODS_SHRT_MIN \<le> v \<and> v \<le> DODS_SHRT_MAX
      else if t = dods_uint16_c then 0 \<le> v \<and> uint value \<le> DODS_USHRT_MAX
      else if t = dods_int32_c then DODS_INT_MIN \<le> v \<and> v \<le> DODS_INT_MAX
      else if t = dods_uint32_c then 0 \<le> v \<and> uint value \<le> DODS_UINT_MAX
      else if t = dods_int64_c then True
      else if t = dods_uint64_c then 0 \<le> v
      else False)"

definition find_enum_def :: "string \<Rightarrow> d4enumdef list \<Rightarrow> d4enumdef option" where
  "find_enum_def name es = find (\<lambda>e. ed_name e = name) es"

definition add_enum_nocopy :: "d4enumdef \<Rightarrow> d4enumdef list \<Rightarrow> d4enumdef list" where
  "add_enum_nocopy e es = es @ [e]"

definition insert_enum :: "nat \<Rightarrow> d4enumdef \<Rightarrow> nat \<Rightarrow> d4enumdef list \<Rightarrow> d4enumdef list" where
  "insert_enum a e i es = take i es @ e\<lparr>ed_addr := a\<rparr> # drop i es"

definition enums_duplicate :: "(nat \<Rightarrow> nat) \<Rightarrow> d4enumdef list \<Rightarrow> d4enumdef list \<Rightarrow> d4enumdef list" where
  "enums_duplicate fresh this rhs = this @ map (\<lambda>(i, e). e\<lparr>ed_addr := fresh i\<rparr>) (enumerate 0 rhs)"

section \<open>The dimensions of an array\<close>

record dimension =
  dm_size :: int
  dm_name :: string
  dm_dim :: "nat option"
  use_sdim_for_slice :: bool
  dm_start :: int
  dm_stop :: int
  dm_stride :: int
  dm_c_size :: int

definition dimension_of_size :: "int \<Rightarrow> string \<Rightarrow> dimension" where
  "dimension_of_size s n = \<lparr>dm_size = s, dm_name = n, dm_dim = None, use_sdim_for_slice = False,
     dm_start = 0, dm_stop = to_int (s - 1), dm_stride = 1, dm_c_size = s\<rparr>"

definition dimension_of_dim :: "d4dimension \<Rightarrow> dimension" where
  "dimension_of_dim d = (let s = to_int (uint (dd_size d)) in
     \<lparr>dm_size = s, dm_name = dd_name d, dm_dim = Some (dd_addr d), use_sdim_for_slice = True,
      dm_start = 0, dm_stop = to_int (s - 1), dm_stride = 1, dm_c_size = s\<rparr>)"

text \<open>The shape with the length that \<open>Vector\<close> keeps, which is \<open>-1\<close> before the first dimension.\<close>

record array_shape =
  a_length :: int
  a_shape :: "dimension list"

definition update_length :: "array_shape \<Rightarrow> array_shape" where
  "update_length a = a\<lparr>a_length := foldl (\<lambda>n d. to_int (n * dm_c_size d)) 1 (a_shape a)\<rparr>"

definition append_dimension :: "dimension \<Rightarrow> array_shape \<Rightarrow> array_shape" where
  "append_dimension d a = update_length (a\<lparr>a_shape := a_shape a @ [d]\<rparr>)"

definition prepend_dimension :: "dimension \<Rightarrow> array_shape \<Rightarrow> array_shape" where
  "prepend_dimension d a = update_length (a\<lparr>a_shape := d # a_shape a\<rparr>)"

text \<open>\<open>www2id\<close> with its default arguments; \<open>junk\<close> is what a decoded byte is when no digits follow.\<close>

definition www2id_all :: "int \<Rightarrow> string \<Rightarrow> string" where
  "www2id_all junk s = www2id junk s ''%'' []"

definition append_dim :: "int \<Rightarrow> int \<Rightarrow> string \<Rightarrow> array_shape \<Rightarrow> array_shape" where
  "append_dim junk sz name a = append_dimension (dimension_of_size sz (www2id_all junk name)) a"

definition append_d4dim :: "d4dimension \<Rightarrow> array_shape \<Rightarrow> array_shape" where
  "append_d4dim d a = append_dimension (dimension_of_dim d) a"

definition prepend_dim :: "int \<Rightarrow> int \<Rightarrow> string \<Rightarrow> array_shape \<Rightarrow> array_shape" where
  "prepend_dim junk sz name a = prepend_dimension (dimension_of_size sz (www2id_all junk name)) a"

definition prepend_d4dim :: "d4dimension \<Rightarrow> array_shape \<Rightarrow> array_shape" where
  "prepend_d4dim d a = prepend_dimension (dimension_of_dim d) a"

definition clear_all_dims :: "array_shape \<Rightarrow> array_shape" where
  "clear_all_dims a = a\<lparr>a_shape := []\<rparr>"

definition rename_dim :: "string \<Rightarrow> string \<Rightarrow> array_shape \<Rightarrow> array_shape" where
  "rename_dim oldName newName a =
     a\<lparr>a_shape := map (\<lambda>d. if dm_name d = oldName then d\<lparr>dm_name := newName\<rparr> else d) (a_shape a)\<rparr>"

definition reset_dimension :: "dimension \<Rightarrow> dimension" where
  "reset_dimension d = d\<lparr>dm_start := 0, dm_stop := to_int (dm_size d - 1), dm_stride := 1, dm_c_size := dm_size d\<rparr>"

definition reset_constraint :: "array_shape \<Rightarrow> array_shape" where
  "reset_constraint a =
     (let a1 = a\<lparr>a_length := -1, a_shape := map reset_dimension (a_shape a)\<rparr> in
      if a_shape a = [] then a1 else update_length a1)"

definition array_sss :: string where
  "array_sss = ''Invalid constraint parameters: At least one of the start, stride or stop '' @ [CHR 0x0A]
     @ ''specified do not match the array variable.''"

definition add_constraint :: "nat \<Rightarrow> int \<Rightarrow> int \<Rightarrow> int \<Rightarrow> array_shape \<Rightarrow> array_shape result" where
  "add_constraint i start stride stop0 a =
     (if length (a_shape a) \<le> i then Inl invalid_pointer
      else let d = a_shape a ! i; stop = (if stop0 = -1 then to_int (dm_size d - 1) else stop0) in
        if dm_size d \<le> start \<or> dm_size d \<le> stop \<or> dm_size d < stride \<or> stride \<le> 0
        then Inl (Error malformed_expr array_sss)
        else let n = to_int (tdiv (to_int (stop - start)) stride + 1) in
          if dm_size d < n then Inl (Error malformed_expr array_sss)
          else let d1 = d\<lparr>dm_start := start, dm_stop := stop, dm_stride := stride, dm_c_size := n,
                 use_sdim_for_slice := False\<rparr> in
            Inr (update_length (a\<lparr>a_shape := (a_shape a)[i := d1]\<rparr>)))"

text \<open>The constraint of a shared dimension; the dimension is marked as used.\<close>

definition use_sdim :: "nat \<Rightarrow> array_shape \<Rightarrow> array_shape" where
  "use_sdim i a = a\<lparr>a_shape := (a_shape a)[i := (a_shape a ! i)\<lparr>use_sdim_for_slice := True\<rparr>]\<rparr>"

definition add_constraint_dim :: "nat \<Rightarrow> d4dimension \<Rightarrow> array_shape \<Rightarrow> (array_shape \<times> d4dimension) result" where
  "add_constraint_dim i dim a =
     (if length (a_shape a) \<le> i then Inl invalid_pointer
      else case (if dd_constrained dim
                 then add_constraint i (to_int (uint (dd_start dim))) (to_int (uint (dd_stride dim))) (to_int (uint (dd_stop dim))) a
                 else Inr a) of
        Inl e \<Rightarrow> Inl e
      | Inr a1 \<Rightarrow> Inr (use_sdim i a1, dim\<lparr>dd_used_by_projected_var := True\<rparr>))"

definition dimensions :: "array_shape \<Rightarrow> nat" where
  "dimensions a = length (a_shape a)"

text \<open>The accessors look at the iterator only when there are dimensions.\<close>

definition dimension_field :: "(dimension \<Rightarrow> 'a) \<Rightarrow> 'a \<Rightarrow> nat \<Rightarrow> array_shape \<Rightarrow> 'a result" where
  "dimension_field f z i a =
     (if a_shape a = [] then Inr z else if i < length (a_shape a) then Inr (f (a_shape a ! i)) else Inl invalid_pointer)"

definition dimension_size :: "nat \<Rightarrow> bool \<Rightarrow> array_shape \<Rightarrow> int result" where
  "dimension_size i constrained a = dimension_field (if constrained then dm_c_size else dm_size) 0 i a"

definition dimension_start :: "nat \<Rightarrow> array_shape \<Rightarrow> int result" where
  "dimension_start i a = dimension_field dm_start 0 i a"

definition dimension_stop :: "nat \<Rightarrow> array_shape \<Rightarrow> int result" where
  "dimension_stop i a = dimension_field dm_stop 0 i a"

definition dimension_stride :: "nat \<Rightarrow> array_shape \<Rightarrow> int result" where
  "dimension_stride i a = dimension_field dm_stride 0 i a"

definition dimension_name :: "nat \<Rightarrow> array_shape \<Rightarrow> string result" where
  "dimension_name i a =
     (if a_shape a = [] then Inl (InternalErr ''*This* array has no dimensions.'')
      else if i < length (a_shape a) then Inr (dm_name (a_shape a ! i)) else Inl invalid_pointer)"

definition dimension_D4dim :: "nat \<Rightarrow> array_shape \<Rightarrow> nat option result" where
  "dimension_D4dim i a = dimension_field dm_dim None i a"

text \<open>
  When a group is copied, its arrays still point to the dimensions of the original; every pointer into the
  old list is replaced by the dimension of that name in the new list.  A pointer that has been replaced is
  compared with the rest of the old list as well.
\<close>

definition update_dimension_pointers :: "d4dimension list \<Rightarrow> d4dimension list \<Rightarrow> array_shape \<Rightarrow> array_shape" where
  "update_dimension_pointers old_dims new_dims a =
     a\<lparr>a_shape := map (\<lambda>d. foldl (\<lambda>d o'. if dm_dim d = Some (dd_addr o')
         then d\<lparr>dm_dim := map_option dd_addr (find_dim (dd_name o') new_dims)\<rparr> else d) d old_dims) (a_shape a)\<rparr>"

text \<open>
  \<open>print_array\<close>: the elements in braces, one pair of braces per row of the innermost dimension.
  \<open>elem i\<close> is the text of the \<open>i\<close>-th element, \<open>rows\<close> the loop over the outer dimension.
\<close>

fun print_row :: "(nat \<Rightarrow> string) \<Rightarrow> nat \<Rightarrow> nat \<Rightarrow> string \<times> nat" where
  "print_row elem index 0 = ([], index)"
| "print_row elem index (Suc 0) = (elem index, index + 1)"
| "print_row elem index (Suc n) = (case print_row elem (index + 1) n of (s, j) \<Rightarrow> (elem index @ '', '' @ s, j))"

fun print_array :: "(nat \<Rightarrow> string) \<Rightarrow> nat list \<Rightarrow> nat \<Rightarrow> string \<times> nat"
  and print_rows :: "(nat \<Rightarrow> string) \<Rightarrow> nat list \<Rightarrow> nat \<Rightarrow> nat \<Rightarrow> string \<times> nat" where
  "print_array elem [] index = ([], index)"
| "print_array elem [n] index = (case print_row elem index n of (s, j) \<Rightarrow> (''{'' @ s @ ''}'', j))"
| "print_array elem (n # m # dims) index = (case print_rows elem (m # dims) n index of (s, j) \<Rightarrow> (''{'' @ s @ ''}'', j))"
| "print_rows elem dims 0 index = ([], index)"
| "print_rows elem dims (Suc 0) index = print_array elem dims index"
| "print_rows elem dims (Suc (Suc n)) index = (case print_array elem dims index of (s, j) \<Rightarrow>
     (case print_rows elem dims (Suc n) j of (t, k) \<Rightarrow> (s @ '','' @ t, k)))"

section \<open>What a shape selects\<close>

definition selection :: "dimension \<Rightarrow> int set" where
  "selection d = {k. dm_start d \<le> k \<and> k \<le> dm_stop d \<and> dm_stride d dvd k - dm_start d}"

definition dim_ok :: "dimension \<Rightarrow> bool" where
  "dim_ok d \<longleftrightarrow> 0 \<le> dm_size d \<and> dm_size d < 2 ^ 31 \<and> 0 \<le> dm_start d \<and> dm_stop d < dm_size d \<and>
     dm_c_size d = int (card (selection d))"

text \<open>The index tuples that the shape selects.\<close>

definition index_tuples :: "array_shape \<Rightarrow> int list set" where
  "index_tuples a = listset (map selection (a_shape a))"

definition size_product :: "array_shape \<Rightarrow> int" where
  "size_product a = prod_list (map dm_c_size (a_shape a))"

definition shape_ok :: "array_shape \<Rightarrow> bool" where
  "shape_ok a \<longleftrightarrow> (\<forall>d \<in> set (a_shape a). dim_ok d) \<and> (a_shape a \<noteq> [] \<longrightarrow> a_length a = a_length (update_length a))"

lemma card_progression:
  assumes "start \<le> stop" "0 < (s::int)"
  shows "card {k. start \<le> k \<and> k \<le> stop \<and> s dvd k - start} = nat ((stop - start) div s + 1)"
proof -
  have "{k. start \<le> k \<and> k \<le> stop \<and> s dvd k - start} = (\<lambda>j. start + s * j) ` {0..(stop - start) div s}"
  proof (intro set_eqI iffI)
    fix k assume "k \<in> {k. start \<le> k \<and> k \<le> stop \<and> s dvd k - start}"
    then obtain j where j: "k - start = s * j" "start \<le> k" "k \<le> stop" by (auto elim: dvdE)
    have "0 \<le> s * j" "s * j \<le> stop - start" using j by linarith+
    then have "0 \<le> j" using assms(2) by (simp add: zero_le_mult_iff)
    moreover have "s * j div s \<le> (stop - start) div s" using \<open>s * j \<le> stop - start\<close> assms(2) by (rule zdiv_mono1)
    ultimately have "0 \<le> j" "j \<le> (stop - start) div s" using assms(2) by simp_all
    then show "k \<in> (\<lambda>j. start + s * j) ` {0..(stop - start) div s}"
      using j(1) by (intro image_eqI [of _ _ j]) auto
  next
    fix k assume "k \<in> (\<lambda>j. start + s * j) ` {0..(stop - start) div s}"
    then obtain j where "k = start + s * j" "j \<in> {0..(stop - start) div s}" by blast
    then have j: "k = start + s * j" "0 \<le> j" "j \<le> (stop - start) div s" by simp_all
    have "s * j \<le> s * ((stop - start) div s)" using j(3) assms(2) by simp
    also have "\<dots> \<le> stop - start" using pos_mod_sign [of s "stop - start"] assms(2) by (simp add: minus_mod_eq_mult_div [symmetric])
    finally show "k \<in> {k. start \<le> k \<and> k \<le> stop \<and> s dvd k - start}" using j assms(2) by simp
  qed
  moreover have "inj_on (\<lambda>j. start + s * j) A" for A using assms(2) by (auto simp: inj_on_def)
  ultimately show ?thesis by (simp add: card_image)
qed


lemma selection_finite [simp]: "finite (selection d)"
  by (rule finite_subset [of _ "{dm_start d..dm_stop d}"]) (auto simp: selection_def)

lemma selection_new: "0 \<le> s \<Longrightarrow> s < 2 ^ 31 \<Longrightarrow> dim_ok (dimension_of_size s n)"
  using card_progression [of 0 "s - 1" 1] by (cases "s = 0") (simp_all add: dim_ok_def dimension_of_size_def selection_def)

lemma selection_reset: "dim_ok d \<Longrightarrow> dim_ok (reset_dimension d)"
  using card_progression [of 0 "dm_size d - 1" 1]
  by (cases "dm_size d = 0") (simp_all add: dim_ok_def reset_dimension_def selection_def)

lemma card_listset: "\<forall>A \<in> set As. finite A \<Longrightarrow> finite (listset As) \<and> card (listset As) = prod_list (map card As)"
proof (induction As)
  case (Cons A As)
  have "listset (A # As) = (\<lambda>(x, xs). x # xs) ` (A \<times> listset As)" by (auto simp: set_Cons_def)
  moreover have "inj_on (\<lambda>(x, xs). x # xs) (A \<times> listset As)" by (auto simp: inj_on_def)
  ultimately show ?case using Cons by (simp add: card_image)
qed simp

lemma prod_list_pos: "\<forall>x \<in> set xs. 1 \<le> (x :: int) \<Longrightarrow> 1 \<le> prod_list xs"
proof (induction xs)
  case (Cons x xs)
  then have "1 * 1 \<le> x * prod_list xs" by (intro mult_mono) auto
  then show ?case by simp
qed simp

text \<open>The product of the sizes, computed at 32 bits, is exact when it fits.\<close>

lemma length_no_wrap:
  assumes "\<forall>d \<in> set ds. 1 \<le> dm_c_size d" "0 \<le> n" "n * prod_list (map dm_c_size ds) < 2 ^ 31"
  shows "foldl (\<lambda>n d. to_int (n * dm_c_size d)) n ds = n * prod_list (map dm_c_size ds)"
  using assms
proof (induction ds arbitrary: n)
  case (Cons d ds)
  have "1 \<le> prod_list (map dm_c_size ds)" using Cons.prems(1) by (intro prod_list_pos) auto
  moreover have "0 \<le> n * dm_c_size d" using Cons.prems(1,2) by simp
  ultimately have "n * dm_c_size d * 1 \<le> n * dm_c_size d * prod_list (map dm_c_size ds)"
    by (intro mult_left_mono) auto
  then show ?case
    using Cons.IH [of "n * dm_c_size d"] Cons.prems \<open>0 \<le> n * dm_c_size d\<close> by (simp add: mult.assoc)
qed simp

lemma length_zero:
  assumes "d \<in> set ds" "dm_c_size d = 0"
  shows "foldl (\<lambda>n d. to_int (n * dm_c_size d)) n ds = 0"
proof -
  have zero: "foldl (\<lambda>n d. to_int (n * dm_c_size d)) 0 es = 0" for es by (induction es) simp_all
  show ?thesis using assms by (induction ds arbitrary: n) (auto simp: zero)
qed

lemma length_exact:
  assumes "\<forall>d \<in> set (a_shape a). 0 \<le> dm_c_size d" "size_product a < 2 ^ 31"
  shows "a_length (update_length a) = size_product a"
proof (cases "\<exists>d \<in> set (a_shape a). dm_c_size d = 0")
  case True
  then have "size_product a = 0" by (force simp: size_product_def prod_list_zero_iff)
  then show ?thesis using True length_zero by (auto simp: update_length_def)
next
  case False
  then have "\<forall>d \<in> set (a_shape a). 1 \<le> dm_c_size d" using assms(1) by force
  then show ?thesis using length_no_wrap [of "a_shape a" 1] assms(2) by (simp add: update_length_def size_product_def)
qed

lemma card_index_tuples:
  assumes "\<forall>d \<in> set (a_shape a). dim_ok d"
  shows "int (card (index_tuples a)) = size_product a"
proof -
  have "map dm_c_size (a_shape a) = map int (map card (map selection (a_shape a)))" using assms by (simp add: dim_ok_def)
  moreover have "prod_list (map int xs) = int (prod_list xs)" for xs by (induction xs) simp_all
  ultimately have "size_product a = int (prod_list (map card (map selection (a_shape a))))" by (simp only: size_product_def)
  then show ?thesis
    using card_listset [of "map selection (a_shape a)"] by (simp add: index_tuples_def)
qed

section \<open>Adding a constraint\<close>

definition stop_of :: "int \<Rightarrow> dimension \<Rightarrow> int" where
  "stop_of stop d = (if stop = -1 then dm_size d - 1 else stop)"

definition sliced :: "int \<Rightarrow> int \<Rightarrow> int \<Rightarrow> int \<Rightarrow> dimension \<Rightarrow> dimension" where
  "sliced start stride s n d =
     d\<lparr>dm_start := start, dm_stop := s, dm_stride := stride, dm_c_size := n, use_sdim_for_slice := False\<rparr>"

lemma add_constraint_eq:
  assumes "i < length (a_shape a)" "d = a_shape a ! i" "0 \<le> dm_size d" "dm_size d < 2 ^ 31" "s = stop_of stop d"
    and "- 1 \<le> s" "0 \<le> start"
  shows "add_constraint i start stride stop a =
    (if dm_size d \<le> start \<or> dm_size d \<le> s \<or> dm_size d < stride \<or> stride \<le> 0 \<or> dm_size d < tdiv (s - start) stride + 1
     then Inl (Error malformed_expr array_sss)
     else Inr (update_length (a\<lparr>a_shape := (a_shape a)[i := sliced start stride s (tdiv (s - start) stride + 1) d]\<rparr>)))"
proof -
  have s: "(if stop = -1 then to_int (dm_size d - 1) else stop) = s"
    using assms(3-5) by (cases "dm_size d = 0") (simp_all add: stop_of_def)
  have "to_int (s - start) = s - start" "to_int (tdiv (s - start) stride + 1) = tdiv (s - start) stride + 1"
    if "start < dm_size d" "s < dm_size d" "0 < stride"
  proof -
    have r: "- (2 ^ 31) < s - start" "s - start < 2 ^ 31 - 1" using that assms(4,6,7) by simp_all
    then have "- (2 ^ 31) < tdiv (s - start) stride" "tdiv (s - start) stride < 2 ^ 31 - 1"
      using tdiv_bounds [OF that(3), of "s - start"] by (cases "0 \<le> s - start"; linarith)+
    then show "to_int (s - start) = s - start" "to_int (tdiv (s - start) stride + 1) = tdiv (s - start) stride + 1"
      using r by simp_all
  qed
  note ints = this
  show ?thesis
  proof (cases "dm_size d \<le> start \<or> dm_size d \<le> s \<or> dm_size d < stride \<or> stride \<le> 0")
    case True
    then show ?thesis using assms(1) by (auto simp: add_constraint_def Let_def s simp flip: assms(2))
  next
    case False
    then have "to_int (tdiv (to_int (s - start)) stride + 1) = tdiv (s - start) stride + 1" using ints by auto
    then show ?thesis using False assms(1) by (simp add: add_constraint_def Let_def s sliced_def flip: assms(2))
  qed
qed

section \<open>Sequences of operations\<close>

datatype shape_op =
    Append int string | Append_Dim d4dimension | Prepend int string | Prepend_Dim d4dimension
  | Constrain nat int int int | Constrain_Dim nat d4dimension | Rename string string | Reset_All | Clear_All

fun shape_step :: "int \<Rightarrow> shape_op \<Rightarrow> array_shape \<Rightarrow> array_shape result" where
  "shape_step junk (Append s n) a = Inr (append_dim junk s n a)"
| "shape_step junk (Append_Dim d) a = Inr (append_d4dim d a)"
| "shape_step junk (Prepend s n) a = Inr (prepend_dim junk s n a)"
| "shape_step junk (Prepend_Dim d) a = Inr (prepend_d4dim d a)"
| "shape_step junk (Constrain i start stride stop) a = add_constraint i start stride stop a"
| "shape_step junk (Constrain_Dim i d) a = map_sum id fst (add_constraint_dim i d a)"
| "shape_step junk (Rename old new) a = Inr (rename_dim old new a)"
| "shape_step junk Reset_All a = Inr (reset_constraint a)"
| "shape_step junk Clear_All a = Inr (clear_all_dims a)"

text \<open>An operation that throws has not changed the array.\<close>

definition shape_run :: "int \<Rightarrow> shape_op list \<Rightarrow> array_shape \<Rightarrow> array_shape" where
  "shape_run junk ops a = foldl (\<lambda>a x. case shape_step junk x a of Inl e \<Rightarrow> a | Inr a1 \<Rightarrow> a1) a ops"

text \<open>Sizes of an \<open>int\<close>, and constraints whose start does not lie behind their stop.\<close>

fun request_ok :: "shape_op \<Rightarrow> bool" where
  "request_ok (Append s n) = (0 \<le> s \<and> s < 2 ^ 31)"
| "request_ok (Append_Dim d) = (uint (dd_size d) < 2 ^ 31)"
| "request_ok (Prepend s n) = (0 \<le> s \<and> s < 2 ^ 31)"
| "request_ok (Prepend_Dim d) = (uint (dd_size d) < 2 ^ 31)"
| "request_ok (Constrain i start stride stop) = (0 \<le> start \<and> (stop = -1 \<or> start \<le> stop))"
| "request_ok (Constrain_Dim i d) = (uint (dd_start d) \<le> uint (dd_stop d) \<and> uint (dd_stop d) < 2 ^ 31 \<and> uint (dd_stride d) < 2 ^ 31)"
| "request_ok x = True"

lemma shape_okI:
  "\<forall>d \<in> set (a_shape a). dim_ok d \<Longrightarrow> shape_ok (update_length a)"
  by (simp add: shape_ok_def update_length_def)

lemma dim_ok_d4: "uint (dd_size d) < 2 ^ 31 \<Longrightarrow> dim_ok (dimension_of_dim d)"
proof -
  assume "uint (dd_size d) < 2 ^ 31"
  then have "dimension_of_dim d = (dimension_of_size (uint (dd_size d)) (dd_name d))\<lparr>dm_dim := Some (dd_addr d), use_sdim_for_slice := True\<rparr>"
    by (simp add: dimension_of_dim_def dimension_of_size_def Let_def)
  moreover have "dim_ok (e\<lparr>dm_dim := p, use_sdim_for_slice := b\<rparr>) = dim_ok e" for e p b by (simp add: dim_ok_def selection_def)
  ultimately show ?thesis using selection_new [of "uint (dd_size d)"] \<open>uint (dd_size d) < 2 ^ 31\<close> by simp
qed

lemma dim_ok_sdim [simp]: "dim_ok (d\<lparr>use_sdim_for_slice := b\<rparr>) = dim_ok d" "dim_ok (d\<lparr>dm_name := n\<rparr>) = dim_ok d"
  by (simp_all add: dim_ok_def selection_def)

lemma shape_ok_rename: "shape_ok a \<Longrightarrow> shape_ok (rename_dim old new a)"
  by (auto simp: shape_ok_def rename_dim_def update_length_def foldl_map if_distrib [of dm_c_size] cong: if_cong)

lemma shape_ok_use_sdim: "shape_ok a \<Longrightarrow> i < length (a_shape a) \<Longrightarrow> shape_ok (use_sdim i a)"
proof -
  assume a: "shape_ok a" "i < length (a_shape a)"
  have "map dm_c_size (a_shape (use_sdim i a)) = map dm_c_size (a_shape a)"
    using a(2) by (simp add: use_sdim_def map_update list_update_same_conv)
  then have "a_length (update_length (use_sdim i a)) = a_length (update_length a)"
    by (simp add: update_length_def flip: foldl_map [of "\<lambda>n k. to_int (n * k)" _ dm_c_size])
  moreover have "\<forall>d \<in> set (a_shape (use_sdim i a)). dim_ok d"
    using a by (auto simp: shape_ok_def use_sdim_def dest!: set_update_subset_insert [THEN subsetD])
  ultimately show ?thesis using a by (auto simp: shape_ok_def use_sdim_def)
qed

lemma add_constraint_ok:
  assumes "shape_ok a" "0 \<le> start" "stop = -1 \<or> start \<le> stop" "add_constraint i start stride stop a = Inr a1"
  shows "shape_ok a1 \<and> length (a_shape a1) = length (a_shape a)"
proof -
  let ?d = "a_shape a ! i"
  have i: "i < length (a_shape a)" using assms(4) by (auto simp: add_constraint_def split: if_splits)
  then have d: "dim_ok ?d" "0 \<le> dm_size ?d" "dm_size ?d < 2 ^ 31" using assms(1) by (simp_all add: shape_ok_def dim_ok_def)
  then have s: "- 1 \<le> stop_of stop ?d" using assms(2,3) by (auto simp: stop_of_def)
  note eq = add_constraint_eq [OF i refl d(2,3) refl s assms(2), where stride = stride]
  have c: "start < dm_size ?d" "stop_of stop ?d < dm_size ?d" "0 < stride" "stride \<le> dm_size ?d"
    "a1 = update_length (a\<lparr>a_shape := (a_shape a)[i := sliced start stride (stop_of stop ?d) (tdiv (stop_of stop ?d - start) stride + 1) ?d]\<rparr>)"
    using assms(4) unfolding eq by (auto split: if_splits)
  have le: "start \<le> stop_of stop ?d" using c(1) assms(3) by (auto simp: stop_of_def)
  have "dim_ok (sliced start stride (stop_of stop ?d) (tdiv (stop_of stop ?d - start) stride + 1) ?d)"
    using card_progression [OF le c(3)] d c le assms(2) by (simp add: dim_ok_def sliced_def selection_def pos_imp_zdiv_nonneg_iff)
  then show ?thesis
    using assms(1) unfolding c(5) by (auto simp: shape_ok_def update_length_def dest!: set_update_subset_insert [THEN subsetD])
qed

lemma shape_step_ok: "shape_ok a \<Longrightarrow> request_ok x \<Longrightarrow> shape_step junk x a = Inr a1 \<Longrightarrow> shape_ok a1"
proof (cases x)
  case (Constrain_Dim i d)
  assume a: "shape_ok a" "request_ok x" "shape_step junk x a = Inr a1"
  have "uint (dd_start d) < 2 ^ 31" using a(2) Constrain_Dim by simp
  then show ?thesis
    using a Constrain_Dim add_constraint_ok [OF a(1), of "uint (dd_start d)" "uint (dd_stop d)" i "uint (dd_stride d)"]
    by (auto simp: add_constraint_dim_def shape_ok_use_sdim split: if_splits sum.splits)
next
  case (Constrain i start stride stop)
  assume "shape_ok a" "request_ok x" "shape_step junk x a = Inr a1"
  then show ?thesis using Constrain add_constraint_ok [of a start stop i stride a1] by simp
next
  case (Rename old new)
  assume "shape_ok a" "request_ok x" "shape_step junk x a = Inr a1"
  then show ?thesis using Rename shape_ok_rename by auto
next
  case Reset_All
  assume "shape_ok a" "request_ok x" "shape_step junk x a = Inr a1"
  then show ?thesis
    using Reset_All by (auto simp: reset_constraint_def Let_def shape_ok_def selection_reset update_length_def split: if_splits)
qed (auto simp: append_dim_def append_d4dim_def prepend_dim_def prepend_d4dim_def append_dimension_def prepend_dimension_def
    selection_new dim_ok_d4 clear_all_dims_def shape_ok_def update_length_def)

lemma shape_run_ok: "\<forall>x \<in> set ops. request_ok x \<Longrightarrow> shape_ok a \<Longrightarrow> shape_ok (shape_run junk ops a)"
  unfolding shape_run_def
proof (induction ops arbitrary: a)
  case (Cons x ops)
  then have "shape_ok (case shape_step junk x a of Inl e \<Rightarrow> a | Inr a1 \<Rightarrow> a1)"
    using shape_step_ok [of a x junk] by (auto split: sum.splits)
  then show ?case using Cons by simp
qed simp

lemma shape_ok_length:
  assumes "shape_ok a" "a_shape a \<noteq> []" "size_product a < 2 ^ 31"
  shows "a_length a = int (card (index_tuples a))"
proof -
  have "\<forall>d \<in> set (a_shape a). 0 \<le> dm_c_size d" using assms(1) by (simp add: shape_ok_def dim_ok_def)
  then show ?thesis
    using length_exact [of a] card_index_tuples [of a] assms by (simp add: shape_ok_def)
qed

section \<open>Printing\<close>

text \<open>The rendering of a list of elements in the shape \<open>dims\<close>.\<close>

fun join :: "string \<Rightarrow> string list \<Rightarrow> string" where
  "join sep [] = []" | "join sep [s] = s" | "join sep (s # ss) = s @ sep @ join sep ss"

fun chunks_of :: "nat \<Rightarrow> nat \<Rightarrow> 'a list \<Rightarrow> 'a list list" where
  "chunks_of 0 k xs = []" | "chunks_of (Suc n) k xs = take k xs # chunks_of n k (drop k xs)"

fun nested :: "nat list \<Rightarrow> string list \<Rightarrow> string" where
  "nested [] xs = []"
| "nested [n] xs = ''{'' @ join '', '' xs @ ''}''"
| "nested (n # m # ns) xs = ''{'' @ join '','' (map (nested (m # ns)) (chunks_of n (m * prod_list ns) xs)) @ ''}''"

lemma join_Cons: "join sep (s # ss) = (if ss = [] then s else s @ sep @ join sep ss)"
  by (cases ss) simp_all

lemma print_row_eq: "print_row elem i n = (join '', '' (map elem [i..<i + n]), i + n)"
  by (induction elem i n rule: print_row.induct) (simp_all add: upt_conv_Cons join_Cons del: upt_Suc)

lemma chunks_of_upt: "chunks_of n k (map f [i..<i + n * k]) = map (\<lambda>j. map f [i + j * k..<i + j * k + k]) [0..<n]"
proof (induction n arbitrary: i)
  case (Suc n)
  have "[i..<i + Suc n * k] = [i..<i + k] @ [i + k..<i + k + n * k]"
    using upt_add_eq_append [of i "i + k" "n * k"] by (simp add: ac_simps)
  then have "chunks_of (Suc n) k (map f [i..<i + Suc n * k]) = map f [i..<i + k] # chunks_of n k (map f [i + k..<i + k + n * k])"
    by (simp del: upt_Suc)
  also have "\<dots> = map (\<lambda>j. map f [i + j * k..<i + j * k + k]) (0 # map Suc [0..<n])"
    unfolding Suc by (simp add: ac_simps)
  also have "0 # map Suc [0..<n] = [0..<Suc n]" by (simp add: map_Suc_upt upt_conv_Cons del: upt_Suc)
  finally show ?case .
qed simp

lemma print_array_eq:
  "dims \<noteq> [] \<Longrightarrow> print_array elem dims i = (nested dims (map elem [i..<i + prod_list dims]), i + prod_list dims)"
  "dims \<noteq> [] \<Longrightarrow> print_rows elem dims n i =
    (join '','' (map (\<lambda>j. nested dims (map elem [i + j * prod_list dims..<i + j * prod_list dims + prod_list dims])) [0..<n]),
     i + n * prod_list dims)"
proof (induction elem dims i and elem dims n i rule: print_array_print_rows.induct)
  case (3 elem n m ns i)
  then show ?case using chunks_of_upt [of n "m * prod_list ns" elem i] by (simp add: comp_def mult.assoc)
next
  case (6 elem dims n i)
  let ?k = "prod_list dims" and ?g = "\<lambda>i j. nested dims (map elem [i + j * prod_list dims..<i + j * prod_list dims + prod_list dims])"
  have "map (?g (i + ?k)) [0..<Suc n] = map (?g i) [1..<Suc (Suc n)]"
    by (simp add: map_Suc_upt [symmetric] comp_def ac_simps del: upt_Suc)
  moreover have "[0..<Suc (Suc n)] = 0 # [1..<Suc (Suc n)]" by (simp add: upt_conv_Cons del: upt_Suc)
  ultimately show ?case using 6 by (simp add: join_Cons ac_simps del: upt_Suc)
qed (simp_all add: print_row_eq)

section \<open>The size of a dimension as text\<close>

lemma show_nat_digits:
  assumes "c \<in> set (show_nat n)"
  shows "is_digit c" "\<not> is_space c" "c \<noteq> CHR ''-''" "c \<noteq> CHR ''+''"
proof -
  obtain d where "d < 10" "c = digit d" using decimal_show_nat [of n] assms unfolding decimal_def by blast
  then show "is_digit c" "\<not> is_space c" "c \<noteq> CHR ''-''" "c \<noteq> CHR ''+''" using digit_facts [of d] by auto
qed

lemma show_nat_scan [simp]:
  "takeWhile is_digit (show_nat n) = show_nat n" "show_nat n \<noteq> []" "dropWhile is_space (show_nat n) = show_nat n"
  "\<not> starts_with ''-'' (show_nat n)" "\<not> starts_with ''+'' (show_nat n)"
proof -
  obtain c s where cs: "show_nat n = c # s" using show_nat_Cons [of n] by blast
  then have "c \<in> set (show_nat n)" by simp
  note c = show_nat_digits [OF this]
  show "takeWhile is_digit (show_nat n) = show_nat n" using show_nat_digits(1) by (auto simp: takeWhile_eq_all_conv)
  show "show_nat n \<noteq> []" "dropWhile is_space (show_nat n) = show_nat n"
    "\<not> starts_with ''-'' (show_nat n)" "\<not> starts_with ''+'' (show_nat n)"
    using c by (simp_all add: cs starts_with_def)
qed

text \<open>A number that fits is read back; a number with a minus sign is accepted and wraps.\<close>

lemma set_size_text_show: "n < 2 ^ 64 \<Longrightarrow> set_size_text (show_nat n) d = Inr (set_size (of_nat n) d)"
  by (simp add: set_size_text_def get_ulong_def del: takeWhile_eq_all_conv)

lemma set_size_text_too_large:
  "2 ^ 64 \<le> n \<Longrightarrow> \<exists>msg. set_size_text (show_nat n) d = Inl (Error unknown_error msg)"
  by (simp add: set_size_text_def get_ulong_def del: takeWhile_eq_all_conv)

lemma set_size_text_negative:
  "n < 2 ^ 64 \<Longrightarrow> set_size_text (''-'' @ show_nat n) d = Inr (set_size (- of_nat n) d)"
  by (simp add: set_size_text_def get_ulong_def starts_with_def is_space_def del: takeWhile_eq_all_conv)

section \<open>Properties\<close>



text \<open>C25: Printing an array writes every element of the shape once, in row-major order, in nested braces: the text is the
  rendering of the elements from the start index on, and the index returned lies the product of the sizes behind it.\<close>

theorem print_array_row_major:
  assumes "dims \<noteq> []"
  shows "print_array elem dims i = (nested dims (map elem [i..<i + prod_list dims]), i + prod_list dims)"
  using assms by (rule print_array_eq)

section \<open>Witnesses\<close>

definition demo_shape :: array_shape where
  "demo_shape = \<lparr>a_length = 20, a_shape = [dimension_of_size 10 ''lat'', dimension_of_size 2 []]\<rparr>"

lemma demo_shape_ok: "shape_ok demo_shape"
  using selection_new [of 10 "''lat''"] selection_new [of 2 "[]"]
  by (simp add: shape_ok_def demo_shape_def update_length_def dimension_of_size_def)



theorem print_array_row_major_witness:
  "print_array (\<lambda>i. show_nat i) [2, 3] 0 = (''{{0, 1, 2},{3, 4, 5}}'', 6)"
  using print_array_row_major [of "[2, 3]" "\<lambda>i. show_nat i" 0] by (simp add: upt_rec digit_def numeral_eq_Suc show_nat.simps)

end
