(* ===== verification/Vectors.thy ===== *)
theory Vectors
  imports Arrays
begin

text \<open>
  The values of an array (\<open>Vector.cc\<close>): a block of memory for numbers and enumerations, a list of strings for
  strings and URLs.  What the operations ask of the prototype of the elements is its type, its width and, for an
  enumeration, the type of its values.  Memory that has been allocated and not written holds \<open>junk\<close>; a copy that
  leaves its source or its destination is \<open>invalid_pointer\<close>, and a copy of no bytes has no effect whatever the pointers are.
\<close>

record proto =
  pt_type :: Type
  pt_width :: nat
  pt_element_type :: Type

record vector = "unit scalar" +
  v_shape :: array_shape
  v_buf :: "u8 list option"
  v_str :: "string list"
  v_capacity :: int

abbreviation v_length :: "vector \<Rightarrow> int" where "v_length v \<equiv> a_length (v_shape v)"

definition set_length :: "int \<Rightarrow> vector \<Rightarrow> vector" where
  "set_length l v = v\<lparr>v_shape := (v_shape v)\<lparr>a_length := l\<rparr>\<rparr>"

definition cardinal_types :: "Type set" where
  "cardinal_types = {dods_byte_c, dods_char_c, dods_int16_c, dods_uint16_c, dods_int32_c, dods_uint32_c,
     dods_float32_c, dods_float64_c, dods_int8_c, dods_uint8_c, dods_int64_c, dods_uint64_c, dods_enum_c}"

definition text_types :: "Type set" where "text_types = {dods_str_c, dods_url_c}"

definition m_is_cardinal_type :: "proto option \<Rightarrow> bool" where
  "m_is_cardinal_type p = (case p of None \<Rightarrow> False | Some pt \<Rightarrow> pt_type pt \<in> cardinal_types)"

definition Vector_width :: "proto \<Rightarrow> vector \<Rightarrow> int" where
  "Vector_width pt v = to_uint (v_length v * int (pt_width pt))"

section \<open>Memory\<close>

definition fresh_mem :: "(nat \<Rightarrow> u8) \<Rightarrow> nat \<Rightarrow> u8 list" where
  "fresh_mem junk n = map junk [0..<n]"

text \<open>\<open>memcpy\<close> of \<open>n\<close> bytes from the start of one block to a place in another; of no bytes, it does nothing.\<close>

definition copy_mem :: "u8 list option \<Rightarrow> nat \<Rightarrow> u8 list \<Rightarrow> nat \<Rightarrow> u8 list option result" where
  "copy_mem dest at src n =
     (if n = 0 then Inr dest
      else case dest of
        None \<Rightarrow> Inl invalid_pointer
      | Some d \<Rightarrow> if at + n \<le> length d \<and> n \<le> length src then Inr (Some (take at d @ take n src @ drop (at + n) d))
          else Inl invalid_pointer)"

definition m_delete_cardinal_data_buffer :: "vector \<Rightarrow> vector" where
  "m_delete_cardinal_data_buffer v = v\<lparr>v_buf := None, v_capacity := 0\<rparr>"

definition m_create_cardinal_data_buffer_for_type :: "(nat \<Rightarrow> u8) \<Rightarrow> proto option \<Rightarrow> int \<Rightarrow> vector \<Rightarrow> (int \<times> vector) result" where
  "m_create_cardinal_data_buffer_for_type junk p num v = (case p of
     None \<Rightarrow> Inl (InternalErr ''create_cardinal_data_buffer_for_type: Logic error: _var is null!'')
   | Some pt \<Rightarrow>
       if \<not> m_is_cardinal_type p
       then Inl (InternalErr ''create_cardinal_data_buffer_for_type: incorrectly used on Vector whose type was not a cardinal (simple data types).'')
       else let v1 = m_delete_cardinal_data_buffer v; num = to_uint num in
         if num = 0 then Inr (0, v1)
         else let bytes = to_uint (int (pt_width pt) * num) in
           Inr (bytes, v1\<lparr>v_buf := Some (fresh_mem junk (nat bytes)), v_capacity := num\<rparr>))"

section \<open>Setting values\<close>

datatype ctype = C_byte | C_int8 | C_int16 | C_uint16 | C_int32 | C_uint32 | C_int64 | C_uint64 | C_float32 | C_float64

fun c_sizeof :: "ctype \<Rightarrow> nat" where
  "c_sizeof C_byte = 1" | "c_sizeof C_int8 = 1" | "c_sizeof C_int16 = 2" | "c_sizeof C_uint16 = 2" | "c_sizeof C_int32 = 4"
| "c_sizeof C_uint32 = 4" | "c_sizeof C_int64 = 8" | "c_sizeof C_uint64 = 8" | "c_sizeof C_float32 = 4" | "c_sizeof C_float64 = 8"

definition types_match :: "Type \<Rightarrow> ctype \<Rightarrow> bool" where
  "types_match t c =
     (if t \<in> {dods_byte_c, dods_char_c, dods_uint8_c} then c = C_byte
      else if t = dods_int8_c then c = C_int8 else if t = dods_int16_c then c = C_int16
      else if t = dods_uint16_c then c = C_uint16 else if t = dods_int32_c then c = C_int32
      else if t = dods_uint32_c then c = C_uint32 else if t = dods_int64_c then c = C_int64
      else if t = dods_uint64_c then c = C_uint64 else if t = dods_float32_c then c = C_float32
      else if t = dods_float64_c then c = C_float64 else False)"

definition value_type :: "proto \<Rightarrow> Type" where
  "value_type pt = (if pt_type pt = dods_enum_c then pt_element_type pt else pt_type pt)"

definition m_set_cardinal_values_internal ::
    "(nat \<Rightarrow> u8) \<Rightarrow> proto option \<Rightarrow> ctype \<Rightarrow> u8 list option \<Rightarrow> int \<Rightarrow> vector \<Rightarrow> vector result" where
  "m_set_cardinal_values_internal junk p c fromArray numElts v =
     (if numElts < 0 then Inl (InternalErr ''Logic error: Vector::set_cardinal_values_internal() called with negative numElts!'')
      else case fromArray of
        None \<Rightarrow> Inl (InternalErr ''Logic error: Vector::set_cardinal_values_internal() called with null fromArray!'')
      | Some src \<Rightarrow> (case m_create_cardinal_data_buffer_for_type junk p numElts (set_length numElts v) of
          Inl e \<Rightarrow> Inl e
        | Inr (_, v1) \<Rightarrow> (case copy_mem (v_buf v1) 0 src (nat numElts * c_sizeof c) of
            Inl e \<Rightarrow> Inl e
          | Inr b \<Rightarrow> Inr (BaseType_set_read_p True (v1\<lparr>v_buf := b\<rparr>)))))"

definition set_value_worker :: "(nat \<Rightarrow> u8) \<Rightarrow> proto \<Rightarrow> ctype \<Rightarrow> u8 list option \<Rightarrow> int \<Rightarrow> vector \<Rightarrow> (bool \<times> vector) result" where
  "set_value_worker junk pt c val sz v =
     (if val = None \<or> \<not> types_match (value_type pt) c then Inr (False, v)
      else case m_set_cardinal_values_internal junk (Some pt) c val sz v of Inl e \<Rightarrow> Inl e | Inr v1 \<Rightarrow> Inr (True, v1))"

text \<open>\<open>resize\<close> throws for a negative size, which becomes a huge one.\<close>

definition resized :: "'a \<Rightarrow> int \<Rightarrow> 'a list \<Rightarrow> 'a list result" where
  "resized z n xs = (if n < 0 then Inl length_error else Inr (take (nat n) xs @ replicate (nat n - length xs) z))"

definition set_value_strings :: "proto \<Rightarrow> string list option \<Rightarrow> int \<Rightarrow> vector \<Rightarrow> (bool \<times> vector) result" where
  "set_value_strings pt val sz v = (case val of
     None \<Rightarrow> Inr (False, v)
   | Some ss \<Rightarrow>
       if pt_type pt \<notin> text_types then Inr (False, v)
       else if sz < 0 then Inl length_error
       else if length ss < nat sz then Inl invalid_pointer
       else Inr (True, BaseType_set_read_p True (set_length sz (v\<lparr>v_str := take (nat sz) ss, v_capacity := sz\<rparr>))))"

section \<open>Getting values\<close>

definition index_msg :: "nat \<Rightarrow> nat \<Rightarrow> vector \<Rightarrow> string" where
  "index_msg i k v = ''Vector::value() - Subset index['' @ show_nat i @ ''] = '' @ show_nat k
     @ '' references a value that is outside the bounds of the internal storage [ length()= '' @ show_int (v_length v)
     @ '' ] name: '' @ [CHR 0x27] @ d_name v @ [CHR 0x27] @ ''. ''"

text \<open>The loop over the indices; \<open>at k\<close> reads the \<open>k\<close>-th element.\<close>

fun values_at :: "(nat \<Rightarrow> 'a result) \<Rightarrow> vector \<Rightarrow> nat \<Rightarrow> nat list \<Rightarrow> 'a list result" where
  "values_at at v i [] = Inr []"
| "values_at at v i (k # ks) =
     (if int k > to_uint (v_length v) then Inl (Error unknown_error (index_msg i k v))
      else case at k of
        Inl e \<Rightarrow> Inl e
      | Inr x \<Rightarrow> (case values_at at v (i + 1) ks of Inl e \<Rightarrow> Inl e | Inr xs \<Rightarrow> Inr (x # xs)))"

definition element_at :: "nat \<Rightarrow> vector \<Rightarrow> nat \<Rightarrow> u8 list result" where
  "element_at w v k = (case v_buf v of
     None \<Rightarrow> Inl invalid_pointer
   | Some b \<Rightarrow> if k * w + w \<le> length b then Inr (take w (drop (k * w) b)) else Inl invalid_pointer)"

definition value_worker_at :: "ctype \<Rightarrow> nat list \<Rightarrow> vector \<Rightarrow> u8 list list result" where
  "value_worker_at c indices v = values_at (element_at (c_sizeof c) v) v 0 indices"

definition string_at :: "vector \<Rightarrow> nat \<Rightarrow> string result" where
  "string_at v k = (if k < length (v_str v) then Inr (v_str v ! k) else Inl invalid_pointer)"

text \<open>Without a string type the destination keeps what it held.\<close>

definition value_strings_at :: "proto \<Rightarrow> nat list \<Rightarrow> vector \<Rightarrow> string list \<Rightarrow> string list result" where
  "value_strings_at pt indices v b =
     (if pt_type pt \<in> text_types
      then case values_at (string_at v) v 0 indices of Inl e \<Rightarrow> Inl e | Inr xs \<Rightarrow>
        if length b < length xs then Inl invalid_pointer else Inr (xs @ drop (length xs) b)
      else Inr b)"

definition value_worker :: "proto \<Rightarrow> ctype \<Rightarrow> u8 list option \<Rightarrow> vector \<Rightarrow> u8 list option result" where
  "value_worker pt c dest v =
     (if dest \<noteq> None \<and> types_match (value_type pt) c
      then if v_length v < 0 then Inl invalid_pointer
        else case v_buf v of
          None \<Rightarrow> if v_length v = 0 then Inr dest else Inl invalid_pointer
        | Some b \<Rightarrow> let n = nat (v_length v) * c_sizeof c in
            if length b < n then Inl invalid_pointer else copy_mem dest 0 b n
      else Inr dest)"

definition value_strings :: "proto \<Rightarrow> vector \<Rightarrow> string list \<Rightarrow> string list" where
  "value_strings pt v b = (if pt_type pt \<in> text_types then v_str v else b)"

section \<open>The memory interface\<close>

text \<open>What a pointer to values points to.\<close>

datatype vdata = Raw "u8 list" | Strings "string list"

definition Vector_val2buf :: "(nat \<Rightarrow> u8) \<Rightarrow> proto \<Rightarrow> vdata option \<Rightarrow> bool \<Rightarrow> vector \<Rightarrow> (int \<times> vector) result" where
  "Vector_val2buf junk pt val reuse v = (case val of
     None \<Rightarrow> if v_length v = 0 then Inr (0, v) else Inl (InternalErr ''The incoming pointer does not contain any data.'')
   | Some d \<Rightarrow>
       if pt_type pt \<in> cardinal_types
       then (case (if v_buf v = None \<or> \<not> reuse then m_create_cardinal_data_buffer_for_type junk (Some pt) (v_length v) v else Inr (0, v)) of
           Inl e \<Rightarrow> Inl e
         | Inr (_, v1) \<Rightarrow> (case d of
             Strings _ \<Rightarrow> Inl invalid_pointer
           | Raw src \<Rightarrow> (case copy_mem (v_buf v1) 0 src (nat (Vector_width pt v1)) of
               Inl e \<Rightarrow> Inl e
             | Inr b \<Rightarrow> Inr (Vector_width pt v1, v1\<lparr>v_buf := b\<rparr>))))
       else if pt_type pt \<in> text_types
       then (case d of
           Raw _ \<Rightarrow> Inl invalid_pointer
         | Strings ss \<Rightarrow>
             if v_length v < 0 then Inl length_error
             else if length ss < nat (v_length v) then Inl invalid_pointer
             else Inr (Vector_width pt v, v\<lparr>v_str := take (nat (v_length v)) ss, v_capacity := v_length v\<rparr>))
       else Inl (InternalErr ''Vector::val2buf: bad type''))"

text \<open>
  \<open>buf2val\<close> gets a pointer to a pointer.  When that one is null, memory is allocated; else the values are copied to the
  place it points to.
\<close>

definition Vector_buf2val :: "(nat \<Rightarrow> u8) \<Rightarrow> proto \<Rightarrow> vdata option option \<Rightarrow> vector \<Rightarrow> (int \<times> vdata) result" where
  "Vector_buf2val junk pt val v = (case val of
     None \<Rightarrow> Inl (InternalErr ''NULL pointer.'')
   | Some d \<Rightarrow> let wid = Vector_width pt v in
       if pt_type pt \<in> cardinal_types
       then (case v_buf v of
           None \<Rightarrow> Inl (InternalErr ''Vector::buf2val: Logic error: called when cardinal type data buffer was empty!'')
         | Some b \<Rightarrow> (case (case d of None \<Rightarrow> Raw (fresh_mem junk (nat wid)) | Some x \<Rightarrow> x) of
             Strings _ \<Rightarrow> Inl invalid_pointer
           | Raw dest \<Rightarrow> if length b < nat wid then Inl invalid_pointer
               else (case copy_mem (Some dest) 0 b (nat wid) of
                 Inl e \<Rightarrow> Inl e
               | Inr None \<Rightarrow> Inl invalid_pointer
               | Inr (Some r) \<Rightarrow> Inr (wid, Raw r))))
       else if pt_type pt \<in> text_types
       then if v_str v = [] then Inl (InternalErr ''Vector::buf2val: Logic error: called when string data buffer was empty!'')
         else (case (case d of None \<Rightarrow> Strings (replicate (nat (v_length v)) []) | Some x \<Rightarrow> x) of
             Raw _ \<Rightarrow> Inl invalid_pointer
           | Strings ss \<Rightarrow> let n = nat (v_length v) in
               if length (v_str v) < n \<or> length ss < n then Inl invalid_pointer
               else Inr (wid, Strings (take n (v_str v) @ drop n ss)))
       else Inl (InternalErr ''Vector::buf2val: bad type''))"

section \<open>Capacity and slices\<close>

definition reserve_value_capacity :: "(nat \<Rightarrow> u8) \<Rightarrow> proto option \<Rightarrow> int \<Rightarrow> vector \<Rightarrow> vector result" where
  "reserve_value_capacity junk p numElements v = (case p of
     None \<Rightarrow> Inl (InternalErr ''reserve_value_capacity: Logic error: _var is null!'')
   | Some pt \<Rightarrow>
       if pt_type pt \<in> cardinal_types
       then (case m_create_cardinal_data_buffer_for_type junk p numElements v of Inl e \<Rightarrow> Inl e | Inr (_, v1) \<Rightarrow> Inr v1)
       else if pt_type pt \<in> text_types \<union> {dods_opaque_c, dods_structure_c, dods_sequence_c, dods_grid_c}
       then Inr (v\<lparr>v_capacity := to_uint numElements\<rparr>)
       else if pt_type pt = dods_array_c then Inl (InternalErr ''reserve_value_capacity: Arrays not supported!'')
       else Inl (InternalErr ''reserve_value_capacity: Unknown type!''))"

definition reserve_length :: "(nat \<Rightarrow> u8) \<Rightarrow> proto option \<Rightarrow> vector \<Rightarrow> vector result" where
  "reserve_length junk p v = reserve_value_capacity junk p (v_length v) v"

definition slice_error :: "string \<Rightarrow> exn" where
  "slice_error s = InternalErr (''set_value_slice_from_row_major_vector:'' @ s)"

text \<open>The strings are assigned one by one.\<close>

fun assign_at :: "nat \<Rightarrow> 'a list \<Rightarrow> 'a list \<Rightarrow> 'a list result" where
  "assign_at k [] xs = Inr xs"
| "assign_at k (y # ys) xs = (if k < length xs then assign_at (k + 1) ys (xs[k := y]) else Inl invalid_pointer)"

definition set_value_slice_from_row_major_vector ::
    "proto option \<Rightarrow> vector \<Rightarrow> int \<Rightarrow> proto option \<Rightarrow> vector \<Rightarrow> (int \<times> vector) result" where
  "set_value_slice_from_row_major_vector rp row startElement p v = (case (rp, p) of
     (Some rpt, Some pt) \<Rightarrow>
       if pt_type rpt \<noteq> pt_type pt then Inl (slice_error ''Logic error: types do not match so cannot be copied!'')
       else if \<not> d_is_read row then
         Inl (slice_error ''Logic error: the Vector to copy data from has !read_p() and should have been read in!'')
       else if v_length row < 0 then
         Inl (slice_error ''Logic error: the Vector to copy data from has length() < 0 and was probably not initialized!'')
       else if v_capacity row < v_length row then
         Inl (slice_error (''Logic error: the Vector to copy from has a data capacity less than its length, can'' @ [CHR 0x27] @ ''t copy!''))
       else if v_capacity v < to_uint (startElement + v_length row) then
         Inl (slice_error ''Logic error: the capacity of this Vector cannot hold all the data in the from Vector!'')
       else if pt_type pt \<in> cardinal_types then
         (case (v_buf v, v_buf row) of
            (None, _) \<Rightarrow> Inl (slice_error ''Logic error: this->_buf was unexpectedly null!'')
          | (_, None) \<Rightarrow> Inl (slice_error ''Logic error: rowMajorData._buf was unexpectedly null!'')
          | (Some b, Some r) \<Rightarrow> (case copy_mem (Some b) (nat (to_uint (startElement * int (pt_width pt)))) r (nat (Vector_width rpt row)) of
              Inl e \<Rightarrow> Inl e
            | Inr c \<Rightarrow> Inr (v_length row, v\<lparr>v_buf := c\<rparr>)))
       else if pt_type pt \<in> text_types then
         if length (v_str row) < nat (v_length row) then Inl invalid_pointer
         else (case assign_at (nat startElement) (take (nat (v_length row)) (v_str row)) (v_str v) of
             Inl e \<Rightarrow> Inl e
           | Inr ss \<Rightarrow> Inr (v_length row, v\<lparr>v_str := ss\<rparr>))
       else if pt_type pt \<in> {dods_array_c, dods_opaque_c, dods_structure_c, dods_sequence_c, dods_grid_c} then
         Inl (slice_error ''Unimplemented method for Vectors of type: array, opaque, structure, sequence or grid.'')
       else Inl (slice_error '': Unknown type!'')
   | _ \<Rightarrow> Inl (slice_error ''Logic error: types do not match so cannot be copied!''))"

section \<open>Facts\<close>

lemma length_fresh_mem [simp]: "length (fresh_mem junk n) = n"
  by (simp add: fresh_mem_def)

text \<open>A prototype of numbers of \<open>w\<close> bytes, and an array of \<open>n\<close> elements of it whose size in bytes fits.\<close>

definition number_proto :: "nat \<Rightarrow> proto \<Rightarrow> bool" where
  "number_proto w pt \<longleftrightarrow> pt_type pt \<in> cardinal_types \<and> pt_width pt = w \<and> w \<in> {1, 2, 4, 8}"

lemma buf_capacity: "(v :: vector)\<lparr>v_buf := b, v_capacity := c\<rparr> = v\<lparr>v_capacity := c, v_buf := b\<rparr>"
  by simp

lemma create_buffer:
  assumes "number_proto w pt" "w * n < 2 ^ 32"
  shows "m_create_cardinal_data_buffer_for_type junk (Some pt) (int n) v =
    Inr (if n = 0 then (0, v\<lparr>v_buf := None, v_capacity := 0\<rparr>)
         else (int (w * n), v\<lparr>v_buf := Some (fresh_mem junk (w * n)), v_capacity := int n\<rparr>))"
proof -
  have "1 \<le> w" using assms(1) by (auto simp: number_proto_def)
  then have "n \<le> w * n" by simp
  then have "n < 2 ^ 32" using assms(2) by (rule le_less_trans)
  then have n: "int n < 2 ^ 32" "int w * int n < 2 ^ 32" using assms(2) by (simp_all flip: of_nat_mult)
  then have "nat (int w * int n) = w * n" by (simp flip: of_nat_mult)
  then show ?thesis
    using assms(1) n by (simp add: number_proto_def m_create_cardinal_data_buffer_for_type_def m_is_cardinal_type_def
        m_delete_cardinal_data_buffer_def to_uint_def Let_def)
qed

lemma copy_all: "length src = n \<Longrightarrow> n \<noteq> 0 \<Longrightarrow> copy_mem (Some (fresh_mem junk n)) 0 src n = Inr (Some src)"
  by (simp add: copy_mem_def)

lemma set_value_buffer:
  assumes "number_proto w pt" "types_match (value_type pt) c" "c_sizeof c = w" "length bs = w * n" "w * n < 2 ^ 32"
  shows "set_value_worker junk pt c (Some bs) (int n) v =
    Inr (True, BaseType_set_read_p True ((set_length (int n) v)\<lparr>v_capacity := int n, v_buf := (if n = 0 then None else Some bs)\<rparr>))"
proof -
  have "w \<noteq> 0" using assms(1) by (auto simp: number_proto_def)
  then show ?thesis
    using assms create_buffer [OF assms(1,5), of junk "set_length (int n) v"]
    by (cases "n = 0") (simp_all add: set_value_worker_def m_set_cardinal_values_internal_def copy_all mult.commute
        buf_capacity copy_mem_def)
qed

text \<open>Slices one after the other.\<close>

fun put_slices :: "proto option \<Rightarrow> vector list \<Rightarrow> int \<Rightarrow> proto option \<Rightarrow> vector \<Rightarrow> vector result" where
  "put_slices rp [] start p v = Inr v"
| "put_slices rp (r # rs) start p v = (case set_value_slice_from_row_major_vector rp r start p v of
     Inl e \<Rightarrow> Inl e | Inr (n, v1) \<Rightarrow> put_slices rp rs (start + n) p v1)"

definition slice_of :: "nat \<Rightarrow> vector \<Rightarrow> u8 list \<Rightarrow> bool" where
  "slice_of w r bs \<longleftrightarrow> d_is_read r \<and> 0 \<le> v_length r \<and> v_length r \<le> v_capacity r \<and> v_buf r = Some bs \<and>
     int (length bs) = v_length r * int w"

lemma one_slice:
  assumes "number_proto w pt" "slice_of w r bs" "v_buf v = Some b" "v_capacity v = int n" "length b = w * n"
    and "w * n < 2 ^ 32" "w * k + length bs \<le> w * n"
  shows "set_value_slice_from_row_major_vector (Some pt) r (int k) (Some pt) v =
    Inr (v_length r, v\<lparr>v_buf := Some (take (w * k) b @ bs @ drop (w * k + length bs) b)\<rparr>)"
proof -
  have w: "1 \<le> w" "pt_width pt = w" "pt_type pt \<in> cardinal_types" using assms(1) by (auto simp: number_proto_def)
  obtain m where m: "v_length r = int m" using assms(2) nonneg_int_cases unfolding slice_of_def by blast
  have bs: "length bs = w * m" "v_buf r = Some bs" "d_is_read r" "int m \<le> v_capacity r"
    using assms(2) by (simp_all add: slice_of_def m mult.commute flip: of_nat_mult)
  have km: "k + m \<le> n" using assms(7) w(1) by (simp add: bs(1) flip: distrib_left)
  have le: "k + m \<le> w * n" "w * k < 2 ^ 32" "w * m < 2 ^ 32" "k + m < 2 ^ 32"
  proof -
    show "k + m \<le> w * n" using km w(1) by (metis le_trans mult.left_neutral mult_le_mono1)
    then show "k + m < 2 ^ 32" using assms(6) by simp
    show "w * k < 2 ^ 32" "w * m < 2 ^ 32" using assms(6,7) by (simp_all add: bs(1))
  qed
  then have u: "to_uint (int k + int m) = int (k + m)" "to_uint (int k * int w) = int (w * k)" "to_uint (int m * int w) = int (w * m)"
    by (simp_all add: to_uint_def mult.commute flip: of_nat_mult of_nat_add)
  have c: "copy_mem (Some b) (w * k) bs (w * m) = Inr (Some (take (w * k) b @ bs @ drop (w * k + length bs) b))"
    using assms(5,7) bs(1) w(1) by (cases "m = 0") (simp_all add: copy_mem_def)
  have "nat (int w * int k) = w * k" "nat (int w * int m) = w * m" by (simp_all flip: of_nat_mult)
  then show ?thesis
    using w(2,3) bs assms(3,4) km c
    by (simp add: set_value_slice_from_row_major_vector_def m Vector_width_def u)
qed

lemma put_slices_ok:
  assumes "number_proto w pt" "list_all2 (slice_of w) rs bss" "v_buf v = Some b" "v_capacity v = int n" "length b = w * n"
    and "w * n < 2 ^ 32" "w * k + length (concat bss) = w * n"
  shows "put_slices (Some pt) rs (int k) (Some pt) v = Inr (v\<lparr>v_buf := Some (take (w * k) b @ concat bss)\<rparr>)"
  using assms(2-)
proof (induction arbitrary: k v b rule: list_all2_induct)
  case Nil
  then have "length b = w * k" by (metis add_0_right concat.simps(1) list.size(3))
  then have "take (w * k) b = b" by simp
  moreover have "v\<lparr>v_buf := Some b\<rparr> = v" using Nil.prems(1) by (intro vector.equality) simp_all
  ultimately show ?case by simp
next
  case (Cons r rs bs bss)
  let ?b = "take (w * k) b @ bs @ drop (w * k + length bs) b"
  obtain m where m: "v_length r = int m" using Cons.hyps(1) nonneg_int_cases unfolding slice_of_def by blast
  then have "int (length bs) = int (w * m)" using Cons.hyps(1) by (simp add: slice_of_def mult.commute)
  then have m': "length bs = w * m" by (simp only: of_nat_eq_iff)
  have "set_value_slice_from_row_major_vector (Some pt) r (int k) (Some pt) v = Inr (int m, v\<lparr>v_buf := Some ?b\<rparr>)"
    using one_slice [OF assms(1) Cons.hyps(1), of v b n k] Cons.prems by (simp add: m)
  moreover have "put_slices (Some pt) rs (int (k + m)) (Some pt) (v\<lparr>v_buf := Some ?b\<rparr>) =
      Inr (v\<lparr>v_buf := Some (take (w * (k + m)) ?b @ concat bss)\<rparr>)"
    using Cons.IH [of "v\<lparr>v_buf := Some ?b\<rparr>" ?b "k + m"] Cons.prems m' by (simp add: distrib_left)
  moreover have "length (take (w * k) b @ bs) = w * (k + m)"
    using Cons.prems by (simp add: m' distrib_left min_absorb2 del: mult_le_cancel1)
  then have "take (w * (k + m)) ?b = take (w * k) b @ bs" by (metis append.assoc append_eq_conv_conj)
  ultimately show ?case by simp
qed

section \<open>Properties\<close>


text \<open>The size of the buffer is computed at 32 bits: when the values need 4 GiB or more, which the length of an array allows,
  the buffer is too small and \<open>set_value\<close> writes behind its end.\<close>

lemma set_value_overruns_buffer:
  assumes "number_proto w pt" "types_match (value_type pt) c" "c_sizeof c = w" "length bs = w * n"
    and "n < 2 ^ 31" "2 ^ 32 \<le> w * n"
  shows "set_value_worker junk pt c (Some bs) (int n) v = Inl invalid_pointer"
proof -
  have w: "pt_width pt = w" "pt_type pt \<in> cardinal_types" "w \<noteq> 0" using assms(1) by (auto simp: number_proto_def)
  have n: "n \<noteq> 0" "to_uint (int n) = int n" using assms(5,6) by (cases n; simp add: to_uint_def)+
  have "to_uint (int w * int n) = int (w * n mod 2 ^ 32)" by (simp add: to_uint_def zmod_int)
  moreover have "w * n mod 2 ^ 32 < w * n" using assms(6) by (intro less_le_trans [OF mod_less_divisor]) simp_all
  ultimately show ?thesis
    using assms(2-4) w n
    by (simp add: set_value_worker_def m_set_cardinal_values_internal_def m_create_cardinal_data_buffer_for_type_def
        m_is_cardinal_type_def m_delete_cardinal_data_buffer_def copy_mem_def mult.commute Let_def)
qed

text \<open>C21: An array is assembled from slices: after \<open>reserve_value_capacity(n)\<close> the values of other arrays of the same type, all of them
  read, copied one after the other with \<open>set_value_slice_from_row_major_vector\<close>, each where the one before it ended, are the
  concatenation of their bytes, if they are \<open>n\<close> values together and need less than 4 GiB.\<close>

theorem slices_concatenate:
  assumes "number_proto w pt" "list_all2 (slice_of w) rs bss" "length (concat bss) = w * n" "w * n < 2 ^ 32" "0 < n"
  shows "\<exists>v1. reserve_value_capacity junk (Some pt) (int n) v = Inr v1 \<and>
    put_slices (Some pt) rs 0 (Some pt) v1 = Inr (v1\<lparr>v_buf := Some (concat bss)\<rparr>)"
proof -
  have "pt_type pt \<in> cardinal_types" using assms(1) by (simp add: number_proto_def)
  then have "reserve_value_capacity junk (Some pt) (int n) v =
      Inr (v\<lparr>v_buf := Some (fresh_mem junk (w * n)), v_capacity := int n\<rparr>)"
    using create_buffer [OF assms(1,4), of junk v] assms(5) by (simp add: reserve_value_capacity_def)
  then show ?thesis
    using put_slices_ok [OF assms(1,2), of _ "fresh_mem junk (w * n)" n 0] assms(3,4) by simp
qed

text \<open>For strings \<open>reserve_value_capacity\<close> reserves memory but creates no strings, and the capacity check of
  \<open>set_value_slice_from_row_major_vector\<close> passes: into an array without strings the first string is assigned outside
  the vector.\<close>

lemma string_slice_outside_vector:
  assumes "pt_type pt \<in> text_types" "v_str v = []" "reserve_value_capacity junk (Some pt) n v = Inr v1" "0 < n" "n < 2 ^ 32"
    and "d_is_read r" "0 < v_length r" "v_length r \<le> n" "v_length r \<le> v_capacity r" "int (length (v_str r)) = v_length r"
  shows "set_value_slice_from_row_major_vector (Some pt) r 0 (Some pt) v1 = Inl invalid_pointer"
proof -
  have t: "pt_type pt \<notin> cardinal_types" using assms(1) by (auto simp: text_types_def cardinal_types_def)
  then have v1: "v1 = v\<lparr>v_capacity := n\<rparr>" using assms(1,3-5) by (simp add: reserve_value_capacity_def to_uint_def)
  obtain s ss where s: "v_str r = s # ss" using assms(7,10) by (cases "v_str r") auto
  have n: "nat (v_length r) = Suc (length ss)" "to_uint (v_length r) = v_length r"
    using assms(5,7,8,10) s by (simp_all add: to_uint_def)
  show ?thesis
    using t assms by (simp add: set_value_slice_from_row_major_vector_def v1 n s)
qed

text \<open>C27: Reading chosen elements of an array of numbers: for indices below the length \<open>value\<close> returns those elements; the check
  lets the index through that equals the length, and the read leaves the buffer; from the next index on it throws.\<close>

theorem value_at_indices:
  assumes "0 < c_sizeof c" "v_buf v = Some b" "v_length v = int n" "n < 2 ^ 31" "length b = c_sizeof c * n"
  shows "((\<forall>k \<in> set ks. k < n) \<longrightarrow> value_worker_at c ks v = Inr (map (\<lambda>k. take (c_sizeof c) (drop (c_sizeof c * k) b)) ks)) \<and>
    value_worker_at c [n] v = Inl invalid_pointer \<and>
    (n < k \<longrightarrow> (\<exists>msg. value_worker_at c [k] v = Inl (Error unknown_error msg)))"
proof -
  let ?w = "c_sizeof c"
  have len: "to_uint (v_length v) = int n" using assms(3,4) by (simp add: to_uint_def)
  have el: "element_at ?w v k = Inr (take ?w (drop (?w * k) b))" if "k < n" for k
  proof -
    have "?w * Suc k \<le> ?w * n" using that by (intro mult_le_mono2) simp
    then show ?thesis using assms(2,5) by (simp add: element_at_def mult.commute add.commute)
  qed
  have "values_at (element_at ?w v) v i ks = Inr (map (\<lambda>k. take ?w (drop (?w * k) b)) ks)" if "\<forall>k \<in> set ks. k < n" for i
    using that by (induction ks arbitrary: i) (simp_all add: len el)
  then have "(\<forall>k \<in> set ks. k < n) \<longrightarrow> value_worker_at c ks v = Inr (map (\<lambda>k. take ?w (drop (?w * k) b)) ks)"
    by (simp add: value_worker_at_def)
  moreover have "value_worker_at c [n] v = Inl invalid_pointer"
    using assms(1,2,5) len by (simp add: value_worker_at_def element_at_def mult.commute del: assms(3))
  moreover have "n < k \<longrightarrow> (\<exists>msg. value_worker_at c [k] v = Inl (Error unknown_error msg))"
    using len by (simp add: value_worker_at_def)
  ultimately show ?thesis by blast
qed

section \<open>Witnesses\<close>

definition demo_vector :: vector where
  "demo_vector = \<lparr>d_name = ''x'', d_dataset = [], d_is_read = False, d_is_send = False, d_is_synthesized = False,
     d_is_dap4 = True, d_buf = (), v_shape = \<lparr>a_length = -1, a_shape = []\<rparr>, v_buf = None, v_str = [], v_capacity = 0\<rparr>"

definition demo_proto :: "Type \<Rightarrow> nat \<Rightarrow> proto" where
  "demo_proto t w = \<lparr>pt_type = t, pt_width = w, pt_element_type = t\<rparr>"

definition demo_row :: "int \<Rightarrow> u8 list \<Rightarrow> string list \<Rightarrow> vector" where
  "demo_row n bs ss = demo_vector\<lparr>d_is_read := True, v_shape := \<lparr>a_length = n, a_shape = []\<rparr>, v_buf := Some bs,
     v_str := ss, v_capacity := n\<rparr>"

lemma number_proto_demo: "number_proto 2 (demo_proto dods_int16_c 2)" "number_proto 8 (demo_proto dods_float64_c 8)"
  by (simp_all add: number_proto_def demo_proto_def cardinal_types_def)


lemma set_value_overruns_buffer_witness:
  "set_value_worker (\<lambda>_. 0) (demo_proto dods_float64_c 8) C_float64 (Some (replicate (8 * 2 ^ 29) 0)) (int (2 ^ 29)) demo_vector = Inl invalid_pointer"
  using set_value_overruns_buffer [OF number_proto_demo(2), of C_float64 "replicate (8 * 2 ^ 29) 0" "2 ^ 29" "\<lambda>_. 0" demo_vector]
  by (simp add: demo_proto_def value_type_def types_match_def del: replicate.simps)

theorem slices_concatenate_witness:
  "\<exists>v1. reserve_value_capacity (\<lambda>_. 0) (Some (demo_proto dods_int16_c 2)) 3 demo_vector = Inr v1 \<and>
    put_slices (Some (demo_proto dods_int16_c 2)) [demo_row 1 [1, 2] [], demo_row 2 [3, 4, 5, 6] []] 0 (Some (demo_proto dods_int16_c 2)) v1
      = Inr (v1\<lparr>v_buf := Some [1, 2, 3, 4, 5, 6]\<rparr>)"
  using slices_concatenate [OF number_proto_demo(1), of "[demo_row 1 [1, 2] [], demo_row 2 [3, 4, 5, 6] []]" "[[1, 2], [3, 4, 5, 6]]" 3
      "\<lambda>_. 0" demo_vector]
  by (simp add: slice_of_def demo_row_def)

lemma string_slice_outside_vector_witness:
  "set_value_slice_from_row_major_vector (Some (demo_proto dods_str_c 32)) (demo_row 1 [] [''a'']) 0 (Some (demo_proto dods_str_c 32))
    (demo_vector\<lparr>v_capacity := 4\<rparr>) = Inl invalid_pointer"
  using string_slice_outside_vector [of "demo_proto dods_str_c 32" demo_vector "\<lambda>_. 0" 4 "demo_vector\<lparr>v_capacity := 4\<rparr>" "demo_row 1 [] [''a'']"]
  by (simp add: demo_proto_def text_types_def demo_vector_def demo_row_def reserve_value_capacity_def cardinal_types_def to_uint_def)

theorem value_at_indices_witness:
  "value_worker_at C_int16 [1, 0] (demo_row 2 [1, 2, 3, 4] []) = Inr [[3, 4], [1, 2]] \<and>
   value_worker_at C_int16 [2] (demo_row 2 [1, 2, 3, 4] []) = Inl invalid_pointer"
  using value_at_indices [of C_int16 "demo_row 2 [1, 2, 3, 4] []" "[1, 2, 3, 4]" 2 "[1, 0]" 0]
  by (simp add: demo_row_def)

end
