(* ===== verification/Variables.thy ===== *)
theory Variables
  imports Vectors
begin

text \<open>
  The variables of a DAP4 dataset as trees (\<open>Constructor.cc\<close>, \<open>Structure.cc\<close>, \<open>D4Sequence.cc\<close>,
  \<open>Array.cc\<close>, \<open>Vector.cc\<close>): scalars, structures, sequences with their rows, and arrays with the prototype of
  their elements and, for elements that are not numbers or strings, the elements themselves.  Flags, lookup by name,
  sizes, declarations, and writing to and reading from a response.  A copy of a variable is the variable:
  \<open>ptr_duplicate\<close> makes new objects of the same content.  The \<open>read\<close> that a server implements is an argument.
\<close>

section \<open>Trees of variables\<close>

datatype var =
    Scalar BaseType
  | Structure "unit scalar" "var list"
  | D4Sequence "unit scalar" "var list" int "var list list"
  | Array vector var "var option list"

fun bt_flags :: "BaseType \<Rightarrow> string \<times> bool \<times> bool \<times> bool" where
  "bt_flags (Byte v) = (d_name v, d_is_send v, d_is_read v, d_is_dap4 v)"
| "bt_flags (Int8 v) = (d_name v, d_is_send v, d_is_read v, d_is_dap4 v)"
| "bt_flags (Int16 v) = (d_name v, d_is_send v, d_is_read v, d_is_dap4 v)"
| "bt_flags (UInt16 v) = (d_name v, d_is_send v, d_is_read v, d_is_dap4 v)"
| "bt_flags (Int32 v) = (d_name v, d_is_send v, d_is_read v, d_is_dap4 v)"
| "bt_flags (UInt32 v) = (d_name v, d_is_send v, d_is_read v, d_is_dap4 v)"
| "bt_flags (Int64 v) = (d_name v, d_is_send v, d_is_read v, d_is_dap4 v)"
| "bt_flags (UInt64 v) = (d_name v, d_is_send v, d_is_read v, d_is_dap4 v)"
| "bt_flags (Float32 v) = (d_name v, d_is_send v, d_is_read v, d_is_dap4 v)"
| "bt_flags (Float64 v) = (d_name v, d_is_send v, d_is_read v, d_is_dap4 v)"
| "bt_flags (Str v) = (d_name v, d_is_send v, d_is_read v, d_is_dap4 v)"
| "bt_flags (Url v) = (d_name v, d_is_send v, d_is_read v, d_is_dap4 v)"
| "bt_flags (Opaque v) = (d_name v, d_is_send v, d_is_read v, d_is_dap4 v)"
| "bt_flags (Enum v) = (d_name v, d_is_send v, d_is_read v, d_is_dap4 v)"
| "bt_flags (Other_Type t v) = (d_name v, d_is_send v, d_is_read v, d_is_dap4 v)"

text \<open>The fields of \<open>BaseType\<close> that are set from outside.\<close>

datatype field = Name string | Send bool | Read bool

fun set_field :: "field \<Rightarrow> ('a, 'm) scalar_scheme \<Rightarrow> ('a, 'm) scalar_scheme" where
  "set_field (Name n) v = v\<lparr>d_name := n\<rparr>"
| "set_field (Send b) v = v\<lparr>d_is_send := b\<rparr>"
| "set_field (Read b) v = BaseType_set_read_p b v"

fun bt_set :: "field \<Rightarrow> BaseType \<Rightarrow> BaseType" where
  "bt_set f (Byte v) = Byte (set_field f v)" | "bt_set f (Int8 v) = Int8 (set_field f v)"
| "bt_set f (Int16 v) = Int16 (set_field f v)" | "bt_set f (UInt16 v) = UInt16 (set_field f v)"
| "bt_set f (Int32 v) = Int32 (set_field f v)" | "bt_set f (UInt32 v) = UInt32 (set_field f v)"
| "bt_set f (Int64 v) = Int64 (set_field f v)" | "bt_set f (UInt64 v) = UInt64 (set_field f v)"
| "bt_set f (Float32 v) = Float32 (set_field f v)" | "bt_set f (Float64 v) = Float64 (set_field f v)"
| "bt_set f (Str v) = Str (set_field f v)" | "bt_set f (Url v) = Url (set_field f v)"
| "bt_set f (Opaque v) = Opaque (set_field f v)" | "bt_set f (Enum v) = Enum (set_field f v)"
| "bt_set f (Other_Type t v) = Other_Type t (set_field f v)"

fun vtype :: "var \<Rightarrow> Type" where
  "vtype (Scalar b) = var_type b" | "vtype (Structure a vs) = dods_structure_c"
| "vtype (D4Sequence a vs n rows) = dods_sequence_c" | "vtype (Array v p c) = dods_array_c"

fun var_flags :: "var \<Rightarrow> string \<times> bool \<times> bool \<times> bool" where
  "var_flags (Scalar b) = bt_flags b"
| "var_flags (Structure v vs) = (d_name v, d_is_send v, d_is_read v, d_is_dap4 v)"
| "var_flags (D4Sequence v vs n rows) = (d_name v, d_is_send v, d_is_read v, d_is_dap4 v)"
| "var_flags (Array v p c) = (d_name v, d_is_send v, d_is_read v, d_is_dap4 v)"

definition vname :: "var \<Rightarrow> string" where "vname v = fst (var_flags v)"
definition send_p :: "var \<Rightarrow> bool" where "send_p v = fst (snd (var_flags v))"
definition read_p :: "var \<Rightarrow> bool" where "read_p v = fst (snd (snd (var_flags v)))"
definition is_dap4 :: "var \<Rightarrow> bool" where "is_dap4 v = snd (snd (snd (var_flags v)))"

lemma flag_simps [simp]:
  "vname (Structure v vs) = d_name v" "vname (D4Sequence v vs n rows) = d_name v" "vname (Array w p c) = d_name w"
  "send_p (Structure v vs) = d_is_send v" "send_p (D4Sequence v vs n rows) = d_is_send v" "send_p (Array w p c) = d_is_send w"
  "read_p (Structure v vs) = d_is_read v" "read_p (D4Sequence v vs n rows) = d_is_read v" "read_p (Array w p c) = d_is_read w"
  "is_dap4 (Structure v vs) = d_is_dap4 v" "is_dap4 (D4Sequence v vs n rows) = d_is_dap4 v" "is_dap4 (Array w p c) = d_is_dap4 w"
  by (simp_all add: vname_def send_p_def read_p_def is_dap4_def)

definition constructor_var :: "var \<Rightarrow> bool" where "constructor_var v = is_constructor_type (vtype v)"

section \<open>Flags\<close>

text \<open>
  \<open>set_send_p\<close> and \<open>set_read_p\<close> reach every variable below; in an array of structures or sequences also the elements,
  of which there must be as many as the length says.  The rows of a sequence are values and keep their flags.
\<close>

text \<open>\<open>BaseType::set_name\<close> decodes the name; \<open>Vector::set_name\<close> names the prototype as well, a constructor only itself.\<close>

fun set_name :: "int \<Rightarrow> string \<Rightarrow> var \<Rightarrow> var" where
  "set_name junk n (Scalar b) = Scalar (bt_set (Name (www2id_all junk n)) b)"
| "set_name junk n (Structure v vs) = Structure (set_field (Name (www2id_all junk n)) v) vs"
| "set_name junk n (D4Sequence v vs k rows) = D4Sequence (set_field (Name (www2id_all junk n)) v) vs k rows"
| "set_name junk n (Array v p c) = Array (set_field (Name (www2id_all junk n)) v) (set_name junk n p) c"

definition element_flags :: "Type \<Rightarrow> bool" where
  "element_flags t \<longleftrightarrow> t \<in> {dods_structure_c, dods_sequence_c, dods_grid_c}"

fun set_flag :: "field \<Rightarrow> var \<Rightarrow> var" where
  "set_flag f (Scalar b) = Scalar (bt_set f b)"
| "set_flag f (Structure v vs) = Structure (set_field f v) (map (set_flag f) vs)"
| "set_flag f (D4Sequence v vs n rows) = D4Sequence (set_field f v) (map (set_flag f) vs) n rows"
| "set_flag f (Array v p c) = Array (set_field f v) (set_flag f p)
     (if element_flags (vtype p) then map (map_option (set_flag f)) c else c)"

definition set_send_p :: "bool \<Rightarrow> var \<Rightarrow> var" where "set_send_p b v = set_flag (Send b) v"
definition set_read_p :: "bool \<Rightarrow> var \<Rightarrow> var" where "set_read_p b v = set_flag (Read b) v"

section \<open>Members\<close>

fun members :: "var \<Rightarrow> var list" where
  "members (Structure v vs) = vs" | "members (D4Sequence v vs n rows) = vs" | "members v = []"

fun with_members :: "var list \<Rightarrow> var \<Rightarrow> var" where
  "with_members vs (Structure v ws) = Structure v vs" | "with_members vs (D4Sequence v ws n rows) = D4Sequence v vs n rows"
| "with_members vs v = v"

definition add_var :: "var option \<Rightarrow> var \<Rightarrow> var result" where
  "add_var bt c = (case bt of
     None \<Rightarrow> Inl (InternalErr ''The BaseType parameter cannot be null.'')
   | Some v \<Rightarrow> Inr (with_members (members c @ [v]) c))"

fun del_first :: "string \<Rightarrow> var list \<Rightarrow> var list" where
  "del_first n [] = []" | "del_first n (v # vs) = (if vname v = n then vs else v # del_first n vs)"

definition del_var :: "string \<Rightarrow> var \<Rightarrow> var" where
  "del_var n c = with_members (del_first n (members c)) c"

fun element_count :: "bool \<Rightarrow> var \<Rightarrow> int" where
  "element_count leaves (Scalar b) = 1"
| "element_count leaves (Structure v vs) = (if leaves then to_int (sum_list (map (element_count True) vs)) else to_int (int (length vs)))"
| "element_count leaves (D4Sequence v vs n rows) = (if leaves then to_int (sum_list (map (element_count True) vs)) else to_int (int (length vs)))"
| "element_count leaves (Array v p c) = (if leaves then element_count True p else 1)"

text \<open>Sizes in bytes; those of the objects that hold a string or an opaque value are those of a 64-bit host.\<close>

definition sizeof_string :: nat where "sizeof_string = 32"
definition sizeof_vector :: nat where "sizeof_vector = 24"

definition scalar_width :: "BaseType \<Rightarrow> nat result" where
  "scalar_width b = (case b of
     Byte _ \<Rightarrow> Inr 1 | Int8 _ \<Rightarrow> Inr 1 | Int16 _ \<Rightarrow> Inr 2 | UInt16 _ \<Rightarrow> Inr 2 | Int32 _ \<Rightarrow> Inr 4 | UInt32 _ \<Rightarrow> Inr 4
   | Int64 _ \<Rightarrow> Inr 8 | UInt64 _ \<Rightarrow> Inr 8 | Float32 _ \<Rightarrow> Inr 4 | Float64 _ \<Rightarrow> Inr 8
   | Str _ \<Rightarrow> Inr sizeof_string | Url _ \<Rightarrow> Inr sizeof_string | Opaque _ \<Rightarrow> Inr sizeof_vector | Enum e \<Rightarrow> Enum_width e
   | Other_Type _ _ \<Rightarrow> Inl (InternalErr ''not implemented''))"

fun sum_widths :: "nat result list \<Rightarrow> nat result" where
  "sum_widths [] = Inr 0"
| "sum_widths (w # ws) = (case w of Inl e \<Rightarrow> Inl e | Inr n \<Rightarrow>
     (case sum_widths ws of Inl e \<Rightarrow> Inl e | Inr m \<Rightarrow> Inr ((n + m) mod 2 ^ 32)))"

fun width :: "bool \<Rightarrow> var \<Rightarrow> nat result" where
  "width constrained (Scalar b) = scalar_width b"
| "width constrained (Structure v vs) = sum_widths (map (\<lambda>w. if constrained \<and> \<not> send_p w then Inr 0 else width constrained w) vs)"
| "width constrained (D4Sequence v vs n rows) = sum_widths (map (\<lambda>w. if constrained \<and> \<not> send_p w then Inr 0 else width constrained w) vs)"
| "width constrained (Array v p c) = (case width constrained p of Inl e \<Rightarrow> Inl e | Inr w \<Rightarrow> Inr (nat (to_uint (v_length v * int w))))"

definition check_name :: "var \<Rightarrow> bool \<times> string option" where
  "check_name v = (if vtype v \<noteq> dods_null_c \<and> vname v \<noteq> [] then (True, None)
     else (False, Some (''Every variable must have both a name and a type'' @ [CHR 0x0A])))"

section \<open>Lookup\<close>

text \<open>
  A name may be a path of names with dots between them.  Every level decodes what is left of it.
\<close>

definition split_dot :: "string \<Rightarrow> (string \<times> string) option" where
  "split_dot s = (if CHR ''.'' \<in> set s
     then Some (takeWhile (\<lambda>c. c \<noteq> CHR ''.'') s, tl (dropWhile (\<lambda>c. c \<noteq> CHR ''.'') s)) else None)"

lemma split_dot_shorter: "split_dot s = Some (a, f) \<Longrightarrow> length a < length s \<and> length f < length s"
proof -
  assume s: "split_dot s = Some (a, f)"
  then have "CHR ''.'' \<in> set s" by (auto simp: split_dot_def split: if_splits)
  then have "dropWhile (\<lambda>c. c \<noteq> CHR ''.'') s \<noteq> []" by (auto simp: dropWhile_eq_Nil_conv)
  moreover have "length s = length a + length (dropWhile (\<lambda>c. c \<noteq> CHR ''.'') s)" "length f = length (dropWhile (\<lambda>c. c \<noteq> CHR ''.'') s) - 1"
    using s by (auto simp: split_dot_def simp flip: length_append split: if_splits)
  ultimately show ?thesis by (cases "dropWhile (\<lambda>c. c \<noteq> CHR ''.'') s") auto
qed

lemma length_unhexstring [simp]: "length (unhexstring junk s) \<le> 1"
  by (simp add: unhexstring_def char_cstring_def Let_def)

lemma www2id_length: "length (www2id junk s escape except) \<le> length s"
proof -
  let ?body = "\<lambda>res i. if find_at (starts_with (substr res i 3)) except \<noteq> None then (res, i + 3)
      else (replace_at res i 3 (unhexstring junk (substr res (i + 1) 2)), i + 1)"
  have step: "length (fst (?body t j)) \<le> length t \<and> length (fst (?body t j)) - snd (?body t j) < length t - i"
    if "find_from (starts_in escape) t i = Some j" for t i j
  proof -
    have j: "i \<le> j" "j < length t" using find_from_Some [OF that] by (cases "length t \<le> j"; auto)+
    show ?thesis using j length_unhexstring [of junk "substr t (j + 1) 2"] by (auto simp: replace_at_def)
  qed
  have "case while (\<lambda>(s, i). find_from (starts_in escape) s i \<noteq> None)
      (\<lambda>(s, i). ?body s (the (find_from (starts_in escape) s i))) (s, 0) of (t, i) \<Rightarrow> length t \<le> length s"
  proof (rule while_rule [where P = "\<lambda>(t, i). length t \<le> length s" and r = "measure (\<lambda>(t, i). length t - i)"])
    fix x assume x: "case x of (t, i) \<Rightarrow> length t \<le> length s" "case x of (s, i) \<Rightarrow> find_from (starts_in escape) s i \<noteq> None"
    obtain t i j where ti: "x = (t, i)" "find_from (starts_in escape) t i = Some j" using x(2) by (cases x) auto
    show "case (case x of (s, i) \<Rightarrow> ?body s (the (find_from (starts_in escape) s i))) of (t, i) \<Rightarrow> length t \<le> length s"
      and "(case x of (s, i) \<Rightarrow> ?body s (the (find_from (starts_in escape) s i)), x) \<in> measure (\<lambda>(t, i). length t - i)"
      using step [OF ti(2)] x(1) by (auto simp: ti case_prod_unfold)
  qed simp_all
  then show ?thesis by (simp add: www2id_def replace_loop_def case_prod_unfold)
qed

lemma www2id_all_length: "length (www2id_all junk nm) \<le> length nm"
  by (simp add: www2id_all_def www2id_length)

lemma split_decoded_shorter: "split_dot (www2id_all junk nm) = Some (a, f) \<Longrightarrow> length a < length nm \<and> length f < length nm"
  using split_dot_shorter [of "www2id_all junk nm" a f] www2id_all_length [of junk nm] by simp

text \<open>
  \<open>Constructor::var\<close> with \<open>exact_match\<close>: the name among the members, else the part before the first dot among the
  members and the rest below what was found.  A scalar has no members; an array answers for its prototype.
\<close>

function exact_in :: "int \<Rightarrow> string \<Rightarrow> var list \<Rightarrow> var option"
  and exact_var :: "int \<Rightarrow> string \<Rightarrow> var \<Rightarrow> var option" where
  "exact_in junk nm vs =
     (let n = www2id_all junk nm in
      case find (\<lambda>v. vname v = n) vs of
        Some v \<Rightarrow> Some v
      | None \<Rightarrow> (case split_dot n of
          None \<Rightarrow> None
        | Some (agg, field) \<Rightarrow> (case exact_in junk agg vs of None \<Rightarrow> None | Some a \<Rightarrow> exact_var junk field a)))"
| "exact_var junk nm (Scalar b) = None"
| "exact_var junk nm (Structure v vs) = exact_in junk nm vs"
| "exact_var junk nm (D4Sequence v vs n rows) = exact_in junk nm vs"
| "exact_var junk nm (Array v p c) =
     (let n = www2id_all junk nm in
      if n = [] \<or> vname p = n then Some p else if constructor_var p then exact_var junk n p else None)"
  by pat_completeness auto

termination
  by (relation "measures [case_sum (\<lambda>(j, n, vs). length n) (\<lambda>(j, n, v). length n),
      case_sum (\<lambda>(j, n, vs). 0) (\<lambda>(j, n, v). size v)]")
    (auto dest!: split_decoded_shorter simp: le_less [symmetric] www2id_all_length)

text \<open>Without \<open>exact_match\<close>: depth first, a member before what is below it; arrays are not searched.\<close>

fun leaf_in :: "int \<Rightarrow> string \<Rightarrow> var list \<Rightarrow> var option" and leaf_var :: "int \<Rightarrow> string \<Rightarrow> var \<Rightarrow> var option" where
  "leaf_in junk n [] = None"
| "leaf_in junk n (v # vs) =
     (if vname v = n then Some v
      else case (if constructor_var v then leaf_var junk n v else None) of
        Some w \<Rightarrow> Some w
      | None \<Rightarrow> leaf_in junk n vs)"
| "leaf_var junk nm (Structure v vs) = leaf_in junk (www2id_all junk nm) vs"
| "leaf_var junk nm (D4Sequence v vs n rows) = leaf_in junk (www2id_all junk nm) vs"
| "leaf_var junk nm v = None"

end
