(* ===== verification/D4Attributes.thy ===== *)
theory D4Attributes
  imports Xml Variables
begin

text \<open>
  Attributes of DAP4 (\<open>D4Attributes.cc\<close>): types and their names, trees of attributes, lookup by a dotted name and depth
  first, and the XML of an attribute.  A collection owns its attributes and an attribute its collection, so copies are
  values; a pointer to an attribute is its position.
\<close>

section \<open>Types\<close>

datatype D4AttributeType =
    attr_null_c | attr_byte_c | attr_int16_c | attr_uint16_c | attr_int32_c | attr_uint32_c | attr_float32_c
  | attr_float64_c | attr_str_c | attr_url_c | attr_int8_c | attr_uint8_c | attr_int64_c | attr_uint64_c
  | attr_enum_c | attr_opaque_c | attr_container_c | attr_otherxml_c

fun D4AttributeTypeToString :: "D4AttributeType \<Rightarrow> string" where
  "D4AttributeTypeToString attr_null_c = ''null''"
| "D4AttributeTypeToString attr_byte_c = ''Byte''"
| "D4AttributeTypeToString attr_int16_c = ''Int16''"
| "D4AttributeTypeToString attr_uint16_c = ''UInt16''"
| "D4AttributeTypeToString attr_int32_c = ''Int32''"
| "D4AttributeTypeToString attr_uint32_c = ''UInt32''"
| "D4AttributeTypeToString attr_float32_c = ''Float32''"
| "D4AttributeTypeToString attr_float64_c = ''Float64''"
| "D4AttributeTypeToString attr_str_c = ''String''"
| "D4AttributeTypeToString attr_url_c = ''Url''"
| "D4AttributeTypeToString attr_int8_c = ''Int8''"
| "D4AttributeTypeToString attr_uint8_c = ''UInt8''"
| "D4AttributeTypeToString attr_int64_c = ''Int64''"
| "D4AttributeTypeToString attr_uint64_c = ''UInt64''"
| "D4AttributeTypeToString attr_enum_c = ''Enum''"
| "D4AttributeTypeToString attr_opaque_c = ''Opaque''"
| "D4AttributeTypeToString attr_container_c = ''Container''"
| "D4AttributeTypeToString attr_otherxml_c = ''OtherXML''"

definition StringToD4AttributeType :: "string \<Rightarrow> D4AttributeType" where
  "StringToD4AttributeType str =
     (let s = downcase str in
      if s = ''container'' then attr_container_c
      else if s = ''byte'' then attr_byte_c
      else if s = ''int8'' then attr_int8_c
      else if s = ''uint8'' then attr_uint8_c
      else if s = ''int16'' then attr_int16_c
      else if s = ''uint16'' then attr_uint16_c
      else if s = ''int32'' then attr_int32_c
      else if s = ''uint32'' then attr_uint32_c
      else if s = ''int64'' then attr_int64_c
      else if s = ''uint64'' then attr_uint64_c
      else if s = ''float32'' then attr_float32_c
      else if s = ''float64'' then attr_float64_c
      else if s = ''string'' then attr_str_c
      else if s = ''url'' then attr_url_c
      else if s = ''otherxml'' then attr_otherxml_c
      else attr_null_c)"

section \<open>Attributes\<close>

text \<open>
  The collection of a container is allocated when it is first asked for; that it has been, the printing relies on.
\<close>

datatype attribute = Attribute string D4AttributeType "attribute list option" "string list"

fun a_name :: "attribute \<Rightarrow> string" where "a_name (Attribute n t sub vs) = n"
fun a_type :: "attribute \<Rightarrow> D4AttributeType" where "a_type (Attribute n t sub vs) = t"
fun a_values :: "attribute \<Rightarrow> string list" where "a_values (Attribute n t sub vs) = vs"

fun attributes :: "attribute \<Rightarrow> attribute list" where
  "attributes (Attribute n t sub vs) = (case sub of None \<Rightarrow> [] | Some as \<Rightarrow> as)"

definition D4Attribute :: "string \<Rightarrow> D4AttributeType \<Rightarrow> attribute" where
  "D4Attribute n t = Attribute n t None []"

fun a_set_attributes :: "attribute list \<Rightarrow> attribute \<Rightarrow> attribute" where
  "a_set_attributes as (Attribute n t sub vs) = Attribute n t (Some as) vs"

fun a_add_value :: "string \<Rightarrow> attribute \<Rightarrow> attribute" where
  "a_add_value v (Attribute n t sub vs) = Attribute n t sub (vs @ [v])"

definition add_value_vector :: "string list \<Rightarrow> attribute \<Rightarrow> attribute" where
  "add_value_vector ws a = (case a of Attribute n t sub vs \<Rightarrow> Attribute n t sub ws)"

definition add_attribute_nocopy :: "attribute \<Rightarrow> attribute list \<Rightarrow> attribute list" where
  "add_attribute_nocopy a as = as @ [a]"

text \<open>The assignment appends the copies to what is there.\<close>

definition attributes_duplicate :: "attribute list \<Rightarrow> attribute list \<Rightarrow> attribute list" where
  "attributes_duplicate this src = this @ src"

section \<open>Lookup\<close>

fun index_of :: "('a \<Rightarrow> bool) \<Rightarrow> 'a list \<Rightarrow> nat option" where
  "index_of P [] = None"
| "index_of P (x # xs) = (if P x then Some 0 else map_option Suc (index_of P xs))"

lemma index_of_Some: "index_of P xs = Some i \<Longrightarrow> i < length xs \<and> P (xs ! i) \<and> (\<forall>j < i. \<not> P (xs ! j))"
  by (induction xs arbitrary: i) (auto simp: nth_Cons split: if_splits nat.splits)

lemma index_of_None: "index_of P xs = None \<longleftrightarrow> (\<forall>x \<in> set xs. \<not> P x)"
  by (induction xs) auto

text \<open>\<open>get\<close> follows a name with dots; the first container of a name is the only one looked into.\<close>

function get :: "string \<Rightarrow> attribute list \<Rightarrow> nat list option" where
  "get fqn as =
     (let (part, rest) = (case split_dot fqn of None \<Rightarrow> (fqn, []) | Some pr \<Rightarrow> pr) in
      if part = [] then None
      else if rest \<noteq> []
      then (case index_of (\<lambda>a. a_name a = part \<and> a_type a = attr_container_c) as of
              None \<Rightarrow> None
            | Some i \<Rightarrow> map_option (\<lambda>is. i # is) (get rest (attributes (as ! i))))
      else map_option (\<lambda>i. [i]) (index_of (\<lambda>a. a_name a = part) as))"
  by pat_completeness auto

termination
  by (relation "measure (\<lambda>(fqn, as). length fqn)") (auto dest!: split_dot_shorter split: option.splits)

declare get.simps [simp del]

text \<open>
  \<open>find\<close> goes depth first, but into a container it goes for good, and there it compares the iterator with the end of the
  vector it came from: at the end of the container it reads past the vector.
\<close>

function find_depth_first :: "bool \<Rightarrow> string \<Rightarrow> attribute list \<Rightarrow> attribute option result" where
  "find_depth_first own n [] = (if own then Inr None else Inl invalid_pointer)"
| "find_depth_first own n (a # as) =
     (if a_name a = n then Inr (Some a)
      else if a_type a = attr_container_c then find_depth_first False n (attributes a)
      else find_depth_first own n as)"
  by pat_completeness auto

termination
proof (relation "measure (\<lambda>(own, n, as). size_list size as)")
  show "((False, n, attributes a), own, n, a # as) \<in> measure (\<lambda>(own, n, as). size_list size as)" for own n a as
    by (cases a) (auto split: option.splits)
qed auto

definition attributes_find :: "string \<Rightarrow> attribute list \<Rightarrow> attribute option result" where
  "attributes_find n as = find_depth_first True n as"

text \<open>What is done through a pointer to a collection or to an attribute.\<close>

fun update_at :: "nat list \<Rightarrow> (attribute list \<Rightarrow> attribute list) \<Rightarrow> attribute list \<Rightarrow> attribute list" where
  "update_at [] f as = f as"
| "update_at (i # is) f as = as[i := a_set_attributes (update_at is f (attributes (as ! i))) (as ! i)]"

fun attrs_at :: "nat list \<Rightarrow> attribute list \<Rightarrow> attribute list" where
  "attrs_at [] as = as"
| "attrs_at (i # is) as = attrs_at is (attributes (as ! i))"

definition update_attribute :: "nat list \<Rightarrow> (attribute \<Rightarrow> attribute) \<Rightarrow> attribute list \<Rightarrow> attribute list" where
  "update_attribute is f as = update_at (butlast is) (\<lambda>bs. bs[last is := f (bs ! last is)]) as"

section \<open>XML\<close>

fun print_values :: "string list \<Rightarrow> xml_event list" where
  "print_values [] = []"
| "print_values (v # vs) = xml_element ''Value'' [] [WriteString (c_str v)] @ print_values vs"

fun attribute_dap4 :: "attribute \<Rightarrow> xml_event list result" and attributes_dap4 :: "attribute list \<Rightarrow> xml_event list result" where
  "attribute_dap4 (Attribute n t sub vs) =
     (case (if t = attr_container_c
            then (case sub of None \<Rightarrow> Inl (InternalErr ''Null Attribute container'') | Some as \<Rightarrow> attributes_dap4 as)
            else if t = attr_otherxml_c
            then if length vs \<noteq> 1 then Inl (Error unknown_error ''OtherXML attributes cannot be vector-valued.'')
                 else Inr [WriteRaw (c_str (hd vs))]
            else Inr (print_values vs)) of
        Inl e \<Rightarrow> Inl e
      | Inr inner \<Rightarrow> Inr (xml_element ''Attribute'' [(''name'', n), (''type'', D4AttributeTypeToString t)] inner))"
| "attributes_dap4 [] = Inr []"
| "attributes_dap4 (a # as) = (case attribute_dap4 a of Inl e \<Rightarrow> Inl e | Inr x \<Rightarrow>
     (case attributes_dap4 as of Inl e \<Rightarrow> Inl e | Inr y \<Rightarrow> Inr (x @ y)))"

end
