(* ===== verification/VarIO.thy ===== *)
theory VarIO
  imports Variables
begin

text \<open>
  Writing variables to a DAP4 response and reading them from one: \<open>serialize\<close> and \<open>deserialize\<close> of
  \<open>Constructor\<close>, \<open>D4Sequence\<close> and \<open>Vector\<close>, over the scalars of theory Scalars and the marshallers of theory
  D4Marshal.  The \<open>read\<close> of a server and the value of the filter clauses of a sequence are arguments.  Both loops may
  fail to end (a server may never report the end of a sequence), so they are partial functions; theory VarTransfer proves when
  they return and what arrives.
\<close>

section \<open>Loops over variables\<close>

fun each :: "('a \<Rightarrow> bool) \<Rightarrow> ('a \<Rightarrow> 'm \<Rightarrow> ('a \<times> 'm) result option) \<Rightarrow> 'a list \<Rightarrow> 'm \<Rightarrow> ('a list \<times> 'm) result option" where
  "each P f [] m = return ([], m)"
| "each P f (x # xs) m =
     (if P x then bind (f x m) (\<lambda>(x1, m1). bind (each P f xs m1) (\<lambda>(xs1, m2). return (x1 # xs1, m2)))
      else bind (each P f xs m) (\<lambda>(xs1, m1). return (x # xs1, m1)))"

text \<open>The same object \<open>n\<close> times, and a copy of it after each time.\<close>

fun collect :: "nat \<Rightarrow> ('a \<Rightarrow> 'm \<Rightarrow> ('a \<times> 'm) result option) \<Rightarrow> 'a \<Rightarrow> 'm \<Rightarrow> ('a list \<times> 'a \<times> 'm) result option" where
  "collect 0 f x m = return ([], x, m)"
| "collect (Suc n) f x m = bind (f x m) (\<lambda>(x1, m1). bind (collect n f x1 m1) (\<lambda>(xs, x2, m2). return (x1 # xs, x2, m2)))"

definition on_object :: "('a \<Rightarrow> 'm \<Rightarrow> ('a \<times> 'm) result option) \<Rightarrow> 'a option \<Rightarrow> 'm \<Rightarrow> ('a option \<times> 'm) result option" where
  "on_object f x m = (case x of None \<Rightarrow> throw invalid_pointer | Some y \<Rightarrow> bind (f y m) (\<lambda>(z, m1). return (Some z, m1)))"

lemma bind_mono [partial_function_mono]:
  assumes "mono_option B" "\<And>y. mono_option (\<lambda>f. C y f)"
  shows "mono_option (\<lambda>f. bind (B f) (\<lambda>y. C y f))"
proof (rule monotoneI)
  fix f g :: "'a \<Rightarrow> 'b option"
  assume fg: "fun_ord option_ord f g"
  have B: "option_ord (B f) (B g)" using assms(1) fg by (rule monotoneD [of _ _ _ f g])
  have C: "option_ord (C y f) (C y g)" for y using assms(2) fg by (rule monotoneD [of _ _ _ f g])
  show "option_ord (bind (B f) (\<lambda>y. C y f)) (bind (B g) (\<lambda>y. C y g))"
  proof (cases "B f")
    case (Some r)
    then have "B g = Some r" using B by (simp add: flat_ord_def)
    then show ?thesis using C Some by (cases r) (simp_all add: bind_def flat_ord_def)
  qed (simp add: bind_def flat_ord_def)
qed

lemma each_mono [partial_function_mono]:
  assumes "\<And>x m. mono_option (\<lambda>f. F f x m)"
  shows "mono_option (\<lambda>f. each P (F f) xs m)"
proof (induction xs arbitrary: m)
  case (Cons x xs)
  show ?case unfolding each.simps
    by (cases "P x") (auto intro!: bind_mono Cons.IH assms option.const_mono split: prod.splits)
qed (simp add: option.const_mono)

lemma collect_mono [partial_function_mono]:
  assumes "\<And>x m. mono_option (\<lambda>f. F f x m)"
  shows "mono_option (\<lambda>f. collect n (F f) x m)"
proof (induction n arbitrary: x m)
  case (Suc n)
  show ?case unfolding collect.simps
    by (auto intro!: bind_mono Suc.IH assms option.const_mono split: prod.splits)
qed (simp add: option.const_mono)

lemma on_object_mono [partial_function_mono]:
  assumes "\<And>x m. mono_option (\<lambda>f. F f x m)"
  shows "mono_option (\<lambda>f. on_object (F f) x m)"
  unfolding on_object_def
  by (cases x) (auto intro!: bind_mono assms option.const_mono split: prod.splits)


section \<open>Reading the data of a server\<close>

text \<open>
  \<open>read\<close> returns whether a sequence has no further row; what the server keeps between two calls is its state.
  The value of the filter clauses reads the variables they name, so it may change the sequence and the state of the server as
  well; clauses that are not there are \<open>None\<close>.
\<close>

type_synonym 'q var_read = "var \<Rightarrow> 'q \<Rightarrow> (bool \<times> var \<times> 'q) result"
type_synonym 'q clauses = "var \<Rightarrow> 'q \<Rightarrow> (bool option \<times> var \<times> 'q) result"

fun add_length :: "var \<Rightarrow> var" where
  "add_length (D4Sequence a vs n rows) = D4Sequence a vs (n + 1) rows" | "add_length v = v"

partial_function (option) read_next_instance ::
    "'q var_read \<Rightarrow> 'q clauses \<Rightarrow> bool \<Rightarrow> var \<Rightarrow> 'q \<Rightarrow> (bool \<times> var \<times> 'q) result option" where
  "read_next_instance rd cl filt v q = (case rd v q of
     Inl e \<Rightarrow> throw e
   | Inr (eof, v1, q1) \<Rightarrow>
       if eof then return (False, v1, q1)
       else (case (if filt then cl v1 q1 else Inr (None, v1, q1)) of
         Inl e \<Rightarrow> throw e
       | Inr (c, v2, q2) \<Rightarrow>
           if \<not> filt \<or> c \<noteq> Some False then return (True, set_read_p False (add_length v2), q2)
           else read_next_instance rd cl filt (set_read_p False v2) q2))"

text \<open>One row: copies of the members to be sent, those of a nested sequence after it has been read.\<close>

definition row_element :: "(var \<Rightarrow> 'q \<Rightarrow> (var \<times> 'q) result option) \<Rightarrow> var \<Rightarrow> var list \<times> 'q \<Rightarrow> (var \<times> var list \<times> 'q) result option" where
  "row_element f v rq = (case rq of (row, q) \<Rightarrow>
     bind (if vtype v = dods_sequence_c \<and> \<not> read_p v then f v q else return (v, q)) (\<lambda>(v1, q1).
       return (v1, row @ [set_read_p True v1], q1)))"

definition add_row :: "var list \<Rightarrow> var list \<Rightarrow> var \<Rightarrow> var" where
  "add_row vs row v = (case v of D4Sequence a ws n rows \<Rightarrow> D4Sequence a vs n (rows @ [row]) | _ \<Rightarrow> v)"

fun count_rows :: "var \<Rightarrow> var" where
  "count_rows (D4Sequence a vs n rows) = D4Sequence a vs (to_int (int (length rows))) rows" | "count_rows v = v"

lemma row_element_mono [partial_function_mono]:
  assumes "\<And>v q. mono_option (\<lambda>f. F f v q)"
  shows "mono_option (\<lambda>f. row_element (F f) v rq)"
  unfolding row_element_def
  by (cases rq; cases "vtype v = dods_sequence_c \<and> \<not> read_p v") (simp_all only: if_True if_False not_False_eq_True simp_thms prod.case,
    auto intro!: bind_mono assms option.const_mono split: prod.splits)

partial_function (option) read_rows :: "'q var_read \<Rightarrow> 'q clauses \<Rightarrow> bool \<Rightarrow> var \<Rightarrow> 'q \<Rightarrow> (var \<times> 'q) result option" where
  "read_rows rd cl filt v q = bind (read_next_instance rd cl filt v q) (\<lambda>(more, v1, q1).
     if \<not> more then return (count_rows v1, q1)
     else bind (each send_p (row_element (read_rows rd cl filt)) (members v1) ([], q1)) (\<lambda>(vs, row, q2).
       read_rows rd cl filt (add_row vs row v1) q2))"

definition read_sequence_values :: "'q var_read \<Rightarrow> 'q clauses \<Rightarrow> bool \<Rightarrow> var \<Rightarrow> 'q \<Rightarrow> (var \<times> 'q) result option" where
  "read_sequence_values rd cl filt v q = (if read_p v then return (v, q) else read_rows rd cl filt v q)"

definition prepare :: "'q var_read \<Rightarrow> 'q clauses \<Rightarrow> bool \<Rightarrow> var \<Rightarrow> 'q \<Rightarrow> (var \<times> 'q) result option" where
  "prepare rd cl filt v q =
     (if vtype v = dods_sequence_c then read_sequence_values rd cl filt v q
      else if read_p v then return (v, q)
      else case rd v q of Inl e \<Rightarrow> throw e | Inr (_, v1, q1) \<Rightarrow> return (v1, q1))"

section \<open>Writing\<close>

definition not_implemented :: "string \<Rightarrow> Type \<Rightarrow> unit scalar \<Rightarrow> 'a result option" where
  "not_implemented msg t s = (case BaseType_type_name t s of Inl e \<Rightarrow> throw e | Inr n \<Rightarrow> throw (InternalErr (msg @ n)))"

definition scalar_put :: "'s writer \<Rightarrow> BaseType \<Rightarrow> 's marshaller \<Rightarrow> 's marshaller result option" where
  "scalar_put wr b m = (case b of
     Enum e \<Rightarrow> Enum_put wr (d_element_type e) m (d_buf e)
   | Other_Type t s \<Rightarrow> not_implemented ''The DAP4 serialize() method has not been implemented for '' t s
   | _ \<Rightarrow> put_d4 wr m (content b))"

definition compound_types :: "Type set" where
  "compound_types = {dods_opaque_c, dods_structure_c, dods_sequence_c}"

definition byte_types :: "Type set" where
  "byte_types = {dods_byte_c, dods_char_c, dods_int8_c, dods_uint8_c}"

definition int_types :: "Type set" where
  "int_types = {dods_int16_c, dods_uint16_c, dods_int32_c, dods_uint32_c, dods_int64_c, dods_uint64_c}"

text \<open>The prototype's width is asked for where the code asks for it; its value is that of an object of this type.\<close>

definition with_width :: "var \<Rightarrow> (nat \<Rightarrow> 'a result option) \<Rightarrow> 'a result option" where
  "with_width p f = (case width False p of Inl e \<Rightarrow> throw e | Inr w \<Rightarrow> f w)"

definition buffer :: "vector \<Rightarrow> (u8 list \<Rightarrow> 'a result option) \<Rightarrow> 'a result option" where
  "buffer a f = (case v_buf a of None \<Rightarrow> throw assertion_failed | Some bs \<Rightarrow> f bs)"

fun put_strings :: "'s writer \<Rightarrow> nat \<Rightarrow> string list \<Rightarrow> 's marshaller \<Rightarrow> 's marshaller result option" where
  "put_strings wr 0 ss m = return m"
| "put_strings wr (Suc n) [] m = throw invalid_pointer"
| "put_strings wr (Suc n) (s # ss) m = bind (put_str wr m (bytes_of s)) (put_strings wr n ss)"

text \<open>An array that is not empty and whose elements are not objects.\<close>

definition put_array :: "'s writer \<Rightarrow> vector \<Rightarrow> var \<Rightarrow> 's marshaller \<Rightarrow> 's marshaller result option" where
  "put_array wr a p m =
     (let t = vtype p; num = word_of_int (v_length a) :: u64 in
      if t \<in> byte_types then buffer a (\<lambda>bs. put_vector wr m bs num)
      else if t \<in> int_types then with_width p (\<lambda>w. buffer a (\<lambda>bs. put_vector_elems wr m bs num (int w)))
      else if t = dods_enum_c
        then with_width p (\<lambda>w. buffer a (\<lambda>bs. if w = 1 then put_vector wr m bs num else put_vector_elems wr m bs num (int w)))
      else if t = dods_float32_c then buffer a (\<lambda>bs. put_vector_float32 wr m bs num)
      else if t = dods_float64_c then buffer a (\<lambda>bs. put_vector_float64 wr m bs num)
      else if t \<in> text_types then put_strings wr (nat (v_length a)) (v_str a) m
      else if t = dods_array_c then throw (InternalErr ''Array of Array not allowed.'')
      else if t = dods_grid_c then throw (InternalErr ''Grid is not part of DAP4.'')
      else throw (InternalErr ''Unknown datatype.''))"

text \<open>The first \<open>n\<close> elements of an array of objects; one that is not there is a null pointer.\<close>

definition padded :: "nat \<Rightarrow> 'a option list \<Rightarrow> 'a option list" where
  "padded n c = take n c @ replicate (n - length c) None"

partial_function (option) serialize_var ::
    "'q var_read \<Rightarrow> 'q clauses \<Rightarrow> 's writer \<Rightarrow> bool \<Rightarrow> var \<Rightarrow> 's marshaller \<times> 'q \<Rightarrow> (var \<times> 's marshaller \<times> 'q) result option" where
  "serialize_var rd cl wr filt v mq = (case mq of (m, q) \<Rightarrow> bind (prepare rd cl filt v q) (\<lambda>(v1, q1). case v1 of
     Scalar b \<Rightarrow> bind (scalar_put wr b m) (\<lambda>m1. return (v1, m1, q1))
   | Structure a vs \<Rightarrow>
       bind (each send_p (serialize_var rd cl wr filt) vs (m, q1)) (\<lambda>(ws, mq1). return (Structure a ws, mq1))
   | D4Sequence a vs n rows \<Rightarrow> bind (put_count wr m (word_of_int n)) (\<lambda>m1.
       bind (each (\<lambda>_. True) (each (\<lambda>_. True) (serialize_var rd cl wr False)) rows (m1, q1)) (\<lambda>(rows1, mq2).
         return (D4Sequence a vs n rows1, mq2)))
   | Array a p c \<Rightarrow>
       if v_length a = 0 then return (v1, m, q1)
       else if vtype p \<in> compound_types
         then bind (each (\<lambda>_. True) (on_object (serialize_var rd cl wr filt)) (padded (nat (v_length a)) c) (m, q1)) (\<lambda>(c1, mq1).
           return (Array a p (c1 @ drop (nat (v_length a)) c), mq1))
       else bind (put_array wr a p m) (\<lambda>m1. return (v1, m1, q1))))"

section \<open>Reading\<close>

definition scalar_get :: "'r reader \<Rightarrow> BaseType \<Rightarrow> 'r unmarshaller \<Rightarrow> (BaseType \<times> 'r unmarshaller) result option" where
  "scalar_get rdr b u = (case b of
     Other_Type t s \<Rightarrow> not_implemented ''The DAP4 deserialize() method has not been implemented for '' t s
   | _ \<Rightarrow> var_deserialize rdr b u)"

text \<open>Into the memory of the array, which was made for a length that may have lost its upper half.\<close>

definition fill :: "vector \<Rightarrow> (u8 list \<times> 'r unmarshaller) result option \<Rightarrow> (vector \<times> 'r unmarshaller) result option" where
  "fill a r = bind r (\<lambda>(bs, u). case copy_mem (v_buf a) 0 bs (length bs) of
     Inl e \<Rightarrow> throw e | Inr b \<Rightarrow> return (a\<lparr>v_buf := b\<rparr>, u))"

fun get_strings :: "'r reader \<Rightarrow> nat \<Rightarrow> 'r unmarshaller \<Rightarrow> (string list \<times> 'r unmarshaller) result option" where
  "get_strings rdr 0 u = return ([], u)"
| "get_strings rdr (Suc n) u = bind (get_str rdr u) (\<lambda>(s, u1). bind (get_strings rdr n u1) (\<lambda>(ss, u2).
     return (chars_of s # ss, u2)))"

definition new_buffer :: "(nat \<Rightarrow> u8) \<Rightarrow> vector \<Rightarrow> var \<Rightarrow> vector result option" where
  "new_buffer junk a p =
     (if vtype p \<in> cardinal_types
      then with_width p (\<lambda>w. case m_create_cardinal_data_buffer_for_type junk
        (Some \<lparr>pt_type = vtype p, pt_width = w, pt_element_type = vtype p\<rparr>) (v_length a) a of
          Inl e \<Rightarrow> throw e | Inr (_, a1) \<Rightarrow> return a1)
      else return a)"

definition get_array :: "'r reader \<Rightarrow> vector \<Rightarrow> var \<Rightarrow> 'r unmarshaller \<Rightarrow> (vector \<times> 'r unmarshaller) result option" where
  "get_array rdr a p u =
     (let t = vtype p; num = word_of_int (v_length a) :: u64 in
      if t \<in> byte_types then fill a (get_vector rdr u num)
      else if t \<in> int_types then with_width p (\<lambda>w. fill a (get_vector_elems rdr u num (int w)))
      else if t = dods_enum_c
        then with_width p (\<lambda>w. fill a (if w = 1 then get_vector rdr u num else get_vector_elems rdr u num (int w)))
      else if t = dods_float32_c then fill a (get_vector_float32 rdr u num)
      else if t = dods_float64_c then fill a (get_vector_float64 rdr u num)
      else if t \<in> text_types
        then bind (get_strings rdr (nat (v_length a)) u) (\<lambda>(ss, u1). return (a\<lparr>v_str := ss, v_capacity := v_length a\<rparr>, u1))
      else if t = dods_array_c then throw (InternalErr ''Array of Array not allowed.'')
      else if t = dods_grid_c then throw (InternalErr ''Grid is not part of DAP4.'')
      else throw (InternalErr ''Unknown type.''))"

text \<open>\<open>vec_resize\<close>; the elements that are new are null pointers.\<close>

definition vec_resize :: "var \<Rightarrow> int \<Rightarrow> vector \<Rightarrow> var option list \<Rightarrow> (vector \<times> var option list) result" where
  "vec_resize p l a c =
     (if vtype p \<in> cardinal_types then Inl (InternalErr ''Vector::vec_resize() is applicable to compound types only'')
      else if l < 0 then Inl length_error
      else Inr (a\<lparr>v_capacity := l\<rparr>, padded (nat l) c))"

partial_function (option) deserialize_var ::
    "(nat \<Rightarrow> u8) \<Rightarrow> 'r reader \<Rightarrow> var \<Rightarrow> 'r unmarshaller \<Rightarrow> (var \<times> 'r unmarshaller) result option" where
  "deserialize_var junk rdr v u = (case v of
     Scalar b \<Rightarrow> bind (scalar_get rdr b u) (\<lambda>(b1, u1). return (Scalar b1, u1))
   | Structure a vs \<Rightarrow>
       bind (each (\<lambda>_. True) (deserialize_var junk rdr) vs u) (\<lambda>(ws, u1). return (Structure a ws, u1))
   | D4Sequence a vs n rows \<Rightarrow> bind (get_count rdr u) (\<lambda>(count, u1). let n1 = to_int (sint count) in
       bind (collect (nat n1) (each (\<lambda>_. True) (deserialize_var junk rdr)) vs u1) (\<lambda>(new, ws, u2).
         return (D4Sequence a ws n1 (rows @ new), u2)))
   | Array a p c \<Rightarrow> bind (new_buffer junk a p) (\<lambda>a1.
       if v_length a = 0 then return (Array a1 p c, u)
       else if vtype p \<in> compound_types
         then (case vec_resize p (v_length a) a1 c of
           Inl e \<Rightarrow> throw e
         | Inr (a2, c1) \<Rightarrow> bind (each (\<lambda>_. True) (deserialize_var junk rdr) (map (\<lambda>_. p) c1) u) (\<lambda>(ws, u1).
             return (Array a2 p (map Some ws), u1)))
       else bind (get_array rdr a1 p u) (\<lambda>(a2, u1). return (Array a2 p c, u1))))"


declare read_next_instance.simps [code] read_rows.simps [code] serialize_var.simps [code] deserialize_var.simps [code]

end
