(* ===== verification/VarTransfer.thy ===== *)
theory VarTransfer
  imports VarIO "HOL-Library.Sublist"
begin

text \<open>
  What the functions of theory VarIO achieve.  A variable whose data is in memory is written as the list of values it
  holds; a receiver whose declaration has the classes of what was sent reads the same list back, from any source
  that yields the bytes and in either byte order.  Then: classes are kept whatever is read, rows accumulate, and a
  server that runs out of data lets the reading of a sequence end.
\<close>

section \<open>What a variable holds\<close>

text \<open>The values that a variable sends, in order; with \<open>all\<close>, those of every member.\<close>

definition array_content :: "bool \<Rightarrow> var \<Rightarrow> vector \<Rightarrow> d4val list" where
  "array_content big p a =
     (let t = vtype p; n = nat (v_length a); bs = (case v_buf a of None \<Rightarrow> [] | Some bs \<Rightarrow> bs) in
      if t \<in> text_types then map (\<lambda>s. V_Str (bytes_of s)) (take n (v_str a))
      else if t = dods_float32_c then [V_Float32s (vec_val big 4 n bs)]
      else if t = dods_float64_c then [V_Float64s (vec_val big 8 n bs)]
      else if width False p = Inr 2 then [V_Vec16 (vec_val big 2 n bs)]
      else if width False p = Inr 4 then [V_Vec32 (vec_val big 4 n bs)]
      else if width False p = Inr 8 then [V_Vec64 (vec_val big 8 n bs)]
      else [V_Bytes bs])"

fun contents :: "bool \<Rightarrow> bool \<Rightarrow> var \<Rightarrow> d4val list" where
  "contents all big (Scalar b) = [content b]"
| "contents all big (Structure a vs) = concat (map (\<lambda>w. if all \<or> send_p w then contents all big w else []) vs)"
| "contents all big (D4Sequence a vs n rows) =
     V_Count (word_of_int n) # concat (map (\<lambda>row. concat (map (contents all big) row)) rows)"
| "contents all big (Array a p c) =
     (if v_length a = 0 then []
      else if vtype p \<in> compound_types
        then concat (take (nat (v_length a)) (map (\<lambda>e. case e of None \<Rightarrow> [] | Some w \<Rightarrow> contents all big w) c))
      else array_content big p a)"

text \<open>The class of a variable: what a declaration says of it.\<close>

datatype kind = K_Scalar Type Type | K_Other Type | K_Structure "kind list" | K_Sequence "kind list" | K_Array int kind

fun kind_of :: "var \<Rightarrow> kind" where
  "kind_of (Scalar b) = (case b of Other_Type t s \<Rightarrow> K_Other t
     | Enum e \<Rightarrow> K_Scalar dods_enum_c (d_element_type e) | _ \<Rightarrow> K_Scalar (var_type b) dods_null_c)"
| "kind_of (Structure a vs) = K_Structure (map kind_of vs)"
| "kind_of (D4Sequence a vs n rows) = K_Sequence (map kind_of vs)"
| "kind_of (Array a p c) = K_Array (v_length a) (kind_of p)"

fun kind_type :: "kind \<Rightarrow> Type" where
  "kind_type (K_Scalar t e) = t" | "kind_type (K_Other t) = t" | "kind_type (K_Structure ks) = dods_structure_c"
| "kind_type (K_Sequence ks) = dods_sequence_c" | "kind_type (K_Array n k) = dods_array_c"

text \<open>
  A variable that can be sent to a receiver that has declared one of class \<open>k\<close>: it is read, what its members to be sent
  hold has the class declared for them, and no value is longer than 2 GiB.
\<close>

definition number_type :: "Type \<Rightarrow> nat \<Rightarrow> bool" where
  "number_type t w \<longleftrightarrow> t \<in> byte_types \<and> w = 1 \<or> t \<in> int_types \<and> w \<in> {2, 4, 8} \<or> t = dods_enum_c \<and> w \<in> {1, 2, 4, 8}
     \<or> t = dods_float32_c \<and> w = 4 \<or> t = dods_float64_c \<and> w = 8"

inductive sendable :: "var \<Rightarrow> kind \<Rightarrow> bool" where
  s_scalar: "ready b \<Longrightarrow> fits (content b) \<Longrightarrow> sendable (Scalar b) (kind_of (Scalar b))"
| s_structure: "d_is_read a \<Longrightarrow> list_all2 sendable (filter send_p vs) ks \<Longrightarrow> sendable (Structure a vs) (K_Structure ks)"
| s_sequence: "d_is_read a \<Longrightarrow> n = int (length rows) \<Longrightarrow> n < 2 ^ 31 \<Longrightarrow> list_all (\<lambda>row. list_all2 sendable row ks) rows \<Longrightarrow>
    sendable (D4Sequence a vs n rows) (K_Sequence ks)"
| s_empty: "d_is_read a \<Longrightarrow> v_length a = 0 \<Longrightarrow> vtype p \<notin> cardinal_types \<or> width False p = Inr w \<and> number_type (vtype p) w \<Longrightarrow>
    sendable (Array a p c) (K_Array 0 (kind_of p))"
| s_objects: "d_is_read a \<Longrightarrow> v_length a = int (length ws) \<Longrightarrow> ws \<noteq> [] \<Longrightarrow> vtype p \<in> compound_types \<Longrightarrow> kind_type k = vtype p \<Longrightarrow>
    list_all (\<lambda>w. sendable w k) ws \<Longrightarrow> sendable (Array a p (map Some ws @ rest)) (K_Array (v_length a) k)"
| s_texts: "d_is_read a \<Longrightarrow> 0 < v_length a \<Longrightarrow> v_length a \<le> int (length (v_str a)) \<Longrightarrow> vtype p \<in> text_types \<Longrightarrow>
    list_all (\<lambda>s. length s < 2 ^ 31) (v_str a) \<Longrightarrow> sendable (Array a p c) (K_Array (v_length a) (kind_of p))"
| s_numbers: "d_is_read a \<Longrightarrow> 0 < v_length a \<Longrightarrow> width False p = Inr w \<Longrightarrow> number_type (vtype p) w \<Longrightarrow> v_buf a = Some bs \<Longrightarrow>
    length bs = w * nat (v_length a) \<Longrightarrow> length bs < 2 ^ 31 \<Longrightarrow> sendable (Array a p c) (K_Array (v_length a) (kind_of p))"
  monos list.rel_mono list.pred_mono

section \<open>What is written\<close>

lemma bind_assoc: "bind (bind r f) g = bind r (\<lambda>x. bind (f x) g)"
  by (auto simp: bind_def split: option.splits sum.splits)

lemma bind_cong: "(\<And>x. r = return x \<Longrightarrow> f x = g x) \<Longrightarrow> bind r f = bind r g"
  by (auto simp: bind_def split: option.splits sum.splits)

lemma put_all_append: "put_all wr m (xs @ ys) = bind (put_all wr m xs) (\<lambda>m1. put_all wr m1 ys)"
  by (induction xs arbitrary: m) (simp_all add: bind_assoc)

lemma writes_host_big: "writes wr m bss = return m1 \<Longrightarrow> host_big m1 = host_big m"
  by (induction bss arbitrary: m) (auto simp: write_out_def bind_def split: option.splits sum.splits)

lemma put_d4_host_big: "put_d4 wr m v = return m1 \<Longrightarrow> fits v \<Longrightarrow> host_big m1 = host_big m"
  by (auto simp: put_d4_eq updated_def dest!: writes_host_big split: if_splits)

lemma put_all_host_big: "put_all wr m vs = return m1 \<Longrightarrow> list_all fits vs \<Longrightarrow> host_big m1 = host_big m"
  by (induction vs arbitrary: m) (auto simp: bind_def dest!: put_d4_host_big split: option.splits sum.splits)


lemma vec_mem_val:
  assumes "length bs = n * k" "LENGTH('a) = 8 * n"
  shows "vec_mem big n (vec_val big n k bs :: 'a::len word list) = bs"
  using assms(1)
proof (induction k arbitrary: bs)
  case (Suc k)
  have n: "length (take n bs) = n" "length (rev (take n bs)) = n" using Suc.prems by simp_all
  have "mem_bytes big n (mem_val big (take n bs) :: 'a word) = take n bs"
    using le_bytes_le_val [of "take n bs", where 'a = 'a] le_bytes_le_val [of "rev (take n bs)", where 'a = 'a] n assms(2)
    by (simp only: n) (simp add: mem_bytes_def mem_val_def)
  then show ?case using Suc.IH [of "drop n bs"] Suc.prems by simp
qed simp

lemma length_vec_val [simp]: "length (vec_val big n k bs) = k"
  by (induction k arbitrary: bs) simp_all

lemma put_strings_all: "n \<le> length ss \<Longrightarrow> put_strings wr n ss m = put_all wr m (map (\<lambda>s. V_Str (bytes_of s)) (take n ss))"
proof (induction n arbitrary: ss m)
  case (Suc n)
  then show ?case by (cases ss) (auto intro!: bind_cong)
qed simp

lemmas type_sets = byte_types_def int_types_def text_types_def compound_types_def cardinal_types_def

lemma put_numbers:
  assumes "0 < v_length a" "width False p = Inr w" "number_type (vtype p) w" "v_buf a = Some bs"
    "length bs = w * nat (v_length a)"
  shows "put_array wr a p m = put_all wr m (array_content (host_big m) p a)"
proof -
  obtain n where n: "v_length a = int n" using assms(1) by (metis pos_int_cases)
  from assms(3) consider "vtype p \<in> byte_types" "w = 1" | "vtype p \<in> int_types" "w \<in> {2, 4, 8}"
    | "vtype p = dods_enum_c" "w \<in> {1, 2, 4, 8}" | "vtype p = dods_float32_c" "w = 4" | "vtype p = dods_float64_c" "w = 8"
    unfolding number_type_def by fast
  then show ?thesis
  proof cases
    case 1
    then have "vtype p \<notin> text_types" "vtype p \<noteq> dods_float32_c" "vtype p \<noteq> dods_float64_c" by (auto simp: type_sets)
    then show ?thesis using 1 assms n by (simp add: put_array_def buffer_def array_content_def)
  next
    case 2
    then have "vtype p \<notin> text_types" "vtype p \<notin> byte_types" "vtype p \<noteq> dods_float32_c" "vtype p \<noteq> dods_float64_c"
      by (auto simp: type_sets)
    then show ?thesis using 2 assms n by (auto simp: put_array_def buffer_def with_width_def array_content_def vec_mem_val)
  next
    case 3
    then have "vtype p \<notin> text_types" "vtype p \<notin> byte_types" "vtype p \<notin> int_types" by (auto simp: type_sets)
    then show ?thesis using 3 assms n by (auto simp: put_array_def buffer_def with_width_def array_content_def vec_mem_val)
  next
    case 4
    then have "vtype p \<notin> text_types" "vtype p \<notin> byte_types" "vtype p \<notin> int_types" by (auto simp: type_sets)
    then show ?thesis using 4 assms n by (simp add: put_array_def buffer_def array_content_def vec_mem_val)
  next
    case 5
    then have "vtype p \<notin> text_types" "vtype p \<notin> byte_types" "vtype p \<notin> int_types" by (auto simp: type_sets)
    then show ?thesis using 5 assms n by (simp add: put_array_def buffer_def array_content_def vec_mem_val)
  qed
qed


lemma numbers_fit:
  assumes "number_type (vtype p) w" "width False p = Inr w" "v_buf a = Some bs" "length bs = w * nat (v_length a)" "length bs < 2 ^ 31"
  shows "list_all fits (array_content big p a)"
proof -
  have "vtype p \<notin> text_types" using assms(1) by (auto simp: number_type_def type_sets)
  moreover have "vtype p = dods_float32_c \<Longrightarrow> w = 4" "vtype p = dods_float64_c \<Longrightarrow> w = 8"
    using assms(1) by (auto simp: number_type_def type_sets)
  ultimately show ?thesis using assms(2-5) by (auto simp: array_content_def fits_def Let_def)
qed

lemma texts_fit: "list_all (\<lambda>s. length s < 2 ^ 31) ss \<Longrightarrow> list_all fits (map (\<lambda>s. V_Str (bytes_of s)) (take n ss))"
  by (auto simp: list_all_iff fits_def bytes_of_def dest: in_set_takeD)

lemma texts_content: "vtype p \<in> text_types \<Longrightarrow> array_content big p a = map (\<lambda>s. V_Str (bytes_of s)) (take (nat (v_length a)) (v_str a))"
  by (simp add: array_content_def)

lemma cardinal_not_compound:
  "number_type t w \<Longrightarrow> t \<notin> compound_types" "t \<in> text_types \<Longrightarrow> t \<notin> compound_types"
  by (auto simp: number_type_def type_sets)

lemma some_objects [simp]: "map (\<lambda>e. case e of None \<Rightarrow> [] | Some w \<Rightarrow> f w) (map Some ws) = map f ws"
  by simp

lemma list_all2_fit: "list_all2 (\<lambda>v k. R v k \<and> list_all P (f v)) vs ks \<Longrightarrow> list_all P (concat (map f vs))"
  by (induction vs ks rule: list_all2_induct) simp_all

lemma concat_filter: "concat (map (\<lambda>w. if P w then f w else []) vs) = concat (map f (filter P vs))"
  by (induction vs) simp_all

lemma list_all_mem: "list_all P xs \<Longrightarrow> x \<in> set xs \<Longrightarrow> P x"
  by (simp add: list_all_iff)

lemma sendable_fits: "sendable v k \<Longrightarrow> list_all fits (contents False big v)"
proof (induction rule: sendable.induct)
  case (s_structure a vs ks)
  then show ?case by (auto simp: concat_filter dest: list_all2_fit)
next
  case (s_sequence a n rows ks vs)
  have "list_all fits (concat (map (contents False big) row))" if "row \<in> set rows" for row
    using list_all_mem [OF s_sequence(4) that] by (rule list_all2_fit)
  then show ?case by (auto simp: list_all_iff fits_def)
next
  case (s_objects a ws p k rest)
  then show ?case by (auto simp: list_all_iff)
qed (auto simp: cardinal_not_compound texts_content texts_fit intro!: numbers_fit)

lemma read_ready: "ready b \<Longrightarrow> read_p (Scalar b)"
  by (cases b) (auto simp: read_p_def)

lemma sendable_read: "sendable v k \<Longrightarrow> read_p v"
  by (induction rule: sendable.induct) (auto simp: read_ready)

lemma prepare_read [simp]: "read_p v \<Longrightarrow> prepare rd cl filt v q = return (v, q)"
  by (simp add: prepare_def read_sequence_values_def)

lemma scalar_put_content: "ready b \<Longrightarrow> scalar_put wr b m = put_d4 wr m (content b)"
  by (cases b) (auto simp: scalar_put_def Enum_put_content)

lemma put_all_one [simp]: "put_all wr m [x] = put_d4 wr m x"
  by simp

lemma each_put:
  assumes "\<And>x m. x \<in> set xs \<Longrightarrow> P x \<Longrightarrow> host_big m = big \<Longrightarrow> f x (m, q) = bind (put_all wr m (g x)) (\<lambda>m1. return (x, m1, q))"
    and "\<And>x. x \<in> set xs \<Longrightarrow> P x \<Longrightarrow> list_all fits (g x)"
    and "host_big m = big"
  shows "each P f xs (m, q) = bind (put_all wr m (concat (map g (filter P xs)))) (\<lambda>m1. return (xs, m1, q))"
  using assms
proof (induction xs arbitrary: m)
  case (Cons x xs)
  show ?case
  proof (cases "P x")
    case True
    have "each P f (x # xs) (m, q) = bind (put_all wr m (g x)) (\<lambda>m1. bind (each P f xs (m1, q)) (\<lambda>(xs1, m2). return (x # xs1, m2)))"
      using True Cons.prems(1,3) by (simp add: bind_assoc)
    also have "\<dots> = bind (put_all wr m (g x)) (\<lambda>m1. bind (put_all wr m1 (concat (map g (filter P xs)))) (\<lambda>m2. return (x # xs, m2, q)))"
      using put_all_host_big [of wr m "g x"] Cons True by (intro bind_cong) (auto simp: bind_assoc)
    finally show ?thesis using True by (simp add: put_all_append bind_assoc)
  qed (use Cons in \<open>simp add: bind_assoc\<close>)
qed simp

lemma list_all2_left: "list_all2 R xs ys \<Longrightarrow> x \<in> set xs \<Longrightarrow> \<exists>y. R x y"
  by (induction xs ys rule: list_all2_induct) auto

lemma padded_objects [simp]: "padded (length ws) (map Some ws @ rest) = map Some ws"
  by (simp add: padded_def)

lemma put_texts:
  assumes "vtype p \<in> text_types" "v_length a \<le> int (length (v_str a))"
  shows "put_array wr a p m = put_all wr m (array_content (host_big m) p a)"
proof -
  have "vtype p \<notin> byte_types" "vtype p \<notin> int_types" "vtype p \<notin> {dods_enum_c, dods_float32_c, dods_float64_c}"
    using assms(1) by (auto simp: type_sets)
  moreover have "nat (v_length a) \<le> length (v_str a)" using assms(2) by simp
  ultimately show ?thesis using assms(1) by (simp add: put_array_def put_strings_all texts_content)
qed

text \<open>A variable that is read is written as its values, and is not changed.\<close>

lemma serialize_sendable:
  "sendable v k \<Longrightarrow> serialize_var rd cl wr filt v (m, q) = bind (put_all wr m (contents False (host_big m) v)) (\<lambda>m1. return (v, m1, q))"
proof (induction arbitrary: filt m rule: sendable.induct)
  case (s_scalar b)
  then show ?case by (simp add: serialize_var.simps read_ready scalar_put_content)
next
  case (s_structure a vs ks)
  have "each send_p (serialize_var rd cl wr filt) vs (m, q) =
      bind (put_all wr m (concat (map (contents False (host_big m)) (filter send_p vs)))) (\<lambda>m1. return (vs, m1, q))"
    using s_structure(2) by (intro each_put) (auto dest!: list_all2_left [where xs = "filter send_p vs"] intro: sendable_fits)
  then show ?case using s_structure(1) by (simp add: serialize_var.simps concat_filter bind_assoc)
next
  case (s_sequence a n rows ks vs)
  let ?g = "\<lambda>row. concat (map (contents False (host_big m)) row)"
  have row: "each (\<lambda>_. True) (serialize_var rd cl wr False) row (m1, q) = bind (put_all wr m1 (?g row)) (\<lambda>m2. return (row, m2, q)) \<and>
      list_all fits (?g row)"
    if "row \<in> set rows" "host_big m1 = host_big m" for row m1
  proof -
    note r = list_all_mem [OF s_sequence(4) that(1)]
    have "\<And>x. x \<in> set row \<Longrightarrow> list_all fits (contents False (host_big m) x)"
      using r by (auto dest!: list_all2_left intro: sendable_fits)
    moreover have "each (\<lambda>_. True) (serialize_var rd cl wr False) row (m1, q) =
        bind (put_all wr m1 (concat (map (contents False (host_big m)) (filter (\<lambda>_. True) row)))) (\<lambda>m2. return (row, m2, q))"
      using r that(2) by (intro each_put) (auto dest!: list_all2_left intro: sendable_fits)
    ultimately show ?thesis by (auto simp: list_all_iff)
  qed
  have "each (\<lambda>_. True) (each (\<lambda>_. True) (serialize_var rd cl wr False)) rows (m1, q) =
      bind (put_all wr m1 (concat (map ?g (filter (\<lambda>_. True) rows)))) (\<lambda>m2. return (rows, m2, q))"
    if "host_big m1 = host_big m" for m1
    using row that by (intro each_put) auto
  moreover have "host_big m1 = host_big m" if "put_count wr m (word_of_int n) = return m1" for m1
    using put_d4_host_big [of wr m "V_Count (word_of_int n)" m1] that by (simp add: fits_def)
  ultimately show ?case using s_sequence(1)
    by (auto simp: serialize_var.simps bind_assoc intro!: bind_cong)
next
  case (s_empty a p w c)
  then show ?case by (simp add: serialize_var.simps)
next
  case (s_objects a ws p k rest)
  have "each (\<lambda>_. True) (on_object (serialize_var rd cl wr filt)) (map Some ws) (m, q) =
      bind (put_all wr m (concat (map (\<lambda>e. case e of None \<Rightarrow> [] | Some w \<Rightarrow> contents False (host_big m) w)
        (filter (\<lambda>_. True) (map Some ws))))) (\<lambda>m1. return (map Some ws, m1, q))"
    using s_objects(6) by (intro each_put) (auto simp: on_object_def bind_assoc dest!: list_all_mem intro: sendable_fits)
  then show ?case using s_objects(1-5) by (auto simp: serialize_var.simps bind_assoc comp_def)
next
  case (s_texts a p k c)
  then show ?case by (simp add: serialize_var.simps cardinal_not_compound put_texts)
next
  case (s_numbers a p w bs c)
  then show ?case by (simp add: serialize_var.simps cardinal_not_compound put_numbers)
qed


section \<open>What is read\<close>

text \<open>The bytes of a vector as the reading host has them.\<close>

definition seen :: "bool \<Rightarrow> bool \<Rightarrow> nat \<Rightarrow> nat \<Rightarrow> u8 list \<Rightarrow> u8 list" where
  "seen wb hb w n bs = (if wb = hb \<or> w = 1 then bs else swap_elems w n bs)"

lemma length_swap_elems [simp]: "length bs = w * n \<Longrightarrow> length (swap_elems w n bs) = w * n"
  by (induction n arbitrary: bs) simp_all

lemma vec_val_swap:
  "length bs = w * n \<Longrightarrow> vec_val (\<not> big) w n (swap_elems w n bs) = (vec_val big w n bs :: 'a::len word list)"
  by (induction n arbitrary: bs) (auto simp: mem_val_def)

lemma vec_val_seen:
  assumes "length bs = w * n" "w \<noteq> 1"
  shows "vec_val hb w n (seen wb hb w n bs) = (vec_val wb w n bs :: 'a::len word list)"
  using assms vec_val_swap [OF assms(1), of wb, where 'a = 'a] by (cases "wb = hb") (auto simp: seen_def)

lemma length_seen: "length bs = w * n \<Longrightarrow> length (seen wb hb w n bs) = w * n"
  by (simp add: seen_def)

lemma copy_whole: "length bs = length d \<Longrightarrow> copy_mem (Some d) 0 bs (length bs) = Inr (Some bs)"
  by (auto simp: copy_mem_def)

lemma content_seen:
  assumes "number_type (vtype p) w" "width False p = Inr w" "v_buf a = Some bs" "v_length a = int n" "length bs = w * n"
    and "width False q = Inr w" "vtype q = vtype p" "v_length b = int n"
  shows "array_content hb q (b\<lparr>v_buf := Some (seen wb hb w n bs)\<rparr>) = array_content wb p a"
proof -
  have "vtype p \<notin> text_types" "vtype p = dods_float32_c \<Longrightarrow> w = 4" "vtype p = dods_float64_c \<Longrightarrow> w = 8"
    using assms(1) by (auto simp: number_type_def type_sets)
  moreover have "w \<in> {1, 2, 4, 8}" using assms(1) by (auto simp: number_type_def)
  moreover have "w = 1 \<Longrightarrow> seen wb hb w n bs = bs" by (simp add: seen_def)
  ultimately show ?thesis using assms by (auto simp: array_content_def Let_def vec_val_seen)
qed

lemma numbers_on_stream:
  assumes "number_type (vtype p) w" "width False p = Inr w" "v_buf a = Some bs" "length bs = w * nat (v_length a)"
  shows "concat (map (on_stream big) (array_content big p a)) = bs"
proof -
  have "vtype p \<notin> text_types" "vtype p = dods_float32_c \<Longrightarrow> w = 4" "vtype p = dods_float64_c \<Longrightarrow> w = 8"
    using assms(1) by (auto simp: number_type_def type_sets)
  then show ?thesis using assms(2-4) by (auto simp: array_content_def on_stream_def vec_mem_val Let_def)
qed

lemma kind_type_of [simp]: "kind_type (kind_of v) = vtype v"
  by (cases v) (auto simp: var_type_def split: BaseType.splits)

lemma vtype_kind: "kind_of v = kind_of w \<Longrightarrow> vtype v = vtype w"
  by (metis kind_type_of)

lemma width_kind:
  assumes "kind_of v = kind_of w" "number_type (vtype v) k"
  shows "width False v = width False w"
proof -
  obtain b c where "v = Scalar b" "w = Scalar c"
    using assms by (cases v; cases w) (auto simp: number_type_def type_sets split: BaseType.splits)
  then show ?thesis using assms(1)
    by (auto simp: scalar_width_def var_type_def type_of_byte_eq Enum_width_def split: BaseType.splits)
qed


lemma kind_received:
  assumes "ready b" "kind_of (Scalar c) = kind_of (Scalar b)"
  shows "\<exists>d. received b c d \<and> content d = content b \<and> kind_of (Scalar d) = kind_of (Scalar c)"
  using assms
  by (cases b; cases c) (auto simp: var_type_def type_of_byte_eq intro!: received.intros exI)

lemma scalar_get_received: "received b c d \<Longrightarrow> scalar_get rdr c u = var_deserialize rdr c u"
  by (auto simp: scalar_get_def elim!: received.cases)

lemma new_buffer_ok:
  assumes "number_type (vtype p) w" "width False p = Inr w" "v_length a = int n" "0 < n" "w * n < 2 ^ 31"
  shows "\<exists>a1. new_buffer junk a p = return a1 \<and> v_shape a1 = v_shape a \<and> v_buf a1 = Some (fresh_mem junk (w * n))"
proof -
  have "vtype p \<in> cardinal_types" "0 < w" using assms(1) by (auto simp: number_type_def type_sets)
  moreover from this have "n < 2 ^ 32" using assms(5) by (cases w) auto
  ultimately show ?thesis using assms(2-5)
    by (simp add: new_buffer_def with_width_def m_create_cardinal_data_buffer_for_type_def m_is_cardinal_type_def
        m_delete_cardinal_data_buffer_def to_uint_def Let_def nat_mod_distrib nat_mult_distrib flip: of_nat_mult)
qed

lemma text_on_stream: "on_stream big (V_Str s) = mem_bytes big 8 (of_nat (length s) :: u64) @ s"
  by (simp add: on_stream_def)

context byte_source
begin

lemma read_elems:
  assumes "yields (d_in u) (bs @ ys)" "length bs = w * n" "w * n < 2 ^ 31" "w \<in> {2, 4, 8}"
    and "d_twiddle_bytes u \<longleftrightarrow> wb \<noteq> um_host_big u"
  shows "\<exists>s. bind (read_in rd u (w * n)) (twiddled u (of_nat n) (int w)) =
    return (seen wb (um_host_big u) w n bs, u\<lparr>d_in := s\<rparr>) \<and> yields s ys"
proof -
  obtain s where "read_in rd u (w * n) = return (bs, u\<lparr>d_in := s\<rparr>)" "yields s ys"
    using read_in_ok [OF assms(1)] assms(2,3) by auto
  moreover have "unat (of_nat n :: u64) = n" using assms(3,4) by (auto simp: unat_small)
  ultimately show ?thesis using assms(4,5)
    by (auto simp: twiddled_def m_twidle_vector_elements_def seen_def)
qed

lemma fill_ok:
  assumes "\<exists>s. r = return (bs, u\<lparr>d_in := s\<rparr>) \<and> yields s ys" "v_buf a = Some d" "length bs = length d"
  shows "\<exists>s. fill a r = return (a\<lparr>v_buf := Some bs\<rparr>, u\<lparr>d_in := s\<rparr>) \<and> yields s ys"
  using copy_whole [OF assms(3)] assms(1,2) by (auto simp: fill_def)

lemma get_array_numbers:
  assumes "number_type (vtype p) w" "width False p = Inr w" "v_length a = int n" "length bs = w * n" "w * n < 2 ^ 31"
    and "v_buf a = Some d" "length d = w * n" "yields (d_in u) (bs @ ys)" "d_twiddle_bytes u \<longleftrightarrow> wb \<noteq> um_host_big u"
  shows "\<exists>s. get_array rd a p u =
    return (a\<lparr>v_buf := Some (seen wb (um_host_big u) w n bs)\<rparr>, u\<lparr>d_in := s\<rparr>) \<and> yields s ys"
proof -
  note fill = fill_ok [where bs = "seen wb (um_host_big u) w n bs" and d = d and a = a and u = u and ys = ys]
  have len: "length (seen wb (um_host_big u) w n bs) = length d" using assms(4,7) by (simp add: length_seen)
  have one: "\<exists>s. get_vector rd u (of_nat n) = return (seen wb (um_host_big u) w n bs, u\<lparr>d_in := s\<rparr>) \<and> yields s ys" if "w = 1"
    using read_in_ok [OF assms(8), of n] assms(4,5) that by (auto simp: get_vector_def nat_sint_small seen_def)
  have elems: "\<exists>s. get_vector_elems rd u (of_nat n) (int w) = return (seen wb (um_host_big u) w n bs, u\<lparr>d_in := s\<rparr>) \<and> yields s ys"
    if "w \<in> {2, 4, 8}"
    using read_elems [OF assms(8,4,5) that assms(9)] that assms(5)
    by (auto simp: get_vector_elems_def vector_bytes_small nat_sint_small simp del: of_nat_mult)
  from assms(1) consider "vtype p \<in> byte_types" "w = 1" | "vtype p \<in> int_types" "w \<in> {2, 4, 8}"
    | "vtype p = dods_enum_c" "w \<in> {1, 2, 4, 8}" | "vtype p = dods_float32_c" "w = 4" | "vtype p = dods_float64_c" "w = 8"
    unfolding number_type_def by fast
  then show ?thesis
  proof cases
    case 1
    then show ?thesis using fill [OF one assms(6) len] assms(3) by (simp add: get_array_def)
  next
    case 2
    then have "vtype p \<notin> byte_types" by (auto simp: type_sets)
    then show ?thesis using 2 fill [OF elems assms(6) len] assms(2,3) by (simp add: get_array_def with_width_def)
  next
    case 3
    then have "vtype p \<notin> byte_types" "vtype p \<notin> int_types" by (auto simp: type_sets)
    moreover have "w = 1 \<or> w \<in> {2, 4, 8}" using 3 by auto
    ultimately show ?thesis using 3 fill [OF one assms(6) len] fill [OF elems assms(6) len] assms(2,3)
      by (cases "w = 1") (simp_all add: get_array_def with_width_def)
  next
    case 4
    then have "\<exists>s. get_vector_float32 rd u (of_nat n) = return (seen wb (um_host_big u) w n bs, u\<lparr>d_in := s\<rparr>) \<and> yields s ys"
      using read_elems [OF assms(8,4,5) _ assms(9)] assms(5)
      by (auto simp: get_vector_float32_def not_neg_small push_of_nat nat_sint_small simp del: of_nat_mult)
    moreover have "vtype p \<notin> byte_types" "vtype p \<notin> int_types" using 4 by (auto simp: type_sets)
    ultimately show ?thesis using 4 fill [OF _ assms(6) len] assms(3) by (simp add: get_array_def)
  next
    case 5
    then have "\<exists>s. get_vector_float64 rd u (of_nat n) = return (seen wb (um_host_big u) w n bs, u\<lparr>d_in := s\<rparr>) \<and> yields s ys"
      using read_elems [OF assms(8,4,5) _ assms(9)] assms(5)
      by (auto simp: get_vector_float64_def not_neg_small push_of_nat nat_sint_small simp del: of_nat_mult)
    moreover have "vtype p \<notin> byte_types" "vtype p \<notin> int_types" using 5 by (auto simp: type_sets)
    ultimately show ?thesis using 5 fill [OF _ assms(6) len] assms(3) by (simp add: get_array_def)
  qed
qed

lemma get_strings_ok:
  assumes "yields (d_in u) (concat (map (on_stream (um_host_big u)) (map (\<lambda>s. V_Str (bytes_of s)) ss)) @ ys)"
    "list_all (\<lambda>s. length s < 2 ^ 31) ss"
  shows "\<exists>s. get_strings rd (length ss) u = return (ss, u\<lparr>d_in := s\<rparr>) \<and> yields s ys"
  using assms
proof (induction ss arbitrary: u)
  case Nil
  then show ?case by (intro exI [of _ "d_in u"]) simp
next
  case (Cons x xs)
  have "length (bytes_of x) < 2 ^ 31" using Cons.prems(2) by (simp add: bytes_of_def)
  then obtain r where r: "get_str rd u = return (bytes_of x, u\<lparr>d_in := r\<rparr>)"
    "yields r (concat (map (on_stream (um_host_big u)) (map (\<lambda>s. V_Str (bytes_of s)) xs)) @ ys)"
    using get_text_ok [of u "bytes_of x" "concat (map (on_stream (um_host_big u)) (map (\<lambda>s. V_Str (bytes_of s)) xs)) @ ys"] Cons.prems(1)
    by (auto simp: get_str_def text_on_stream)
  then show ?case using Cons.IH [of "u\<lparr>d_in := r\<rparr>"] Cons.prems(2) by auto
qed

end


text \<open>
  The receiver's variable before a response is read into it: no rows, and no sequence inside a sequence, since the rows
  of an inner sequence stay in it from one row of the outer one to the next.
\<close>

fun seq_free :: "kind \<Rightarrow> bool" where
  "seq_free (K_Structure ks) = list_all seq_free ks" | "seq_free (K_Sequence ks) = False"
| "seq_free (K_Array n k) = seq_free k" | "seq_free (K_Scalar t e) = True" | "seq_free (K_Other t) = True"

fun fresh :: "var \<Rightarrow> bool" where
  "fresh (Scalar b) = True" | "fresh (Structure a vs) = list_all fresh vs"
| "fresh (D4Sequence a vs n rows) = (rows = [] \<and> list_all (\<lambda>v. seq_free (kind_of v)) vs)"
| "fresh (Array a p c) = fresh p"

lemma seq_free_fresh: "seq_free (kind_of w) \<Longrightarrow> fresh w"
  by (induction w) (auto simp: list_all_iff)

definition reads :: "'r reader \<Rightarrow> ('r \<Rightarrow> u8 list \<Rightarrow> bool) \<Rightarrow> (nat \<Rightarrow> u8) \<Rightarrow> bool \<Rightarrow> bool \<Rightarrow> var \<Rightarrow> var \<Rightarrow> bool" where
  "reads rd yields junk wb hb v w \<longleftrightarrow> (\<forall>u ys.
     yields (d_in u) (concat (map (on_stream wb) (contents False wb v)) @ ys) \<longrightarrow> um_host_big u = hb \<longrightarrow>
     (d_twiddle_bytes u \<longleftrightarrow> wb \<noteq> hb) \<longrightarrow>
     (\<exists>w' s. deserialize_var junk rd w u = return (w', u\<lparr>d_in := s\<rparr>) \<and> yields s ys \<and>
       contents True hb w' = contents False wb v \<and> kind_of w' = kind_of w))"

lemma readsD:
  assumes "reads rd yields junk wb (um_host_big u) v w" "yields (d_in u) (concat (map (on_stream wb) (contents False wb v)) @ ys)"
    "d_twiddle_bytes u \<longleftrightarrow> wb \<noteq> um_host_big u"
  shows "\<exists>w' s. deserialize_var junk rd w u = return (w', u\<lparr>d_in := s\<rparr>) \<and> yields s ys \<and>
    contents True (um_host_big u) w' = contents False wb v \<and> kind_of w' = kind_of w"
  using assms unfolding reads_def by blast

lemma each_reads:
  assumes "list_all2 (reads rd yields junk wb hb) vs ws"
    "yields (d_in u) (concat (map (on_stream wb) (concat (map (contents False wb) vs))) @ ys)"
    "um_host_big u = hb" "d_twiddle_bytes u \<longleftrightarrow> wb \<noteq> hb"
  shows "\<exists>ws' s. each (\<lambda>_. True) (deserialize_var junk rd) ws u = return (ws', u\<lparr>d_in := s\<rparr>) \<and> yields s ys \<and>
    map (contents True hb) ws' = map (contents False wb) vs \<and> map kind_of ws' = map kind_of ws"
  using assms
proof (induction vs ws arbitrary: u rule: list_all2_induct)
  case Nil
  then show ?case by (intro exI [of _ "[]"] exI [of _ "d_in u"]) simp
next
  case (Cons v vs w ws)
  then obtain w' s where w: "deserialize_var junk rd w u = return (w', u\<lparr>d_in := s\<rparr>)"
    "yields s (concat (map (on_stream wb) (concat (map (contents False wb) vs))) @ ys)"
    "contents True hb w' = contents False wb v" "kind_of w' = kind_of w"
    using readsD [of rd yields junk wb u v w "concat (map (on_stream wb) (concat (map (contents False wb) vs))) @ ys"] by auto
  then show ?case using Cons.IH [of "u\<lparr>d_in := s\<rparr>"] Cons.prems(2,3) by fastforce
qed

lemma collect_reads:
  assumes "\<And>row ws. row \<in> set rows \<Longrightarrow> map kind_of ws = ks \<Longrightarrow> list_all2 (reads rd yields junk wb hb) row ws" "map kind_of ws = ks"
    "yields (d_in u) (concat (map (on_stream wb) (concat (map (\<lambda>row. concat (map (contents False wb) row)) rows))) @ ys)"
    "um_host_big u = hb" "d_twiddle_bytes u \<longleftrightarrow> wb \<noteq> hb"
  shows "\<exists>new ws' s. collect (length rows) (each (\<lambda>_. True) (deserialize_var junk rd)) ws u = return (new, ws', u\<lparr>d_in := s\<rparr>) \<and>
    yields s ys \<and> map (map (contents True hb)) new = map (map (contents False wb)) rows \<and> map kind_of ws' = ks"
  using assms
proof (induction rows arbitrary: ws u)
  case Nil
  then show ?case by (intro exI [of _ "[]"] exI [of _ ws] exI [of _ "d_in u"]) simp
next
  case (Cons row rows)
  let ?rest = "concat (map (on_stream wb) (concat (map (\<lambda>row. concat (map (contents False wb) row)) rows))) @ ys"
  have "list_all2 (reads rd yields junk wb hb) row ws" using Cons.prems(1,2) by simp
  from each_reads [OF this, of u ?rest] Cons.prems(3-5)
  obtain ws' s where w: "each (\<lambda>_. True) (deserialize_var junk rd) ws u = return (ws', u\<lparr>d_in := s\<rparr>)" "yields s ?rest"
    "map (contents True hb) ws' = map (contents False wb) row" "map kind_of ws' = map kind_of ws"
    by auto
  have "\<exists>new ws'' s'. collect (length rows) (each (\<lambda>_. True) (deserialize_var junk rd)) ws' (u\<lparr>d_in := s\<rparr>) =
      return (new, ws'', u\<lparr>d_in := s\<rparr>\<lparr>d_in := s'\<rparr>) \<and> yields s' ys \<and>
      map (map (contents True hb)) new = map (map (contents False wb)) rows \<and> map kind_of ws'' = ks"
    using w(2,4) Cons.prems by (intro Cons.IH) auto
  then show ?case using w by fastforce
qed


lemma list_all2_fresh:
  assumes "list_all2 (\<lambda>v k. sendable v k \<and> (list_all P (f v) \<longrightarrow> (\<forall>w. kind_of w = k \<longrightarrow> fresh w \<longrightarrow> R v w))) vs (map kind_of ws)"
    "list_all P (concat (map f vs))" "list_all fresh ws"
  shows "list_all2 R vs ws"
  using assms(1) unfolding list_all2_map2
  by (rule list.rel_mono_strong) (use assms(2,3) in \<open>auto simp: list_all_iff\<close>)

lemma structure_kind: "kind_of w = K_Structure ks \<Longrightarrow> \<exists>a ws. w = Structure a ws \<and> ks = map kind_of ws"
  by (cases w) (auto split: BaseType.splits)

lemma sequence_kind: "kind_of w = K_Sequence ks \<Longrightarrow> \<exists>a ws n rows. w = D4Sequence a ws n rows \<and> ks = map kind_of ws"
  by (cases w) (auto split: BaseType.splits)

lemma array_kind: "kind_of w = K_Array n k \<Longrightarrow> \<exists>a p c. w = Array a p c \<and> v_length a = n \<and> kind_of p = k"
  by (cases w) (auto split: BaseType.splits)

lemma scalar_kind: "kind_of w = kind_of (Scalar b) \<Longrightarrow> \<exists>c. w = Scalar c"
  by (cases w) (auto split: BaseType.splits)

lemma array_values: "vtype p \<notin> compound_types \<Longrightarrow> v_length a \<noteq> 0 \<Longrightarrow> contents all big (Array a p c) = array_content big p a"
  by simp

context byte_source
begin

lemma sendable_reads:
  "sendable v k \<Longrightarrow> list_all (portable wb hb) (contents False wb v) \<Longrightarrow> kind_of w = k \<Longrightarrow> fresh w \<Longrightarrow>
    reads rd yields junk wb hb v w"
proof (induction arbitrary: w rule: sendable.induct)
  case (s_scalar b)
  then obtain c where c: "w = Scalar c" using scalar_kind by blast
  obtain d where d: "received b c d" "content d = content b" "kind_of (Scalar d) = kind_of w"
    using kind_received [OF s_scalar(1), of c] s_scalar(4) unfolding c by blast
  show ?case unfolding reads_def
  proof (intro allI impI)
    fix u :: "'r unmarshaller" and ys
    assume y: "yields (d_in u) (concat (map (on_stream wb) (contents False wb (Scalar b))) @ ys)"
      and hb: "um_host_big u = hb" and tw: "d_twiddle_bytes u = (wb \<noteq> hb)"
    obtain s where s: "get_d4 rd u (shape (content b)) = return (content b, u\<lparr>d_in := s\<rparr>)" "yields s ys"
      using get_ok [of u wb "content b" ys] y hb tw s_scalar(2,3) by auto
    have "deserialize_var junk rd w u = return (Scalar d, u\<lparr>d_in := s\<rparr>)"
      using var_deserialize_content [OF d(1) s_scalar(1) s(1)] d(1) by (simp add: deserialize_var.simps c scalar_get_received)
    then show "\<exists>w' s. deserialize_var junk rd w u = return (w', u\<lparr>d_in := s\<rparr>) \<and> yields s ys \<and>
        contents True hb w' = contents False wb (Scalar b) \<and> kind_of w' = kind_of w"
      using d(2,3) s(2) by (intro exI [of _ "Scalar d"] exI [of _ s]) simp
  qed
next
  case (s_structure a vs ks)
  then obtain a' ws where w: "w = Structure a' ws" "ks = map kind_of ws" using structure_kind by blast
  have r: "list_all2 (reads rd yields junk wb hb) (filter send_p vs) ws"
    using s_structure(2) unfolding w(2)
    by (rule list_all2_fresh) (use s_structure(3,5) w(1) in \<open>simp_all add: concat_filter\<close>)
  show ?case unfolding reads_def
  proof (intro allI impI)
    fix u :: "'r unmarshaller" and ys
    assume "yields (d_in u) (concat (map (on_stream wb) (contents False wb (Structure a vs))) @ ys)"
      "um_host_big u = hb" "d_twiddle_bytes u = (wb \<noteq> hb)"
    then obtain ws' s where "each (\<lambda>_. True) (deserialize_var junk rd) ws u = return (ws', u\<lparr>d_in := s\<rparr>)" "yields s ys"
      "map (contents True hb) ws' = map (contents False wb) (filter send_p vs)" "map kind_of ws' = map kind_of ws"
      using each_reads [OF r, of u ys] by (auto simp: concat_filter)
    then show "\<exists>w' s. deserialize_var junk rd w u = return (w', u\<lparr>d_in := s\<rparr>) \<and> yields s ys \<and>
        contents True hb w' = contents False wb (Structure a vs) \<and> kind_of w' = kind_of w"
      by (intro exI [of _ "Structure a' ws'"] exI [of _ s]) (simp add: deserialize_var.simps w concat_filter)
  qed
next
  case (s_sequence a n rows ks vs)
  then obtain a' ws n0 where w: "w = D4Sequence a' ws n0 []" "ks = map kind_of ws" "list_all seq_free ks"
    using sequence_kind [of w ks] by (auto simp: list_all_iff)
  have n: "n = int (length rows)" "length rows < 2 ^ 31" using s_sequence(2,3) by auto
  have "wb = hb" using s_sequence(5) by (simp add: portable_def)
  have r: "list_all2 (reads rd yields junk wb hb) row us" if "row \<in> set rows" "map kind_of us = ks" for row us
  proof (rule list_all2_fresh [where f = "contents False wb" and P = "portable wb hb"])
    show "list_all2 (\<lambda>v k. sendable v k \<and> (list_all (portable wb hb) (contents False wb v) \<longrightarrow>
        (\<forall>w. kind_of w = k \<longrightarrow> fresh w \<longrightarrow> reads rd yields junk wb hb v w))) row (map kind_of us)"
      using list_all_mem [OF s_sequence(4) that(1)] by (simp add: that(2))
    show "list_all (portable wb hb) (concat (map (contents False wb) row))" using s_sequence(5) that(1) by (auto simp: list_all_iff)
    show "list_all fresh us" using w(3) that(2) by (auto simp: list_all_iff seq_free_fresh)
  qed
  show ?case unfolding reads_def
  proof (intro allI impI)
    fix u :: "'r unmarshaller" and ys
    assume y: "yields (d_in u) (concat (map (on_stream wb) (contents False wb (D4Sequence a vs n rows))) @ ys)"
      and hb: "um_host_big u = hb" and tw: "d_twiddle_bytes u = (wb \<noteq> hb)"
    let ?rest = "concat (map (on_stream wb) (concat (map (\<lambda>row. concat (map (contents False wb) row)) rows))) @ ys"
    obtain s where s: "get_count rd u = return (word_of_int n, u\<lparr>d_in := s\<rparr>)" "yields s ?rest"
      using get_raw_same [of u 8 "word_of_int n :: u64" ?rest] y hb \<open>wb = hb\<close> by (auto simp: get_count_def on_stream_def)
    have "\<exists>new ws' s'. collect (length rows) (each (\<lambda>_. True) (deserialize_var junk rd)) ws (u\<lparr>d_in := s\<rparr>) =
      return (new, ws', u\<lparr>d_in := s\<rparr>\<lparr>d_in := s'\<rparr>) \<and> yields s' ys \<and>
      map (map (contents True hb)) new = map (map (contents False wb)) rows \<and> map kind_of ws' = ks"
      using r w(2) s(2) hb tw by (intro collect_reads) auto
    then obtain new ws' s' where c: "collect (length rows) (each (\<lambda>_. True) (deserialize_var junk rd)) ws (u\<lparr>d_in := s\<rparr>) =
      return (new, ws', u\<lparr>d_in := s'\<rparr>)" "yields s' ys"
      "map (map (contents True hb)) new = map (map (contents False wb)) rows" "map kind_of ws' = ks"
      by auto
    have "to_int (sint (word_of_int n :: u64)) = n" using n sint_small [of "length rows"] by simp
    moreover have "map (\<lambda>row. concat (map (contents True hb) row)) new = map (\<lambda>row. concat (map (contents False wb) row)) rows"
      using arg_cong [OF c(3), of "map concat"] by (simp add: comp_def)
    ultimately show "\<exists>w' s. deserialize_var junk rd w u = return (w', u\<lparr>d_in := s\<rparr>) \<and> yields s ys \<and>
        contents True hb w' = contents False wb (D4Sequence a vs n rows) \<and> kind_of w' = kind_of w"
      using s(1) c n(1)
      by (intro exI [of _ "D4Sequence a' ws' n new"] exI [of _ s']) (simp add: deserialize_var.simps w(1,2))
  qed
next
  case (s_empty a p w' c)
  then obtain a' p' c' where w: "w = Array a' p' c'" "v_length a' = 0" "kind_of p' = kind_of p" using array_kind by metis
  have "\<exists>a1. new_buffer junk a' p' = return a1 \<and> v_length a1 = 0"
    using s_empty(3) w(2) vtype_kind [OF w(3)] width_kind [OF w(3), of w']
    by (auto simp: new_buffer_def with_width_def m_create_cardinal_data_buffer_for_type_def m_is_cardinal_type_def
        m_delete_cardinal_data_buffer_def to_uint_def)
  then obtain a1 where a1: "new_buffer junk a' p' = return a1" "v_length a1 = 0" by blast
  have "contents True hb (Array a1 p' c') = []" "contents False wb (Array a p c) = []" using a1(2) s_empty(2) by simp_all
  then show ?case using a1 w
    by (auto simp: reads_def deserialize_var.simps simp del: contents.simps intro!: exI [of _ "d_in _"])
next
  case (s_objects a ws p k rest)
  then obtain a' p' c' where w: "w = Array a' p' c'" "v_length a' = int (length ws)" "kind_of p' = k"
    using array_kind by metis
  have p': "vtype p' \<in> compound_types" "vtype p' \<notin> cardinal_types"
    using s_objects(4,5) w(3) by (auto simp: type_sets)
  have len: "length (map (\<lambda>_. p') (padded (length ws) c')) = length ws" by (simp add: padded_def)
  have el: "reads rd yields junk wb hb x p'" if x: "x \<in> set ws" for x
  proof -
    have "fresh p'" using s_objects(9) w(1) by simp
    moreover have "list_all (portable wb hb) (contents False wb x)"
      using s_objects(2,3,4,7) x by (auto simp: list_all_iff split: if_splits)
    ultimately show ?thesis using list_all_mem [OF s_objects(6) x] w(3) by blast
  qed
  then have "list_all2 (reads rd yields junk wb hb) ws (map (\<lambda>_. p') (padded (length ws) c'))"
    using len by (auto simp: list_all2_conv_all_nth)
  note r = each_reads [OF this]
  show ?case unfolding reads_def
  proof (intro allI impI)
    fix u :: "'r unmarshaller" and ys
    assume "yields (d_in u) (concat (map (on_stream wb) (contents False wb (Array a p (map Some ws @ rest)))) @ ys)"
      "um_host_big u = hb" "d_twiddle_bytes u = (wb \<noteq> hb)"
    then obtain ws' s where e: "each (\<lambda>_. True) (deserialize_var junk rd) (map (\<lambda>_. p') (padded (length ws) c')) u = return (ws', u\<lparr>d_in := s\<rparr>)"
      "yields s ys" "map (contents True hb) ws' = map (contents False wb) ws"
      using r [of u ys] s_objects(2-4) by (auto simp: comp_def)
    have "length ws' = length ws" using arg_cong [OF e(3), of length] by simp
    then show "\<exists>w' s. deserialize_var junk rd w u = return (w', u\<lparr>d_in := s\<rparr>) \<and> yields s ys \<and>
        contents True hb w' = contents False wb (Array a p (map Some ws @ rest)) \<and> kind_of w' = kind_of w"
      using e s_objects(2-4) w p'
      by (intro exI [of _ "Array (a'\<lparr>v_capacity := v_length a'\<rparr>) p' (map Some ws')"] exI [of _ s])
        (simp add: deserialize_var.simps new_buffer_def vec_resize_def comp_def)
  qed
next
  case (s_texts a p c)
  then obtain a' p' c' where w: "w = Array a' p' c'" "v_length a' = v_length a" "kind_of p' = kind_of p" using array_kind by metis
  have p: "vtype p' \<in> text_types" "vtype p \<notin> compound_types" "vtype p' \<notin> compound_types \<union> cardinal_types \<union> byte_types \<union> int_types"
    "vtype p' \<notin> {dods_enum_c, dods_float32_c, dods_float64_c}"
    using s_texts(4) vtype_kind [OF w(3)] by (auto simp: type_sets)
  let ?ss = "take (nat (v_length a)) (v_str a)"
  have ss: "list_all (\<lambda>s. length s < 2 ^ 31) ?ss" "length ?ss = nat (v_length a)" "?ss \<noteq> []"
    using s_texts(2,3,5) by (auto simp: list_all_iff dest: in_set_takeD)
  have con: "contents False wb (Array a p c) = map (\<lambda>s. V_Str (bytes_of s)) ?ss"
    using s_texts(2,4) p(2) by (simp add: texts_content)
  have "wb = hb" using s_texts(6) ss(3) unfolding con by (cases ?ss) (auto simp: portable_def)
  show ?case unfolding reads_def
  proof (intro allI impI)
    fix u :: "'r unmarshaller" and ys
    assume y: "yields (d_in u) (concat (map (on_stream wb) (contents False wb (Array a p c))) @ ys)"
      and hb: "um_host_big u = hb" and "d_twiddle_bytes u = (wb \<noteq> hb)"
    obtain s where "get_strings rd (nat (v_length a)) u = return (?ss, u\<lparr>d_in := s\<rparr>)" "yields s ys"
      using get_strings_ok [of u ?ss ys] y hb \<open>wb = hb\<close> ss(1,2) unfolding con by auto
    then have "get_array rd a' p' u = return (a'\<lparr>v_str := ?ss, v_capacity := v_length a'\<rparr>, u\<lparr>d_in := s\<rparr>)" "yields s ys"
      using p w(2) by (auto simp: get_array_def Let_def)
    moreover have "new_buffer junk a' p' = return a'" using p(3) by (simp add: new_buffer_def)
    moreover have "contents True hb (Array (a'\<lparr>v_str := ?ss, v_capacity := v_length a'\<rparr>) p' c') = contents False wb (Array a p c)"
      using p w(2) s_texts(2) unfolding con by (simp add: texts_content)
    ultimately show "\<exists>w' s. deserialize_var junk rd w u = return (w', u\<lparr>d_in := s\<rparr>) \<and> yields s ys \<and>
        contents True hb w' = contents False wb (Array a p c) \<and> kind_of w' = kind_of w"
      using w p(3) s_texts(2)
      by (intro exI [of _ "Array (a'\<lparr>v_str := ?ss, v_capacity := v_length a'\<rparr>) p' c'"] exI [of _ s])
        (simp add: deserialize_var.simps del: contents.simps)
  qed
next
  case (s_numbers a p k bs c)
  then obtain a' p' c' where w: "w = Array a' p' c'" "v_length a' = v_length a" "kind_of p' = kind_of p" using array_kind by metis
  obtain n where n: "v_length a = int n" "0 < n" using s_numbers(2) by (metis pos_int_cases)
  have p: "vtype p' = vtype p" "width False p' = Inr k" "number_type (vtype p') k"
    using vtype_kind [OF w(3)] width_kind [OF w(3), of k] s_numbers(3,4) by simp_all
  have len: "length bs = k * n" "k * n < 2 ^ 31" using s_numbers(6,7) n by simp_all
  obtain a1 where a1: "new_buffer junk a' p' = return a1" "v_shape a1 = v_shape a'" "v_buf a1 = Some (fresh_mem junk (k * n))"
    using new_buffer_ok [OF p(3,2) _ n(2) len(2), of a' junk] w(2) n(1) by auto
  have con: "contents False wb (Array a p c) = array_content wb p a" using s_numbers(2,4) by (simp add: cardinal_not_compound)
  show ?case unfolding reads_def
  proof (intro allI impI)
    fix u :: "'r unmarshaller" and ys
    assume "yields (d_in u) (concat (map (on_stream wb) (contents False wb (Array a p c))) @ ys)"
      and hb: "um_host_big u = hb" and tw: "d_twiddle_bytes u = (wb \<noteq> hb)"
    then have "yields (d_in u) (bs @ ys)" using numbers_on_stream [OF s_numbers(4,3,5,6), of wb] unfolding con by simp
    then obtain s where "get_array rd a1 p' u = return (a1\<lparr>v_buf := Some (seen wb hb k n bs)\<rparr>, u\<lparr>d_in := s\<rparr>)" "yields s ys"
      using get_array_numbers [OF p(3,2) _ len a1(3), of u ys wb] a1(2) w(2) n(1) hb tw by auto
    moreover have "contents True hb (Array (a1\<lparr>v_buf := Some (seen wb hb k n bs)\<rparr>) p' c') = contents False wb (Array a p c)"
      using content_seen [OF s_numbers(4,3,5) n(1) len(1) p(2,1), of a1 hb wb] a1(2) w(2) n p(3) unfolding con
      by (simp add: cardinal_not_compound)
    ultimately show "\<exists>w' s. deserialize_var junk rd w u = return (w', u\<lparr>d_in := s\<rparr>) \<and> yields s ys \<and>
        contents True hb w' = contents False wb (Array a p c) \<and> kind_of w' = kind_of w"
      using w a1 n p(3)
      by (intro exI [of _ "Array (a1\<lparr>v_buf := Some (seen wb hb k n bs)\<rparr>) p' c'"] exI [of _ s])
        (simp add: deserialize_var.simps cardinal_not_compound del: contents.simps)
  qed
qed

end


section \<open>Any stream\<close>

lemma bind_returnD: "bind r f = return y \<Longrightarrow> \<exists>x. r = return x \<and> f x = return y"
  by (auto simp: bind_def split: option.splits sum.splits)

lemma each_keeps:
  assumes "\<And>x m x1 m1. f x m = return (x1, m1) \<Longrightarrow> g x1 = g x" "each P f xs m = return (ys, m1)"
  shows "map g ys = map g xs"
  using assms(2)
proof (induction xs arbitrary: ys m m1)
  case (Cons x xs)
  show ?case
  proof (cases "P x")
    case True
    then obtain x1 m2 zs where "f x m = return (x1, m2)" "each P f xs m2 = return (zs, m1)" "ys = x1 # zs"
      using Cons.prems by (auto dest!: bind_returnD)
    then show ?thesis using Cons.IH assms(1) by simp
  next
    case False
    then obtain zs where "each P f xs m = return (zs, m1)" "ys = x # zs"
      using Cons.prems by (auto dest!: bind_returnD)
    then show ?thesis using Cons.IH by simp
  qed
qed simp

lemma collect_keeps:
  assumes "\<And>x m x1 m1. f x m = return (x1, m1) \<Longrightarrow> g x1 = g x" "collect n f x m = return (xs, y, m1)"
  shows "g y = g x" "length xs = n"
proof -
  have "g y = g x \<and> length xs = n" using assms(2)
  proof (induction n arbitrary: x xs m)
    case (Suc n)
    then obtain x1 m2 zs where x: "f x m = return (x1, m2)" "collect n f x1 m2 = return (zs, y, m1)" "xs = x1 # zs"
      by (auto dest!: bind_returnD)
    then show ?case using Suc.IH [OF x(2)] assms(1) [OF x(1)] by simp
  qed simp
  then show "g y = g x" "length xs = n" by simp_all
qed

lemma fill_shape: "fill a r = return (a1, u1) \<Longrightarrow> v_shape a1 = v_shape a"
  by (auto simp: fill_def split: sum.splits dest!: bind_returnD)

lemma get_array_shape: "get_array rdr a p u = return (a1, u1) \<Longrightarrow> v_shape a1 = v_shape a"
  by (auto simp: get_array_def with_width_def Let_def split: if_splits sum.splits dest!: fill_shape bind_returnD)

lemma new_buffer_shape: "new_buffer junk a p = return a1 \<Longrightarrow> v_shape a1 = v_shape a"
  by (auto simp: new_buffer_def with_width_def m_create_cardinal_data_buffer_for_type_def m_delete_cardinal_data_buffer_def
      Let_def split: if_splits sum.splits)

lemma vec_resize_shape: "vec_resize p l a c = Inr (a1, c1) \<Longrightarrow> v_shape a1 = v_shape a"
  by (auto simp: vec_resize_def split: if_splits)

lemma remapD: "remap f r = return (b, u) \<Longrightarrow> \<exists>x. r = return (x, u) \<and> b = f x"
  by (auto simp: remap_def dest!: bind_returnD)

lemma deserialize_only: "deserialize get v u = return (w, u1) \<Longrightarrow> \<exists>x. w = v\<lparr>d_buf := x\<rparr>"
  by (auto simp: deserialize_def dest!: bind_returnD)

lemma scalar_get_kind: "scalar_get rdr b u = return (c, u1) \<Longrightarrow> kind_of (Scalar c) = kind_of (Scalar b)"
  by (cases b) (auto simp: scalar_get_def scalar_deserialize_defs(1-12) Enum_deserialize_def var_type_def not_implemented_def
      split: sum.splits dest!: remapD deserialize_only bind_returnD)


lemma sequence_length: "to_int (sint count) = n1 \<Longrightarrow> to_int n1 = n1"
  by (auto simp: to_int_def)

lemma vtypes_kinds: "map kind_of ws = map kind_of vs \<Longrightarrow> length ws = length vs"
  by (metis length_map)

lemma each_related:
  assumes "\<And>x m x1 m1. f x m = return (x1, m1) \<Longrightarrow> R x x1" "\<And>x. R x x" "each P f xs m = return (ys, m1)"
  shows "list_all2 R xs ys"
  using assms(3)
proof (induction xs arbitrary: ys m m1)
  case (Cons x xs)
  show ?case
  proof (cases "P x")
    case True
    then obtain x1 m2 zs where "f x m = return (x1, m2)" "each P f xs m2 = return (zs, m1)" "ys = x1 # zs"
      using Cons.prems by (auto dest!: bind_returnD)
    then show ?thesis using Cons.IH assms(1) by simp
  next
    case False
    then obtain zs where "each P f xs m = return (zs, m1)" "ys = x # zs"
      using Cons.prems by (auto dest!: bind_returnD)
    then show ?thesis using Cons.IH assms(2) by simp
  qed
qed simp

lemma collect_chain:
  assumes "\<And>x m x1 m1. f x m = return (x1, m1) \<Longrightarrow> R x x1" "\<And>x y z. R x y \<Longrightarrow> R y z \<Longrightarrow> R x z"
    "collect n f x m = return (xs, y, m1)"
  shows "sorted_wrt R (x # xs)"
  using assms(3)
proof (induction n arbitrary: x xs m)
  case (Suc n)
  then obtain x1 m2 zs where x: "f x m = return (x1, m2)" "collect n f x1 m2 = return (zs, y, m1)" "xs = x1 # zs"
    by (auto dest!: bind_returnD)
  then show ?case using Suc.IH [OF x(2)] assms(1) [OF x(1)] assms(2) by auto
qed simp

text \<open>The rows of a variable, and that a variable has those of another one before its own.\<close>

fun rows_of :: "var \<Rightarrow> var list list" where
  "rows_of (D4Sequence a vs n rows) = rows" | "rows_of v = []"

definition grows :: "var \<Rightarrow> var \<Rightarrow> bool" where
  "grows v w \<longleftrightarrow> prefix (rows_of v) (rows_of w)"

lemma grows_refl [simp]: "grows v v"
  by (simp add: grows_def)

lemma list_all2_grows_trans: "list_all2 grows xs ys \<Longrightarrow> list_all2 grows ys zs \<Longrightarrow> list_all2 grows xs zs"
  by (erule list_all2_trans [rotated], assumption) (auto simp: grows_def intro: prefix_order.trans)

lemma deserialize_grows: "deserialize_var junk rdr v u = return (w, u1) \<Longrightarrow> grows v w"
  by (cases v) (auto simp: grows_def Let_def deserialize_var.simps [of _ _ "D4Sequence _ _ _ _"] dest!: bind_returnD)

lemma read_next_returns:
  fixes left :: "'q \<Rightarrow> nat"
  assumes row: "\<And>v q v1 q1. rd v q = Inr (False, v1, q1) \<Longrightarrow> left q1 < left q"
    and eof: "\<And>v q v1 q1. rd v q = Inr (True, v1, q1) \<Longrightarrow> left q1 \<le> left q"
    and clauses: "\<And>v q c v1 q1. cl v q = Inr (c, v1, q1) \<Longrightarrow> left q1 \<le> left q"
  shows "\<exists>r. read_next_instance rd cl filt v q = Some r \<and>
      (\<forall>v1 q1. (r = Inr (True, v1, q1) \<longrightarrow> left q1 < left q) \<and> (r = Inr (False, v1, q1) \<longrightarrow> left q1 \<le> left q))"
proof (induction "left q" arbitrary: v q rule: less_induct)
  case less
  show ?case
  proof (cases "rd v q")
    case (Inr r)
    obtain e v1 q1 where r: "r = (e, v1, q1)" by (cases r) auto
    show ?thesis
    proof (cases e)
      case False
      then have q1: "left q1 < left q" using Inr r row [of v q v1 q1] by simp
      show ?thesis
      proof (cases "if filt then cl v1 q1 else Inr (None, v1, q1)")
        case c: (Inr s)
        obtain b v2 q2 where s: "s = (b, v2, q2)" by (cases s) auto
        have q2: "left q2 < left q" using c s clauses [of v1 q1 b v2 q2] q1 by (auto split: if_splits)
        show ?thesis using less [OF q2, of "set_read_p False v2"] Inr r False c s q2
          by (subst read_next_instance.simps) (auto dest: less_trans)
      qed (use Inr r False in \<open>subst read_next_instance.simps, simp\<close>)
    qed (use Inr r eof in \<open>subst read_next_instance.simps, auto\<close>)
  qed (subst read_next_instance.simps, simp)
qed

lemma row_returns:
  fixes left :: "'q \<Rightarrow> nat"
  assumes less: "\<And>v q. left q < k \<Longrightarrow> \<exists>r. f v q = Some r \<and> (\<forall>v1 q1. r = Inr (v1, q1) \<longrightarrow> left q1 \<le> left q)"
    and "left q1 < k"
  shows "\<exists>r. each send_p (row_element f) vs (row, q1) = Some r \<and> (\<forall>us row2 q2. r = Inr (us, row2, q2) \<longrightarrow> left q2 \<le> left q1)"
  using assms(2)
proof (induction vs arbitrary: row q1)
  case (Cons v vs)
  have one: "\<exists>r. row_element f v (row, q1) = Some r \<and>
      (\<forall>v1 row2 q2. r = Inr (v1, row2, q2) \<longrightarrow> left q2 \<le> left q1)"
    using less [OF Cons.prems, of v] by (auto simp: row_element_def bind_def split: sum.splits)
  have more: "\<exists>r. each send_p (row_element f) vs (row2, q2) = Some r \<and>
      (\<forall>us row3 q3. r = Inr (us, row3, q3) \<longrightarrow> left q3 \<le> left q1)" if "left q2 \<le> left q1" for row2 q2
    using Cons.IH [of q2 row2] that Cons.prems by fastforce
  show ?case
  proof (cases "send_p v")
    case True
    obtain r where r: "row_element f v (row, q1) = Some r"
      "\<And>v1 row2 q2. r = Inr (v1, row2, q2) \<Longrightarrow> left q2 \<le> left q1"
      using one by blast
    show ?thesis
    proof (cases r)
      case (Inr t)
      obtain v1 row2 q2 where t: "r = Inr (v1, row2, q2)" using Inr by (cases t) auto
      show ?thesis using more [OF r(2) [OF t], of row2] True r(1) t by (auto simp: bind_def split: sum.splits)
    qed (use True r(1) in simp)
  qed (use more [of q1 row] in \<open>auto simp: bind_def split: sum.splits\<close>)
qed simp

lemma read_rows_returns:
  fixes left :: "'q \<Rightarrow> nat"
  assumes row: "\<And>v q v1 q1. rd v q = Inr (False, v1, q1) \<Longrightarrow> left q1 < left q"
    and eof: "\<And>v q v1 q1. rd v q = Inr (True, v1, q1) \<Longrightarrow> left q1 \<le> left q"
    and clauses: "\<And>v q c v1 q1. cl v q = Inr (c, v1, q1) \<Longrightarrow> left q1 \<le> left q"
  shows "\<exists>r. read_rows rd cl filt v q = Some r \<and> (\<forall>v1 q1. r = Inr (v1, q1) \<longrightarrow> left q1 \<le> left q)"
proof (induction "left q" arbitrary: v q rule: less_induct)
  case less
  have "\<exists>r. read_next_instance rd cl filt v q = Some r \<and>
      (\<forall>v1 q1. (r = Inr (True, v1, q1) \<longrightarrow> left q1 < left q) \<and> (r = Inr (False, v1, q1) \<longrightarrow> left q1 \<le> left q))"
    by (rule read_next_returns) (auto intro: row eof clauses)
  then obtain r where r: "read_next_instance rd cl filt v q = Some r"
    "\<And>v1 q1. r = Inr (True, v1, q1) \<Longrightarrow> left q1 < left q" "\<And>v1 q1. r = Inr (False, v1, q1) \<Longrightarrow> left q1 \<le> left q"
    by blast
  show ?case
  proof (cases r)
    case (Inr t)
    then obtain more v1 q1 where t: "r = Inr (more, v1, q1)" by (cases t) auto
    show ?thesis
    proof (cases more)
      case True
      then have q1: "left q1 < left q" using r(2) [of v1 q1] t by simp
      obtain s where s: "each send_p (row_element (read_rows rd cl filt)) (members v1) ([], q1) = Some s"
        "\<And>us row q2. s = Inr (us, row, q2) \<Longrightarrow> left q2 \<le> left q1"
        using row_returns [of left "left q" "read_rows rd cl filt", OF less q1] by blast
      have "\<exists>r. read_rows rd cl filt (add_row us row v1) q2 = Some r \<and> (\<forall>v1 q1. r = Inr (v1, q1) \<longrightarrow> left q1 \<le> left q)"
        if "s = Inr (us, row, q2)" for us row q2
        using less [of q2 "add_row us row v1"] s(2) [OF that] q1 by fastforce
      then show ?thesis using r(1) t True s(1) by (subst read_rows.simps) (cases s; auto)
    qed (use r t in \<open>subst read_rows.simps, auto\<close>)
  qed (use r in \<open>subst read_rows.simps, auto\<close>)
qed

section \<open>Properties\<close>

text \<open>C10: A variable keeps its class while a response is read into it: whatever the stream holds and however it fails to
  match the declaration, an object that \<open>deserialize\<close> has filled is of the same class as before, with the same members of
  the same classes in the same order, and an array has the length it was declared with.\<close>

theorem deserialize_keeps_kind:
  assumes "deserialize_var junk rdr v u = return (w, u1)"
  shows "kind_of w = kind_of v"
proof -
  have "\<forall>w u1. r = Inr (w, u1) \<longrightarrow> kind_of w = kind_of v" if "deserialize_var junk rdr v u = Some r" for r
  proof (rule deserialize_var.raw_induct [where P = "\<lambda>junk rdr v u r. \<forall>w u1. r = Inr (w, u1) \<longrightarrow> kind_of w = kind_of v", OF _ that],
      goal_cases)
    case (1 d junk rdr v u r)
    have IH: "kind_of x1 = kind_of x" if "d junk rdr x m = return (x1, m1)" for x m x1 m1 using 1(1) that by blast
    show ?case
    proof (intro allI impI)
      fix w u1 assume "r = Inr (w, u1)"
      then show "kind_of w = kind_of v"
        using 1(2)
      proof (cases v)
        case (Scalar b)
        then show ?thesis using 1(2) \<open>r = _\<close> by (auto dest!: bind_returnD simp del: kind_of.simps intro: scalar_get_kind)
      next
        case (Structure a vs)
        then show ?thesis using 1(2) \<open>r = _\<close> each_keeps [where g = kind_of, OF IH] by (auto dest!: bind_returnD)
      next
        case (D4Sequence a vs n rows)
        have "map kind_of ys = map kind_of xs" if "each (\<lambda>_. True) (d junk rdr) xs m = return (ys, m1)" for xs m ys m1
          using each_keeps [where g = kind_of, OF IH that] by simp
        note collect_keeps(1) [where g = "map kind_of", OF this]
        then show ?thesis using D4Sequence 1(2) \<open>r = _\<close> by (auto simp: Let_def dest!: bind_returnD)
      next
        case (Array a p c)
        then show ?thesis using 1(2) \<open>r = _\<close>
          by (auto split: if_splits sum.splits dest!: bind_returnD new_buffer_shape get_array_shape vec_resize_shape)
      qed
    qed
  qed
  then show ?thesis using assms by blast
qed

text \<open>C4: A variable over the chunked streams: a sender's variable (a tree of scalars, structures, sequences with their rows and
  arrays of numbers, strings and objects) whose data is in memory, with no value of 2 GiB or more, and of which the receiver has
  declared the members to be sent is written on a new chunked stream, whose sink accepts everything, without a call of the
  server's \<open>read\<close> and without a change.  If the two byte orders are equal, or no value sent has a length prefix (no string, no opaque
  value and no sequence), then a receiver on the bytes of the closed stream, whose flag for swapping bytes is set exactly if the
  byte orders differ, keeps its class and holds the same values in the same order, each in the receiver's own byte order.  The receiver must have no rows yet and
  no sequence inside another one.\<close>

theorem variable_over_chunks:
  assumes "out_ok ob" "ob_buf ob = []" "sent (ob_os ob) = []"
    and "sendable v (kind_of w)" "fresh w" "list_all (portable wb hb) (contents False wb v)"
  shows "\<exists>m'. serialize_var rd cl chunked_write filt v (make_marshaller wb ob True, q) = return (v, m', q) \<and>
    (\<forall>junk sz ib. make_inbuf hb junk (opened (sent (close_outbuf (d_out m')))) sz = Inr ib \<longrightarrow>
      (\<exists>w' u'. deserialize_var mem chunked_read w \<lparr>d_in = ib, d_twiddle_bytes = (wb \<noteq> hb), um_host_big = hb\<rparr> = return (w', u') \<and>
        contents True hb w' = contents False wb v \<and> kind_of w' = kind_of w))"
proof -
  let ?m = "make_marshaller wb ob True" and ?u = "\<lambda>ib. \<lparr>d_in = ib, d_twiddle_bytes = (wb \<noteq> hb), um_host_big = hb\<rparr>"
  have m: "chunked_holds (d_out ?m) []" "d_write_data ?m" "host_big ?m = wb"
    using assms(1-3) by (auto simp: chunked_holds_def make_marshaller_def intro!: exI [of _ ob] exI [of _ "[]"])
  obtain m' where m': "put_all chunked_write ?m (contents False wb v) = return m'"
    "chunked_holds (d_out m') (concat (map (on_stream wb) (contents False wb v)))"
    using chunked.put_all_ok [OF m(1) _ m(2), of "contents False wb v"] sendable_fits [OF assms(4), of wb] m(3)
    by (auto simp: list_all_iff)
  have "\<exists>w' u'. deserialize_var mem chunked_read w (?u ib) = return (w', u') \<and>
        contents True hb w' = contents False wb v \<and> kind_of w' = kind_of w"
    if "make_inbuf hb junk (opened (sent (close_outbuf (d_out m')))) sz = Inr ib" for junk sz ib
  proof -
    have "chunked_yields ib (concat (map (on_stream wb) (contents False wb v)))"
      using chunked.connect_ok [OF m'(2), of ib] that by (auto simp: chunked_connected_def)
    then obtain w' s where "deserialize_var mem chunked_read w (?u ib) = return (w', (?u ib)\<lparr>d_in := s\<rparr>)"
      "contents True hb w' = contents False wb v" "kind_of w' = kind_of w"
      using readsD [where rd = chunked_read and yields = chunked_yields and u = "?u ib" and ys = "[]" and junk = mem and w = w]
        chunked.sendable_reads [OF assms(4,6) refl assms(5), of mem] by fastforce
    then show ?thesis by blast
  qed
  then show ?thesis using m'(1) m(3) by (auto simp: serialize_sendable [OF assms(4)])
qed

text \<open>C24: The rows of a sequence are added to those it already has, while its length becomes the count of the last response.  So
  an inner sequence, which is filled once for every row of the outer one and copied into that row, carries in every later row
  the rows of all the earlier ones: from one row to the next, the rows of a member only grow.\<close>

theorem sequence_rows_accumulate:
  assumes "deserialize_var junk rdr (D4Sequence a vs n rows) u = return (w, u1)"
  shows "\<exists>ws k new. w = D4Sequence a ws k (rows @ new) \<and> length new = nat k \<and> sorted_wrt (list_all2 grows) (vs # new)"
proof -
  obtain count u2 new ws where c: "collect (nat (to_int (sint (count :: u64)))) (each (\<lambda>_. True) (deserialize_var junk rdr)) vs u2 =
      return (new, ws, u1)" "w = D4Sequence a ws (to_int (sint count)) (rows @ new)"
    using assms by (auto simp: deserialize_var.simps [of _ _ "D4Sequence a vs n rows"] Let_def dest!: bind_returnD)
  have len: "length new = nat (to_int (sint count))" using collect_keeps(2) [where g = "\<lambda>_. ()", OF _ c(1)] by simp
  have step: "list_all2 grows xs ys" if "each (\<lambda>_. True) (deserialize_var junk rdr) xs m = return (ys, m1)" for xs ys m m1
    by (rule each_related [OF _ _ that]) (auto intro: deserialize_grows)
  have "sorted_wrt (list_all2 grows) (vs # new)"
    by (intro collect_chain [where R = "list_all2 grows", OF _ _ c(1)]) (auto intro: step list_all2_grows_trans)
  then show ?thesis using c(2) len by blast
qed

text \<open>C23: Reading a sequence from a server ends, nested sequences included, as soon as the server reports each row at most once: if
  every call of \<open>read\<close> that does not report the end of the data has used up something, and neither the other calls nor
  the filter clauses, which read variables as well, give anything back, whatever the filter accepts
  and whatever rows the sequence has.\<close>

theorem read_sequence_returns:
  fixes left :: "'q \<Rightarrow> nat"
  assumes row: "\<And>v q v1 q1. rd v q = Inr (False, v1, q1) \<Longrightarrow> left q1 < left q"
    and eof: "\<And>v q v1 q1. rd v q = Inr (True, v1, q1) \<Longrightarrow> left q1 \<le> left q"
    and clauses: "\<And>v q c v1 q1. cl v q = Inr (c, v1, q1) \<Longrightarrow> left q1 \<le> left q"
  shows "read_sequence_values rd cl filt v q \<noteq> None"
proof -
  have "\<exists>r. read_rows rd cl filt v q = Some r \<and> (\<forall>v1 q1. r = Inr (v1, q1) \<longrightarrow> left q1 \<le> left q)"
    by (rule read_rows_returns) (auto intro: row eof clauses)
  then show ?thesis by (auto simp: read_sequence_values_def)
qed


section \<open>Witnesses\<close>

definition demo_scalar :: "string \<Rightarrow> 'a \<Rightarrow> 'a scalar" where
  "demo_scalar n x = (make_scalar n ''d'' True x)\<lparr>d_is_read := True, d_is_send := True\<rparr>"

definition demo_byte :: "string \<Rightarrow> u8 \<Rightarrow> d4byte" where
  "demo_byte n x = (NewByte n)\<lparr>d_is_read := True, d_is_send := True, d_buf := x\<rparr>"

lemma demo_byte_simps [simp]:
  "d_name (demo_byte n x) = n" "d_is_read (demo_byte n x)" "d_is_send (demo_byte n x)" "d_buf (demo_byte n x) = x"
  "d_type (demo_byte n x) = Type_Byte"
  by (simp_all add: demo_byte_def NewByte_def Byte_new_def make_scalar_def scalar.defs)

definition demo_sequence :: "var list \<Rightarrow> var" where
  "demo_sequence vs = D4Sequence (demo_scalar ''s'' ()) vs 0 []"

definition source_of :: "u8 list \<Rightarrow> istream unmarshaller" where
  "source_of bs = \<lparr>d_in = opened bs, d_twiddle_bytes = False, um_host_big = False\<rparr>"

definition got :: "(var \<times> 'm) result option \<Rightarrow> (var \<Rightarrow> bool) \<Rightarrow> bool" where
  "got r P = (case r of Some (Inr (w, u)) \<Rightarrow> P w | _ \<Rightarrow> False)"

lemma gotD: "got r P \<Longrightarrow> \<exists>w u. r = return (w, u) \<and> P w"
  by (auto simp: got_def split: option.splits sum.splits)

definition demo_record :: "u8 \<Rightarrow> u16 \<Rightarrow> u8 list option \<Rightarrow> var" where
  "demo_record b i bs = Structure (demo_scalar ''r'' ()) [Scalar (Byte (demo_byte ''b'' b)), Scalar (UInt16 (demo_scalar ''i'' i)),
     Array (demo_row 2 [] []\<lparr>v_buf := bs, d_is_send := True\<rparr>) (Scalar (Int16 (demo_scalar ''a'' 0))) []]"

theorem deserialize_keeps_kind_witness:
  "\<exists>w u1. deserialize_var (\<lambda>_. 0) plain_read (demo_record 0 0 None) (source_of [1, 2, 0, 3, 0, 4, 0]) = return (w, u1) \<and>
    contents True False w = [V_Byte 1, V_UInt16 2, V_Vec16 [3, 4]] \<and> kind_of w = kind_of (demo_record 0 0 None)"
proof -
  have "got (deserialize_var (\<lambda>_. 0) plain_read (demo_record 0 0 None) (source_of [1, 2, 0, 3, 0, 4, 0]))
    (\<lambda>w. contents True False w = [V_Byte 1, V_UInt16 2, V_Vec16 [3, 4]])" by code_simp
  then show ?thesis using deserialize_keeps_kind [of "\<lambda>_. 0" plain_read "demo_record 0 0 None"] by (blast dest: gotD)
qed

theorem sequence_rows_accumulate_witness:
  "\<exists>w u1 ws k new. deserialize_var (\<lambda>_. 0) plain_read (demo_sequence [demo_sequence [Scalar (Byte (demo_byte ''b'' 0))]])
      (source_of ([2, 0, 0, 0, 0, 0, 0, 0] @ [1, 0, 0, 0, 0, 0, 0, 0, 5] @ [1, 0, 0, 0, 0, 0, 0, 0, 6])) = return (w, u1) \<and>
    map (map (contents True False)) (rows_of w) = [[[V_Count 1, V_Byte 5]], [[V_Count 1, V_Byte 5, V_Byte 6]]] \<and>
    w = D4Sequence (demo_scalar ''s'' ()) ws k new \<and> sorted_wrt (list_all2 grows) new"
proof -
  let ?r = "deserialize_var (\<lambda>_. 0) plain_read (demo_sequence [demo_sequence [Scalar (Byte (demo_byte ''b'' 0))]])
      (source_of ([2, 0, 0, 0, 0, 0, 0, 0] @ [1, 0, 0, 0, 0, 0, 0, 0, 5] @ [1, 0, 0, 0, 0, 0, 0, 0, 6]))"
  have g: "got ?r (\<lambda>w. map (map (contents True False)) (rows_of w) = [[[V_Count 1, V_Byte 5]], [[V_Count 1, V_Byte 5, V_Byte 6]]])"
    by code_simp
  obtain w u1 where w: "?r = return (w, u1)"
    "map (map (contents True False)) (rows_of w) = [[[V_Count 1, V_Byte 5]], [[V_Count 1, V_Byte 5, V_Byte 6]]]"
    using gotD [OF g] by (elim exE conjE) (rule that)
  obtain ws k new where "w = D4Sequence (demo_scalar ''s'' ()) ws k ([] @ new)" "sorted_wrt (list_all2 grows) ([demo_sequence [Scalar (Byte (demo_byte ''b'' 0))]] # new)"
    using sequence_rows_accumulate [OF w(1) [unfolded demo_sequence_def [of "[demo_sequence _]"]]] by (auto simp: demo_sequence_def)
  then show ?thesis using w by auto
qed

text \<open>A server with as many rows as its state says.\<close>

definition demo_read :: "nat var_read" where
  "demo_read v q = Inr (q = 0, v, q - 1)"

theorem read_sequence_returns_witness:
  "read_sequence_values demo_read (\<lambda>v q. Inr (None, v, q)) True (set_read_p False (demo_sequence [Scalar (Byte (demo_byte ''b'' 7))])) 3 \<noteq> None"
  by (rule read_sequence_returns [where left = "\<lambda>q. q"]) (auto simp: demo_read_def)

theorem variable_over_chunks_witness:
  "\<exists>m' ib w' u'. serialize_var demo_read (\<lambda>v q. Inr (None, v, q)) chunked_write True (demo_record 1 2 (Some [0, 3, 0, 4]))
      (make_marshaller True demo_out True, 0) = return (demo_record 1 2 (Some [0, 3, 0, 4]), m', 0) \<and>
    make_inbuf False (\<lambda>_. 0) (opened (sent (close_outbuf (d_out m')))) 4 = Inr ib \<and>
    deserialize_var (\<lambda>_. 9) chunked_read (demo_record 0 0 None) \<lparr>d_in = ib, d_twiddle_bytes = True, um_host_big = False\<rparr> = return (w', u') \<and>
    contents True False w' = [V_Byte 1, V_UInt16 2, V_Vec16 [3, 4]]"
proof -
  let ?v = "demo_record 1 2 (Some [0, 3, 0, 4])" and ?w = "demo_record 0 0 None"
  let ?a = "demo_row 2 [] []\<lparr>v_buf := Some [0, 3, 0, 4], d_is_send := True\<rparr>" and ?p = "Scalar (Int16 (demo_scalar ''a'' 0))"
  have "sendable (Array ?a ?p []) (K_Array (v_length ?a) (kind_of ?p))"
    by (rule s_numbers [where w = 2 and bs = "[0, 3, 0, 4]"])
      (simp_all add: demo_row_def demo_vector_def scalar_width_def number_type_def type_sets var_type_def)
  moreover have "sendable (Scalar (Byte (demo_byte ''b'' 1))) (kind_of (Scalar (Byte (demo_byte ''b'' 1))))"
    "sendable (Scalar (UInt16 (demo_scalar ''i'' 2))) (kind_of (Scalar (UInt16 (demo_scalar ''i'' 2))))"
    by (rule s_scalar; simp add: demo_scalar_def fits_def)+
  ultimately have s: "sendable ?v (kind_of ?w)"
    by (auto simp: demo_record_def demo_row_def demo_vector_def demo_scalar_def make_scalar_def send_p_def var_type_def intro!: s_structure)
  have c: "contents False True ?v = [V_Byte 1, V_UInt16 2, V_Vec16 [3, 4]]" by code_simp
  have "fresh ?w" "list_all (portable True False) (contents False True ?v)"
    by (simp_all add: c portable_def) (simp add: demo_record_def)
  note r = variable_over_chunks [OF demo_out_ok(1) _ _ s this, of demo_read "\<lambda>v q. Inr (None, v, q)" True 0 "\<lambda>_. 9"]
  have "ob_buf demo_out = []" "sent (ob_os demo_out) = []" by (simp_all add: demo_out_def)
  note r = r [OF this]
  then obtain m' where m': "serialize_var demo_read (\<lambda>v q. Inr (None, v, q)) chunked_write True ?v (make_marshaller True demo_out True, 0) = return (?v, m', 0)"
    "\<And>ib. make_inbuf False (\<lambda>_. 0) (opened (sent (close_outbuf (d_out m')))) 4 = Inr ib \<Longrightarrow>
      \<exists>w' u'. deserialize_var (\<lambda>_. 9) chunked_read ?w \<lparr>d_in = ib, d_twiddle_bytes = (True \<noteq> False), um_host_big = False\<rparr> = return (w', u') \<and>
        contents True False w' = contents False True ?v \<and> kind_of w' = kind_of ?w"
    by blast
  obtain ib where "make_inbuf False (\<lambda>_. 0) (opened (sent (close_outbuf (d_out m')))) 4 = Inr ib"
    by (simp add: make_inbuf_def CHUNK_TYPE_MASK_def)
  then show ?thesis using m' c by fastforce
qed

end
