(* ===== verification/D4Group.thy ===== *)
theory D4Group
  imports VarTransfer
begin

text \<open>
  The tree of groups of a DAP4 dataset (\<open>D4Group.cc\<close>): names, lookup by path, flags, sizes, copies, and the response of
  a whole dataset, in which every variable to be sent is followed by its checksum.  A variable of a group carries the
  checksums that \<open>deserialize\<close> attaches to it as attributes.  Groups own their dimensions, enumerations, variables and
  groups; a parent pointer is the path from the root.
\<close>

section \<open>Groups\<close>

record gvar =
  gv_var :: var
  gv_crc :: "string list"

text \<open>
  The variables of a group, and what its base holds beside the fields of a variable, are parameters: with the values of a
  response they are a \<open>gvar\<close> and nothing.
\<close>

datatype ('m, 'v) group = Group "(unit, 'm) scalar_scheme" "d4dimension list" "d4enumdef list" "'v list" "('m, 'v) group list"

type_synonym data_group = "(unit, gvar) group"

fun base :: "('m, 'v) group \<Rightarrow> (unit, 'm) scalar_scheme" where "base (Group a ds es vs gs) = a"
fun dims :: "('m, 'v) group \<Rightarrow> d4dimension list" where "dims (Group a ds es vs gs) = ds"
fun enum_defs :: "('m, 'v) group \<Rightarrow> d4enumdef list" where "enum_defs (Group a ds es vs gs) = es"
fun vars :: "('m, 'v) group \<Rightarrow> 'v list" where "vars (Group a ds es vs gs) = vs"
fun groups :: "('m, 'v) group \<Rightarrow> ('m, 'v) group list" where "groups (Group a ds es vs gs) = gs"

definition gname :: "('m, 'v) group \<Rightarrow> string" where "gname g = d_name (base g)"

lemma gname_simp [simp]: "gname (Group a ds es vs gs) = d_name a"
  by (simp add: gname_def)

definition D4Group :: "string \<Rightarrow> string \<Rightarrow> data_group" where
  "D4Group n d = Group (make_scalar n d True ()) [] [] [] []"

definition add_group_nocopy :: "('m, 'v) group \<Rightarrow> ('m, 'v) group \<Rightarrow> ('m, 'v) group" where
  "add_group_nocopy h g = (case g of Group a ds es vs gs \<Rightarrow> Group a ds es vs (gs @ [h]))"

definition insert_group_nocopy :: "('m, 'v) group \<Rightarrow> nat \<Rightarrow> ('m, 'v) group \<Rightarrow> ('m, 'v) group" where
  "insert_group_nocopy h i g = (case g of Group a ds es vs gs \<Rightarrow> Group a ds es vs (take i gs @ h # drop i gs))"

section \<open>Names\<close>

text \<open>
  The names from a group up to the root.  \<open>FQN\<close> ends at a group named \<open>/\<close> and follows a null pointer when there is
  none; \<open>fully_qualified_name\<close> ends where there is no parent.
\<close>

fun FQN :: "string list \<Rightarrow> string result" where
  "FQN [] = Inl invalid_pointer"
| "FQN (n # ps) = (if n = ''/'' then Inr ''/'' else case FQN ps of Inl e \<Rightarrow> Inl e | Inr s \<Rightarrow> Inr (s @ n @ ''/''))"

fun fully_qualified_name :: "string \<Rightarrow> string list \<Rightarrow> string" where
  "fully_qualified_name n [] = n"
| "fully_qualified_name n (g # gs) = fully_qualified_name (if g = ''/'' then ''/'' @ n else g @ ''/'' @ n) gs"

section \<open>Lookup by path\<close>

definition find_child_grp :: "string \<Rightarrow> ('m, 'v) group \<Rightarrow> ('m, 'v) group option" where
  "find_child_grp n g = find (\<lambda>h. gname h = n) (groups g)"

text \<open>An absolute path belongs to the root.\<close>

definition local_path :: "('m, 'v) group \<Rightarrow> string \<Rightarrow> string result" where
  "local_path g path =
     (if starts_with ''/'' path
      then if gname g \<noteq> ''/'' then Inl (InternalErr ''Lookup of a FQN starting in non-root group.'') else Inr (tl path)
      else Inr path)"

definition split_slash :: "string \<Rightarrow> (string \<times> string) option" where
  "split_slash s = (if CHR ''/'' \<in> set s
     then Some (takeWhile (\<lambda>c. c \<noteq> CHR ''/'') s, tl (dropWhile (\<lambda>c. c \<noteq> CHR ''/'') s)) else None)"

lemma split_slash_shorter:
  assumes "split_slash s = Some (a, r)"
  shows "length r < length s"
proof -
  have "CHR ''/'' \<in> set s" using assms by (auto simp: split_slash_def split: if_splits)
  then have "dropWhile (\<lambda>c. c \<noteq> CHR ''/'') s \<noteq> []" by (auto simp: dropWhile_eq_Nil_conv)
  moreover have "length (dropWhile (\<lambda>c. c \<noteq> CHR ''/'') s) \<le> length s" by (rule length_dropWhile_le)
  ultimately show ?thesis using assms by (cases "dropWhile (\<lambda>c. c \<noteq> CHR ''/'') s") (auto simp: split_slash_def split: if_splits)
qed

lemma local_path_length: "local_path g path = Inr p \<Longrightarrow> length p \<le> length path"
  by (auto simp: local_path_def split: if_splits)

text \<open>\<open>find_dim\<close> and \<open>find_var\<close> descend group by group; what is looked up in the last one is an argument.\<close>

function find_path :: "(('m, 'v) group \<Rightarrow> string \<Rightarrow> 'a option) \<Rightarrow> ('m, 'v) group \<Rightarrow> string \<Rightarrow> 'a option result" where
  "find_path leaf g path = (case local_path g path of
     Inl e \<Rightarrow> Inl e
   | Inr p \<Rightarrow> (case split_slash p of
       None \<Rightarrow> Inr (leaf g p)
     | Some (n, rest) \<Rightarrow> (case find_child_grp n g of None \<Rightarrow> Inr None | Some h \<Rightarrow> find_path leaf h rest)))"
  by pat_completeness auto

termination
  by (relation "measure (\<lambda>(leaf, g, path). length path)")
    (auto dest!: split_slash_shorter local_path_length)

declare find_path.simps [simp del]

definition D4Group_find_dim :: "('m, 'v) group \<Rightarrow> string \<Rightarrow> d4dimension option result" where
  "D4Group_find_dim = find_path (\<lambda>g n. find_dim n (dims g))"

text \<open>\<open>Constructor::var\<close> on the variables of the group.\<close>

definition group_var :: "int \<Rightarrow> data_group \<Rightarrow> string \<Rightarrow> var option" where
  "group_var junk g n = exact_in junk n (map gv_var (vars g))"

definition find_var :: "int \<Rightarrow> data_group \<Rightarrow> string \<Rightarrow> var option result" where
  "find_var junk = find_path (group_var junk)"

text \<open>These two look into a child group, and no further.\<close>

definition find_shallow :: "(('m, 'v) group \<Rightarrow> string \<Rightarrow> 'a option) \<Rightarrow> ('m, 'v) group \<Rightarrow> string \<Rightarrow> 'a option result" where
  "find_shallow leaf g path = (case local_path g path of
     Inl e \<Rightarrow> Inl e
   | Inr p \<Rightarrow> (case split_slash p of
       None \<Rightarrow> Inr (leaf g p)
     | Some (n, rest) \<Rightarrow> (case find_child_grp n g of None \<Rightarrow> Inr None | Some h \<Rightarrow> Inr (leaf h rest))))"

definition m_find_map_source_helper :: "int \<Rightarrow> data_group \<Rightarrow> string \<Rightarrow> var option result" where
  "m_find_map_source_helper junk = find_shallow (group_var junk)"

definition find_map_source :: "int \<Rightarrow> data_group \<Rightarrow> string \<Rightarrow> var option result" where
  "find_map_source junk g path = (case m_find_map_source_helper junk g path of
     Inl e \<Rightarrow> Inl e
   | Inr (Some v) \<Rightarrow> Inr (if vtype v = dods_array_c then Some v else None)
   | Inr None \<Rightarrow> Inr None)"

definition D4Group_find_enum_def :: "('m, 'v) group \<Rightarrow> string \<Rightarrow> d4enumdef option result" where
  "D4Group_find_enum_def = find_shallow (\<lambda>g n. find_enum_def n (enum_defs g))"

definition uses_dimension :: "nat \<Rightarrow> var \<Rightarrow> bool" where
  "uses_dimension a v = (case v of
     Array w p c \<Rightarrow> send_p v \<and> (\<exists>d \<in> set (a_shape (v_shape w)). dm_dim d = Some a) | _ \<Rightarrow> False)"

fun find_first_var_that_uses_dimension :: "nat \<Rightarrow> data_group \<Rightarrow> var option"
  and first_group_var :: "nat \<Rightarrow> data_group list \<Rightarrow> var option" where
  "find_first_var_that_uses_dimension a (Group b ds es vs gs) =
     (case find (uses_dimension a) (map gv_var vs) of Some v \<Rightarrow> Some v | None \<Rightarrow> first_group_var a gs)"
| "first_group_var a [] = None"
| "first_group_var a (g # gs) =
     (case find_first_var_that_uses_dimension a g of Some v \<Rightarrow> Some v | None \<Rightarrow> first_group_var a gs)"

section \<open>Flags and sizes\<close>

definition set_gvar_flag :: "field \<Rightarrow> gvar \<Rightarrow> gvar" where
  "set_gvar_flag f v = v\<lparr>gv_var := set_flag f (gv_var v)\<rparr>"

fun set_group_flag :: "field \<Rightarrow> data_group \<Rightarrow> data_group" where
  "set_group_flag f (Group a ds es vs gs) =
     Group (set_field f a) ds es (map (set_gvar_flag f) vs) (map (set_group_flag f) gs)"

definition group_set_send_p :: "bool \<Rightarrow> data_group \<Rightarrow> data_group" where "group_set_send_p b = set_group_flag (Send b)"
definition group_set_read_p :: "bool \<Rightarrow> data_group \<Rightarrow> data_group" where "group_set_read_p b = set_group_flag (Read b)"

text \<open>Every level divides what its variables and its groups have.\<close>

fun sum_sizes :: "int result list \<Rightarrow> int result" where
  "sum_sizes [] = Inr 0"
| "sum_sizes (w # ws) = (case w of Inl e \<Rightarrow> Inl e | Inr n \<Rightarrow> (case sum_sizes ws of Inl e \<Rightarrow> Inl e | Inr k \<Rightarrow> Inr (n + k)))"

definition var_size :: "bool \<Rightarrow> gvar \<Rightarrow> int result" where
  "var_size constrained v =
     (if constrained \<and> \<not> send_p (gv_var v) then Inr 0
      else case width constrained (gv_var v) of Inl e \<Rightarrow> Inl e | Inr n \<Rightarrow> Inr (int n))"

fun request_size :: "bool \<Rightarrow> data_group \<Rightarrow> int result" where
  "request_size constrained (Group a ds es vs gs) =
     (case sum_sizes (map (var_size constrained) vs @ map (request_size constrained) gs) of
        Inl e \<Rightarrow> Inl e | Inr n \<Rightarrow> Inr (tdiv n 1024))"

section \<open>Copies\<close>

text \<open>
  A copied dimension is a new object.  The arrays among the variables of the group are redirected to the new dimensions,
  each group from its own dimensions only.
\<close>

definition redirect :: "d4dimension list \<Rightarrow> d4dimension list \<Rightarrow> gvar \<Rightarrow> gvar" where
  "redirect old new v = (case gv_var v of
     Array w p c \<Rightarrow> v\<lparr>gv_var := Array (w\<lparr>v_shape := update_dimension_pointers old new (v_shape w)\<rparr>) p c\<rparr> | _ \<Rightarrow> v)"

fun copy_group :: "(nat \<Rightarrow> nat) \<Rightarrow> data_group \<Rightarrow> data_group" where
  "copy_group new_addr (Group a ds es vs gs) =
     (let ds1 = map (\<lambda>d. d\<lparr>dd_addr := new_addr (dd_addr d)\<rparr>) ds in
      Group a ds1 (map (\<lambda>e. e\<lparr>ed_addr := new_addr (ed_addr e)\<rparr>) es) (map (redirect ds ds1) vs) (map (copy_group new_addr) gs))"

section \<open>The response of a dataset\<close>

lemma each_cong [fundef_cong]:
  assumes "xs = ys" "m = k" "P = Q" "\<And>x m. x \<in> set ys \<Longrightarrow> f x m = g x m"
  shows "each P f xs m = each Q g ys k"
  using assms(4) unfolding assms(1-3)
proof (induction ys arbitrary: k)
  case (Cons y ys)
  then have "f y = g y" "\<And>k. each Q f ys k = each Q g ys k" by auto
  then show ?case by simp
qed simp

definition send_top :: "'q var_read \<Rightarrow> 'q clauses \<Rightarrow> 's writer \<Rightarrow> bool \<Rightarrow> gvar \<Rightarrow> 's marshaller \<times> 'q \<Rightarrow> (gvar \<times> 's marshaller \<times> 'q) result option" where
  "send_top rd cl wr filt v mq = (case mq of (m, q) \<Rightarrow>
     bind (serialize_var rd cl wr filt (gv_var v) (reset_checksum m, q)) (\<lambda>(w, m1, q1).
       bind (put_checksum wr m1) (\<lambda>m2. return (v\<lparr>gv_var := w\<rparr>, m2, q1))))"

fun serialize_group :: "'q var_read \<Rightarrow> 'q clauses \<Rightarrow> 's writer \<Rightarrow> bool \<Rightarrow> data_group \<Rightarrow> 's marshaller \<times> 'q \<Rightarrow> (data_group \<times> 's marshaller \<times> 'q) result option" where
  "serialize_group rd cl wr filt (Group a ds es vs gs) mq =
     bind (each (\<lambda>_. True) (serialize_group rd cl wr filt) gs mq) (\<lambda>(gs1, mq1).
       bind (each (\<lambda>v. send_p (gv_var v)) (send_top rd cl wr filt) vs mq1) (\<lambda>(vs1, mq2).
         return (Group a ds es vs1 gs1, mq2)))"

definition receive_top :: "(nat \<Rightarrow> u8) \<Rightarrow> 'r reader \<Rightarrow> gvar \<Rightarrow> 'r unmarshaller \<Rightarrow> (gvar \<times> 'r unmarshaller) result option" where
  "receive_top junk rdr v u =
     bind (deserialize_var junk rdr (gv_var v) u) (\<lambda>(w, u1).
       bind (get_checksum_str rdr u1) (\<lambda>(crc, u2). return (v\<lparr>gv_var := w, gv_crc := gv_crc v @ [crc]\<rparr>, u2)))"

fun deserialize_group :: "(nat \<Rightarrow> u8) \<Rightarrow> 'r reader \<Rightarrow> data_group \<Rightarrow> 'r unmarshaller \<Rightarrow> (data_group \<times> 'r unmarshaller) result option" where
  "deserialize_group junk rdr (Group a ds es vs gs) u =
     bind (each (\<lambda>_. True) (deserialize_group junk rdr) gs u) (\<lambda>(gs1, u1).
       bind (each (\<lambda>_. True) (receive_top junk rdr) vs u1) (\<lambda>(vs1, u2). return (Group a ds es vs1 gs1, u2)))"


section \<open>What a response of a dataset holds\<close>

fun sent_vars :: "data_group \<Rightarrow> var list" where
  "sent_vars (Group a ds es vs gs) = concat (map sent_vars gs) @ map gv_var (filter (\<lambda>v. send_p (gv_var v)) vs)"

fun all_vars :: "data_group \<Rightarrow> gvar list" where
  "all_vars (Group a ds es vs gs) = concat (map all_vars gs) @ vs"

definition crc_of :: "bool \<Rightarrow> var \<Rightarrow> u32" where
  "crc_of big v = GetCrc32 (foldl crc_step Reset (all_checked big (contents False big v)))"

definition var_stream :: "bool \<Rightarrow> var \<Rightarrow> u8 list" where
  "var_stream big v = concat (map (on_stream big) (contents False big v)) @ mem_bytes big 4 (crc_of big v)"

text \<open>The checksum as the receiver shows it: the bytes are not swapped.\<close>

definition crc_seen :: "bool \<Rightarrow> bool \<Rightarrow> var \<Rightarrow> string" where
  "crc_seen wb hb v = hex8 (mem_val hb (mem_bytes wb 4 (crc_of wb v)))"

text \<open>The receiver's groups declare what is sent.\<close>

inductive declared :: "data_group \<Rightarrow> data_group \<Rightarrow> bool" where
  "list_all2 declared gs hs \<Longrightarrow>
    list_all2 (\<lambda>v w. sendable (gv_var v) (kind_of (gv_var w)) \<and> fresh (gv_var w)) (filter (\<lambda>v. send_p (gv_var v)) vs) ws \<Longrightarrow>
    declared (Group a ds es vs gs) (Group b ds' es' ws hs)"
  monos list.rel_mono

inductive_cases declaredE: "declared (Group a ds es vs gs) h"

lemma each_sink:
  assumes "\<And>x m ys. x \<in> set xs \<Longrightarrow> P x \<Longrightarrow> I m ys \<Longrightarrow> \<exists>m1. f x (m, q) = return (x, m1, q) \<and> I m1 (ys @ st x)"
    and "I m ys"
  shows "\<exists>m1. each P f xs (m, q) = return (xs, m1, q) \<and> I m1 (ys @ concat (map st (filter P xs)))"
  using assms
proof (induction xs arbitrary: m ys)
  case (Cons x xs)
  show ?case
  proof (cases "P x")
    case True
    then obtain m1 where m1: "f x (m, q) = return (x, m1, q)" "I m1 (ys @ st x)" using Cons.prems by (meson list.set_intros(1))
    obtain m2 where "each P f xs (m1, q) = return (xs, m2, q)" "I m2 ((ys @ st x) @ concat (map st (filter P xs)))"
      using Cons.IH [OF _ m1(2)] Cons.prems(1) by (meson list.set_intros(2))
    then show ?thesis using m1 True by auto
  next
    case False
    obtain m2 where "each P f xs (m, q) = return (xs, m2, q)" "I m2 (ys @ concat (map st (filter P xs)))"
      using Cons.IH [OF _ Cons.prems(2)] Cons.prems(1) by (meson list.set_intros(2))
    then show ?thesis using False by auto
  qed
qed auto

lemma each_source:
  assumes "list_all2 (\<lambda>x y. \<forall>s zs. yields s (st x @ zs) \<longrightarrow> (\<exists>y' s'. f y (u\<lparr>d_in := s\<rparr>) = return (y', u\<lparr>d_in := s'\<rparr>) \<and> yields s' zs \<and> Q x y')) xs ys"
    and "yields s (concat (map st xs) @ zs)"
  shows "\<exists>ys' s'. each (\<lambda>_. True) f ys (u\<lparr>d_in := s\<rparr>) = return (ys', u\<lparr>d_in := s'\<rparr>) \<and> yields s' zs \<and> list_all2 Q xs ys'"
  using assms
proof (induction xs ys arbitrary: s rule: list_all2_induct)
  case (Cons x xs y ys)
  then obtain y' s1 where y': "f y (u\<lparr>d_in := s\<rparr>) = return (y', u\<lparr>d_in := s1\<rparr>)" "yields s1 (concat (map st xs) @ zs)" "Q x y'"
    by fastforce
  then show ?case using Cons.IH [OF y'(2)] by auto
qed auto

definition ready_sink :: "('s \<Rightarrow> u8 list \<Rightarrow> bool) \<Rightarrow> bool \<Rightarrow> 's marshaller \<Rightarrow> u8 list \<Rightarrow> bool" where
  "ready_sink holds big m ys \<longleftrightarrow> holds (d_out m) ys \<and> d_write_data m \<and> host_big m = big"

lemma concat_map_concat: "concat (map f (concat xss)) = concat (map (\<lambda>xs. concat (map f xs)) xss)"
  by (induction xss) simp_all

context byte_sink
begin

lemma send_top_ok:
  assumes "ready_sink holds big m ys" "sendable (gv_var v) k"
  shows "\<exists>m1. send_top rd cl wr filt v (m, q) = return (v, m1, q) \<and> ready_sink holds big m1 (ys @ var_stream big (gv_var v))"
proof -
  let ?m = "reset_checksum m" and ?c = "contents False big (gv_var v)"
  have m: "holds (d_out ?m) ys" "d_write_data ?m" "host_big ?m = big" "d_checksum ?m = Reset"
    using assms(1) by (simp_all add: ready_sink_def reset_checksum_def)
  obtain s where s: "put_all wr ?m ?c = return (?m\<lparr>d_out := s, d_checksum := foldl crc_step Reset (all_checked big ?c)\<rparr>)"
    "holds s (ys @ concat (map (on_stream big) ?c))"
    using put_all_ok [OF m(1) _ m(2), of ?c] sendable_fits [OF assms(2), of big] m(3,4) by (auto simp: list_all_iff)
  define m1 where "m1 = ?m\<lparr>d_out := s, d_checksum := foldl crc_step Reset (all_checked big ?c)\<rparr>"
  have d: "d_out m1 = s" by (simp add: m1_def)
  obtain s' where s': "write_out wr m1 (mem_bytes big 4 (crc_of big (gv_var v))) = return (m1\<lparr>d_out := s'\<rparr>)"
    "holds s' ((ys @ concat (map (on_stream big) ?c)) @ mem_bytes big 4 (crc_of big (gv_var v)))"
    using write_out_ok [of m1 "ys @ concat (map (on_stream big) ?c)" "mem_bytes big 4 (crc_of big (gv_var v))"] s(2)
    unfolding d by auto
  have "put_checksum wr m1 = return (m1\<lparr>d_out := s'\<rparr>)" using s'(1) m(3) by (simp add: put_checksum_def m1_def crc_of_def)
  moreover have "serialize_var rd cl wr filt (gv_var v) (?m, q) = return (gv_var v, m1, q)"
    using s(1) m(3) by (simp add: serialize_sendable [OF assms(2)] m1_def)
  ultimately show ?thesis using s'(2) m
    by (auto simp: send_top_def ready_sink_def var_stream_def m1_def)
qed

lemma serialize_group_ok:
  assumes "ready_sink holds big m ys" "\<forall>v \<in> set (sent_vars g). \<exists>k. sendable v k"
  shows "\<exists>m1. serialize_group rd cl wr filt g (m, q) = return (g, m1, q) \<and>
    ready_sink holds big m1 (ys @ concat (map (var_stream big) (sent_vars g)))"
  using assms
proof (induction g arbitrary: m ys)
  case (Group a ds es vs gs)
  have IH: "\<exists>m1. serialize_group rd cl wr filt g (m, q) = return (g, m1, q) \<and>
      ready_sink holds big m1 (ys @ concat (map (var_stream big) (sent_vars g)))"
    if "g \<in> set gs" "ready_sink holds big m ys" for g m ys
    using Group.IH [OF that] Group.prems(2) that(1) by auto
  have "\<exists>m1. each (\<lambda>_. True) (serialize_group rd cl wr filt) gs (m, q) = return (gs, m1, q) \<and>
      ready_sink holds big m1 (ys @ concat (map (\<lambda>g. concat (map (var_stream big) (sent_vars g))) (filter (\<lambda>_. True) gs)))"
    using IH Group.prems(1) by (intro each_sink [where I = "ready_sink holds big"]) auto
  then obtain m1 where m1: "each (\<lambda>_. True) (serialize_group rd cl wr filt) gs (m, q) = return (gs, m1, q)"
    "ready_sink holds big m1 (ys @ concat (map (\<lambda>g. concat (map (var_stream big) (sent_vars g))) gs))" by auto
  obtain m2 where "each (\<lambda>v. send_p (gv_var v)) (send_top rd cl wr filt) vs (m1, q) = return (vs, m2, q)"
    "ready_sink holds big m2 ((ys @ concat (map (\<lambda>g. concat (map (var_stream big) (sent_vars g))) gs)) @
      concat (map (\<lambda>v. var_stream big (gv_var v)) (filter (\<lambda>v. send_p (gv_var v)) vs)))"
    using each_sink [where I = "ready_sink holds big", OF _ m1(2), of vs "\<lambda>v. send_p (gv_var v)" "send_top rd cl wr filt" q "\<lambda>v. var_stream big (gv_var v)"]
      send_top_ok [of big _ _ _ _ rd cl filt q] Group.prems(2) by fastforce
  then show ?case using m1(1) by (auto simp: comp_def concat_map_concat)
qed

end

definition arrived :: "bool \<Rightarrow> bool \<Rightarrow> var \<Rightarrow> gvar \<Rightarrow> bool" where
  "arrived wb hb v w \<longleftrightarrow> contents True hb (gv_var w) = contents False wb v \<and> gv_crc w \<noteq> [] \<and> last (gv_crc w) = crc_seen wb hb v"

context byte_source
begin

lemma receive_top_ok:
  assumes "sendable v (kind_of (gv_var w))" "fresh (gv_var w)" "list_all (portable wb (um_host_big u)) (contents False wb v)"
    "d_twiddle_bytes u \<longleftrightarrow> wb \<noteq> um_host_big u" "yields (d_in u) (var_stream wb v @ ys)"
  shows "\<exists>w' s. receive_top junk rd w u = return (w', u\<lparr>d_in := s\<rparr>) \<and> yields s ys \<and> arrived wb (um_host_big u) v w'"
proof -
  obtain x s where x: "deserialize_var junk rd (gv_var w) u = return (x, u\<lparr>d_in := s\<rparr>)"
    "yields s (mem_bytes wb 4 (crc_of wb v) @ ys)" "contents True (um_host_big u) x = contents False wb v"
    using readsD [where u = u, OF sendable_reads [OF assms(1,3) refl assms(2)], of "mem_bytes wb 4 (crc_of wb v) @ ys"] assms(4,5)
    by (fastforce simp: var_stream_def)
  obtain s' where s': "get_raw 4 rd (u\<lparr>d_in := s\<rparr>) = return (mem_val (um_host_big u) (mem_bytes wb 4 (crc_of wb v)) :: u32, u\<lparr>d_in := s'\<rparr>)"
    "yields s' ys"
    using get_raw_ok [of "u\<lparr>d_in := s\<rparr>" wb 4 "crc_of wb v" ys] x(2) by auto
  then have "receive_top junk rd w u = return (w\<lparr>gv_var := x, gv_crc := gv_crc w @ [crc_seen wb (um_host_big u) v]\<rparr>, u\<lparr>d_in := s'\<rparr>)"
    using x(1) by (simp add: receive_top_def get_checksum_str_def read_checksum_def crc_seen_def)
  then show ?thesis using s'(2) x(3) by (intro exI conjI) (auto simp: arrived_def)
qed

lemma deserialize_group_ok:
  assumes "declared g h" "\<forall>v \<in> set (sent_vars g). list_all (portable wb (um_host_big u)) (contents False wb v)"
    "d_twiddle_bytes u \<longleftrightarrow> wb \<noteq> um_host_big u" "yields s (concat (map (var_stream wb) (sent_vars g)) @ ys)"
  shows "\<exists>h' s'. deserialize_group junk rd h (u\<lparr>d_in := s\<rparr>) = return (h', u\<lparr>d_in := s'\<rparr>) \<and> yields s' ys \<and>
    list_all2 (arrived wb (um_host_big u)) (sent_vars g) (all_vars h')"
  using assms
proof (induction g arbitrary: h s ys)
  case (Group a ds es vs gs)
  obtain b ds' es' ws hs where h: "h = Group b ds' es' ws hs" "list_all2 declared gs hs"
    "list_all2 (\<lambda>v w. sendable (gv_var v) (kind_of (gv_var w)) \<and> fresh (gv_var w)) (filter (\<lambda>v. send_p (gv_var v)) vs) ws"
    using Group.prems(1) by (auto elim: declaredE)
  let ?hb = "um_host_big u" and ?vs = "filter (\<lambda>v. send_p (gv_var v)) vs"
  let ?st = "\<lambda>g. concat (map (var_stream wb) (sent_vars g))" and ?zs = "concat (map (\<lambda>v. var_stream wb (gv_var v)) ?vs) @ ys"
  have step: "list_all2 (\<lambda>g h. \<forall>s zs. yields s (?st g @ zs) \<longrightarrow> (\<exists>h' s'. deserialize_group junk rd h (u\<lparr>d_in := s\<rparr>) = return (h', u\<lparr>d_in := s'\<rparr>) \<and>
      yields s' zs \<and> list_all2 (arrived wb ?hb) (sent_vars g) (all_vars h'))) gs hs"
    using h(2)
  proof (rule list.rel_mono_strong)
    fix g h assume g: "g \<in> set gs" "declared g h"
    have "\<forall>v \<in> set (sent_vars g). list_all (portable wb ?hb) (contents False wb v)" using Group.prems(2) g(1) by auto
    then show "\<forall>s zs. yields s (?st g @ zs) \<longrightarrow> (\<exists>h' s'. deserialize_group junk rd h (u\<lparr>d_in := s\<rparr>) = return (h', u\<lparr>d_in := s'\<rparr>) \<and>
      yields s' zs \<and> list_all2 (arrived wb ?hb) (sent_vars g) (all_vars h'))"
      using Group.IH [OF g(1,2) _ Group.prems(3)] by blast
  qed
  obtain hs' s1 where hs': "each (\<lambda>_. True) (deserialize_group junk rd) hs (u\<lparr>d_in := s\<rparr>) = return (hs', u\<lparr>d_in := s1\<rparr>)"
    "yields s1 ?zs" "list_all2 (\<lambda>g h'. list_all2 (arrived wb ?hb) (sent_vars g) (all_vars h')) gs hs'"
    using each_source [where yields = yields and st = ?st, OF step, of s ?zs] Group.prems(4) by (auto simp: concat_map_concat comp_def)
  have step2: "list_all2 (\<lambda>v w. \<forall>s zs. yields s (var_stream wb (gv_var v) @ zs) \<longrightarrow> (\<exists>w' s'. receive_top junk rd w (u\<lparr>d_in := s\<rparr>) =
      return (w', u\<lparr>d_in := s'\<rparr>) \<and> yields s' zs \<and> arrived wb ?hb (gv_var v) w')) ?vs ws"
    using h(3)
  proof (rule list.rel_mono_strong)
    fix v w :: gvar
    assume v: "v \<in> set ?vs" "sendable (gv_var v) (kind_of (gv_var w)) \<and> fresh (gv_var w)"
    then have "list_all (portable wb ?hb) (contents False wb (gv_var v))" using Group.prems(2) by auto
    then show "\<forall>s zs. yields s (var_stream wb (gv_var v) @ zs) \<longrightarrow> (\<exists>w' s'. receive_top junk rd w (u\<lparr>d_in := s\<rparr>) =
      return (w', u\<lparr>d_in := s'\<rparr>) \<and> yields s' zs \<and> arrived wb ?hb (gv_var v) w')"
      using receive_top_ok [of "gv_var v" w wb "u\<lparr>d_in := _\<rparr>" _ junk] v(2) Group.prems(3) by fastforce
  qed
  obtain ws' s2 where ws': "each (\<lambda>_. True) (receive_top junk rd) ws (u\<lparr>d_in := s1\<rparr>) = return (ws', u\<lparr>d_in := s2\<rparr>)"
    "yields s2 ys" "list_all2 (\<lambda>v w'. arrived wb ?hb (gv_var v) w') ?vs ws'"
    using each_source [where yields = yields and st = "\<lambda>v. var_stream wb (gv_var v)", OF step2, of s1 ys] hs'(2) by auto
  have "list_all2 (arrived wb ?hb) (concat (map sent_vars gs)) (concat (map all_vars hs'))"
    using hs'(3) by (induction gs hs' rule: list_all2_induct) (auto intro: list_all2_appendI)
  then have "list_all2 (arrived wb ?hb) (sent_vars (Group a ds es vs gs)) (all_vars (Group b ds' es' ws' hs'))"
    using ws'(3) by (auto intro!: list_all2_appendI simp: list_all2_map1)
  then show ?case using hs'(1) ws'(1,2) h(1)
    by (intro exI [of _ "Group b ds' es' ws' hs'"] exI [of _ s2]) simp
qed

end


section \<open>Names resolve\<close>

text \<open>The groups below a group, with the names on the way; each is the first of its name among its siblings.\<close>

inductive descends :: "('m, 'v) group \<Rightarrow> string list \<Rightarrow> ('m, 'v) group \<Rightarrow> bool" where
  here: "descends g [] g"
| down: "find_child_grp p g = Some h \<Longrightarrow> p \<noteq> [] \<Longrightarrow> CHR ''/'' \<notin> set p \<Longrightarrow> descends h ps k \<Longrightarrow> descends g (p # ps) k"

definition relative_path :: "string list \<Rightarrow> string \<Rightarrow> string" where
  "relative_path ps n = concat (map (\<lambda>p. p @ ''/'') ps) @ n"

lemma relative_path_simps [simp]: "relative_path [] n = n" "relative_path (p # ps) n = p @ ''/'' @ relative_path ps n"
  by (simp_all add: relative_path_def)

lemma fully_qualified_name_append: "fully_qualified_name n (xs @ ys) = fully_qualified_name (fully_qualified_name n xs) ys"
  by (induction xs arbitrary: n) auto

lemma fully_qualified_name_path:
  assumes "\<forall>p \<in> set ps. CHR ''/'' \<notin> set p"
  shows "fully_qualified_name n (rev ps @ [''/'']) = ''/'' @ relative_path ps n"
proof -
  have "fully_qualified_name n (rev ps) = relative_path ps n"
    using assms by (induction ps arbitrary: n) (auto simp: fully_qualified_name_append)
  then show ?thesis by (simp add: fully_qualified_name_append)
qed

lemma FQN_path:
  assumes "\<forall>p \<in> set ps. CHR ''/'' \<notin> set p"
  shows "FQN (rev ps @ [''/'']) = Inr (''/'' @ relative_path ps [])"
  using assms
proof (induction ps rule: rev_induct)
  case (snoc p ps)
  then have "p \<noteq> ''/''" by auto
  then show ?case using snoc by (simp add: relative_path_def)
qed simp

lemma split_slash_none [simp]: "CHR ''/'' \<notin> set n \<Longrightarrow> split_slash n = None"
  by (simp add: split_slash_def)

lemma split_slash_path [simp]: "CHR ''/'' \<notin> set p \<Longrightarrow> split_slash (p @ CHR ''/'' # r) = Some (p, r)"
  by (auto simp: split_slash_def takeWhile_append dropWhile_append)

lemma local_path_plain [simp]: "\<not> starts_with ''/'' p \<Longrightarrow> local_path g p = Inr p"
  by (simp add: local_path_def)

lemma plain_start: "CHR ''/'' \<notin> set n \<Longrightarrow> \<not> starts_with ''/'' n" "p \<noteq> [] \<Longrightarrow> CHR ''/'' \<notin> set p \<Longrightarrow> \<not> starts_with ''/'' (p @ r)"
  by (cases n; auto simp: starts_with_def) (cases p; auto simp: starts_with_def)

lemma find_path_relative:
  assumes "descends g ps k" "CHR ''/'' \<notin> set n"
  shows "find_path leaf g (relative_path ps n) = Inr (leaf k n)"
  using assms
proof (induction rule: descends.induct)
  case (here g)
  then show ?case by (simp add: find_path.simps plain_start)
next
  case (down p g h ps k)
  then show ?case
    by (subst find_path.simps) (simp add: plain_start del: split_slash_none)
qed

lemma find_path_absolute:
  assumes "descends g ps k" "gname g = ''/''" "CHR ''/'' \<notin> set n"
  shows "find_path leaf g (''/'' @ relative_path ps n) = Inr (leaf k n)"
proof -
  have "find_path leaf g (''/'' @ r) = find_path leaf g r" if "\<not> starts_with ''/'' r" for r
    using that assms(2) by (simp add: find_path.simps [of leaf g] local_path_def starts_with_def)
  moreover have "\<not> starts_with ''/'' (relative_path ps n)"
    using assms(1,3) by (cases rule: descends.cases) (auto simp: plain_start)
  ultimately show ?thesis using find_path_relative [OF assms(1,3)] by simp
qed

lemma descends_names: "descends g ps k \<Longrightarrow> \<forall>p \<in> set ps. CHR ''/'' \<notin> set p"
  by (induction rule: descends.induct) auto

lemma declared_sendable: "declared g h \<Longrightarrow> \<forall>v \<in> set (sent_vars g). \<exists>k. sendable v k"
proof (induction rule: declared.induct)
  case (1 gs hs vs ws a ds es b ds' es')
  have "\<exists>k. sendable v k" if "g \<in> set gs" "v \<in> set (sent_vars g)" for g v
    using list_all2_left [OF 1(1) that(1)] that(2) by blast
  moreover have "\<exists>k. sendable (gv_var v) k" if "v \<in> set vs" "send_p (gv_var v)" for v
    using list_all2_left [OF 1(2), of v] that by auto
  ultimately show ?case by auto
qed

section \<open>Properties\<close>


text \<open>C13: Fully qualified names resolve: for every group below the root whose way down has distinct, non-empty names without a slash,
  a dimension's fully qualified name finds what a search in its own group finds, and a variable's fully qualified name
  finds the variable of its group.\<close>

theorem qualified_names_resolve:
  assumes "gname root = ''/''" "descends root ps g" "CHR ''/'' \<notin> set n"
  shows "D4Group_find_dim root (fully_qualified_name n (rev ps @ [''/''])) = Inr (find_dim n (dims g)) \<and>
    (\<exists>s. FQN (rev ps @ [''/'']) = Inr s \<and> find_var junk root (s @ n) = Inr (group_var junk g n))"
  using find_path_absolute [OF assms(2,1,3), of "\<lambda>g n. find_dim n (dims g)"] find_path_absolute [OF assms(2,1,3), of "group_var junk"]
    descends_names [OF assms(2)]
  by (simp add: D4Group_find_dim_def find_var_def fully_qualified_name_path FQN_path relative_path_def)

text \<open>C29: The lookup of an enumeration does not descend: a path through two or more groups is searched for, with its slashes, as a
  name in the first of them, and is not found although the last group defines the enumeration.\<close>

theorem deep_enumerations_not_found:
  assumes "gname root = ''/''" "find_child_grp p root = Some h" "p \<noteq> []" "CHR ''/'' \<notin> set p" "ps \<noteq> []"
    and "\<forall>e \<in> set (enum_defs h). CHR ''/'' \<notin> set (ed_name e)"
  shows "D4Group_find_enum_def root (''/'' @ relative_path (p # ps) n) = Inr None"
proof -
  have "CHR ''/'' \<in> set (relative_path ps n)" using assms(5) by (cases ps) auto
  then have "find_enum_def (relative_path ps n) (enum_defs h) = None"
    using assms(6) by (auto simp: find_enum_def_def find_None_iff)
  then show ?thesis using assms(1-4)
    by (simp add: D4Group_find_enum_def_def find_shallow_def local_path_def starts_with_def)
qed

text \<open>C28: A copy of a group is not self-contained: its arrays are redirected to the new dimensions only when the dimension belongs to
  the array's own group.  An array of an inner group that shares a dimension of an outer one keeps the pointer to the
  original's dimension, which is none of the copy's.\<close>

theorem copy_keeps_outer_pointers:
  assumes "gv_var v = Array w p c" "v \<in> set (vars h)" "h \<in> set (groups g)" "dm \<in> set (a_shape (v_shape w))" "dm_dim dm = Some x"
    and "x \<notin> dd_addr ` set (dims h)" "x \<notin> range new_addr"
  shows "\<exists>h' v' w'. h' \<in> set (groups (copy_group new_addr g)) \<and> v' \<in> set (vars h') \<and> gv_var v' = Array w' p c \<and>
    dm \<in> set (a_shape (v_shape w')) \<and> x \<notin> dd_addr ` set (dims (copy_group new_addr g)) \<union> dd_addr ` set (dims h')"
proof -
  let ?old = "dims h" and ?new = "map (\<lambda>d. d\<lparr>dd_addr := new_addr (dd_addr d)\<rparr>) (dims h)"
  have keep: "foldl (\<lambda>d o'. if dm_dim d = Some (dd_addr o') then d\<lparr>dm_dim := map_option dd_addr (find_dim (dd_name o') ds1)\<rparr> else d) dm ds = dm"
    if "x \<notin> dd_addr ` set ds" for ds ds1
    using that assms(5) by (induction ds) auto
  have "dm \<in> set (a_shape (update_dimension_pointers ?old ?new (v_shape w)))"
    using assms(4) keep [OF assms(6), of ?new] by (force simp: update_dimension_pointers_def)
  then show ?thesis
    using assms(1-3,7) by (cases g; cases h) (force simp: Let_def redirect_def image_iff)
qed


section \<open>Witnesses\<close>

definition demo_var :: "BaseType \<Rightarrow> gvar" where
  "demo_var b = \<lparr>gv_var = Scalar b, gv_crc = []\<rparr>"

definition demo_dim :: d4dimension where
  "demo_dim = D4Dimension 7 ''x'' 3"

definition demo_shared :: gvar where
  "demo_shared = \<lparr>gv_var = Array (demo_row 3 [] []\<lparr>v_shape := append_d4dim demo_dim \<lparr>a_length = -1, a_shape = []\<rparr>\<rparr>)
     (Scalar (Byte (demo_byte ''v'' 0))) [], gv_crc = []\<rparr>"

definition demo_inner :: data_group where
  "demo_inner = Group (demo_scalar ''b'' ()) [] [D4EnumDef 8 ''e'' dods_byte_c] [demo_shared] []"

definition demo_root :: data_group where
  "demo_root = Group (demo_scalar ''/'' ()) [demo_dim] [] [] [Group (demo_scalar ''a'' ()) [] [] [] [demo_inner]]"

lemmas demo_group_defs = demo_root_def demo_inner_def demo_shared_def demo_scalar_def make_scalar_def find_child_grp_def

lemma demo_descends: "descends demo_root [''a'', ''b''] demo_inner"
  by (auto simp: demo_group_defs intro!: descends.intros)

theorem qualified_names_resolve_witness:
  "D4Group_find_dim demo_root (fully_qualified_name ''v'' [''b'', ''a'', ''/'']) = Inr (find_dim ''v'' (dims demo_inner)) \<and>
    (\<exists>s. FQN [''b'', ''a'', ''/''] = Inr s \<and> find_var 0 demo_root (s @ ''v'') = Inr (group_var 0 demo_inner ''v''))"
  using qualified_names_resolve [OF _ demo_descends, of "''v''" 0] by (simp add: demo_root_def demo_scalar_def make_scalar_def)

theorem deep_enumerations_not_found_witness:
  "D4Group_find_enum_def demo_root ''/a/b/e'' = Inr None"
  using deep_enumerations_not_found [of demo_root "''a''" "Group (demo_scalar ''a'' ()) [] [] [] [demo_inner]" "[''b'']" "''e''"]
  by (simp add: demo_group_defs)

theorem copy_keeps_outer_pointers_witness:
  "\<exists>h' v' w' p c dm. h' \<in> set (groups (copy_group (\<lambda>x. x + 100) (Group (demo_scalar ''/'' ()) [demo_dim] [] [] [demo_inner]))) \<and>
    v' \<in> set (vars h') \<and> gv_var v' = Array w' p c \<and> dm \<in> set (a_shape (v_shape w')) \<and> dm_dim dm = Some 7"
proof -
  let ?g = "Group (demo_scalar ''/'' ()) [demo_dim] [] [] [demo_inner]" and ?w = "demo_row 3 [] []\<lparr>v_shape := append_d4dim demo_dim \<lparr>a_length = -1, a_shape = []\<rparr>\<rparr>"
  have "\<exists>h' v' w'. h' \<in> set (groups (copy_group (\<lambda>x. x + 100) ?g)) \<and> v' \<in> set (vars h') \<and>
      gv_var v' = Array w' (Scalar (Byte (demo_byte ''v'' 0))) [] \<and> dimension_of_dim demo_dim \<in> set (a_shape (v_shape w')) \<and>
      7 \<notin> dd_addr ` set (dims (copy_group (\<lambda>x. x + 100) ?g)) \<union> dd_addr ` set (dims h')"
    by (rule copy_keeps_outer_pointers [where v = demo_shared and h = demo_inner and w = ?w])
      (auto simp: demo_shared_def demo_inner_def append_d4dim_def append_dimension_def update_length_def dimension_of_dim_def demo_dim_def D4Dimension_def)
  moreover have "dm_dim (dimension_of_dim demo_dim) = Some 7" by (simp add: dimension_of_dim_def demo_dim_def D4Dimension_def Let_def)
  ultimately show ?thesis by blast
qed

definition demo_data :: "u8 \<Rightarrow> u16 \<Rightarrow> data_group" where
  "demo_data b i = Group (demo_scalar ''/'' ()) [] [] [demo_var (Byte (demo_byte ''b'' b))]
     [Group (demo_scalar ''a'' ()) [] [] [demo_var (UInt16 (demo_scalar ''i'' i))] []]"


end
