(* ===== verification/Dmr.thy ===== *)
theory Dmr
  imports D4Attributes D4Group
begin

text \<open>
  The dataset as a DMR document declares it: variables with their types, dimensions, maps and attributes, the groups they
  are in (\<open>D4Group.cc\<close> with the declarations in place of the values), the factory that makes them
  (\<open>D4BaseTypeFactory.cc\<close>), and the document itself (\<open>DMR.cc\<close> and the \<open>print_dap4\<close> functions).  All
  variables are variables of DAP4.  A pointer to a dimension or to the definition of an enumeration is its address.
\<close>

section \<open>Declarations\<close>

record d4base = "unit scalar" +
  d_attributes :: "attribute list"

definition BaseType_new :: "string \<Rightarrow> d4base" where
  "BaseType_new n = scalar.extend (make_scalar n [] True ()) (d4base.fields [])"

text \<open>A map points to an array, or to nothing when the array was not found.\<close>

record d4map =
  mp_name :: string
  mp_array :: bool

datatype decl =
    Simple_Decl d4base Type "nat option"
  | Constructor_Decl d4base Type "decl list"
  | Array_Decl d4base decl array_shape "d4map list"

fun decl_base :: "decl \<Rightarrow> d4base" where
  "decl_base (Simple_Decl b t e) = b" | "decl_base (Constructor_Decl b t vs) = b" | "decl_base (Array_Decl b p s ms) = b"

fun decl_type :: "decl \<Rightarrow> Type" where
  "decl_type (Simple_Decl b t e) = t" | "decl_type (Constructor_Decl b t vs) = t" | "decl_type (Array_Decl b p s ms) = dods_array_c"

fun map_base :: "(d4base \<Rightarrow> d4base) \<Rightarrow> decl \<Rightarrow> decl" where
  "map_base f (Simple_Decl b t e) = Simple_Decl (f b) t e"
| "map_base f (Constructor_Decl b t vs) = Constructor_Decl (f b) t vs"
| "map_base f (Array_Decl b p s ms) = Array_Decl (f b) p s ms"

definition decl_name :: "decl \<Rightarrow> string" where "decl_name v = d_name (decl_base v)"
definition decl_attributes :: "decl \<Rightarrow> attribute list" where "decl_attributes v = d_attributes (decl_base v)"
definition set_attributes_nocopy :: "attribute list \<Rightarrow> decl \<Rightarrow> decl" where
  "set_attributes_nocopy as = map_base (\<lambda>b. b\<lparr>d_attributes := as\<rparr>)"

definition decl_vector :: "decl \<Rightarrow> bool" where "decl_vector v = is_vector_type (decl_type v)"

text \<open>\<open>set_name\<close> decodes; an array names its prototype as well.\<close>

fun decl_set_name :: "int \<Rightarrow> string \<Rightarrow> decl \<Rightarrow> decl" where
  "decl_set_name junk n (Array_Decl b p s ms) = Array_Decl (b\<lparr>d_name := www2id_all junk n\<rparr>) (decl_set_name junk n p) s ms"
| "decl_set_name junk n v = map_base (\<lambda>b. b\<lparr>d_name := www2id_all junk n\<rparr>) v"

text \<open>\<open>Vector::add_var_nocopy\<close>: the prototype of an array and the name the two share.\<close>

definition Vector_add_var_nocopy :: "int \<Rightarrow> decl \<Rightarrow> decl \<Rightarrow> decl" where
  "Vector_add_var_nocopy junk v a = (case a of
     Array_Decl b p s ms \<Rightarrow>
       if decl_name v \<noteq> [] then decl_set_name junk (decl_name v) (Array_Decl b v s ms)
       else Array_Decl b (decl_set_name junk (d_name b) v) s ms
   | _ \<Rightarrow> a)"

definition Constructor_add_var_nocopy :: "decl \<Rightarrow> decl \<Rightarrow> decl" where
  "Constructor_add_var_nocopy v c = (case c of Constructor_Decl b t vs \<Rightarrow> Constructor_Decl b t (vs @ [v]) | _ \<Rightarrow> c)"

text \<open>An array that is added to an array gives it its prototype and appends its dimensions, by size and name.\<close>

definition Array_add_var_nocopy :: "int \<Rightarrow> decl \<Rightarrow> decl \<Rightarrow> decl" where
  "Array_add_var_nocopy junk v a = (case v of
     Array_Decl b p s ms \<Rightarrow>
       (case Vector_add_var_nocopy junk p a of
          Array_Decl b' p' s' ms' \<Rightarrow> Array_Decl b' p' (foldl (\<lambda>s d. append_dim junk (dm_size d) (dm_name d) s) s' (a_shape s)) ms'
        | w \<Rightarrow> w)
   | _ \<Rightarrow> Vector_add_var_nocopy junk v a)"

text \<open>\<open>BaseType::add_var_nocopy\<close> is not implemented.\<close>

definition decl_add_var_nocopy :: "int \<Rightarrow> decl \<Rightarrow> decl \<Rightarrow> decl result" where
  "decl_add_var_nocopy junk v parent = (case parent of
     Simple_Decl _ _ _ \<Rightarrow> Inl (InternalErr ''BaseType::add_var_nocopy unimplemented'')
   | Constructor_Decl _ _ _ \<Rightarrow> Inr (Constructor_add_var_nocopy v parent)
   | Array_Decl _ _ _ _ \<Rightarrow> Inr (Array_add_var_nocopy junk v parent))"

section \<open>The factory\<close>

text \<open>What the factory makes for a variable; an array is made together with its prototype.\<close>

definition NewVariable :: "Type \<Rightarrow> string \<Rightarrow> decl result" where
  "NewVariable t n =
     (if is_simple_type t then Inr (Simple_Decl (BaseType_new n) t None)
      else if t \<in> {dods_structure_c, dods_sequence_c} then Inr (Constructor_Decl (BaseType_new n) t [])
      else Inl (InternalErr ''Unimplemented type in DAP4''))"

definition NewArray :: "int \<Rightarrow> string \<Rightarrow> decl \<Rightarrow> decl" where
  "NewArray junk n v = Vector_add_var_nocopy junk v (Array_Decl (BaseType_new n) v \<lparr>a_length = -1, a_shape = []\<rparr> [])"

section \<open>Groups and the DMR\<close>

type_synonym dmr_group = "(\<lparr>d_attributes :: attribute list\<rparr>, decl) group"

definition NewGroup :: "string \<Rightarrow> dmr_group" where
  "NewGroup n = Group (BaseType_new n) [] [] [] []"

record DMR =
  d_dmr_name :: string
  d_filename :: string
  d_dap_major :: int
  d_dap_minor :: int
  d_dap_version :: string
  d_dmr_version :: string
  d_request_xml_base :: string
  d_namespace :: string
  d_max_response_size :: int
  d_root :: "dmr_group option"

definition c_dap40_namespace :: string where
  "c_dap40_namespace = ''http://xml.opendap.org/ns/DAP/4.0#''"

text \<open>
  \<open>iss >> major >> dot >> minor\<close>: white space before each is skipped, \<open>eof\<close> and \<open>fail\<close> end the reading.  At the
  end of the text the variable keeps its value, without digits it becomes zero; the variable of the dot has no value before it
  is read.
\<close>

definition get_int :: "int \<Rightarrow> string \<Rightarrow> bool \<times> int \<times> string" where
  "get_int old s =
     (let t = dropWhile is_space s; u = (if starts_with ''-'' t \<or> starts_with ''+'' t then tl t else t);
          ds = takeWhile is_digit u; n = int (digits_value 10 ds); v = (if starts_with ''-'' t then - n else n) in
      if t = [] then (True, old, [])
      else if ds = [] then (True, 0, u)
      else (clamp_int v \<noteq> v, clamp_int v, drop (length ds) u))"

definition parse_dap_version :: "char \<Rightarrow> string \<Rightarrow> int \<times> char \<times> int" where
  "parse_dap_version junk v = (case get_int (-1) v of (failed, major, r) \<Rightarrow>
     if failed \<or> r = [] then (major, junk, -1)
     else (case dropWhile is_space r of
         [] \<Rightarrow> (major, junk, -1)
       | dot # r2 \<Rightarrow> (case get_int (-1) r2 of (failed2, minor, r3) \<Rightarrow> (major, dot, minor))))"

definition set_dap_version :: "char \<Rightarrow> string \<Rightarrow> DMR \<Rightarrow> DMR result" where
  "set_dap_version junk v d = (case parse_dap_version junk v of (major, dot, minor) \<Rightarrow>
     if major = -1 \<or> minor = -1 \<or> dot \<noteq> CHR ''.''
     then Inl (InternalErr (''Could not parse dap version. Value given: '' @ v))
     else Inr (d\<lparr>d_dap_version := v, d_dap_major := major, d_dap_minor := minor,
       d_namespace := (if major = 4 then c_dap40_namespace else [])\<rparr>))"

definition DMR_new :: "string \<Rightarrow> DMR" where
  "DMR_new n = \<lparr>d_dmr_name = n, d_filename = [], d_dap_major = 4, d_dap_minor = 0, d_dap_version = ''4.0'',
     d_dmr_version = ''1.0'', d_request_xml_base = [], d_namespace = c_dap40_namespace, d_max_response_size = 0, d_root = None\<rparr>"

text \<open>\<open>root\<close> makes the root group when there is none.\<close>

definition root_of :: "DMR \<Rightarrow> dmr_group" where
  "root_of d = (case d_root d of None \<Rightarrow> NewGroup ''/'' | Some g \<Rightarrow> g)"

definition with_root :: "DMR \<Rightarrow> DMR" where
  "with_root d = d\<lparr>d_root := Some (root_of d)\<rparr>"

section \<open>What addresses stand for\<close>

text \<open>The dimensions and enumerations of the groups, each with the names of the groups around it, from the inside.\<close>

fun dim_table :: "string list \<Rightarrow> dmr_group \<Rightarrow> (nat \<times> string list \<times> d4dimension) list" where
  "dim_table ns (Group b ds es vs gs) =
     map (\<lambda>d. (dd_addr d, d_name b # ns, d)) ds @ concat (map (dim_table (d_name b # ns)) gs)"

fun enum_table :: "string list \<Rightarrow> dmr_group \<Rightarrow> (nat \<times> string list \<times> d4enumdef) list" where
  "enum_table ns (Group b ds es vs gs) =
     map (\<lambda>e. (ed_addr e, d_name b # ns, e)) es @ concat (map (enum_table (d_name b # ns)) gs)"

text \<open>\<open>find_first_var_that_uses_enumeration\<close>: only a scalar counts.\<close>

definition uses_enumeration :: "nat \<Rightarrow> decl \<Rightarrow> bool" where
  "uses_enumeration a v = (d_is_send (decl_base v) \<and> (case v of Simple_Decl b t e \<Rightarrow> t = dods_enum_c \<and> e = Some a | _ \<Rightarrow> False))"

fun find_first_var_that_uses_enumeration :: "nat \<Rightarrow> dmr_group \<Rightarrow> decl option"
  and first_enum_group :: "nat \<Rightarrow> dmr_group list \<Rightarrow> decl option" where
  "find_first_var_that_uses_enumeration a (Group b ds es vs gs) =
     (case find (uses_enumeration a) vs of Some v \<Rightarrow> Some v | None \<Rightarrow> first_enum_group a gs)"
| "first_enum_group a [] = None"
| "first_enum_group a (g # gs) =
     (case find_first_var_that_uses_enumeration a g of Some v \<Rightarrow> Some v | None \<Rightarrow> first_enum_group a gs)"

section \<open>Printing\<close>

text \<open>What every print function does when the next one throws.\<close>

definition andthen :: "'a result \<Rightarrow> ('a \<Rightarrow> 'b result) \<Rightarrow> 'b result" where
  "andthen x f = (case x of Inl e \<Rightarrow> Inl e | Inr v \<Rightarrow> f v)"

lemma andthen_simps [simp]: "andthen (Inl e) f = Inl e" "andthen (Inr v) f = f v"
  by (simp_all add: andthen_def)

lemma andthen_Inr: "andthen x f = Inr y \<longleftrightarrow> (\<exists>v. x = Inr v \<and> f v = Inr y)"
  by (cases x) simp_all

lemma andthen_cong [fundef_cong]: "x = y \<Longrightarrow> (\<And>v. y = Inr v \<Longrightarrow> f v = g v) \<Longrightarrow> andthen x f = andthen y g"
  by (cases y) simp_all

fun print_all :: "('a \<Rightarrow> xml_event list result) \<Rightarrow> 'a list \<Rightarrow> xml_event list result" where
  "print_all f [] = Inr []"
| "print_all f (x # xs) = andthen (f x) (\<lambda>a. andthen (print_all f xs) (\<lambda>b. Inr (a @ b)))"

lemma print_all_cong [fundef_cong]: "xs = ys \<Longrightarrow> (\<And>x. x \<in> set ys \<Longrightarrow> f x = g x) \<Longrightarrow> print_all f xs = print_all g ys"
  by (induction ys arbitrary: xs) auto

definition print_dimension :: "d4dimension \<Rightarrow> xml_event list result" where
  "print_dimension d =
     (if dd_constrained d \<and> dd_stride d = 0 then Inl (Std_Exception ''division by zero'')
      else Inr (xml_element ''Dimension''
        [(''name'', dd_name d),
         (''size'', show_nat (unat (if dd_constrained d then (dd_stop d - dd_start d) div dd_stride d + 1 else dd_size d)))] []))"

definition print_dims :: "bool \<Rightarrow> d4dimension list \<Rightarrow> xml_event list result" where
  "print_dims constrained ds = print_all print_dimension (filter (\<lambda>d. constrained \<longrightarrow> dd_used_by_projected_var d) ds)"

definition print_value :: "string \<times> u64 \<Rightarrow> xml_event list" where
  "print_value tp = xml_element ''EnumConst'' [(''name'', fst tp), (''value'', show_int (sint (snd tp)))] []"

definition print_enum :: "d4enumdef \<Rightarrow> xml_event list result" where
  "print_enum e = andthen (D4type_name (ed_type e)) (\<lambda>tn.
     Inr (xml_element ''Enumeration'' [(''name'', ed_name e), (''basetype'', tn)] (concat (map print_value (ed_tuples e)))))"

text \<open>The group that holds the definitions is searched for a variable that uses them.\<close>

definition print_enums :: "bool \<Rightarrow> dmr_group \<Rightarrow> xml_event list result" where
  "print_enums constrained g =
     print_all print_enum (filter (\<lambda>e. constrained \<longrightarrow> find_first_var_that_uses_enumeration (ed_addr e) g \<noteq> None) (enum_defs g))"

definition print_map :: "d4map \<Rightarrow> xml_event list" where
  "print_map m = xml_element ''Map'' [(''name'', mp_name m)] []"

text \<open>The table gives an address its object and the names of the groups around it.\<close>

type_synonym 'a table = "nat \<Rightarrow> (string list \<times> 'a) option"

definition dim_attr :: "d4dimension table \<Rightarrow> bool \<Rightarrow> dimension \<Rightarrow> (string \<times> string) result" where
  "dim_attr dt constrained d =
     andthen (case dm_dim d of
         None \<Rightarrow> Inr (dm_name d)
       | Some a \<Rightarrow> (case dt a of None \<Rightarrow> Inl invalid_pointer | Some (ns, dim) \<Rightarrow> Inr (fully_qualified_name (dd_name dim) ns)))
     (\<lambda>name. Inr (if \<not> constrained \<and> name \<noteq> [] then (''name'', name)
        else if use_sdim_for_slice d then (''name'', name)
        else (''size'', show_int (if constrained then dm_c_size d else dm_size d))))"

definition print_dim :: "d4dimension table \<Rightarrow> bool \<Rightarrow> dimension \<Rightarrow> xml_event list result" where
  "print_dim dt constrained d = andthen (dim_attr dt constrained d) (\<lambda>a. Inr (xml_element ''Dim'' [a] []))"

definition enum_path :: "d4enumdef table \<Rightarrow> nat option \<Rightarrow> string result" where
  "enum_path et e = (case e of None \<Rightarrow> Inl invalid_pointer | Some a \<Rightarrow> (case et a of
     None \<Rightarrow> Inl invalid_pointer | Some (ns, d) \<Rightarrow> andthen (FQN ns) (\<lambda>s. Inr (s @ ed_name d))))"

definition name_attr :: "string \<Rightarrow> (string \<times> string) list" where
  "name_attr n = (if n = [] then [] else [(''name'', n)])"

definition enum_attr :: "d4enumdef table \<Rightarrow> decl \<Rightarrow> (string \<times> string) list result" where
  "enum_attr et v = (case v of
     Simple_Decl b t e \<Rightarrow> if t = dods_enum_c then andthen (enum_path et e) (\<lambda>s. Inr [(''enum'', s)]) else Inr []
   | _ \<Rightarrow> Inr [])"

fun decl_members :: "decl \<Rightarrow> decl list" where
  "decl_members (Constructor_Decl b t vs) = vs" | "decl_members v = []"

text \<open>
  A simple variable prints its name, the definition of its enumeration and its attributes; a constructor its members and
  its attributes; an array the members of its prototype, its dimensions, attributes and maps.
\<close>

fun print_decl :: "d4enumdef table \<Rightarrow> d4dimension table \<Rightarrow> bool \<Rightarrow> decl \<Rightarrow> xml_event list result" where
  "print_decl et dt constrained (Simple_Decl b t e) =
     (if constrained \<and> \<not> d_is_send b then Inr []
      else andthen (D4type_name t) (\<lambda>tn. andthen (enum_attr et (Simple_Decl b t e)) (\<lambda>ea.
        andthen (attributes_dap4 (d_attributes b)) (\<lambda>as. Inr (xml_element tn (name_attr (d_name b) @ ea) as)))))"
| "print_decl et dt constrained (Constructor_Decl b t vs) =
     (if constrained \<and> \<not> d_is_send b then Inr []
      else andthen (D4type_name t) (\<lambda>tn. andthen (print_all (print_decl et dt constrained) vs) (\<lambda>ms.
        andthen (attributes_dap4 (d_attributes b)) (\<lambda>as. Inr (xml_element tn (name_attr (d_name b)) (ms @ as))))))"
| "print_decl et dt constrained (Array_Decl b p s maps) =
     (if constrained \<and> \<not> d_is_send b then Inr []
      else andthen (D4type_name (decl_type p)) (\<lambda>tn. andthen (enum_attr et p) (\<lambda>ea.
        andthen (case p of Constructor_Decl b' t vs \<Rightarrow> print_all (print_decl et dt constrained) vs | _ \<Rightarrow> Inr []) (\<lambda>ms.
          andthen (print_all (print_dim dt constrained) (a_shape s)) (\<lambda>dims.
            andthen (attributes_dap4 (d_attributes b)) (\<lambda>as.
              Inr (xml_element tn (name_attr (d_name b) @ ea) (ms @ dims @ as @ concat (map print_map maps)))))))))"

text \<open>The root group, and one without a name, has no element of its own.\<close>

fun print_group :: "d4enumdef table \<Rightarrow> d4dimension table \<Rightarrow> bool \<Rightarrow> dmr_group \<Rightarrow> xml_event list result" where
  "print_group et dt constrained (Group b ds es vs gs) =
     (let named = (d_name b \<noteq> [] \<and> d_name b \<noteq> ''/'') in
      if named \<and> constrained \<and> \<not> d_is_send b then Inr []
      else andthen (print_dims constrained ds) (\<lambda>x1. andthen (print_enums constrained (Group b ds es vs gs)) (\<lambda>x2.
        andthen (print_all (print_decl et dt constrained) vs) (\<lambda>x3. andthen (attributes_dap4 (d_attributes b)) (\<lambda>x4.
          andthen (print_all (print_group et dt constrained) gs) (\<lambda>x5.
            let inner = x1 @ x2 @ x3 @ x4 @ x5 in Inr (if named then xml_element ''Group'' [(''name'', d_name b)] inner else inner)))))))"

definition print_dmr :: "bool \<Rightarrow> DMR \<Rightarrow> (xml_event list \<times> DMR) result" where
  "print_dmr constrained d0 =
     (let d = with_root d0; g = root_of d in
      andthen (print_group (map_of (enum_table [] g)) (map_of (dim_table [] g)) constrained g) (\<lambda>inner.
        Inr (xml_element ''Dataset''
          ((''xmlns'', d_namespace d) # (if d_request_xml_base d \<noteq> [] then [(''xml:base'', d_request_xml_base d)] else []) @
           [(''dapVersion'', d_dap_version d), (''dmrVersion'', d_dmr_version d), (''name'', d_dmr_name d)]) inner, d)))"

end
