(* ===== verification/D4Parser.thy ===== *)
theory D4Parser
  imports Dmr
begin

text \<open>
  The SAX parser of DMR documents (\<open>D4ParserSax2.cc\<close>): a state machine over the call-backs of libxml2 with stacks of
  states, variables, groups and attribute collections, each function with its errors.  Stacks are lists with the top first;
  taking the top of an empty one is a wild pointer.  Groups, attributes and variables are where they are owned, so a pointer
  to a group is the path of positions from the root, and one to a collection of attributes names its owner and the
  containers on the way.  New dimensions and definitions get their addresses from a counter.  An exception leaves the call-backs.
\<close>

section \<open>The state of the parser\<close>

datatype ParseState =
    parser_start | inside_dataset | inside_group | inside_attribute_container | inside_attribute
  | inside_attribute_value | inside_other_xml_attribute | inside_enum_def | inside_enum_const | inside_dim_def
  | inside_simple_type | inside_dim | inside_map | inside_constructor | not_dap4_element
  | parser_unknown | parser_error | parser_fatal_error | parser_end

datatype attr_owner = Of_Group "nat list" | Of_Var nat

type_synonym attrs_ptr = "attr_owner \<times> nat list"

record parser =
  ps_states :: "ParseState list"
  ps_btps :: "decl list"
  ps_groups :: "nat list list"
  ps_attrs :: "attrs_ptr list"
  ps_enum_def :: "d4enumdef option"
  ps_dim_def :: "d4dimension option"
  ps_other_xml :: string
  ps_other_xml_depth :: nat
  ps_error_msg :: string
  ps_line :: int
  dods_attr_name :: string
  dods_attr_type :: string
  ps_char_data :: string
  ps_root_ns :: string
  ps_strict :: bool
  xml_attrs :: "(string \<times> sax_attr) list"
  namespace_table :: "(string \<times> string) list"
  ps_dmr :: DMR
  ps_next :: nat

definition D4ParserSax2_new :: "DMR \<Rightarrow> nat \<Rightarrow> parser" where
  "D4ParserSax2_new d a = \<lparr>ps_states = [], ps_btps = [], ps_groups = [], ps_attrs = [], ps_enum_def = None, ps_dim_def = None,
     ps_other_xml = [], ps_other_xml_depth = 0, ps_error_msg = [], ps_line = 0, dods_attr_name = [], dods_attr_type = [],
     ps_char_data = [], ps_root_ns = [], ps_strict = True, xml_attrs = [], namespace_table = [], ps_dmr = d, ps_next = a\<rparr>"

text \<open>What uninitialised memory holds: a byte that \<open>www2id\<close> decodes without digits, the dot of a version.\<close>

record environment =
  env_junk :: int
  env_dot :: char

definition stack_top :: "'a list \<Rightarrow> 'a result" where
  "stack_top xs = (case xs of [] \<Rightarrow> Inl invalid_pointer | x # _ \<Rightarrow> Inr x)"

definition stack_pop :: "'a list \<Rightarrow> 'a list result" where
  "stack_pop xs = (case xs of [] \<Rightarrow> Inl invalid_pointer | _ # ys \<Rightarrow> Inr ys)"

lemma stack_simps [simp]: "stack_top (x # xs) = Inr x" "stack_pop (x # xs) = Inr xs"
  "stack_top [] = Inl invalid_pointer" "stack_pop [] = Inl invalid_pointer"
  by (simp_all add: stack_top_def stack_pop_def)

definition push_state :: "ParseState \<Rightarrow> parser \<Rightarrow> parser" where "push_state s p = p\<lparr>ps_states := s # ps_states p\<rparr>"
definition get_state :: "parser \<Rightarrow> ParseState result" where "get_state p = stack_top (ps_states p)"
definition pop_state :: "parser \<Rightarrow> parser result" where
  "pop_state p = andthen (stack_pop (ps_states p)) (\<lambda>ss. Inr (p\<lparr>ps_states := ss\<rparr>))"

definition push_basetype :: "decl \<Rightarrow> parser \<Rightarrow> parser" where "push_basetype v p = p\<lparr>ps_btps := v # ps_btps p\<rparr>"
definition top_basetype :: "parser \<Rightarrow> decl result" where "top_basetype p = stack_top (ps_btps p)"
definition pop_basetype :: "parser \<Rightarrow> parser result" where
  "pop_basetype p = andthen (stack_pop (ps_btps p)) (\<lambda>vs. Inr (p\<lparr>ps_btps := vs\<rparr>))"

definition push_group :: "nat list \<Rightarrow> parser \<Rightarrow> parser" where "push_group g p = p\<lparr>ps_groups := g # ps_groups p\<rparr>"
definition top_group :: "parser \<Rightarrow> nat list result" where "top_group p = stack_top (ps_groups p)"
definition pop_group :: "parser \<Rightarrow> parser result" where
  "pop_group p = andthen (stack_pop (ps_groups p)) (\<lambda>gs. Inr (p\<lparr>ps_groups := gs\<rparr>))"

definition push_attributes :: "attrs_ptr \<Rightarrow> parser \<Rightarrow> parser" where "push_attributes a p = p\<lparr>ps_attrs := a # ps_attrs p\<rparr>"
definition top_attributes :: "parser \<Rightarrow> attrs_ptr result" where "top_attributes p = stack_top (ps_attrs p)"
definition pop_attributes :: "parser \<Rightarrow> parser result" where
  "pop_attributes p = andthen (stack_pop (ps_attrs p)) (\<lambda>as. Inr (p\<lparr>ps_attrs := as\<rparr>))"

section \<open>Errors\<close>

text \<open>The message is printed into 1024 bytes.\<close>

definition line_msg :: "string \<Rightarrow> parser \<Rightarrow> string" where
  "line_msg msg p = (if ps_error_msg p = [] then [] else ps_error_msg p @ [CHR 0x0A]) @
     ''At line '' @ show_int (ps_line p) @ '': '' @ take 1023 (c_str msg)"

definition dmr_error :: "string \<Rightarrow> parser \<Rightarrow> parser" where
  "dmr_error msg p = (push_state parser_error p)\<lparr>ps_error_msg := line_msg msg p\<rparr>"

definition dmr_fatal_error :: "string \<Rightarrow> parser \<Rightarrow> parser" where
  "dmr_fatal_error msg p = (push_state parser_fatal_error p)\<lparr>ps_error_msg := line_msg msg p\<rparr>"

definition quoted :: "string \<Rightarrow> string \<Rightarrow> string \<Rightarrow> string" where
  "quoted a s b = a @ [CHR 0x27] @ s @ [CHR 0x27] @ b"

section \<open>What pointers reach\<close>

definition the_root :: "parser \<Rightarrow> dmr_group" where "the_root p = root_of (ps_dmr p)"

fun group_at :: "nat list \<Rightarrow> dmr_group \<Rightarrow> dmr_group" where
  "group_at [] g = g" | "group_at (i # is) g = group_at is (groups g ! i)"

fun update_group :: "nat list \<Rightarrow> (dmr_group \<Rightarrow> dmr_group) \<Rightarrow> dmr_group \<Rightarrow> dmr_group" where
  "update_group [] f g = f g"
| "update_group (i # is) f (Group b ds es vs gs) = Group b ds es vs (gs[i := update_group is f (gs ! i)])"

fun names_at :: "nat list \<Rightarrow> dmr_group \<Rightarrow> string list" where
  "names_at [] g = [gname g]" | "names_at (i # is) g = names_at is (groups g ! i) @ [gname g]"

definition on_group :: "nat list \<Rightarrow> (dmr_group \<Rightarrow> dmr_group) \<Rightarrow> parser \<Rightarrow> parser" where
  "on_group path f p = p\<lparr>ps_dmr := (ps_dmr p)\<lparr>d_root := Some (update_group path f (the_root p))\<rparr>\<rparr>"

definition map_group_base :: "(d4base \<Rightarrow> d4base) \<Rightarrow> dmr_group \<Rightarrow> dmr_group" where
  "map_group_base f g = (case g of Group b ds es vs gs \<Rightarrow> Group (f b) ds es vs gs)"

definition on_group_attributes :: "(attribute list \<Rightarrow> attribute list) \<Rightarrow> dmr_group \<Rightarrow> dmr_group" where
  "on_group_attributes f = map_group_base (\<lambda>b. b\<lparr>d_attributes := f (d_attributes b)\<rparr>)"

definition on_attributes :: "(attribute list \<Rightarrow> attribute list) \<Rightarrow> decl \<Rightarrow> decl" where
  "on_attributes f v = set_attributes_nocopy (f (decl_attributes v)) v"

definition var_index :: "nat \<Rightarrow> parser \<Rightarrow> nat" where
  "var_index k p = length (ps_btps p) - 1 - k"

definition read_attrs :: "attrs_ptr \<Rightarrow> parser \<Rightarrow> attribute list" where
  "read_attrs ptr p = attrs_at (snd ptr) (case fst ptr of
     Of_Group path \<Rightarrow> d_attributes (base (group_at path (the_root p)))
   | Of_Var k \<Rightarrow> decl_attributes (ps_btps p ! var_index k p))"

definition update_attrs :: "attrs_ptr \<Rightarrow> (attribute list \<Rightarrow> attribute list) \<Rightarrow> parser \<Rightarrow> parser" where
  "update_attrs ptr f p = (case fst ptr of
     Of_Group path \<Rightarrow> on_group path (on_group_attributes (update_at (snd ptr) f)) p
   | Of_Var k \<Rightarrow> p\<lparr>ps_btps := (ps_btps p)[var_index k p := on_attributes (update_at (snd ptr) f) (ps_btps p ! var_index k p)]\<rparr>)"

section \<open>XML attributes\<close>

text \<open>A \<open>map\<close> is sorted by its keys, and \<open>insert\<close> keeps what is there.\<close>

definition map_insert :: "string \<times> 'b \<Rightarrow> (string \<times> 'b) list \<Rightarrow> (string \<times> 'b) list" where
  "map_insert kv m = (if fst kv \<in> fst ` set m then m else insort_key fst kv m)"

definition transfer_xml_attrs :: "(string \<times> sax_attr) list \<Rightarrow> parser \<Rightarrow> parser" where
  "transfer_xml_attrs attrs p = p\<lparr>xml_attrs := foldl (\<lambda>m kv. map_insert kv m) [] attrs\<rparr>"

definition transfer_xml_ns :: "(string option \<times> string) list \<Rightarrow> parser \<Rightarrow> parser" where
  "transfer_xml_ns nss p = p\<lparr>namespace_table :=
     foldl (\<lambda>m (pr, u). map_insert (case pr of None \<Rightarrow> [] | Some s \<Rightarrow> s, u) m) (namespace_table p) nss\<rparr>"

definition check_attribute :: "string \<Rightarrow> parser \<Rightarrow> bool" where
  "check_attribute a p \<longleftrightarrow> map_of (xml_attrs p) a \<noteq> None"

definition check_required_attribute :: "string \<Rightarrow> parser \<Rightarrow> bool \<times> parser" where
  "check_required_attribute a p =
     (if check_attribute a p then (True, p) else (False, dmr_error (quoted ''Required attribute '' a '' not found.'') p))"

definition xattr :: "string \<Rightarrow> parser \<Rightarrow> string" where
  "xattr a p = (case map_of (xml_attrs p) a of None \<Rightarrow> [] | Some x \<Rightarrow> xa_value x)"

text \<open>\<open>check_required_attribute(a) && check_required_attribute(b)\<close>\<close>

definition check_both :: "string \<Rightarrow> string \<Rightarrow> parser \<Rightarrow> bool \<times> parser" where
  "check_both a b p = (case check_required_attribute a p of (ok, p1) \<Rightarrow> if ok then check_required_attribute b p1 else (False, p1))"

section \<open>Definitions in groups\<close>

text \<open>The current definition of an enumeration or a dimension is made when it is first asked for.\<close>

definition enum_def :: "parser \<Rightarrow> d4enumdef \<times> parser" where
  "enum_def p = (case ps_enum_def p of
     Some e \<Rightarrow> (e, p)
   | None \<Rightarrow> (let e = D4EnumDef (ps_next p) [] dods_null_c in (e, p\<lparr>ps_enum_def := Some e, ps_next := ps_next p + 1\<rparr>)))"

definition dim_def :: "parser \<Rightarrow> d4dimension \<times> parser" where
  "dim_def p = (case ps_dim_def p of
     Some d \<Rightarrow> (d, p)
   | None \<Rightarrow> (let d = D4Dimension (ps_next p) [] 0 in (d, p\<lparr>ps_dim_def := Some d, ps_next := ps_next p + 1\<rparr>)))"

definition error_text :: "exn \<Rightarrow> string" where
  "error_text e = (case e of Error c s \<Rightarrow> s | InternalErr s \<Rightarrow> s | Std_Exception s \<Rightarrow> s)"

definition process_dimension_def :: "string \<Rightarrow> (string \<times> sax_attr) list \<Rightarrow> parser \<Rightarrow> (bool \<times> parser) result" where
  "process_dimension_def name attrs p =
     (if name \<noteq> ''Dimension'' then Inr (False, p)
      else case check_both ''name'' ''size'' (transfer_xml_attrs attrs p) of (ok, p1) \<Rightarrow>
        if \<not> ok then Inr (False, dmr_error ''The required attribute 'name' or 'size' was missing from a Dimension element.'' p1)
        else case dim_def p1 of (d, p2) \<Rightarrow>
          let d1 = d\<lparr>dd_name := xattr ''name'' p2\<rparr> in
          case set_size_text (xattr ''size'' p2) d1 of
            Inl e \<Rightarrow> Inr (False, dmr_error (error_text e) (p2\<lparr>ps_dim_def := Some d1\<rparr>))
          | Inr d2 \<Rightarrow> Inr (True, p2\<lparr>ps_dim_def := Some d2\<rparr>))"

definition process_enum_def :: "string \<Rightarrow> (string \<times> sax_attr) list \<Rightarrow> parser \<Rightarrow> (bool \<times> parser) result" where
  "process_enum_def name attrs p =
     (if name \<noteq> ''Enumeration'' then Inr (False, p)
      else case check_both ''name'' ''basetype'' (transfer_xml_attrs attrs p) of (ok, p1) \<Rightarrow>
        if \<not> ok then Inr (False, dmr_error ''The required attribute 'name' or 'basetype' was missing from an Enumeration element.'' p1)
        else let t = get_type (xattr ''basetype'' p1) in
          if \<not> is_integer_type t
          then Inr (False, dmr_error (quoted ''The Enumeration '' (c_str (xattr ''name'' p1))
            (quoted '' must have an integer type, instead the type '' (c_str (xattr ''basetype'' p1)) '' was used.'')) p1)
          else case enum_def p1 of (e, p2) \<Rightarrow>
            Inr (True, p2\<lparr>ps_enum_def := Some (e\<lparr>ed_name := xattr ''name'' p2, ed_type := t\<rparr>)\<rparr>))"

text \<open>\<open>iss >> value\<close> for a \<open>long long\<close>; what follows the number is not looked at.\<close>

definition get_longlong :: "string \<Rightarrow> bool \<times> int" where
  "get_longlong s =
     (let t = dropWhile is_space s; u = (if starts_with ''-'' t \<or> starts_with ''+'' t then tl t else t);
          ds = takeWhile is_digit u; n = int (digits_value 10 ds); v = (if starts_with ''-'' t then - n else n) in
      if ds = [] then (True, 0) else (clamp_long v \<noteq> v, clamp_long v))"

definition process_enum_const :: "string \<Rightarrow> (string \<times> sax_attr) list \<Rightarrow> parser \<Rightarrow> (bool \<times> parser) result" where
  "process_enum_const name attrs p =
     (if name \<noteq> ''EnumConst'' then Inr (False, p)
      else case check_both ''name'' ''value'' (transfer_xml_attrs attrs p) of (ok, p1) \<Rightarrow>
        if \<not> ok then Inr (False, dmr_error ''The required attribute 'name' or 'value' was missing from an EnumConst element.'' p1)
        else case get_longlong (xattr ''value'' p1) of (failed, v) \<Rightarrow>
          if failed
          then Inr (True, dmr_error (quoted ''Expected an integer value for an Enumeration constant, got '' (c_str (xattr ''value'' p1)) '' instead.'') p1)
          else case enum_def p1 of (e, p2) \<Rightarrow>
            if \<not> is_valid_enum_value (of_int v) e
            then andthen (D4type_name (ed_type e)) (\<lambda>tn. Inr (True,
              dmr_error (quoted ''In an Enumeration constant, the value '' (c_str (xattr ''value'' p2)) (quoted '' cannot fit in a variable of type '' tn ''.'')) p2))
            else Inr (True, p2\<lparr>ps_enum_def := Some (add_value (xattr ''name'' p2) (of_int v) e)\<rparr>))"

definition process_group :: "string \<Rightarrow> (string \<times> sax_attr) list \<Rightarrow> parser \<Rightarrow> (bool \<times> parser) result" where
  "process_group name attrs p =
     (if name \<noteq> ''Group'' then Inr (False, p)
      else case check_required_attribute ''name'' (transfer_xml_attrs attrs p) of (ok, p1) \<Rightarrow>
        if \<not> ok then Inr (False, dmr_error ''The required attribute 'name' was missing from a Group element.'' p1)
        else andthen (top_group p1) (\<lambda>parent.
          let path = parent @ [length (groups (group_at parent (the_root p1)))];
              p2 = on_group parent (add_group_nocopy (NewGroup (xattr ''name'' p1))) p1 in
          Inr (True, push_attributes (Of_Group path, []) (push_group path p2))))"

section \<open>Dimensions and maps of an array\<close>

text \<open>The variable on the top becomes the prototype of an array, which takes over its attributes.\<close>

definition to_array :: "int \<Rightarrow> decl \<Rightarrow> decl" where
  "to_array junk b = set_attributes_nocopy (decl_attributes b) (NewArray junk (decl_name b) (set_attributes_nocopy [] b))"

definition make_top_array :: "int \<Rightarrow> parser \<Rightarrow> parser result" where
  "make_top_array junk p = andthen (top_basetype p) (\<lambda>b.
     if decl_vector b then Inr p else andthen (pop_basetype p) (\<lambda>p1. Inr (push_basetype (to_array junk b) p1)))"

fun on_shape :: "(array_shape \<Rightarrow> array_shape) \<Rightarrow> decl \<Rightarrow> decl" where
  "on_shape f (Array_Decl b v s ms) = Array_Decl b v (f s) ms" | "on_shape f v = v"

fun add_map :: "d4map \<Rightarrow> decl \<Rightarrow> decl" where
  "add_map m (Array_Decl b v s ms) = Array_Decl b v s (ms @ [m])" | "add_map m v = v"

definition on_top :: "(decl \<Rightarrow> decl) \<Rightarrow> parser \<Rightarrow> parser" where
  "on_top f p = (case ps_btps p of [] \<Rightarrow> p | v # vs \<Rightarrow> p\<lparr>ps_btps := f v # vs\<rparr>)"

text \<open>A path from the root or from the current group.\<close>

definition in_scope :: "(dmr_group \<Rightarrow> string \<Rightarrow> 'a result) \<Rightarrow> string \<Rightarrow> parser \<Rightarrow> 'a result" where
  "in_scope f name p = (if starts_with ''/'' name then f (the_root p) name
     else andthen (top_group p) (\<lambda>path. f (group_at path (the_root p)) name))"

definition atoi :: "string \<Rightarrow> int" where "atoi s = to_int (fst (strtol 10 (c_str s)))"

definition process_dimension :: "environment \<Rightarrow> string \<Rightarrow> (string \<times> sax_attr) list \<Rightarrow> parser \<Rightarrow> (bool \<times> parser) result" where
  "process_dimension env name attrs p =
     (if name \<noteq> ''Dim'' then Inr (False, p)
      else let p1 = transfer_xml_attrs attrs p; has_size = check_attribute ''size'' p1; has_name = check_attribute ''name'' p1 in
        if has_size \<and> has_name
        then Inr (False, dmr_error ''Only one of 'size' and 'name' are allowed in a Dim element, but both were used.'' p1)
        else if \<not> has_size \<and> \<not> has_name then Inr (False, dmr_error ''Either 'size' or 'name' must be used in a Dim element.'' p1)
        else andthen (make_top_array (env_junk env) p1) (\<lambda>p2.
          if has_size then Inr (True, on_top (on_shape (append_dim (env_junk env) (atoi (xattr ''size'' p2)) [])) p2)
          else andthen (in_scope D4Group_find_dim (xattr ''name'' p2) p2) (\<lambda>found. case found of
              None \<Rightarrow> andthen (top_basetype p2) (\<lambda>a. Inl (Error unknown_error
                (quoted ''The dimension '' (xattr ''name'' p2) (quoted '' was not found while parsing the variable '' (decl_name a) ''.''))))
            | Some d \<Rightarrow> Inr (True, on_top (on_shape (append_d4dim d)) p2))))"

text \<open>\<open>Constructor::var\<close> on declarations.\<close>

function exact_decls :: "int \<Rightarrow> string \<Rightarrow> decl list \<Rightarrow> decl option"
  and exact_decl :: "int \<Rightarrow> string \<Rightarrow> decl \<Rightarrow> decl option" where
  "exact_decls junk nm vs =
     (let n = www2id_all junk nm in
      case find (\<lambda>v. decl_name v = n) vs of
        Some v \<Rightarrow> Some v
      | None \<Rightarrow> (case split_dot n of
          None \<Rightarrow> None
        | Some (agg, field) \<Rightarrow> (case exact_decls junk agg vs of None \<Rightarrow> None | Some a \<Rightarrow> exact_decl junk field a)))"
| "exact_decl junk nm (Simple_Decl b t e) = None"
| "exact_decl junk nm (Constructor_Decl b t vs) = exact_decls junk nm vs"
| "exact_decl junk nm (Array_Decl b p s ms) =
     (let n = www2id_all junk nm in
      if n = [] \<or> decl_name p = n then Some p else if is_constructor_type (decl_type p) then exact_decl junk n p else None)"
  by pat_completeness auto

termination
  by (relation "measures [case_sum (\<lambda>(j, n, vs). length n) (\<lambda>(j, n, v). length n),
      case_sum (\<lambda>(j, n, vs). 0) (\<lambda>(j, n, v). size v)]")
    (auto dest!: split_decoded_shorter simp: le_less [symmetric] www2id_all_length)

declare exact_decls.simps [simp del] exact_decl.simps [simp del]

definition map_source_found :: "int \<Rightarrow> dmr_group \<Rightarrow> string \<Rightarrow> bool result" where
  "map_source_found junk g path = andthen (find_shallow (\<lambda>g n. exact_decls junk n (vars g)) g path)
     (\<lambda>v. Inr (case v of None \<Rightarrow> False | Some w \<Rightarrow> decl_type w = dods_array_c))"

definition process_map :: "environment \<Rightarrow> string \<Rightarrow> (string \<times> sax_attr) list \<Rightarrow> parser \<Rightarrow> (bool \<times> parser) result" where
  "process_map env name attrs p =
     (if name \<noteq> ''Map'' then Inr (False, p)
      else let p1 = transfer_xml_attrs attrs p in
        if \<not> check_attribute ''name'' p1 then Inr (False, dmr_error ''The 'name' attribute must be used in a Map element.'' p1)
        else andthen (make_top_array (env_junk env) p1) (\<lambda>p2.
          andthen (if starts_with ''/'' (xattr ''name'' p2) then Inr (xattr ''name'' p2)
             else andthen (top_group p2) (\<lambda>path. andthen (FQN (names_at path (the_root p2))) (\<lambda>s. Inr (s @ xattr ''name'' p2)))) (\<lambda>map_name.
            andthen (in_scope (map_source_found (env_junk env)) map_name p2) (\<lambda>found. andthen (top_basetype p2) (\<lambda>a.
              if \<not> found \<and> ps_strict p2
              then Inl (Error unknown_error (quoted ''The Map '' map_name (quoted '' was not found while parsing the variable '' (decl_name a) ''.'')))
              else Inr (True, on_top (add_map \<lparr>mp_name = map_name, mp_array = found\<rparr>) p2))))))"

section \<open>Attributes and variables\<close>

definition process_attribute :: "string \<Rightarrow> (string \<times> sax_attr) list \<Rightarrow> parser \<Rightarrow> (bool \<times> parser) result" where
  "process_attribute name attrs p =
     (if name \<noteq> ''Attribute'' then Inr (False, p)
      else case check_both ''name'' ''type'' (transfer_xml_attrs attrs p) of (ok, p1) \<Rightarrow>
        if \<not> ok then Inr (False, dmr_error ''The required attribute 'name' or 'type' was missing from an Attribute element.'' p1)
        else if xattr ''type'' p1 = ''Container''
        then andthen (top_attributes (push_state inside_attribute_container p1)) (\<lambda>tos.
          let p2 = push_state inside_attribute_container p1; n = length (read_attrs tos p2);
              child = a_set_attributes [] (D4Attribute (xattr ''name'' p2) attr_container_c) in
          Inr (True, push_attributes (fst tos, snd tos @ [n]) (update_attrs tos (add_attribute_nocopy child) p2)))
        else Inr (True, (push_state (if xattr ''type'' p1 = ''OtherXML'' then inside_other_xml_attribute else inside_attribute) p1)
          \<lparr>dods_attr_name := xattr ''name'' p1, dods_attr_type := xattr ''type'' p1\<rparr>))"

text \<open>
  An enumeration is looked up by its path.  When it is not found the error is noted and the null pointer is used
  (\<open>D4Enum::set_enumeration\<close> asks it for its type).
\<close>

definition set_enumeration :: "nat option \<Rightarrow> decl \<Rightarrow> decl result" where
  "set_enumeration e v = (case e of None \<Rightarrow> Inl invalid_pointer | Some a \<Rightarrow>
     Inr (case v of Simple_Decl b t e' \<Rightarrow> Simple_Decl b t (Some a) | w \<Rightarrow> w))"

definition process_variable_helper :: "Type \<Rightarrow> ParseState \<Rightarrow> (string \<times> sax_attr) list \<Rightarrow> parser \<Rightarrow> parser result" where
  "process_variable_helper t s attrs p =
     (case check_required_attribute ''name'' (transfer_xml_attrs attrs p) of (ok, p1) \<Rightarrow>
        if \<not> ok then Inr p1
        else andthen (NewVariable t (xattr ''name'' p1)) (\<lambda>btp.
          andthen (if t = dods_enum_c
             then (case check_required_attribute ''enum'' p1 of (ok2, p2) \<Rightarrow>
               if \<not> ok2 then Inr (btp, p2)
               else andthen (in_scope D4Group_find_enum_def (xattr ''enum'' p2) p2) (\<lambda>e.
                 let p3 = (if e = None then dmr_fatal_error (quoted ''Could not find the Enumeration definition '' (c_str (xattr ''enum'' p2)) ''.'') p2 else p2) in
                 andthen (set_enumeration (map_option ed_addr e) btp) (\<lambda>w. Inr (w, p3))))
             else Inr (btp, p1)) (\<lambda>(v, p4).
            Inr (push_state s (push_attributes (Of_Var (length (ps_btps p4)), []) (push_basetype v p4))))))"

definition process_variable :: "string \<Rightarrow> (string \<times> sax_attr) list \<Rightarrow> parser \<Rightarrow> (bool \<times> parser) result" where
  "process_variable name attrs p =
     (let t = get_type name in
      if is_simple_type t then andthen (process_variable_helper t inside_simple_type attrs p) (\<lambda>q. Inr (True, q))
      else if t \<in> {dods_structure_c, dods_sequence_c} then andthen (process_variable_helper t inside_constructor attrs p) (\<lambda>q. Inr (True, q))
      else Inr (False, p))"

end
