(* ===== verification/DmrSax.thy ===== *)
theory DmrSax
  imports D4Parser
begin

text \<open>
  The call-backs of the DMR parser (\<open>D4ParserSax2.cc\<close>, from \<open>dmr_start_document\<close> to \<open>intern\<close>): what each does
  in each state, and a whole parse.
\<close>

section \<open>Start and end of the document\<close>

definition empty_stack :: "'a list \<Rightarrow> bool" where "empty_stack xs \<longleftrightarrow> xs = []"

definition on_dmr :: "(DMR \<Rightarrow> DMR) \<Rightarrow> parser \<Rightarrow> parser" where "on_dmr f p = p\<lparr>ps_dmr := f (ps_dmr p)\<rparr>"

definition dmr_start_document :: "parser \<Rightarrow> parser result" where
  "dmr_start_document p =
     Inr (push_attributes (Of_Group [], []) (on_dmr with_root (p\<lparr>ps_error_msg := [], ps_char_data := []\<rparr>)))"

definition dmr_end_document :: "parser \<Rightarrow> parser result" where
  "dmr_end_document p0 = andthen (get_state p0) (\<lambda>s0.
     let p = (if s0 \<noteq> parser_end then dmr_error ''The document contained unbalanced tags.'' p0 else p0) in
     andthen (get_state p) (\<lambda>s.
       if s = parser_error \<or> s = parser_fatal_error then Inr p
       else let p1 = (if \<not> empty_stack (ps_btps p) \<or> empty_stack (ps_groups p)
           then dmr_error ''The document did not contain a valid root Group or contained unbalanced tags.'' p else p) in
         andthen (pop_group p1) pop_attributes))"

section \<open>Start of an element\<close>

text \<open>The alternatives of a state are tried one after the other; one that fails may have noted an error.\<close>

definition orelse :: "(parser \<Rightarrow> (bool \<times> parser) result) \<Rightarrow> (parser \<Rightarrow> parser) \<Rightarrow> (parser \<Rightarrow> parser result) \<Rightarrow> parser \<Rightarrow> parser result" where
  "orelse try yes no p = andthen (try p) (\<lambda>(ok, p1). if ok then Inr (yes p1) else no p1)"

definition only_if :: "bool \<Rightarrow> (parser \<Rightarrow> parser) \<Rightarrow> parser \<Rightarrow> parser" where
  "only_if b f p = (if b then f p else p)"

definition start_dataset :: "environment \<Rightarrow> string \<Rightarrow> string option \<Rightarrow> (string \<times> sax_attr) list \<Rightarrow> parser \<Rightarrow> parser result" where
  "start_dataset env localname uri attrs p0 =
     (let p1 = only_if (localname \<noteq> ''Dataset'')
            (dmr_error (quoted ''Expected DMR to start with a Dataset element; found '' localname '' instead.'')) p0;
          ns = (case uri of None \<Rightarrow> [] | Some u \<Rightarrow> u);
          p2 = transfer_xml_attrs attrs (p1\<lparr>ps_root_ns := ns\<rparr>) in
      case check_required_attribute ''name'' p2 of (ok, p3) \<Rightarrow>
        let p4 = only_if ok (on_dmr (\<lambda>d. d\<lparr>d_dmr_name := xattr ''name'' p3\<rparr>)) p3 in
        andthen (if check_attribute ''dapVersion'' p4 then set_dap_version (env_dot env) (xattr ''dapVersion'' p4) (ps_dmr p4) else Inr (ps_dmr p4)) (\<lambda>d.
          let p5 = p4\<lparr>ps_dmr := d\<rparr>;
              p6 = only_if (check_attribute ''dmrVersion'' p5) (on_dmr (\<lambda>d. d\<lparr>d_dmr_version := xattr ''dmrVersion'' p5\<rparr>)) p5;
              p7 = only_if (check_attribute ''base'' p6) (on_dmr (\<lambda>d. d\<lparr>d_request_xml_base := xattr ''base'' p6\<rparr>)) p6;
              p8 = only_if (ns \<noteq> []) (on_dmr (\<lambda>d. d\<lparr>d_namespace := ns\<rparr>)) p7 in
          Inr (push_state inside_dataset (push_group [] (on_dmr with_root p8)))))"

text \<open>An element inside an \<open>OtherXML\<close> attribute is written out again.\<close>

definition xml_name :: "string \<Rightarrow> string \<Rightarrow> string" where
  "xml_name pre n = (if pre = [] then [] else pre @ '':'') @ n"

definition xml_pair :: "string \<Rightarrow> string \<Rightarrow> string" where
  "xml_pair a v = '' '' @ a @ ''=\"'' @ v @ ''\"''"

definition start_other_xml :: "string \<Rightarrow> string option \<Rightarrow> (string option \<times> string) list \<Rightarrow> (string \<times> sax_attr) list \<Rightarrow> parser \<Rightarrow> parser result" where
  "start_other_xml localname pre nss attrs p =
     (let p1 = p\<lparr>ps_other_xml_depth := ps_other_xml_depth p + 1\<rparr>;
          open_tag = ''<'' @ (case pre of None \<Rightarrow> [] | Some x \<Rightarrow> x @ '':'') @ localname;
          p2 = (if nss = [] then p1 else transfer_xml_ns nss p1);
          ns_text = (if nss = [] then [] else concat (map (\<lambda>(x, u). xml_pair (''xmlns'' @ (if x = [] then [] else '':'' @ x)) u) (namespace_table p2)));
          p3 = (if attrs = [] then p2 else transfer_xml_attrs attrs p2);
          at_text = (if attrs = [] then [] else concat (map (\<lambda>(a, x). xml_pair (xml_name (xa_prefix x) a) (xa_value x)) (xml_attrs p3))) in
      Inr (p3\<lparr>ps_other_xml := ps_other_xml p3 @ open_tag @ ns_text @ at_text @ ''>''\<rparr>))"

definition expected :: "string \<Rightarrow> string \<Rightarrow> parser \<Rightarrow> parser result" where
  "expected what localname p = Inr (dmr_error (quoted (what @ '' found '') localname '' instead.'') p)"

definition dmr_start_element :: "environment \<Rightarrow> string \<Rightarrow> string option \<Rightarrow> string option \<Rightarrow> (string option \<times> string) list
    \<Rightarrow> (string \<times> sax_attr) list \<Rightarrow> parser \<Rightarrow> parser result" where
  "dmr_start_element env localname pre uri nss attrs p0 = andthen (get_state p0) (\<lambda>s0.
     let foreign = (s0 \<noteq> parser_error \<and> (case uri of None \<Rightarrow> [] | Some u \<Rightarrow> u) \<noteq> c_dap40_namespace);
         p = only_if foreign (push_state not_dap4_element) p0;
         s = (if foreign then not_dap4_element else s0);
         attribute = orelse (process_attribute localname attrs) id;
         variable = orelse (process_variable localname attrs) id;
         dimension = orelse (process_dimension env localname attrs) (push_state inside_dim);
         amap = orelse (process_map env localname attrs) (push_state inside_map) in
     case s of
       parser_start \<Rightarrow> start_dataset env localname uri attrs p
     | inside_attribute_container \<Rightarrow> attribute (expected ''Expected an Attribute element;'' localname) p
     | inside_attribute \<Rightarrow> attribute (\<lambda>p1.
         if localname = ''Value'' then Inr (push_state inside_attribute_value p1)
         else expected ''Expected an 'Attribute' or 'Value' element;'' localname p1) p
     | inside_other_xml_attribute \<Rightarrow> start_other_xml localname pre nss attrs p
     | inside_enum_def \<Rightarrow> orelse (process_enum_const localname attrs) (push_state inside_enum_const)
         (expected ''Expected an 'EnumConst' element;'' localname) p
     | inside_simple_type \<Rightarrow> attribute (dimension (amap (expected ''Expected an 'Attribute', 'Dim' or 'Map' element;'' localname))) p
     | inside_constructor \<Rightarrow> variable (attribute (dimension (amap
         (expected ''Expected an Attribute, Dim, Map or variable element;'' localname)))) p
     | parser_unknown \<Rightarrow> Inr (push_state parser_unknown p)
     | _ \<Rightarrow> if s = inside_dataset \<or> s = inside_group
         then orelse (process_enum_def localname attrs) (push_state inside_enum_def)
           (orelse (process_dimension_def localname attrs) (push_state inside_dim_def)
             (orelse (process_group localname attrs) (push_state inside_group)
               (variable (attribute (expected
                  ''Expected an Attribute, Enumeration, Dimension, Group or variable element;'' localname))))) p
         else Inr p)"

section \<open>End of an element\<close>

definition must_be :: "string \<Rightarrow> string \<Rightarrow> string \<Rightarrow> parser \<Rightarrow> parser" where
  "must_be what tag localname p = only_if (localname \<noteq> tag) (dmr_error (quoted (''Expected an end '' @ what @ '' found '') localname '' instead.'')) p"

definition must_be_fatal :: "string \<Rightarrow> string \<Rightarrow> string \<Rightarrow> parser \<Rightarrow> parser" where
  "must_be_fatal what tag localname p = only_if (localname \<noteq> tag) (dmr_fatal_error (quoted (''Expected an end '' @ what @ '' found '') localname '' instead.'')) p"

text \<open>A value goes to the attribute of the current name, which is made when it is not there.\<close>

definition add_attribute_value :: "string \<Rightarrow> parser \<Rightarrow> parser result" where
  "add_attribute_value value p = andthen (top_attributes p) (\<lambda>tos.
     let n = dods_attr_name p; as = read_attrs tos p in
     Inr (case get n as of
       Some is \<Rightarrow> update_attrs tos (update_attribute is (a_add_value value)) p
     | None \<Rightarrow> update_attrs tos (add_attribute_nocopy (a_add_value value (D4Attribute n (StringToD4AttributeType (dods_attr_type p))))) p))"

definition end_other_xml :: "string \<Rightarrow> string option \<Rightarrow> string option \<Rightarrow> parser \<Rightarrow> parser result" where
  "end_other_xml localname pre uri p =
     (if localname = ''Attribute'' \<and> uri = None then Inl invalid_pointer
      else if localname = ''Attribute'' \<and> uri = Some (ps_root_ns p)
      then andthen (pop_state p) (\<lambda>p1. andthen (add_attribute_value (ps_other_xml p1) p1) (\<lambda>p2. Inr (p2\<lparr>ps_other_xml := []\<rparr>)))
      else if ps_other_xml_depth p = 0
      then Inr (dmr_error (quoted ''Expected an OtherXML attribute to end! Instead I found '' localname []) p)
      else Inr (p\<lparr>ps_other_xml_depth := ps_other_xml_depth p - 1,
        ps_other_xml := ps_other_xml p @ ''</'' @ (case pre of None \<Rightarrow> [] | Some x \<Rightarrow> x @ '':'') @ localname @ ''>''\<rparr>))"

text \<open>A finished variable goes to the variable around it, or to the group.\<close>

definition map_vars :: "(decl list \<Rightarrow> decl list) \<Rightarrow> dmr_group \<Rightarrow> dmr_group" where
  "map_vars f g = (case g of Group b ds es vs gs \<Rightarrow> Group b ds es (f vs) gs)"

definition add_to_prototype :: "int \<Rightarrow> decl \<Rightarrow> decl \<Rightarrow> decl result" where
  "add_to_prototype junk v parent = (case parent of
     Array_Decl b w s ms \<Rightarrow> andthen (decl_add_var_nocopy junk v w) (\<lambda>w1. Inr (Array_Decl b w1 s ms))
   | _ \<Rightarrow> decl_add_var_nocopy junk v parent)"

definition close_variable :: "(decl \<Rightarrow> decl \<Rightarrow> decl result) \<Rightarrow> string \<Rightarrow> (parser \<Rightarrow> parser result) \<Rightarrow> parser \<Rightarrow> parser result" where
  "close_variable add localname finish p =
     andthen (top_basetype p) (\<lambda>btp. andthen (pop_basetype p) (\<lambda>p1. andthen (pop_attributes p1) (\<lambda>p2.
       if \<not> empty_stack (ps_btps p2)
       then andthen (top_basetype p2) (\<lambda>parent. andthen (add btp parent) (\<lambda>w. finish (on_top (\<lambda>_. w) p2)))
       else if \<not> empty_stack (ps_groups p2)
       then andthen (top_group p2) (\<lambda>path. finish (on_group path (map_vars (\<lambda>vs. vs @ [btp])) p2))
       else pop_state (dmr_fatal_error (''Both the Variable and Groups stacks are empty while closing a '' @ localname @ '' element.'') p2))))"

definition end_simple_type :: "environment \<Rightarrow> string \<Rightarrow> parser \<Rightarrow> parser result" where
  "end_simple_type env localname p =
     (if is_simple_type (get_type localname)
      then close_variable (add_to_prototype (env_junk env)) localname pop_state p
      else pop_state (dmr_error (quoted ''Expected an end tag for a simple type; found '' localname '' instead.'') p))"

definition end_constructor :: "environment \<Rightarrow> string \<Rightarrow> parser \<Rightarrow> parser result" where
  "end_constructor env localname p =
     (if localname \<noteq> ''Structure'' \<and> localname \<noteq> ''Sequence''
      then Inr (dmr_error (quoted ''Expected an end tag for a constructor; found '' localname '' instead.'') p)
      else close_variable (decl_add_var_nocopy (env_junk env)) localname pop_state p)"

definition end_dataset :: "string \<Rightarrow> parser \<Rightarrow> parser result" where
  "end_dataset localname p = andthen (pop_state (must_be ''Dataset tag;'' ''Dataset'' localname p)) (\<lambda>p1.
     andthen (get_state p1) (\<lambda>s.
       if s \<noteq> parser_start then Inr (dmr_fatal_error ''Unexpected state, expected start state.'' p1)
       else andthen (pop_state p1) (\<lambda>p2. Inr (push_state parser_end p2))))"

definition end_group :: "string \<Rightarrow> parser \<Rightarrow> parser result" where
  "end_group localname p =
     (let p1 = must_be ''tag for a Group;'' ''Group'' localname p;
          p2 = only_if (\<not> empty_stack (ps_btps p1) \<or> empty_stack (ps_groups p1))
            (dmr_error ''The document did not contain a valid root Group or contained unbalanced tags.'') p1 in
      andthen (pop_group p2) pop_state)"

definition end_attribute_value :: "string \<Rightarrow> parser \<Rightarrow> parser result" where
  "end_attribute_value localname p = andthen (pop_state (must_be ''value tag;'' ''Value'' localname p)) (\<lambda>p1.
     andthen (add_attribute_value (ps_char_data p1) p1) (\<lambda>p2. Inr (p2\<lparr>ps_char_data := []\<rparr>)))"

definition end_enum_def :: "string \<Rightarrow> parser \<Rightarrow> parser result" where
  "end_enum_def localname p =
     (let p1 = must_be ''Enumeration tag;'' ''Enumeration'' localname p in
      andthen (top_group p1) (\<lambda>path. case enum_def p1 of (e, p2) \<Rightarrow>
        pop_state ((on_group path (\<lambda>g. case g of Group b ds es vs gs \<Rightarrow> Group b ds (add_enum_nocopy e es) vs gs) p2)\<lparr>ps_enum_def := None\<rparr>)))"

definition end_dim_def :: "string \<Rightarrow> parser \<Rightarrow> parser result" where
  "end_dim_def localname p =
     (let p1 = must_be ''Dimension tag;'' ''Dimension'' localname p in
      andthen (top_group p1) (\<lambda>path. case dim_def p1 of (d, p2) \<Rightarrow>
        pop_state ((on_group path (\<lambda>g. case g of Group b ds es vs gs \<Rightarrow> Group b (add_dim_nocopy d ds) es vs gs) p2)\<lparr>ps_dim_def := None\<rparr>)))"

definition dmr_end_element :: "environment \<Rightarrow> string \<Rightarrow> string option \<Rightarrow> string option \<Rightarrow> parser \<Rightarrow> parser result" where
  "dmr_end_element env localname pre uri p = andthen (get_state p) (\<lambda>s. case s of
       parser_start \<Rightarrow> Inr (dmr_fatal_error (quoted ''Unexpected state, inside start state while processing element '' localname ''.'') p)
     | inside_dataset \<Rightarrow> end_dataset localname p
     | inside_group \<Rightarrow> end_group localname p
     | inside_attribute_container \<Rightarrow> andthen (pop_state (must_be ''Attribute tag;'' ''Attribute'' localname p)) pop_attributes
     | inside_attribute \<Rightarrow> pop_state (must_be ''Attribute tag;'' ''Attribute'' localname p)
     | inside_attribute_value \<Rightarrow> end_attribute_value localname p
     | inside_other_xml_attribute \<Rightarrow> end_other_xml localname pre uri p
     | inside_enum_def \<Rightarrow> end_enum_def localname p
     | inside_enum_const \<Rightarrow> pop_state (must_be ''EnumConst tag;'' ''EnumConst'' localname p)
     | inside_dim_def \<Rightarrow> end_dim_def localname p
     | inside_simple_type \<Rightarrow> end_simple_type env localname p
     | inside_dim \<Rightarrow> pop_state (must_be_fatal ''Dim tag;'' ''Dim'' localname p)
     | inside_map \<Rightarrow> pop_state (must_be_fatal ''Map tag;'' ''Map'' localname p)
     | inside_constructor \<Rightarrow> end_constructor env localname p
     | not_dap4_element \<Rightarrow> pop_state p
     | parser_unknown \<Rightarrow> pop_state p
     | _ \<Rightarrow> Inr p)"

section \<open>Text\<close>

definition dmr_get_characters :: "string \<Rightarrow> parser \<Rightarrow> parser result" where
  "dmr_get_characters ch p = andthen (get_state p) (\<lambda>s. Inr (
     if s = inside_attribute_value then p\<lparr>ps_char_data := ps_char_data p @ ch\<rparr>
     else if s = inside_other_xml_attribute then p\<lparr>ps_other_xml := ps_other_xml p @ ch\<rparr>
     else p))"

definition dmr_ignoreable_whitespace :: "string \<Rightarrow> parser \<Rightarrow> parser result" where
  "dmr_ignoreable_whitespace ch p = andthen (get_state p) (\<lambda>s. Inr (
     if s = inside_other_xml_attribute then p\<lparr>ps_other_xml := ps_other_xml p @ ch\<rparr> else p))"

definition dmr_get_cdata :: "string \<Rightarrow> parser \<Rightarrow> parser result" where
  "dmr_get_cdata ch p = andthen (get_state p) (\<lambda>s. Inr (
     if s = inside_other_xml_attribute then p\<lparr>ps_other_xml := ps_other_xml p @ ch\<rparr>
     else if s = parser_unknown then p
     else dmr_error ''Found a CData block but none are allowed by DAP4.'' p))"

section \<open>A parse\<close>

definition dispatch :: "environment \<Rightarrow> callback \<Rightarrow> parser \<Rightarrow> parser result" where
  "dispatch env c p = (case c of
     Start_Document \<Rightarrow> dmr_start_document p
   | End_Document \<Rightarrow> dmr_end_document p
   | Start_Element n pre uri nss attrs \<Rightarrow> dmr_start_element env n pre uri nss attrs p
   | End_Element n pre uri \<Rightarrow> dmr_end_element env n pre uri p
   | Characters w \<Rightarrow> dmr_get_characters w p
   | Ignorable_Whitespace w \<Rightarrow> dmr_ignoreable_whitespace w p
   | Cdata_Block w \<Rightarrow> dmr_get_cdata w p
   | Reader_Error msg \<Rightarrow> Inr (dmr_error msg p)
   | Reader_Fatal_Error msg \<Rightarrow> Inr (dmr_fatal_error msg p))"

fun run_callbacks :: "environment \<Rightarrow> callbacks \<Rightarrow> parser \<Rightarrow> parser result" where
  "run_callbacks env [] p = Inr p"
| "run_callbacks env ((l, c) # cs) p = andthen (dispatch env c (p\<lparr>ps_line := l\<rparr>)) (run_callbacks env cs)"

text \<open>What libxml2 makes of a text: the call-backs, and whether it is well formed and valid.\<close>

record sax_result =
  sr_callbacks :: callbacks
  sr_well_formed :: bool
  sr_valid :: bool

definition cleanup_parse :: "bool \<Rightarrow> bool \<Rightarrow> parser \<Rightarrow> parser result" where
  "cleanup_parse wellFormed valid p =
     (let p1 = p\<lparr>ps_enum_def := None, ps_dim_def := None, ps_btps := []\<rparr>; msg = ps_error_msg p in
      if \<not> wellFormed then Inl (Error unknown_error (''The DMR was not well formed. '' @ msg))
      else if \<not> valid then Inl (Error unknown_error (''The DMR was not valid.'' @ msg))
      else andthen (get_state p1) (\<lambda>s.
        if s = parser_error then Inl (Error unknown_error msg)
        else if s = parser_fatal_error then Inl (InternalErr msg)
        else Inr p1))"

definition intern_text :: "environment \<Rightarrow> (string \<Rightarrow> sax_result) \<Rightarrow> string \<Rightarrow> parser \<Rightarrow> parser result" where
  "intern_text env sax txt p =
     andthen (run_callbacks env (sr_callbacks (sax txt)) (push_state parser_start p))
       (cleanup_parse (sr_well_formed (sax txt)) (sr_valid (sax txt)))"

text \<open>\<open>intern\<close> for a buffer ignores an empty one.\<close>

definition intern_buffer :: "environment \<Rightarrow> (string \<Rightarrow> sax_result) \<Rightarrow> string \<Rightarrow> parser \<Rightarrow> DMR option \<Rightarrow> parser result" where
  "intern_buffer env sax buf p dest =
     (if buf = [] then Inr p
      else case dest of None \<Rightarrow> Inl (InternalErr ''DMR object is null'') | Some d \<Rightarrow> intern_text env sax buf (p\<lparr>ps_dmr := d\<rparr>))"

text \<open>
  \<open>intern\<close> for a stream reads the first line, without its end, and then the rest.  It stops after the chunk that follows
  the end of the dataset; of a text without anything after the dataset this drops nothing.
\<close>

definition stream_text :: "string \<Rightarrow> string" where
  "stream_text f = takeWhile (\<lambda>c. c \<noteq> CHR 0x0A) f @ drop 1 (dropWhile (\<lambda>c. c \<noteq> CHR 0x0A) f)"

definition intern_stream :: "environment \<Rightarrow> (string \<Rightarrow> sax_result) \<Rightarrow> bool \<Rightarrow> string \<Rightarrow> parser \<Rightarrow> DMR option \<Rightarrow> parser result" where
  "intern_stream env sax good f p dest =
     (if \<not> good then Inl (Error unknown_error ''Input stream not open or read error'')
      else case dest of
        None \<Rightarrow> Inl (InternalErr ''DMR object is null'')
      | Some d \<Rightarrow>
          if takeWhile (\<lambda>c. c \<noteq> CHR 0x0A) f = [] then Inl (Error unknown_error ''No input found while parsing the DMR.'')
          else intern_text env sax (stream_text f) (p\<lparr>ps_dmr := d\<rparr>))"

end
