(* ===== verification/DmrDocument.thy ===== *)
theory DmrDocument
  imports DmrSax
begin

text \<open>
  What the parser does with the call-backs of a document that was written: assertions before and after a sequence of
  events, for every sequence of call-backs that libxml2 may make of it.
\<close>

section \<open>Call-backs of a written document\<close>

definition blanks :: "callbacks \<Rightarrow> bool" where
  "blanks ws \<longleftrightarrow> (\<forall>(l, c) \<in> set ws. \<exists>w. list_all is_space w \<and> c \<in> {Characters w, Ignorable_Whitespace w})"

lemma blanks_simps [simp]: "blanks []"
  "blanks ((l, c) # ws) \<longleftrightarrow> (\<exists>w. list_all is_space w \<and> c \<in> {Characters w, Ignorable_Whitespace w}) \<and> blanks ws"
  by (simp_all add: blanks_def)

lemma reported_start:
  assumes "reported after st evs cs" "evs = StartElement n # rest"
  shows "\<exists>ws l u cs' as inner. written_attrs rest = (as, inner) \<and> u = default_ns as (case st of [] \<Rightarrow> None | (m, u) # st' \<Rightarrow> u) \<and>
    blanks ws \<and> cs = ws @ (l, Start_Element n None u (namespaces as) (sax_attrs as)) # cs' \<and> reported False ((n, u) # st) inner cs'"
  using assms
proof (induction rule: reported.induct)
  case (r_start evs as inner ns st m cs after l)
  show ?case
    by (rule exI [of _ "[]"], rule exI [of _ l], rule exI [of _ "default_ns as ns"], rule exI [of _ cs], rule exI [of _ as],
        rule exI [of _ inner]) (use r_start in auto)
next
  case (r_indent w after st m evs cs c l)
  from r_indent(4) [OF r_indent(5)] show ?case
    by (elim exE conjE, rule_tac x = "(l, c) # ws" in exI) (use r_indent(1,3) in auto)
next
  case (r_break w st evs cs c l)
  from r_break(5) [OF r_break(6)] show ?case
    by (elim exE conjE, rule_tac x = "(l, c) # ws" in exI) (use r_break(1,4) in auto)
qed simp_all

lemma reported_end:
  assumes "reported after st evs cs" "evs = EndElement # rest"
  shows "\<exists>ws l n u st' cs'. st = (n, u) # st' \<and> blanks ws \<and> (\<not> after \<longrightarrow> ws = []) \<and>
    cs = ws @ (l, End_Element n None u) # cs' \<and> reported True st' rest cs'"
  using assms
proof (induction rule: reported.induct)
  case (r_break w st evs cs c l)
  from r_break(5) [OF r_break(6)] show ?case
    by (elim exE conjE, rule_tac x = "(l, c) # ws" in exI) (use r_break(1,4) in auto)
next
  case (r_end st evs cs after n u l)
  then show ?case by (intro exI [of _ "[]"]) auto
qed auto

inductive_cases reported_textE: "reported False st (WriteString s # rest) cs"

lemma reported_text:
  assumes "reported False st (WriteString s # rest) cs"
  shows "\<exists>ls ws cs'. length ls = length ws \<and> concat ws = s \<and> cs = map (\<lambda>(l, w). (l, Characters w)) (zip ls ws) @ cs' \<and>
    reported False st rest cs'"
  using assms by (rule reported_textE) blast

inductive_cases reported_nilE: "reported after [] [] cs"

lemma run_append: "run_callbacks env (cs @ ds) p = andthen (run_callbacks env cs p) (run_callbacks env ds)"
  by (induction cs arbitrary: p) (auto simp: andthen_def split: sum.splits)

section \<open>Assertions\<close>

text \<open>A parser that differs from another in what the next call-back sets.\<close>

definition vary :: "int \<Rightarrow> (string \<times> sax_attr) list \<Rightarrow> string \<Rightarrow> string \<Rightarrow> parser \<Rightarrow> parser" where
  "vary l x n t p = p\<lparr>ps_line := l, xml_attrs := x, dods_attr_name := n, dods_attr_type := t\<rparr>"

definition here :: "parser \<Rightarrow> parser \<Rightarrow> bool" where
  "here p q \<longleftrightarrow> (\<exists>l x n t. q = vary l x n t p)"

text \<open>While the values of an attribute are read its name and type stay.\<close>

definition in_attr :: "string \<Rightarrow> string \<Rightarrow> parser \<Rightarrow> parser \<Rightarrow> bool" where
  "in_attr n t p q \<longleftrightarrow> (\<exists>l x. q = vary l x n t p)"

definition ignores_blanks :: "(parser \<Rightarrow> bool) \<Rightarrow> bool" where
  "ignores_blanks P \<longleftrightarrow> (\<forall>p. P p \<longrightarrow> (\<exists>s ss. ps_states p = s # ss \<and> s \<noteq> inside_attribute_value \<and> s \<noteq> inside_other_xml_attribute) \<and>
     (\<forall>l. P (p\<lparr>ps_line := l\<rparr>)))"

definition triple :: "environment \<Rightarrow> (string \<times> string option) list \<Rightarrow> (parser \<Rightarrow> bool) \<Rightarrow> xml_event list \<Rightarrow> (parser \<Rightarrow> bool) \<Rightarrow> bool" where
  "triple env st P evs Q \<longleftrightarrow> (\<forall>after rest cs p. P p \<longrightarrow> reported after st (evs @ rest) cs \<longrightarrow>
     (\<exists>after' cs' q. Q q \<and> reported after' st rest cs' \<and> run_callbacks env cs p = run_callbacks env cs' q))"

lemma triple_nil: "(\<And>p. P p \<Longrightarrow> Q p) \<Longrightarrow> triple env st P [] Q"
  by (auto simp: triple_def)

lemma triple_append:
  assumes "triple env st P e1 Q" "triple env st Q e2 R"
  shows "triple env st P (e1 @ e2) R"
  unfolding triple_def
proof (intro allI impI)
  fix after rest cs p assume "P p" "reported after st ((e1 @ e2) @ rest) cs"
  then obtain a1 c1 q1 where "Q q1" "reported a1 st (e2 @ rest) c1" "run_callbacks env cs p = run_callbacks env c1 q1"
    using assms(1) unfolding triple_def append_assoc by blast
  then show "\<exists>after' cs' q. R q \<and> reported after' st rest cs' \<and> run_callbacks env cs p = run_callbacks env cs' q"
    using assms(2) unfolding triple_def by metis
qed

lemma run_blanks:
  assumes "blanks ws" "ignores_blanks P" "P p"
  shows "\<exists>q. P q \<and> run_callbacks env (ws @ cs) p = run_callbacks env cs q"
  using assms(1,3)
proof (induction ws arbitrary: p)
  case (Cons w ws)
  obtain l c where w: "w = (l, c)" by (cases w)
  obtain s ss where s: "ps_states p = s # ss" "s \<noteq> inside_attribute_value" "s \<noteq> inside_other_xml_attribute" "P (p\<lparr>ps_line := l\<rparr>)"
    using assms(2) Cons.prems(2) unfolding ignores_blanks_def by blast
  have "dispatch env c (p\<lparr>ps_line := l\<rparr>) = Inr (p\<lparr>ps_line := l\<rparr>)"
    using Cons.prems(1) s by (auto simp: w dispatch_def dmr_get_characters_def dmr_ignoreable_whitespace_def get_state_def)
  then show ?case using Cons.IH [of "p\<lparr>ps_line := l\<rparr>"] Cons.prems(1) s(4) by (simp add: w)
qed auto

definition dap_ns :: "string option" where "dap_ns = Some c_dap40_namespace"

text \<open>The attributes of an element below the root.\<close>

definition plain_attr :: "string \<times> string \<Rightarrow> bool" where
  "plain_attr av \<longleftrightarrow> fst av \<noteq> ''xmlns'' \<and> \<not> starts_with ''xml:'' (fst av) \<and> NUL \<notin> set (snd av)"

definition sax_of :: "(string \<times> string) list \<Rightarrow> (string \<times> sax_attr) list" where
  "sax_of as = map (\<lambda>(a, v). (a, \<lparr>xa_prefix = [], xa_uri = [], xa_value = v\<rparr>)) as"

lemma c_str_plain: "NUL \<notin> set v \<Longrightarrow> c_str v = v"
  unfolding c_str_def by (induction v) auto

lemma plain_attrs:
  assumes "list_all plain_attr as"
  shows "map (\<lambda>(a, v). WriteAttribute a (c_str v)) as = map (\<lambda>(a, v). WriteAttribute a v) as"
    "sax_attrs as = sax_of as" "default_ns as u = u" "namespaces as = []"
proof -
  have "map_of as ''xmlns'' = None" using assms by (auto simp: map_of_eq_None_iff list_all_iff plain_attr_def)
  then show "default_ns as u = u" "namespaces as = []" by (simp_all add: default_ns_def namespaces_def)
  show "sax_attrs as = sax_of as" "map (\<lambda>(a, v). WriteAttribute a (c_str v)) as = map (\<lambda>(a, v). WriteAttribute a v) as"
    using assms by (induction as) (auto simp: sax_of_def plain_attr_def c_str_plain)
qed

definition no_attr_first :: "xml_event list \<Rightarrow> bool" where
  "no_attr_first evs \<longleftrightarrow> (\<forall>a v r. evs \<noteq> WriteAttribute a v # r)"

lemma written_attrs_append:
  assumes "no_attr_first evs"
  shows "written_attrs (map (\<lambda>(a, v). WriteAttribute a v) as @ evs) = (as, evs)"
proof (induction as)
  case Nil
  then show ?case using assms by (cases evs rule: written_attrs.cases) (auto simp: no_attr_first_def)
qed auto

lemma no_attr_first_end [simp]: "no_attr_first (EndElement # evs)"
  by (simp add: no_attr_first_def)

text \<open>An element: what its start does, what is inside, what its end does.\<close>

lemma triple_element:
  assumes "list_all plain_attr as" "no_attr_first (inner @ [EndElement])" "ignores_blanks P" "ignores_blanks Q"
    and start: "\<And>p l. P p \<Longrightarrow> \<exists>q. dmr_start_element env n None dap_ns [] (sax_of as) (p\<lparr>ps_line := l\<rparr>) = Inr q \<and> P1 q"
    and inside: "triple env ((n, dap_ns) # (m, dap_ns) # st) P1 inner Q"
    and finish: "\<And>p l. Q p \<Longrightarrow> \<exists>q. dmr_end_element env n None dap_ns (p\<lparr>ps_line := l\<rparr>) = Inr q \<and> R q"
  shows "triple env ((m, dap_ns) # st) P (xml_element n as inner) R"
  unfolding triple_def
proof (intro allI impI)
  fix after rest cs p assume p: "P p" "reported after ((m, dap_ns) # st) (xml_element n as inner @ rest) cs"
  have w: "written_attrs (map (\<lambda>(a, v). WriteAttribute a v) as @ inner @ EndElement # rest) = (as, inner @ EndElement # rest)"
    using assms(2) by (intro written_attrs_append) (cases inner, auto simp: no_attr_first_def)
  obtain ws l c1 where c1: "blanks ws" "cs = ws @ (l, Start_Element n None dap_ns [] (sax_of as)) # c1"
    "reported False ((n, dap_ns) # (m, dap_ns) # st) (inner @ EndElement # rest) c1"
    using reported_start [OF p(2), of n "map (\<lambda>(a, v). WriteAttribute a v) as @ inner @ EndElement # rest"]
    by (auto simp: xml_element_def plain_attrs [OF assms(1)] w)
  obtain p1 where p1: "P p1" "run_callbacks env cs p = run_callbacks env ((l, Start_Element n None dap_ns [] (sax_of as)) # c1) p1"
    using run_blanks [OF c1(1) assms(3) p(1)] c1(2) by blast
  obtain p2 where p2: "dmr_start_element env n None dap_ns [] (sax_of as) (p1\<lparr>ps_line := l\<rparr>) = Inr p2" "P1 p2"
    using start [OF p1(1)] by blast
  obtain a3 c3 p3 where p3: "Q p3" "reported a3 ((n, dap_ns) # (m, dap_ns) # st) (EndElement # rest) c3"
    "run_callbacks env c1 p2 = run_callbacks env c3 p3"
    using inside c1(3) p2(2) unfolding triple_def by blast
  obtain ws' l' c4 where c4: "blanks ws'" "c3 = ws' @ (l', End_Element n None dap_ns) # c4" "reported True ((m, dap_ns) # st) rest c4"
    using reported_end [OF p3(2), of rest] by auto
  obtain p4 where p4: "Q p4" "run_callbacks env c3 p3 = run_callbacks env ((l', End_Element n None dap_ns) # c4) p4"
    using run_blanks [OF c4(1) assms(4) p3(1)] c4(2) by blast
  obtain q where "dmr_end_element env n None dap_ns (p4\<lparr>ps_line := l'\<rparr>) = Inr q" "R q"
    using finish [OF p4(1)] by blast
  then show "\<exists>after' cs' q. R q \<and> reported after' ((m, dap_ns) # st) rest cs' \<and> run_callbacks env cs p = run_callbacks env cs' q"
    using p1(2) p2(1) p3(3) p4(2) c4(3) by (intro exI conjI) (auto simp: dispatch_def)
qed

end
