(* ===== verification/DmrAttributes.thy ===== *)
theory DmrAttributes
  imports DmrDocument
begin

text \<open>
  The pointers of the parser and what is done through them, and the attributes of a document: what is printed for a
  collection of attributes is read back into the collection on the top of the stack.
\<close>

section \<open>Through a pointer\<close>

fun valid_at :: "nat list \<Rightarrow> attribute list \<Rightarrow> bool" where
  "valid_at [] as = True" | "valid_at (i # is) as = (i < length as \<and> valid_at is (attributes (as ! i)))"

fun valid_path :: "nat list \<Rightarrow> dmr_group \<Rightarrow> bool" where
  "valid_path [] g = True" | "valid_path (i # is) g = (i < length (groups g) \<and> valid_path is (groups g ! i))"

lemma attributes_set [simp]: "attributes (a_set_attributes as a) = as"
  "a_set_attributes as (a_set_attributes bs a) = a_set_attributes as a"
  by (cases a; simp)+

lemma at_update [simp]: "valid_at is as \<Longrightarrow> attrs_at is (update_at is f as) = f (attrs_at is as)"
  by (induction "is" arbitrary: as) auto

lemma valid_at_update [simp]: "valid_at is as \<Longrightarrow> valid_at is (update_at is f as)"
  by (induction "is" arbitrary: as) auto

lemma update_update [simp]: "update_at is f (update_at is g as) = update_at is (\<lambda>x. f (g x)) as"
proof (induction "is" arbitrary: as)
  case (Cons i "is")
  show ?case by (cases "i < length as") (simp_all add: Cons.IH list_update_beyond)
qed simp

lemma at_append: "attrs_at (is @ [n]) as = attributes (attrs_at is as ! n)"
  by (induction "is" arbitrary: as) auto

lemma update_append:
  "update_at (is @ [n]) f as = update_at is (\<lambda>xs. xs[n := a_set_attributes (f (attributes (xs ! n))) (xs ! n)]) as"
  by (induction "is" arbitrary: as) auto

lemma valid_append: "valid_at (is @ [n]) as \<longleftrightarrow> valid_at is as \<and> n < length (attrs_at is as)"
  by (induction "is" arbitrary: as) auto

lemma group_at_update [simp]: "valid_path is g \<Longrightarrow> group_at is (update_group is f g) = f (group_at is g)"
proof (induction "is" arbitrary: g)
  case (Cons i "is")
  then show ?case by (cases g) auto
qed simp

lemma valid_path_update [simp]: "valid_path is g \<Longrightarrow> valid_path is (update_group is f g)"
proof (induction "is" arbitrary: g)
  case (Cons i "is")
  then show ?case by (cases g) auto
qed simp

lemma update_group_update [simp]: "update_group is f (update_group is h g) = update_group is (\<lambda>x. f (h x)) g"
proof (induction "is" arbitrary: g)
  case (Cons i "is")
  then show ?case by (cases g; cases "i < length (groups g)") (auto simp: list_update_beyond)
qed simp

lemma the_root_on_group [simp]: "the_root (on_group path f p) = update_group path f (the_root p)"
  by (simp add: on_group_def the_root_def root_of_def)

lemma on_group_on_group: "on_group path f (on_group path g p) = on_group path (\<lambda>x. f (g x)) p"
  by (simp add: on_group_def the_root_def root_of_def)

definition owner_attrs :: "attr_owner \<Rightarrow> parser \<Rightarrow> attribute list" where
  "owner_attrs ow p = (case ow of Of_Group path \<Rightarrow> d_attributes (base (group_at path (the_root p)))
     | Of_Var k \<Rightarrow> decl_attributes (ps_btps p ! var_index k p))"

definition owner_ok :: "attr_owner \<Rightarrow> parser \<Rightarrow> bool" where
  "owner_ok ow p = (case ow of Of_Group path \<Rightarrow> valid_path path (the_root p) | Of_Var k \<Rightarrow> k < length (ps_btps p))"

definition valid_ptr :: "attrs_ptr \<Rightarrow> parser \<Rightarrow> bool" where
  "valid_ptr ptr p \<longleftrightarrow> owner_ok (fst ptr) p \<and> valid_at (snd ptr) (owner_attrs (fst ptr) p)"

definition update_owner :: "attr_owner \<Rightarrow> (attribute list \<Rightarrow> attribute list) \<Rightarrow> parser \<Rightarrow> parser" where
  "update_owner ow f p = (case ow of Of_Group path \<Rightarrow> on_group path (on_group_attributes f) p
     | Of_Var k \<Rightarrow> p\<lparr>ps_btps := (ps_btps p)[var_index k p := on_attributes f (ps_btps p ! var_index k p)]\<rparr>)"

lemma through_owner:
  "read_attrs ptr p = attrs_at (snd ptr) (owner_attrs (fst ptr) p)"
  "update_attrs ptr f p = update_owner (fst ptr) (update_at (snd ptr) f) p"
  by (simp_all add: read_attrs_def owner_attrs_def update_attrs_def update_owner_def)

lemma group_attributes_simps [simp]: "base (on_group_attributes f g) = (base g)\<lparr>d_attributes := f (d_attributes (base g))\<rparr>"
  "on_group_attributes f (on_group_attributes h g) = on_group_attributes (\<lambda>x. f (h x)) g"
  "groups (on_group_attributes f g) = groups g"
  by (cases g; simp add: on_group_attributes_def map_group_base_def)+

lemma decl_attributes_simps [simp]: "decl_attributes (on_attributes f v) = f (decl_attributes v)"
  "on_attributes f (on_attributes h v) = on_attributes (\<lambda>x. f (h x)) v"
  by (cases v; simp add: on_attributes_def set_attributes_nocopy_def decl_attributes_def)+

lemma owner_laws:
  assumes "owner_ok ow p"
  shows "owner_attrs ow (update_owner ow f p) = f (owner_attrs ow p)" "owner_ok ow (update_owner ow f p)"
    "update_owner ow f (update_owner ow g p) = update_owner ow (\<lambda>x. f (g x)) p"
  using assms
  by (cases ow; auto simp: owner_attrs_def owner_ok_def update_owner_def var_index_def on_group_on_group)+

lemma read_update: "valid_ptr ptr p \<Longrightarrow> read_attrs ptr (update_attrs ptr f p) = f (read_attrs ptr p)"
  by (simp add: through_owner valid_ptr_def owner_laws)

lemma valid_update: "valid_ptr ptr p \<Longrightarrow> valid_ptr ptr (update_attrs ptr f p)"
  by (simp add: through_owner valid_ptr_def owner_laws)

lemma update_twice: "valid_ptr ptr p \<Longrightarrow> update_attrs ptr f (update_attrs ptr g p) = update_attrs ptr (\<lambda>x. f (g x)) p"
  by (simp add: through_owner valid_ptr_def owner_laws)

lemma update_at_cong: "valid_at is as \<Longrightarrow> f (attrs_at is as) = g (attrs_at is as) \<Longrightarrow> update_at is f as = update_at is g as"
  by (induction "is" arbitrary: as) auto

lemma update_group_cong: "f (group_at path r) = g (group_at path r) \<Longrightarrow> update_group path f r = update_group path g r"
proof (induction path arbitrary: r)
  case (Cons i path)
  then show ?case by (cases r) simp
qed simp

lemma update_owner_cong:
  assumes "f (owner_attrs ow p) = g (owner_attrs ow p)"
  shows "update_owner ow f p = update_owner ow g p"
proof (cases ow)
  case (Of_Group path)
  have "on_group_attributes f (group_at path (the_root p)) = on_group_attributes g (group_at path (the_root p))"
    using assms by (cases "group_at path (the_root p)") (simp add: Of_Group owner_attrs_def on_group_attributes_def map_group_base_def)
  from update_group_cong [of "on_group_attributes f" path "the_root p" "on_group_attributes g", OF this] show ?thesis
    by (simp add: Of_Group update_owner_def on_group_def)
next
  case (Of_Var k)
  then show ?thesis using assms by (simp add: owner_attrs_def update_owner_def on_attributes_def)
qed

lemma update_attrs_cong: "valid_ptr ptr p \<Longrightarrow> f (read_attrs ptr p) = g (read_attrs ptr p) \<Longrightarrow> update_attrs ptr f p = update_attrs ptr g p"
  unfolding through_owner by (intro update_owner_cong update_at_cong) (simp_all add: valid_ptr_def)

text \<open>The collection of a container that has been appended.\<close>

lemma child_ptr:
  assumes "valid_ptr (ow, is) p" "n = length (read_attrs (ow, is) p)"
  shows "valid_ptr (ow, is @ [n]) (update_attrs (ow, is) (add_attribute_nocopy c) p)"
    "read_attrs (ow, is @ [n]) (update_attrs (ow, is) (add_attribute_nocopy c) p) = attributes c"
    "update_attrs (ow, is @ [n]) f (update_attrs (ow, is) (add_attribute_nocopy c) p) =
       update_attrs (ow, is) (add_attribute_nocopy (a_set_attributes (f (attributes c)) c)) p"
proof -
  have v: "owner_ok ow p" "valid_at is (owner_attrs ow p)" "n = length (attrs_at is (owner_attrs ow p))"
    using assms by (simp_all add: valid_ptr_def through_owner)
  show "valid_ptr (ow, is @ [n]) (update_attrs (ow, is) (add_attribute_nocopy c) p)"
    "read_attrs (ow, is @ [n]) (update_attrs (ow, is) (add_attribute_nocopy c) p) = attributes c"
    using v by (simp_all add: valid_ptr_def through_owner owner_laws valid_append at_append add_attribute_nocopy_def)
  have "update_attrs (ow, is) (\<lambda>x. (add_attribute_nocopy c x)[n := a_set_attributes (f (attributes (add_attribute_nocopy c x ! n))) (add_attribute_nocopy c x ! n)]) p =
    update_attrs (ow, is) (add_attribute_nocopy (a_set_attributes (f (attributes c)) c)) p"
    using assms v(1) by (intro update_attrs_cong) (auto simp: add_attribute_nocopy_def)
  then show "update_attrs (ow, is @ [n]) f (update_attrs (ow, is) (add_attribute_nocopy c) p) =
       update_attrs (ow, is) (add_attribute_nocopy (a_set_attributes (f (attributes c)) c)) p"
    using v by (simp add: through_owner owner_laws update_append)
qed

text \<open>The other fields are not concerned.\<close>

lemma update_attrs_fields [simp]:
  "ps_states (update_attrs ptr f p) = ps_states p" "ps_attrs (update_attrs ptr f p) = ps_attrs p"
  "ps_groups (update_attrs ptr f p) = ps_groups p" "ps_char_data (update_attrs ptr f p) = ps_char_data p"
  "dods_attr_name (update_attrs ptr f p) = dods_attr_name p" "dods_attr_type (update_attrs ptr f p) = dods_attr_type p"
  "xml_attrs (update_attrs ptr f p) = xml_attrs p"
  by (simp_all add: update_attrs_def on_group_def split: attr_owner.splits)

lemma read_attrs_fields [simp]:
  "read_attrs ptr (p\<lparr>ps_states := x\<rparr>) = read_attrs ptr p" "read_attrs ptr (p\<lparr>ps_attrs := y\<rparr>) = read_attrs ptr p"
  "read_attrs ptr (p\<lparr>ps_char_data := z\<rparr>) = read_attrs ptr p" "read_attrs ptr (p\<lparr>dods_attr_name := z\<rparr>) = read_attrs ptr p"
  "read_attrs ptr (p\<lparr>dods_attr_type := z\<rparr>) = read_attrs ptr p" "read_attrs ptr (p\<lparr>ps_line := l\<rparr>) = read_attrs ptr p"
  "read_attrs ptr (p\<lparr>xml_attrs := m\<rparr>) = read_attrs ptr p"
  by (simp_all add: read_attrs_def the_root_def var_index_def split: attr_owner.splits)

lemma update_attrs_commute [simp]:
  "update_attrs ptr f (p\<lparr>ps_states := x\<rparr>) = (update_attrs ptr f p)\<lparr>ps_states := x\<rparr>"
  "update_attrs ptr f (p\<lparr>ps_attrs := y\<rparr>) = (update_attrs ptr f p)\<lparr>ps_attrs := y\<rparr>"
  "update_attrs ptr f (p\<lparr>ps_char_data := z\<rparr>) = (update_attrs ptr f p)\<lparr>ps_char_data := z\<rparr>"
  "update_attrs ptr f (p\<lparr>dods_attr_name := z\<rparr>) = (update_attrs ptr f p)\<lparr>dods_attr_name := z\<rparr>"
  "update_attrs ptr f (p\<lparr>dods_attr_type := z\<rparr>) = (update_attrs ptr f p)\<lparr>dods_attr_type := z\<rparr>"
  "update_attrs ptr f (p\<lparr>ps_line := l\<rparr>) = (update_attrs ptr f p)\<lparr>ps_line := l\<rparr>"
  "update_attrs ptr f (p\<lparr>xml_attrs := m\<rparr>) = (update_attrs ptr f p)\<lparr>xml_attrs := m\<rparr>"
  by (simp_all add: update_attrs_def on_group_def the_root_def var_index_def split: attr_owner.splits)

lemma valid_ptr_fields [simp]:
  "valid_ptr ptr (p\<lparr>ps_states := x\<rparr>) = valid_ptr ptr p" "valid_ptr ptr (p\<lparr>ps_attrs := y\<rparr>) = valid_ptr ptr p"
  "valid_ptr ptr (p\<lparr>ps_char_data := z\<rparr>) = valid_ptr ptr p" "valid_ptr ptr (p\<lparr>dods_attr_name := z\<rparr>) = valid_ptr ptr p"
  "valid_ptr ptr (p\<lparr>dods_attr_type := z\<rparr>) = valid_ptr ptr p" "valid_ptr ptr (p\<lparr>ps_line := l\<rparr>) = valid_ptr ptr p"
  "valid_ptr ptr (p\<lparr>xml_attrs := m\<rparr>) = valid_ptr ptr p"
  by (simp_all add: valid_ptr_def owner_ok_def owner_attrs_def the_root_def var_index_def split: attr_owner.splits)

section \<open>The attributes of an element\<close>

lemma map_of_insort: "fst kv \<notin> fst ` set m \<Longrightarrow> map_of (insort_key fst kv m) a = (if a = fst kv then Some (snd kv) else map_of m a)"
  by (induction m) (auto simp: rev_image_eqI)

lemma map_of_insert: "map_of (map_insert kv m) a = map_of (m @ [kv]) a"
  by (cases kv) (force simp: map_insert_def map_of_insort map_add_def map_of_eq_None_iff split: option.splits dest: map_of_SomeD)

lemma map_of_inserts: "map_of (foldl (\<lambda>m kv. map_insert kv m) m kvs) a = map_of (m @ kvs) a"
proof (induction kvs arbitrary: m)
  case (Cons kv kvs)
  show ?case by (simp add: Cons map_of_insert map_add_def split: option.splits)
qed simp

lemma map_of_sax_of: "map_of (sax_of kvs) a = map_option (\<lambda>v. \<lparr>xa_prefix = [], xa_uri = [], xa_value = v\<rparr>) (map_of kvs a)"
  by (induction kvs) (auto simp: sax_of_def)

text \<open>The attributes of the current element in the parser.\<close>

definition sax_map :: "(string \<times> string) list \<Rightarrow> (string \<times> sax_attr) list" where
  "sax_map kvs = foldl (\<lambda>m kv. map_insert kv m) [] (sax_of kvs)"

lemma transfer_sax: "transfer_xml_attrs (sax_of kvs) p = p\<lparr>xml_attrs := sax_map kvs\<rparr>"
  by (simp add: transfer_xml_attrs_def sax_map_def)

lemma sax_lookup [simp]: "map_of (sax_map kvs) a = map_option (\<lambda>v. \<lparr>xa_prefix = [], xa_uri = [], xa_value = v\<rparr>) (map_of kvs a)"
  by (simp add: sax_map_def map_of_inserts map_of_sax_of)

lemmas xml_attr_defs = transfer_sax check_both_def check_required_attribute_def check_attribute_def xattr_def

definition attr_states :: "ParseState set" where
  "attr_states = {inside_dataset, inside_group, inside_attribute_container, inside_simple_type, inside_constructor}"

lemma not_a_type: "get_type ''Attribute'' = dods_null_c" "get_type ''Dim'' = dods_null_c" "get_type ''Map'' = dods_null_c"
  "get_type ''Group'' = dods_null_c" "get_type ''Dimension'' = dods_null_c" "get_type ''Enumeration'' = dods_null_c"
  by (simp_all add: get_type_def type_table_def)

lemma start_attribute:
  assumes "ps_states p = s # ss" "s \<in> attr_states" "process_attribute ''Attribute'' as p = Inr (True, q)"
  shows "dmr_start_element env ''Attribute'' None dap_ns [] as p = Inr q"
proof -
  have v: "process_variable ''Attribute'' as p = Inr (False, p)"
    by (simp add: process_variable_def not_a_type is_simple_type_def)
  show ?thesis using assms v
    by (auto simp: attr_states_def dmr_start_element_def get_state_def dap_ns_def only_if_def orelse_def
        process_enum_def_def process_dimension_def_def process_group_def)
qed

text \<open>
  Attributes that a document can carry: a container has no values and has been given its collection; any other has at
  least one value, a name that is not empty and has no dots, and a type that the parser knows.
\<close>

definition text_ok :: "string \<Rightarrow> bool" where "text_ok s \<longleftrightarrow> NUL \<notin> set s"

fun attr_ok :: "attribute \<Rightarrow> bool" where
  "attr_ok (Attribute n t sub vs) \<longleftrightarrow> text_ok n \<and>
     (if t = attr_container_c then vs = [] \<and> (case sub of None \<Rightarrow> False | Some as \<Rightarrow> (\<forall>a \<in> set as. attr_ok a) \<and> distinct (map a_name as))
      else sub = None \<and> vs \<noteq> [] \<and> (\<forall>v \<in> set vs. text_ok v) \<and> t \<notin> {attr_enum_c, attr_opaque_c, attr_otherxml_c} \<and>
        n \<noteq> [] \<and> CHR ''.'' \<notin> set n)"

definition attrs_ok :: "attribute list \<Rightarrow> bool" where
  "attrs_ok as \<longleftrightarrow> (\<forall>a \<in> set as. attr_ok a) \<and> distinct (map a_name as)"

lemma type_read_back: "t \<notin> {attr_enum_c, attr_opaque_c} \<Longrightarrow> StringToD4AttributeType (D4AttributeTypeToString t) = t"
  by (cases t; simp; code_simp)

lemma type_names: "D4AttributeTypeToString t = ''Container'' \<longleftrightarrow> t = attr_container_c" "D4AttributeTypeToString t = ''OtherXML'' \<longleftrightarrow> t = attr_otherxml_c"
  "NUL \<notin> set (D4AttributeTypeToString t)"
  by (cases t; simp)+

lemma get_plain: "n \<noteq> [] \<Longrightarrow> CHR ''.'' \<notin> set n \<Longrightarrow> get n as = map_option (\<lambda>i. [i]) (index_of (\<lambda>a. a_name a = n) as)"
  by (subst get.simps) (simp add: split_dot_def)

lemma index_of_append: "\<forall>x \<in> set xs. \<not> P x \<Longrightarrow> P y \<Longrightarrow> index_of P (xs @ y # ys) = Some (length xs)"
  by (induction xs) auto

lemma vary_simps [simp]: "(vary l x n t p)\<lparr>ps_line := l'\<rparr> = vary l' x n t p" "(vary l x n t p)\<lparr>xml_attrs := x'\<rparr> = vary l x' n t p"
  "ps_states (vary l x n t p) = ps_states p" "ps_btps (vary l x n t p) = ps_btps p" "ps_groups (vary l x n t p) = ps_groups p"
  "ps_attrs (vary l x n t p) = ps_attrs p" "ps_char_data (vary l x n t p) = ps_char_data p" "ps_dmr (vary l x n t p) = ps_dmr p"
  "ps_enum_def (vary l x n t p) = ps_enum_def p" "ps_dim_def (vary l x n t p) = ps_dim_def p" "ps_next (vary l x n t p) = ps_next p"
  "ps_strict (vary l x n t p) = ps_strict p" "dods_attr_name (vary l x n t p) = n" "dods_attr_type (vary l x n t p) = t"
  "xml_attrs (vary l x n t p) = x" "the_root (vary l x n t p) = the_root p"
  by (simp_all add: vary_def the_root_def)

lemma ignores_blanks_here: "ps_states p = s # ss \<Longrightarrow> s \<noteq> inside_attribute_value \<Longrightarrow> s \<noteq> inside_other_xml_attribute \<Longrightarrow>
    ignores_blanks (here p) \<and> ignores_blanks (in_attr n t p)"
  unfolding ignores_blanks_def here_def in_attr_def
  by (intro conjI allI impI; elim exE; simp) (metis vary_simps(1))+

text \<open>One value.\<close>

lemma characters_run:
  assumes "length ls = length ws" "ps_states p = inside_attribute_value # ss"
  shows "\<exists>l. run_callbacks env (map (\<lambda>(l, w). (l, Characters w)) (zip ls ws) @ cs) p =
    run_callbacks env cs (p\<lparr>ps_char_data := ps_char_data p @ concat ws, ps_line := l\<rparr>)"
  using assms
proof (induction ls ws arbitrary: p rule: list_induct2)
  case Nil
  show ?case by (rule exI [of _ "ps_line p"]) simp
next
  case (Cons l ls w ws)
  then show ?case using Cons.IH [of "p\<lparr>ps_line := l, ps_char_data := ps_char_data p @ w\<rparr>"]
    by (auto simp: dispatch_def dmr_get_characters_def get_state_def)
qed

lemma value_triple:
  assumes "ps_states p = inside_attribute # ss" "ps_char_data p = []" "text_ok v"
    "\<And>l x. add_attribute_value v (vary l x n tn p) = Inr (vary l x n tn q)"
  shows "triple env ((m, dap_ns) # st) (in_attr n tn p) (xml_element ''Value'' [] [WriteString (c_str v)]) (in_attr n tn q)"
  unfolding triple_def
proof (intro allI impI)
  fix after rest cs p0 assume p0: "in_attr n tn p p0"
    and r: "reported after ((m, dap_ns) # st) (xml_element ''Value'' [] [WriteString (c_str v)] @ rest) cs"
  have c: "c_str v = v" using assms(3) by (simp add: c_str_plain text_ok_def)
  have ib: "ignores_blanks (in_attr n tn p)" using ignores_blanks_here [OF assms(1)] by simp
  obtain ws l c1 where c1: "blanks ws" "cs = ws @ (l, Start_Element ''Value'' None dap_ns [] []) # c1"
    "reported False ((''Value'', dap_ns) # (m, dap_ns) # st) (WriteString v # EndElement # rest) c1"
    using reported_start [OF r, of "''Value''" "WriteString v # EndElement # rest"]
    by (auto simp: xml_element_def c default_ns_def namespaces_def)
  obtain p1 where p1: "in_attr n tn p p1" "run_callbacks env cs p0 = run_callbacks env ((l, Start_Element ''Value'' None dap_ns [] []) # c1) p1"
    using run_blanks [OF c1(1) ib p0] c1(2) by blast
  obtain l1 x1 where v1: "p1 = vary l1 x1 n tn p" using p1(1) by (auto simp: in_attr_def)
  let ?p2 = "push_state inside_attribute_value (vary l x1 n tn p)"
  have s: "dmr_start_element env ''Value'' None dap_ns [] [] (p1\<lparr>ps_line := l\<rparr>) = Inr ?p2"
    using assms(1) by (simp add: v1 vary_def dmr_start_element_def get_state_def dap_ns_def only_if_def orelse_def process_attribute_def push_state_def)
  obtain ls us c2 where t: "length ls = length us" "concat us = v" "c1 = map (\<lambda>(l, w). (l, Characters w)) (zip ls us) @ c2"
    "reported False ((''Value'', dap_ns) # (m, dap_ns) # st) (EndElement # rest) c2"
    using reported_text [OF c1(3)] by blast
  obtain l2 where l2: "run_callbacks env c1 ?p2 = run_callbacks env c2 (?p2\<lparr>ps_char_data := v, ps_line := l2\<rparr>)"
    using characters_run [OF t(1), of ?p2 "inside_attribute # ss" env c2] assms(1,2) t(2,3) by (auto simp: push_state_def vary_def)
  obtain l3 c3 where e: "c2 = (l3, End_Element ''Value'' None dap_ns) # c3" "reported True ((m, dap_ns) # st) rest c3"
    using reported_end [OF t(4), of rest] by auto
  have "dmr_end_element env ''Value'' None dap_ns (?p2\<lparr>ps_char_data := v, ps_line := l3\<rparr>) =
      andthen (add_attribute_value v (vary l3 x1 n tn (p\<lparr>ps_char_data := v\<rparr>))) (\<lambda>p2. Inr (p2\<lparr>ps_char_data := []\<rparr>))"
    using assms(1) by (cases p) (simp add: dmr_end_element_def get_state_def end_attribute_value_def pop_state_def must_be_def only_if_def push_state_def vary_def)
  moreover have "add_attribute_value v (vary l3 x1 n tn (p\<lparr>ps_char_data := v\<rparr>)) =
      andthen (add_attribute_value v (vary l3 x1 n tn p)) (\<lambda>p2. Inr (p2\<lparr>ps_char_data := v\<rparr>))"
    by (auto simp: add_attribute_value_def vary_def andthen_def top_attributes_def split: sum.splits option.splits)
  moreover have "ps_char_data q = []"
    using assms(4) [of 0 "[]"] assms(2) by (auto simp: add_attribute_value_def andthen_Inr vary_def split: option.splits
      dest!: arg_cong [where f = ps_char_data])
  ultimately have "dmr_end_element env ''Value'' None dap_ns (?p2\<lparr>ps_char_data := v, ps_line := l3\<rparr>) = Inr (vary l3 x1 n tn q)"
    using assms(4) by (simp add: vary_def)
  then have "run_callbacks env cs p0 = run_callbacks env c3 (vary l3 x1 n tn q)"
    using p1(2) s l2 e(1) by (simp add: dispatch_def)
  then show "\<exists>after' cs' q'. in_attr n tn q q' \<and> reported after' ((m, dap_ns) # st) rest cs' \<and> run_callbacks env cs p0 = run_callbacks env cs' q'"
    using e(2) by (intro exI [of _ True] exI [of _ c3] exI [of _ "vary l3 x1 n tn q"]) (auto simp: in_attr_def)
qed

definition add_values :: "attrs_ptr \<Rightarrow> string \<Rightarrow> D4AttributeType \<Rightarrow> string list \<Rightarrow> parser \<Rightarrow> parser" where
  "add_values tos n t vs p = (if vs = [] then p else update_attrs tos (add_attribute_nocopy (Attribute n t None vs)) p)"

lemma add_one_value:
  assumes "ps_attrs p = tos # rest" "valid_ptr tos p" "n \<noteq> []" "CHR ''.'' \<notin> set n" "n \<notin> a_name ` set (read_attrs tos p)"
    and "t \<notin> {attr_enum_c, attr_opaque_c}"
  shows "add_attribute_value v (vary l x n (D4AttributeTypeToString t) (add_values tos n t vs p)) =
    Inr (vary l x n (D4AttributeTypeToString t) (add_values tos n t (vs @ [v]) p))"
proof (cases "vs = []")
  case True
  have "get n (read_attrs tos p) = None"
    using assms(3-5) by (auto simp: get_plain index_of_None)
  then show ?thesis using assms(1,6) True
    by (simp add: add_attribute_value_def top_attributes_def add_values_def) (simp add: vary_def D4Attribute_def type_read_back)
next
  case False
  let ?a = "Attribute n t None vs" and ?q = "update_attrs tos (add_attribute_nocopy (Attribute n t None vs)) p"
  have r: "read_attrs tos ?q = read_attrs tos p @ [?a]" using assms(2) by (simp add: read_update add_attribute_nocopy_def)
  have g: "get n (read_attrs tos ?q) = Some [length (read_attrs tos p)]"
    using assms(3-5) by (auto simp: r get_plain intro!: index_of_append)
  have "update_attrs tos (update_attribute [length (read_attrs tos p)] (a_add_value v)) ?q =
    update_attrs tos (add_attribute_nocopy (Attribute n t None (vs @ [v]))) p"
    unfolding update_twice [OF assms(2)]
    by (rule update_attrs_cong [OF assms(2)]) (simp add: update_attribute_def add_attribute_nocopy_def)
  then show ?thesis using assms(1) False g
    by (simp add: add_attribute_value_def top_attributes_def add_values_def) (simp add: vary_def)
qed

lemma values_triple:
  assumes "ps_states p = inside_attribute # ss" "ps_char_data p = []" "ps_attrs p = tos # rest" "valid_ptr tos p"
    "n \<noteq> []" "CHR ''.'' \<notin> set n" "n \<notin> a_name ` set (read_attrs tos p)" "t \<notin> {attr_enum_c, attr_opaque_c}" "\<forall>v \<in> set ws. text_ok v"
  shows "triple env ((m, dap_ns) # st) (in_attr n (D4AttributeTypeToString t) (add_values tos n t vs p)) (print_values ws)
    (in_attr n (D4AttributeTypeToString t) (add_values tos n t (vs @ ws) p))"
  using assms(9)
proof (induction ws arbitrary: vs)
  case Nil
  show ?case by (auto intro: triple_nil)
next
  case (Cons w ws)
  have "triple env ((m, dap_ns) # st) (in_attr n (D4AttributeTypeToString t) (add_values tos n t vs p))
      (xml_element ''Value'' [] [WriteString (c_str w)]) (in_attr n (D4AttributeTypeToString t) (add_values tos n t (vs @ [w]) p))"
    using Cons.prems assms(1,2) by (intro value_triple [of _ ss] add_one_value [OF assms(3-8)]) (auto simp: add_values_def)
  then show ?case using triple_append [OF _ Cons.IH [of "vs @ [w]"]] Cons.prems by simp
qed

text \<open>A parser that takes attributes, and the collection they go to.\<close>

definition takes_attributes :: "attrs_ptr \<Rightarrow> parser \<Rightarrow> bool" where
  "takes_attributes tos p \<longleftrightarrow> (\<exists>s ss rest. ps_states p = s # ss \<and> s \<in> attr_states \<and> ps_attrs p = tos # rest) \<and>
     valid_ptr tos p \<and> ps_char_data p = []"

lemma takes_ignores: "takes_attributes tos p \<Longrightarrow> ignores_blanks (here p)"
  using ignores_blanks_here [of p] by (auto simp: takes_attributes_def attr_states_def)

lemma takes_update: "takes_attributes tos p \<Longrightarrow> takes_attributes tos (update_attrs tos f p)"
  by (auto simp: takes_attributes_def valid_update)

lemma attribute_started:
  assumes "takes_attributes tos p" "t \<noteq> attr_container_c" "t \<noteq> attr_otherxml_c"
  shows "\<exists>q. dmr_start_element env ''Attribute'' None dap_ns [] (sax_of [(''name'', n), (''type'', D4AttributeTypeToString t)]) (vary l x n' t' p) = Inr q \<and>
    in_attr n (D4AttributeTypeToString t) (push_state inside_attribute p) q"
proof -
  obtain s ss where s: "ps_states p = s # ss" "s \<in> attr_states" using assms(1) by (auto simp: takes_attributes_def)
  let ?as = "[(''name'', n), (''type'', D4AttributeTypeToString t)]" and ?q = "push_state inside_attribute p"
  have "process_attribute ''Attribute'' (sax_of ?as) (vary l x n' t' p) = Inr (True, vary l (sax_map ?as) n (D4AttributeTypeToString t) ?q)"
    using assms(2,3) by (simp add: process_attribute_def xml_attr_defs type_names) (simp add: push_state_def vary_def)
  from start_attribute [OF _ s(2) this] s(1) show ?thesis by (auto simp: in_attr_def)
qed

lemma container_started:
  assumes "takes_attributes (ow, is) p" "k = length (read_attrs (ow, is) p)"
  shows "\<exists>q. dmr_start_element env ''Attribute'' None dap_ns [] (sax_of [(''name'', n), (''type'', ''Container'')]) (vary l x n' t' p) = Inr q \<and>
    here (push_attributes (ow, is @ [k]) (update_attrs (ow, is) (add_attribute_nocopy (Attribute n attr_container_c (Some []) []))
      (push_state inside_attribute_container p))) q"
proof -
  obtain s ss rest where s: "ps_states p = s # ss" "s \<in> attr_states" "ps_attrs p = (ow, is) # rest" using assms(1) by (auto simp: takes_attributes_def)
  let ?as = "[(''name'', n), (''type'', ''Container'')]"
  have "process_attribute ''Attribute'' (sax_of ?as) (vary l x n' t' p) = Inr (True, vary l (sax_map ?as) n' t'
      (push_attributes (ow, is @ [k]) (update_attrs (ow, is) (add_attribute_nocopy (Attribute n attr_container_c (Some []) []))
      (push_state inside_attribute_container p))))"
    using s(3) assms(2)
    by (simp add: process_attribute_def xml_attr_defs top_attributes_def push_state_def push_attributes_def D4Attribute_def) (simp add: vary_def)
  from start_attribute [OF _ s(2) this] s(1) show ?thesis by (auto simp: here_def)
qed

section \<open>Attributes are read back\<close>

lemma end_attribute:
  assumes "ps_states p = s # ss" "s = inside_attribute \<or> s = inside_attribute_container \<and> ps_attrs p = a # as"
  shows "dmr_end_element env ''Attribute'' None dap_ns p =
    Inr (if s = inside_attribute then p\<lparr>ps_states := ss\<rparr> else p\<lparr>ps_states := ss, ps_attrs := as\<rparr>)"
  using assms by (auto simp: dmr_end_element_def get_state_def must_be_def only_if_def pop_state_def pop_attributes_def)

lemma vary_pop: "ps_states q = ss \<Longrightarrow> (vary l x n t (q\<lparr>ps_states := ss'\<rparr>))\<lparr>ps_states := ss\<rparr> = vary l x n t q"
  "ps_states q = ss \<Longrightarrow> ps_attrs q = as \<Longrightarrow> (vary l x n t (q\<lparr>ps_states := ss', ps_attrs := as'\<rparr>))\<lparr>ps_states := ss, ps_attrs := as\<rparr> = vary l x n t q"
  by (cases q; auto simp: vary_def)+

lemma values_first: "no_attr_first (print_values vs @ [EndElement])"
  by (cases vs) (simp_all add: no_attr_first_def xml_element_def)

lemma attributes_first: "attributes_dap4 as = Inr evs \<Longrightarrow> no_attr_first (evs @ [EndElement])"
proof (cases as)
  case (Cons a as')
  then show "attributes_dap4 as = Inr evs \<Longrightarrow> ?thesis"
    by (cases a) (auto simp: no_attr_first_def xml_element_def split: sum.splits if_splits option.splits)
qed simp

lemma update_id:
  assumes "takes_attributes tos p"
  shows "update_attrs tos (\<lambda>x. x @ as) (update_attrs tos (add_attribute_nocopy a) p) = update_attrs tos (\<lambda>x. x @ a # as) p"
  using assms by (simp add: takes_attributes_def update_twice add_attribute_nocopy_def)

lemma values_attribute:
  assumes "takes_attributes tos p" "attr_ok (Attribute n t sub vs)" "t \<noteq> attr_container_c" "n \<notin> a_name ` set (read_attrs tos p)"
  shows "triple env ((m, dap_ns) # st) (here p)
    (xml_element ''Attribute'' [(''name'', n), (''type'', D4AttributeTypeToString t)] (print_values vs))
    (here (update_attrs tos (add_attribute_nocopy (Attribute n t sub vs)) p))"
proof -
  let ?tn = "D4AttributeTypeToString t" and ?p1 = "push_state inside_attribute p"
  obtain s ss rest where s: "ps_states p = s # ss" "s \<in> attr_states" "ps_attrs p = tos # rest" "valid_ptr tos p" "ps_char_data p = []"
    using assms(1) by (auto simp: takes_attributes_def)
  have ok: "n \<noteq> []" "CHR ''.'' \<notin> set n" "sub = None" "vs \<noteq> []" "\<forall>v \<in> set vs. text_ok v" "t \<notin> {attr_enum_c, attr_opaque_c}" "text_ok n" "t \<noteq> attr_otherxml_c"
    using assms(2,3) by auto
  have v: "triple env ((''Attribute'', dap_ns) # (m, dap_ns) # st) (in_attr n ?tn (add_values tos n t [] ?p1)) (print_values vs)
      (in_attr n ?tn (add_values tos n t ([] @ vs) ?p1))"
    using s ok assms(4) by (intro values_triple) (simp_all add: push_state_def)
  show ?thesis
  proof (rule triple_element [OF _ values_first])
    show "list_all plain_attr [(''name'', n), (''type'', ?tn)]"
      using ok(7) by (simp add: plain_attr_def text_ok_def type_names starts_with_def)
    show "ignores_blanks (here p)" using assms(1) by (rule takes_ignores)
    show "ignores_blanks (in_attr n ?tn (add_values tos n t vs ?p1))"
      using ignores_blanks_here [of "add_values tos n t vs ?p1" inside_attribute "s # ss"] s(1) by (simp add: add_values_def push_state_def)
    show "triple env ((''Attribute'', dap_ns) # (m, dap_ns) # st) (in_attr n ?tn ?p1) (print_values vs) (in_attr n ?tn (add_values tos n t vs ?p1))"
      using v by (simp add: add_values_def)
  next
    fix q l assume "here p q"
    then show "\<exists>q'. dmr_start_element env ''Attribute'' None dap_ns [] (sax_of [(''name'', n), (''type'', ?tn)]) (q\<lparr>ps_line := l\<rparr>) = Inr q' \<and> in_attr n ?tn ?p1 q'"
      using attribute_started [OF assms(1,3) ok(8)] by (auto simp: here_def)
  next
    fix q l assume "in_attr n ?tn (add_values tos n t vs ?p1) q"
    then obtain l' x where q: "q = vary l' x n ?tn (push_state inside_attribute (update_attrs tos (add_attribute_nocopy (Attribute n t None vs)) p))"
      using ok(4) by (auto simp: in_attr_def add_values_def push_state_def)
    have "(vary l x n ?tn (push_state inside_attribute (update_attrs tos (add_attribute_nocopy (Attribute n t None vs)) p)))\<lparr>ps_states := ps_states p\<rparr> =
        vary l x n ?tn (update_attrs tos (add_attribute_nocopy (Attribute n t None vs)) p)" by (simp add: vary_pop push_state_def)
    then show "\<exists>q'. dmr_end_element env ''Attribute'' None dap_ns (q\<lparr>ps_line := l\<rparr>) = Inr q' \<and>
        here (update_attrs tos (add_attribute_nocopy (Attribute n t sub vs)) p) q'"
      using ok(3) by (auto simp: q here_def end_attribute [where s = inside_attribute and ss = "ps_states p"] push_state_def)
  qed
qed


text \<open>The collection on the top takes a list of attributes one after the other.\<close>

definition append_attrs :: "attrs_ptr \<Rightarrow> attribute list \<Rightarrow> parser \<Rightarrow> parser" where
  "append_attrs tos as p = foldl (\<lambda>p a. update_attrs tos (add_attribute_nocopy a) p) p as"

lemma append_attrs_update:
  "valid_ptr tos p \<Longrightarrow> append_attrs tos as p = (if as = [] then p else update_attrs tos (\<lambda>x. x @ as) p)"
proof (induction as arbitrary: p)
  case (Cons a as)
  then show ?case using Cons.IH [OF valid_update [OF Cons.prems]]
    by (auto simp: append_attrs_def update_twice add_attribute_nocopy_def [abs_def])
qed (simp add: append_attrs_def)

lemma append_attrs_fields [simp]: "ps_states (append_attrs tos as p) = ps_states p" "ps_attrs (append_attrs tos as p) = ps_attrs p"
  unfolding append_attrs_def by (induction as arbitrary: p) simp_all

lemma list_triple:
  assumes "\<And>a evs tos p. a \<in> set as \<Longrightarrow> attribute_dap4 a = Inr evs \<Longrightarrow> takes_attributes tos p \<Longrightarrow> a_name a \<notin> a_name ` set (read_attrs tos p) \<Longrightarrow>
      triple env ((m, dap_ns) # st) (here p) evs (here (update_attrs tos (add_attribute_nocopy a) p))"
    and "attributes_dap4 as = Inr evs" "takes_attributes tos p" "distinct (map a_name as)" "a_name ` set as \<inter> a_name ` set (read_attrs tos p) = {}"
  shows "triple env ((m, dap_ns) # st) (here p) evs (here (append_attrs tos as p))"
  using assms
proof (induction as arbitrary: evs p)
  case Nil
  then show ?case by (auto simp: append_attrs_def intro: triple_nil)
next
  case (Cons a as)
  obtain x y where e: "attribute_dap4 a = Inr x" "attributes_dap4 as = Inr y" "evs = x @ y"
    using Cons.prems(2) by (auto split: sum.splits)
  let ?p1 = "update_attrs tos (add_attribute_nocopy a) p"
  have v: "valid_ptr tos p" using Cons.prems(3) by (simp add: takes_attributes_def)
  have "triple env ((m, dap_ns) # st) (here p) x (here ?p1)" using Cons.prems e(1) by simp
  moreover have "triple env ((m, dap_ns) # st) (here ?p1) y (here (append_attrs tos as ?p1))"
    using Cons.prems by (intro Cons.IH [OF _ e(2)] takes_update) (auto simp: read_update [OF v] add_attribute_nocopy_def)
  ultimately show ?case unfolding e(3) append_attrs_def foldl.simps by (rule triple_append)
qed

lemma container_attribute:
  assumes "takes_attributes (ow, is) p" "text_ok n" "distinct (map a_name as)" "attributes_dap4 as = Inr evs"
    and "\<And>a evs tos p m st. a \<in> set as \<Longrightarrow> attribute_dap4 a = Inr evs \<Longrightarrow> takes_attributes tos p \<Longrightarrow> a_name a \<notin> a_name ` set (read_attrs tos p) \<Longrightarrow>
      triple env ((m, dap_ns) # st) (here p) evs (here (update_attrs tos (add_attribute_nocopy a) p))"
  shows "triple env ((m, dap_ns) # st) (here p) (xml_element ''Attribute'' [(''name'', n), (''type'', ''Container'')] evs)
    (here (update_attrs (ow, is) (add_attribute_nocopy (Attribute n attr_container_c (Some as) [])) p))"
proof -
  let ?c = "Attribute n attr_container_c (Some []) []" and ?k = "length (read_attrs (ow, is) p)"
  let ?p0 = "update_attrs (ow, is) (add_attribute_nocopy ?c) p"
  let ?push = "\<lambda>q. push_attributes (ow, is @ [?k]) (push_state inside_attribute_container q)" and ?fin = "update_attrs (ow, is) (add_attribute_nocopy (Attribute n attr_container_c (Some as) [])) p"
  obtain s ss rest where s: "ps_states p = s # ss" "ps_attrs p = (ow, is) # rest" "valid_ptr (ow, is) p" "ps_char_data p = []"
    using assms(1) by (auto simp: takes_attributes_def)
  note child = child_ptr [OF s(3) refl, where c = ?c]
  have p1: "push_attributes (ow, is @ [?k]) (update_attrs (ow, is) (add_attribute_nocopy ?c) (push_state inside_attribute_container p)) = ?push ?p0"
    by (simp add: push_state_def)
  have t: "takes_attributes (ow, is @ [?k]) (?push ?p0)"
    using s child(1) by (auto simp: takes_attributes_def push_state_def push_attributes_def attr_states_def)
  have "append_attrs (ow, is @ [?k]) as (?push ?p0) = ?push ?fin"
    using child(3) [where f = "\<lambda>x. x @ as"] t
    by (auto simp: append_attrs_update takes_attributes_def push_state_def push_attributes_def)
  then have inner: "triple env ((''Attribute'', dap_ns) # (m, dap_ns) # st) (here (?push ?p0)) evs (here (?push ?fin))"
    using list_triple [OF assms(5) assms(4) t assms(3)] child(2) by (simp add: push_state_def push_attributes_def)
  show ?thesis
  proof (rule triple_element [OF _ attributes_first [OF assms(4)] takes_ignores [OF assms(1)] _ _ inner])
    show "list_all plain_attr [(''name'', n), (''type'', ''Container'')]"
      using assms(2) by (simp add: plain_attr_def text_ok_def starts_with_def)
    show "ignores_blanks (here (?push ?fin))"
      using ignores_blanks_here [of "?push ?fin" inside_attribute_container "s # ss"] s(1) by (simp add: push_state_def push_attributes_def)
  next
    fix q l assume "here p q"
    then show "\<exists>q'. dmr_start_element env ''Attribute'' None dap_ns [] (sax_of [(''name'', n), (''type'', ''Container'')]) (q\<lparr>ps_line := l\<rparr>) = Inr q' \<and> here (?push ?p0) q'"
      using container_started [OF assms(1) refl, of env n l] unfolding p1 by (auto simp: here_def)
  next
    fix q l assume "here (?push ?fin) q"
    then obtain l' x n' t' where q: "q = vary l' x n' t' (?push ?fin)" by (auto simp: here_def)
    have "(vary l x n' t' (?push ?fin))\<lparr>ps_states := s # ss, ps_attrs := (ow, is) # rest\<rparr> = vary l x n' t' ?fin"
      using s(1,2) by (simp add: vary_pop push_state_def push_attributes_def)
    then show "\<exists>q'. dmr_end_element env ''Attribute'' None dap_ns (q\<lparr>ps_line := l\<rparr>) = Inr q' \<and> here ?fin q'"
      using s(1,2) by (auto simp: q here_def push_state_def push_attributes_def
        end_attribute [where s = inside_attribute_container and ss = "s # ss" and a = "(ow, is @ [?k])" and as = "(ow, is) # rest"])
  qed
qed

lemma attribute_triple:
  assumes "attribute_dap4 a = Inr evs" "attr_ok a" "takes_attributes tos p" "a_name a \<notin> a_name ` set (read_attrs tos p)"
  shows "triple env ((m, dap_ns) # st) (here p) evs (here (update_attrs tos (add_attribute_nocopy a) p))"
  using assms
proof (induction a arbitrary: evs tos p m st)
  case (Attribute n t sub vs)
  show ?case
  proof (cases "t = attr_container_c")
    case True
    then obtain as inner where as: "sub = Some as" "vs = []" "attributes_dap4 as = Inr inner" "\<forall>a \<in> set as. attr_ok a" "distinct (map a_name as)" "text_ok n"
      "evs = xml_element ''Attribute'' [(''name'', n), (''type'', ''Container'')] inner"
      using Attribute.prems(1,2) by (auto split: option.splits sum.splits)
    obtain ow "is" where tos: "tos = (ow, is)" by (cases tos)
    show ?thesis unfolding as True tos
      by (rule container_attribute [OF Attribute.prems(3) [unfolded tos] as(6,5,3)])
        (use Attribute.IH as in auto)
  next
    case False
    then have "evs = xml_element ''Attribute'' [(''name'', n), (''type'', D4AttributeTypeToString t)] (print_values vs)"
      using Attribute.prems(1,2) by auto
    then show ?thesis using values_attribute [OF Attribute.prems(3,2) False] Attribute.prems(4) by simp
  qed
qed

text \<open>The attributes of a variable or a group.\<close>

lemma attributes_triple:
  assumes "attributes_dap4 as = Inr evs" "attrs_ok as" "takes_attributes tos p" "read_attrs tos p = []"
  shows "triple env ((m, dap_ns) # st) (here p) evs (here (append_attrs tos as p))"
  using assms by (intro list_triple [OF attribute_triple]) (auto simp: attrs_ok_def)


end
