(* ===== verification/DmrVariables.thy ===== *)
theory DmrVariables
  imports DmrAttributes
begin

text \<open>
  The variables of a document: names that resolve in the groups on the way to the current one, the numbers in XML
  attributes, dimensions and maps of an array, and a variable of any shape, which is read back to where it was declared.
\<close>

section \<open>Numbers and names\<close>

lemma www2id_plain: "CHR ''%'' \<notin> set n \<Longrightarrow> www2id_all junk n = n"
  unfolding www2id_all_def www2id_def
  by (intro replace_loop_no_match) (auto simp: find_from_None starts_in_def split: list.splits dest: in_set_dropD [where n = k for k] dest!: arg_cong [where f = set])

lemma show_nat_no_sign: "take (Suc 0) (show_nat n) \<noteq> ''-''" "take (Suc 0) (show_nat n) \<noteq> ''+''"
proof -
  have "\<forall>c \<in> set (take (Suc 0) (show_nat n)). is_digit c" using show_nat_digits(1) by (auto dest!: in_set_takeD)
  then show "take (Suc 0) (show_nat n) \<noteq> ''-''" "take (Suc 0) (show_nat n) \<noteq> ''+''" by (auto simp: is_digit_def)
qed

lemma strto_10_show: "strto 10 (show_nat n) = (False, n, [])" "strto 10 (CHR ''-'' # show_nat n) = (True, n, [])"
proof -
  have d: "takeWhile (\<lambda>c. digit_val c < 10) (show_nat n) = show_nat n"
    using decimal_show_nat [of n] digit_facts by (auto simp: decimal_def takeWhile_eq_all_conv)
  have sp: "\<not> is_space CHR ''-''" by (simp add: is_space_def)
  show "strto 10 (show_nat n) = (False, n, [])" "strto 10 (CHR ''-'' # show_nat n) = (True, n, [])"
    using sp by (simp_all add: strto_def base_prefix_def d starts_with_def Let_def show_nat_no_sign del: takeWhile_eq_all_conv)
qed

lemma show_nat_no_NUL: "NUL \<notin> set (show_nat n)"
  using show_nat_digits(1) [of NUL n] by (auto simp: is_digit_def)

lemma show_int_no_NUL: "NUL \<notin> set (show_int v)"
  using show_nat_no_NUL by (auto simp: show_int_def)

lemma atoi_show_int: "- (2 ^ 31) \<le> v \<Longrightarrow> v < 2 ^ 31 \<Longrightarrow> atoi (show_int v) = v"
  by (simp add: atoi_def c_str_plain [OF show_int_no_NUL]) (simp add: show_int_def strtol_def strto_10_show clamp_long_def)

lemma get_longlong_show_int:
  assumes "- (2 ^ 63) \<le> v" "v < 2 ^ 63"
  shows "get_longlong (show_int v) = (False, v)"
proof -
  have sp: "\<not> is_space CHR ''-''" by (simp add: is_space_def)
  show ?thesis using assms sp
    by (auto simp: get_longlong_def show_int_def clamp_long_def starts_with_def Let_def show_nat_no_sign simp del: takeWhile_eq_all_conv)
qed

section \<open>Names resolve in the groups on the way\<close>

fun child_names :: "nat list \<Rightarrow> dmr_group \<Rightarrow> string list" where
  "child_names [] g = []" | "child_names (i # is) g = gname (groups g ! i) # child_names is (groups g ! i)"

text \<open>Every group on the way is the first of its name among its siblings.\<close>

fun follows :: "nat list \<Rightarrow> dmr_group \<Rightarrow> bool" where
  "follows [] g = True"
| "follows (i # is) g = (i < length (groups g) \<and> gname (groups g ! i) \<noteq> [] \<and> CHR ''/'' \<notin> set (gname (groups g ! i)) \<and>
     (\<forall>j < i. gname (groups g ! j) \<noteq> gname (groups g ! i)) \<and> follows is (groups g ! i))"

lemma names_at_child: "names_at is g = rev (child_names is g) @ [gname g]"
  by (induction "is" arbitrary: g) auto

lemma find_nth: "i < length xs \<Longrightarrow> P (xs ! i) \<Longrightarrow> \<forall>j < i. \<not> P (xs ! j) \<Longrightarrow> find P xs = Some (xs ! i)"
proof (induction xs arbitrary: i)
  case (Cons x xs)
  show ?case
  proof (cases i)
    case (Suc k)
    have "\<forall>j < k. \<not> P (xs ! j)" using Cons.prems(3) by (auto simp: Suc)
    moreover have "\<not> P x" using Cons.prems(3) by (auto simp: Suc)
    ultimately show ?thesis using Cons.IH [of k] Cons.prems(1,2) by (simp add: Suc)
  qed (use Cons.prems in auto)
qed simp

lemma follows_descends: "follows is g \<Longrightarrow> descends g (child_names is g) (group_at is g)"
proof (induction "is" arbitrary: g)
  case (Cons i "is")
  have "find_child_grp (gname (groups g ! i)) g = Some (groups g ! i)"
    using Cons.prems unfolding find_child_grp_def by (intro find_nth) auto
  then show ?case using Cons by (auto intro: descends.intros)
qed (auto intro: descends.intros)

lemma follows_names: "follows is g \<Longrightarrow> \<forall>p \<in> set (child_names is g). CHR ''/'' \<notin> set p"
  using descends_names [OF follows_descends] by blast

lemma length_child_names [simp]: "length (child_names is g) = length is"
  by (induction "is" arbitrary: g) auto

lemma starts_slash [simp]: "starts_with ''/'' (CHR ''/'' # s)"
  by (simp add: starts_with_def)

lemma dim_resolves:
  assumes "gname root = ''/''" "follows is root" "CHR ''/'' \<notin> set n"
  shows "D4Group_find_dim root (fully_qualified_name n (names_at is root)) = Inr (find_dim n (dims (group_at is root)))"
    "starts_with ''/'' (fully_qualified_name n (names_at is root))"
  using find_path_absolute [OF follows_descends [OF assms(2)] assms(1,3), of "\<lambda>g n. find_dim n (dims g)"] follows_names [OF assms(2)]
  by (simp_all add: D4Group_find_dim_def names_at_child assms(1) fully_qualified_name_path)

text \<open>Enumerations and the sources of maps are found in the root and in its child groups.\<close>

lemma shallow_resolves:
  assumes "gname root = ''/''" "follows is root" "CHR ''/'' \<notin> set n" "length is \<le> 1"
  shows "\<exists>s. FQN (names_at is root) = Inr s \<and> find_shallow leaf root (s @ n) = Inr (leaf (group_at is root) n) \<and>
    s = ''/'' @ relative_path (child_names is root) []"
proof -
  have s: "FQN (names_at is root) = Inr (''/'' @ relative_path (child_names is root) [])"
    using FQN_path [OF follows_names [OF assms(2)]] by (simp add: names_at_child assms(1))
  have "find_shallow leaf root ((''/'' @ relative_path (child_names is root) []) @ n) = Inr (leaf (group_at is root) n)"
  proof (cases "is")
    case Nil
    then show ?thesis using assms(1,3) by (simp add: find_shallow_def local_path_def)
  next
    case (Cons i rest)
    then have r: "rest = []" using assms(4) by simp
    have "find_child_grp (gname (groups root ! i)) root = Some (groups root ! i)"
      using assms(2) unfolding find_child_grp_def Cons r by (intro find_nth) auto
    then show ?thesis using assms(1-3) by (simp add: Cons r find_shallow_def local_path_def)
  qed
  then show ?thesis using s by blast
qed

section \<open>Declarations that a document can carry\<close>

text \<open>
  What is in scope: dimensions by their address, enumerations of the root and its child groups by theirs, and the full
  names of the arrays that may be maps.
\<close>

record scope =
  sc_dims :: "(nat \<times> string list \<times> d4dimension) list"
  sc_enums :: "(nat \<times> string list \<times> d4enumdef) list"
  sc_maps :: "string list"

definition name_ok :: "string \<Rightarrow> bool" where "name_ok s \<longleftrightarrow> s \<noteq> [] \<and> NUL \<notin> set s"

definition base_ok :: "d4base \<Rightarrow> bool" where
  "base_ok b \<longleftrightarrow> b = (BaseType_new (d_name b))\<lparr>d_attributes := d_attributes b\<rparr> \<and> name_ok (d_name b) \<and> attrs_ok (d_attributes b)"

definition dim_declared :: "scope \<Rightarrow> dimension \<Rightarrow> bool" where
  "dim_declared sc d \<longleftrightarrow> (case dm_dim d of
     None \<Rightarrow> d = dimension_of_size (dm_size d) [] \<and> - (2 ^ 31) \<le> dm_size d \<and> dm_size d < 2 ^ 31
   | Some a \<Rightarrow> (case map_of (sc_dims sc) a of None \<Rightarrow> False | Some (ns, dd) \<Rightarrow> d = dimension_of_dim dd))"

definition no_shape :: array_shape where "no_shape = \<lparr>a_length = -1, a_shape = []\<rparr>"

definition map_declared :: "scope \<Rightarrow> d4map \<Rightarrow> bool" where
  "map_declared sc m \<longleftrightarrow> mp_array m \<and> mp_name m \<in> set (sc_maps sc) \<and> NUL \<notin> set (mp_name m)"

definition enum_declared :: "scope \<Rightarrow> nat \<Rightarrow> bool" where
  "enum_declared sc a \<longleftrightarrow> (case map_of (sc_enums sc) a of None \<Rightarrow> False | Some (ns, e) \<Rightarrow> length ns \<le> 2)"

fun decl_ok :: "scope \<Rightarrow> decl \<Rightarrow> bool" where
  "decl_ok sc (Simple_Decl b t e) \<longleftrightarrow> base_ok b \<and> is_simple_type t \<and>
     (if t = dods_enum_c then (case e of None \<Rightarrow> False | Some a \<Rightarrow> enum_declared sc a) else e = None)"
| "decl_ok sc (Constructor_Decl b t vs) \<longleftrightarrow> base_ok b \<and> t \<in> {dods_structure_c, dods_sequence_c} \<and> (\<forall>v \<in> set vs. decl_ok sc v)"
| "decl_ok sc (Array_Decl b p s ms) \<longleftrightarrow> base_ok b \<and> CHR ''%'' \<notin> set (d_name b) \<and>
     decl_type p \<noteq> dods_array_c \<and> decl_base p = BaseType_new (d_name b) \<and> decl_ok sc p \<and>
     (a_shape s \<noteq> [] \<or> ms \<noteq> []) \<and> (\<forall>d \<in> set (a_shape s). dim_declared sc d) \<and>
     s = foldl (\<lambda>s d. append_dimension d s) no_shape (a_shape s) \<and> (\<forall>m \<in> set ms. map_declared sc m)"

text \<open>The tables of the printing agree with the scope, and in the parser everything in scope is found.\<close>

definition tables_agree :: "scope \<Rightarrow> d4enumdef table \<Rightarrow> d4dimension table \<Rightarrow> bool" where
  "tables_agree sc et dt \<longleftrightarrow> (\<forall>a x. map_of (sc_dims sc) a = Some x \<longrightarrow> dt a = Some x) \<and>
     (\<forall>a x. map_of (sc_enums sc) a = Some x \<longrightarrow> et a = Some x)"

definition named_var :: "dmr_group \<Rightarrow> string \<Rightarrow> decl option" where
  "named_var g n = find (\<lambda>v. decl_name v = n) (vars g)"

lemma named_source:
  assumes "find_shallow named_var root n = Inr (Some w)" "decl_type w = dods_array_c" "CHR ''%'' \<notin> set n"
  shows "map_source_found junk root n = Inr True"
proof -
  have leaf: "exact_decls junk m (vars g) = Some w" if "named_var g m = Some w" "CHR ''%'' \<notin> set m" for g m
    using that by (simp add: exact_decls.simps [of junk m] www2id_plain named_var_def)
  obtain p where p: "local_path root n = Inr p" "CHR ''%'' \<notin> set p"
    using assms(1,3) by (cases n) (auto simp: find_shallow_def local_path_def split: if_splits)
  have "CHR ''%'' \<notin> set r" if "split_slash p = Some (a, r)" for a r
  proof -
    have "set (tl xs) \<subseteq> set xs" for xs :: string by (cases xs) auto
    then have "set r \<subseteq> set p" using that set_dropWhileD by (fastforce simp: split_slash_def split: if_splits)
    then show ?thesis using p(2) by blast
  qed
  then have "find_shallow (\<lambda>g n. exact_decls junk n (vars g)) root n = Inr (Some w)"
    using assms(1) p leaf by (auto simp: find_shallow_def split: option.splits prod.splits)
  then show ?thesis using assms(2) by (simp add: map_source_found_def)
qed

definition in_sight :: "scope \<Rightarrow> dmr_group \<Rightarrow> bool" where
  "in_sight sc root \<longleftrightarrow>
     (\<forall>a ns d. map_of (sc_dims sc) a = Some (ns, d) \<longrightarrow> (let s = fully_qualified_name (dd_name d) ns in
        starts_with ''/'' s \<and> NUL \<notin> set s \<and> dd_addr d = a \<and> D4Group_find_dim root s = Inr (Some d))) \<and>
     (\<forall>a ns e. map_of (sc_enums sc) a = Some (ns, e) \<longrightarrow> length ns \<le> 2 \<longrightarrow> (\<exists>s. FQN ns = Inr s \<and> starts_with ''/'' (s @ ed_name e) \<and> NUL \<notin> set (s @ ed_name e) \<and>
        ed_addr e = a \<and> D4Group_find_enum_def root (s @ ed_name e) = Inr (Some e))) \<and>
     (\<forall>n \<in> set (sc_maps sc). starts_with ''/'' n \<and> CHR ''%'' \<notin> set n \<and>
        (\<exists>w. find_shallow named_var root n = Inr (Some w) \<and> decl_type w = dods_array_c))"

section \<open>The variable on the top\<close>

text \<open>A variable has been opened in state \<open>s\<close>; its attributes are those of the variable on the top.\<close>

definition var_open :: "ParseState \<Rightarrow> decl \<Rightarrow> parser \<Rightarrow> parser" where
  "var_open s v p = push_state s (push_attributes (Of_Var (length (ps_btps p)), []) (push_basetype v p))"

lemma open_fields [simp]: "ps_states (var_open s v p) = s # ps_states p" "ps_btps (var_open s v p) = v # ps_btps p"
  "ps_attrs (var_open s v p) = (Of_Var (length (ps_btps p)), []) # ps_attrs p" "ps_groups (var_open s v p) = ps_groups p"
  "ps_char_data (var_open s v p) = ps_char_data p" "ps_strict (var_open s v p) = ps_strict p" "ps_dmr (var_open s v p) = ps_dmr p"
  "the_root (var_open s v p) = the_root p" "top_basetype (var_open s v p) = Inr v"
  by (simp_all add: var_open_def push_state_def push_attributes_def push_basetype_def the_root_def top_basetype_def)

lemma on_top_open [simp]: "on_top f (var_open s v p) = var_open s (f v) p" "on_top f (vary l x n t (var_open s v p)) = vary l x n t (var_open s (f v) p)"
  by (simp_all add: on_top_def var_open_def push_state_def push_attributes_def push_basetype_def vary_def)

definition var_states :: "ParseState set" where "var_states = {inside_simple_type, inside_constructor}"

lemma open_takes: "s \<in> var_states \<Longrightarrow> ps_char_data p = [] \<Longrightarrow> takes_attributes (Of_Var (length (ps_btps p)), []) (var_open s v p)"
  by (auto simp: takes_attributes_def var_states_def attr_states_def valid_ptr_def owner_ok_def)

lemma update_at_nil [simp]: "update_at [] f = f"
  by (rule ext) simp

lemma append_attrs_open: "append_attrs (Of_Var (length (ps_btps p)), []) as (var_open s v p) = var_open s (on_attributes (\<lambda>x. x @ as) v) p"
proof -
  have v: "valid_ptr (Of_Var (length (ps_btps p)), []) (var_open s v p)" by (simp add: valid_ptr_def owner_ok_def)
  have "on_attributes (\<lambda>x. x) v = v" by (cases v) (simp_all add: on_attributes_def set_attributes_nocopy_def decl_attributes_def)
  then show ?thesis unfolding append_attrs_update [OF v]
    by (auto simp: update_attrs_def var_index_def) (simp_all add: var_open_def push_state_def push_attributes_def push_basetype_def)
qed

lemma open_attributes:
  assumes "attributes_dap4 as = Inr evs" "attrs_ok as" "s \<in> var_states" "ps_char_data p = []" "decl_attributes v = []"
  shows "triple env ((m, dap_ns) # st) (here (var_open s v p)) evs (here (var_open s (on_attributes (\<lambda>x. x @ as) v) p))"
  using attributes_triple [OF assms(1,2) open_takes [OF assms(3,4)], of v env m st] assms(5)
  by (simp add: append_attrs_open read_attrs_def var_index_def)

end
