(* ===== verification/DmrDecls.thy ===== *)
theory DmrDecls
  imports DmrVariables
begin

text \<open>
  Dimensions and maps turn the variable on the top into an array; a variable of any shape is read back to where it was
  declared.
\<close>

section \<open>Elements without content\<close>

lemma leaf_triple:
  assumes "list_all plain_attr as" "ps_states p0 = s # ss" "s \<noteq> inside_attribute_value" "s \<noteq> inside_other_xml_attribute"
    and si: "si \<notin> {inside_attribute_value, inside_other_xml_attribute}" and p1: "ps_states p1 = s # ss"
    and start: "\<And>l x n t. dmr_start_element env nm None dap_ns [] (sax_of as) (vary l x n t p0) = Inr (push_state si (vary l (sax_map as) n t p1))"
    and finish: "\<And>q ss. ps_states q = si # ss \<Longrightarrow> dmr_end_element env nm None dap_ns q = Inr (q\<lparr>ps_states := ss\<rparr>)"
  shows "triple env ((m, dap_ns) # st) (here p0) (xml_element nm as []) (here p1)"
proof (rule triple_element [OF assms(1)])
  let ?mid = "push_state si p1"
  have push: "push_state si (vary l x n t q) = vary l x n t (push_state si q)" for l x n t q by (simp add: push_state_def vary_def)
  show "ignores_blanks (here p0)" using ignores_blanks_here [OF assms(2-4)] by simp
  show "ignores_blanks (here ?mid)" using ignores_blanks_here [of ?mid si "s # ss"] si p1 by (simp add: push_state_def)
  show "triple env ((nm, dap_ns) # (m, dap_ns) # st) (here ?mid) [] (here ?mid)" by (rule triple_nil)
  show "\<exists>q'. dmr_start_element env nm None dap_ns [] (sax_of as) (q\<lparr>ps_line := l\<rparr>) = Inr q' \<and> here ?mid q'" if "here p0 q" for q l
    using that start by (auto simp: here_def push) blast
  show "\<exists>q'. dmr_end_element env nm None dap_ns (q\<lparr>ps_line := l\<rparr>) = Inr q' \<and> here p1 q'" if q: "here ?mid q" for q l
  proof -
    obtain l' x n t where q': "q = vary l' x n t ?mid" using q by (auto simp: here_def)
    have st: "ps_states (vary l x n t ?mid) = si # ps_states p1" by (simp add: push_state_def)
    have "(vary l x n t ?mid)\<lparr>ps_states := ps_states p1\<rparr> = vary l x n t p1" by (simp add: push_state_def vary_pop)
    then show ?thesis using finish [OF st] by (auto simp: q' here_def)
  qed
qed simp

section \<open>Dimensions and maps\<close>

definition is_array_decl :: "decl \<Rightarrow> bool" where
  "is_array_decl v \<longleftrightarrow> (case v of Array_Decl _ _ _ _ \<Rightarrow> True | _ \<Rightarrow> False)"

definition proper :: "decl \<Rightarrow> bool" where "proper v \<longleftrightarrow> (decl_vector v \<longleftrightarrow> is_array_decl v)"

definition as_array :: "int \<Rightarrow> decl \<Rightarrow> decl" where
  "as_array junk v = (if is_array_decl v then v else to_array junk v)"

lemma to_array_is: "is_array_decl (to_array junk v)"
  by (cases "decl_name v = []") (simp_all add: to_array_def NewArray_def Vector_add_var_nocopy_def set_attributes_nocopy_def is_array_decl_def decl_name_def)

lemma proper_array: "is_array_decl v \<Longrightarrow> proper v"
  by (cases v) (simp_all add: proper_def is_array_decl_def decl_vector_def is_vector_type_def)

lemma as_array_simps [simp]: "is_array_decl (as_array junk v)" "is_array_decl (on_shape f v) = is_array_decl v"
  "is_array_decl (add_map mp v) = is_array_decl v" "is_array_decl v \<Longrightarrow> as_array junk v = v"
  by (simp_all add: as_array_def to_array_is) (cases v; simp add: is_array_decl_def)+

lemma proper_parts [simp]: "proper (on_shape f (as_array junk v))" "proper (add_map mp (as_array junk v))"
  by (simp_all add: proper_array)

lemma make_top:
  assumes "proper v"
  shows "make_top_array junk (vary l x n t (var_open s v p)) = Inr (vary l x n t (var_open s (as_array junk v) p))"
proof -
  have "top_basetype (vary l x n t (var_open s v p)) = Inr v" by (simp add: top_basetype_def)
  then show ?thesis using assms
    by (simp add: make_top_array_def as_array_def proper_def pop_basetype_def)
       (simp add: var_open_def push_state_def push_attributes_def push_basetype_def vary_def)
qed

lemma push_vary: "push_state s (vary l x n t p) = vary l x n t (push_state s p)"
  by (simp add: push_state_def vary_def)

lemma start_array_part:
  assumes "ps_states q = s # ss" "s \<in> var_states"
  shows "process_dimension env ''Dim'' as q = Inr (True, r) \<Longrightarrow> dmr_start_element env ''Dim'' None dap_ns [] as q = Inr (push_state inside_dim r)"
    "process_map env ''Map'' as q = Inr (True, r) \<Longrightarrow> dmr_start_element env ''Map'' None dap_ns [] as q = Inr (push_state inside_map r)"
  using assms
  by (auto simp: var_states_def dmr_start_element_def get_state_def dap_ns_def only_if_def orelse_def process_attribute_def process_variable_def
      not_a_type is_simple_type_def process_dimension_def)

lemma end_array_part: "ps_states q = inside_dim # ss \<Longrightarrow> dmr_end_element env ''Dim'' None dap_ns q = Inr (q\<lparr>ps_states := ss\<rparr>)"
  "ps_states q = inside_map # ss \<Longrightarrow> dmr_end_element env ''Map'' None dap_ns q = Inr (q\<lparr>ps_states := ss\<rparr>)"
  "ps_states q = inside_enum_const # ss \<Longrightarrow> dmr_end_element env ''EnumConst'' None dap_ns q = Inr (q\<lparr>ps_states := ss\<rparr>)"
  by (simp_all add: dmr_end_element_def get_state_def must_be_fatal_def must_be_def only_if_def pop_state_def)

lemma www2id_nil [simp]: "www2id_all junk [] = []"
  by (rule www2id_plain) simp

lemma dim_processed:
  assumes "proper v" "dim_declared sc d" "tables_agree sc et dt" "in_sight sc (the_root p)" "dim_attr dt False d = Inr a"
  shows "plain_attr a \<and> process_dimension env ''Dim'' (sax_of [a]) (vary l x n t (var_open s v p)) =
    Inr (True, vary l (sax_map [a]) n t (var_open s (on_shape (append_dimension d) (as_array (env_junk env) v)) p))"
proof (cases "dm_dim d")
  case None
  then have d: "d = dimension_of_size (dm_size d) []" "- (2 ^ 31) \<le> dm_size d" "dm_size d < 2 ^ 31" using assms(2) by (auto simp: dim_declared_def)
  then have n: "dm_name d = []" "\<not> use_sdim_for_slice d" by (metis dimension_of_size_def dimension.simps(2), metis dimension_of_size_def dimension.simps(4))
  have a: "a = (''size'', show_int (dm_size d))" using assms(5) None n by (simp add: dim_attr_def)
  have "append_dim (env_junk env) (dm_size d) [] = append_dimension d"
    using d(1) by (intro ext) (simp add: append_dim_def)
  then show ?thesis using make_top [OF assms(1)] atoi_show_int [OF d(2,3)]
    by (simp add: a plain_attr_def show_int_no_NUL starts_with_def process_dimension_def xml_attr_defs on_top_open)
next
  case (Some k)
  obtain ns dd where dd: "map_of (sc_dims sc) k = Some (ns, dd)" "d = dimension_of_dim dd" using assms(2) Some by (auto simp: dim_declared_def split: option.splits)
  let ?s = "fully_qualified_name (dd_name dd) ns"
  have s: "starts_with ''/'' ?s" "NUL \<notin> set ?s" "D4Group_find_dim (the_root p) ?s = Inr (Some dd)" "dt k = Some (ns, dd)"
    using assms(3,4) dd(1) by (auto simp: in_sight_def tables_agree_def Let_def)
  have "?s \<noteq> []" using s(1) by (auto simp: starts_with_def)
  then have a: "a = (''name'', ?s)" using assms(5) Some s(4) by (simp add: dim_attr_def)
  have "append_d4dim dd = append_dimension d" using dd(2) by (intro ext) (simp add: append_d4dim_def)
  then show ?thesis using make_top [OF assms(1)] s
    by (simp add: a plain_attr_def starts_with_def [of "''xml:''"] process_dimension_def xml_attr_defs in_scope_def on_top_open)
qed

lemma dim_triple:
  assumes "s \<in> var_states" "proper v" "dim_declared sc d" "tables_agree sc et dt" "in_sight sc (the_root p)" "print_dim dt False d = Inr evs"
  shows "triple env ((m, dap_ns) # st) (here (var_open s v p)) evs (here (var_open s (on_shape (append_dimension d) (as_array (env_junk env) v)) p))"
proof -
  obtain a where a: "dim_attr dt False d = Inr a" "evs = xml_element ''Dim'' [a] []" using assms(6) by (auto simp: print_dim_def andthen_Inr)
  note pr = dim_processed [OF assms(2-5) a(1)]
  show ?thesis unfolding a(2)
    by (rule leaf_triple [where si = inside_dim and s = s and ss = "ps_states p"])
      (use assms(1) pr start_array_part(1) end_array_part(1) in \<open>auto simp: var_states_def\<close>)
qed

lemma map_triple:
  assumes "s \<in> var_states" "proper v" "map_declared sc d" "in_sight sc (the_root p)"
  shows "triple env ((m, dap_ns) # st) (here (var_open s v p)) (print_map d) (here (var_open s (add_map d (as_array (env_junk env) v)) p))"
proof -
  have d: "mp_array d" "starts_with ''/'' (mp_name d)" "NUL \<notin> set (mp_name d)" "map_source_found (env_junk env) (the_root p) (mp_name d) = Inr True"
    using assms(3,4) named_source by (auto simp: map_declared_def in_sight_def)
  have r: "\<lparr>mp_name = mp_name d, mp_array = True\<rparr> = d" using d(1) by simp
  have pr: "process_map env ''Map'' (sax_of [(''name'', mp_name d)]) (vary l x n t (var_open s v p)) =
      Inr (True, vary l (sax_map [(''name'', mp_name d)]) n t (var_open s (add_map d (as_array (env_junk env) v)) p))" for l x n t
    using make_top [OF assms(2)] d by (simp add: process_map_def xml_attr_defs in_scope_def top_basetype_def r)
  show ?thesis unfolding print_map_def
    by (rule leaf_triple [where si = inside_map and s = s and ss = "ps_states p"])
      (use assms(1) pr d start_array_part(2) end_array_part(2) in \<open>auto simp: var_states_def plain_attr_def starts_with_def [of "''xml:''"]\<close>)
qed

section \<open>Start and end of a variable\<close>

text \<open>Where a variable is added: to a group, or to the structure or sequence on the top.\<close>

definition takes_vars :: "parser \<Rightarrow> bool" where
  "takes_vars p \<longleftrightarrow> ps_char_data p = [] \<and> ps_groups p \<noteq> [] \<and> (case ps_btps p of
     [] \<Rightarrow> (\<exists>ss. ps_states p = inside_dataset # ss \<or> ps_states p = inside_group # ss)
   | v # vs \<Rightarrow> (\<exists>ss b t ms. ps_states p = inside_constructor # ss \<and> v = Constructor_Decl b t ms))"

definition add_decl :: "decl \<Rightarrow> parser \<Rightarrow> parser" where
  "add_decl v p = (case ps_btps p of
     [] \<Rightarrow> on_group (hd (ps_groups p)) (map_vars (\<lambda>vs. vs @ [v])) p
   | c # cs \<Rightarrow> p\<lparr>ps_btps := Constructor_add_var_nocopy v c # cs\<rparr>)"

lemma start_variable:
  assumes "takes_vars p" "ps_states q = ps_states p" "get_type tn \<noteq> dods_null_c" "process_variable tn as q = Inr (True, r)"
  shows "dmr_start_element env tn None dap_ns [] as q = Inr r"
proof -
  have n: "tn \<noteq> ''Enumeration''" "tn \<noteq> ''Dimension''" "tn \<noteq> ''Group''" using assms(3) not_a_type by auto
  show ?thesis using assms n
    by (auto simp: takes_vars_def dmr_start_element_def get_state_def dap_ns_def only_if_def orelse_def process_enum_def_def
        process_dimension_def_def process_group_def split: list.splits)
qed

definition state_of :: "Type \<Rightarrow> ParseState" where
  "state_of t = (if is_simple_type t then inside_simple_type else inside_constructor)"

definition new_decl :: "string \<Rightarrow> Type \<Rightarrow> nat option \<Rightarrow> decl" where
  "new_decl n t e = (if is_simple_type t then Simple_Decl (BaseType_new n) t e else Constructor_Decl (BaseType_new n) t [])"

definition var_type :: "Type \<Rightarrow> bool" where
  "var_type t \<longleftrightarrow> is_simple_type t \<or> t \<in> {dods_structure_c, dods_sequence_c}"

lemma var_type_names: "var_type t \<Longrightarrow> D4type_name t = Inr tn \<Longrightarrow> get_type tn = t \<and> t \<noteq> dods_null_c"
  by (cases t; clarsimp simp: get_type_def type_table_def var_type_def is_simple_type_def)

lemma constructor_names: "t \<in> {dods_structure_c, dods_sequence_c} \<Longrightarrow> D4type_name t = Inr tn \<Longrightarrow> tn = ''Structure'' \<or> tn = ''Sequence''"
  by auto

lemma variable_started:
  assumes "takes_vars p" "var_type t" "D4type_name t = Inr tn" "name_ok n" "tables_agree sc et dt" "in_sight sc (the_root p)"
    and "if t = dods_enum_c then (\<exists>a. e = Some a \<and> enum_declared sc a \<and> andthen (enum_path et e) (\<lambda>s. Inr [(''enum'', s)]) = Inr ea) else e = None \<and> ea = []"
  shows "list_all plain_attr (name_attr n @ ea)" (is ?plain)
    "dmr_start_element env tn None dap_ns [] (sax_of (name_attr n @ ea)) (vary l x an at p) =
       Inr (vary l (sax_map (name_attr n @ ea)) an at (var_open (state_of t) (new_decl n t e) p))" (is ?start)
proof -
  note ty = var_type_names [OF assms(2,3)]
  let ?as = "name_attr n @ ea"
  have n: "n \<noteq> []" "NUL \<notin> set n" using assms(4) by (simp_all add: name_ok_def)
  have pr: "?plain \<and> process_variable tn (sax_of ?as) (vary l x an at p) =
      Inr (True, vary l (sax_map ?as) an at (var_open (state_of t) (new_decl n t e) p))"
  proof (cases "t = dods_enum_c")
    case True
    then obtain a ns d where a: "e = Some a" "map_of (sc_enums sc) a = Some (ns, d)" "length ns \<le> 2" "andthen (enum_path et e) (\<lambda>s. Inr [(''enum'', s)]) = Inr ea"
      using assms(7) True by (auto simp: enum_declared_def split: option.splits)
    obtain s where s: "FQN ns = Inr s" "starts_with ''/'' (s @ ed_name d)" "NUL \<notin> set (s @ ed_name d)" "ed_addr d = a"
      "D4Group_find_enum_def (the_root p) (s @ ed_name d) = Inr (Some d)" "et a = Some (ns, d)"
      using a(2,3) assms(5,6) unfolding in_sight_def tables_agree_def by blast
    have ea: "ea = [(''enum'', s @ ed_name d)]" using a(1,4) s(1,6) by (simp add: enum_path_def)
    have sim: "is_simple_type dods_enum_c" by (simp add: is_simple_type_def)
    show ?thesis using n s ty True sim
      by (simp add: ea name_attr_def plain_attr_def starts_with_def [of "''xml:''"] process_variable_def process_variable_helper_def xml_attr_defs
          NewVariable_def in_scope_def set_enumeration_def a(1) state_of_def new_decl_def)
        (simp add: var_open_def push_state_def push_attributes_def push_basetype_def vary_def)
  next
    case False
    then show ?thesis using assms(2,7) n ty
      by (auto simp: name_attr_def plain_attr_def starts_with_def process_variable_def process_variable_helper_def xml_attr_defs
          NewVariable_def state_of_def new_decl_def var_type_def)
        (simp_all add: var_open_def push_state_def push_attributes_def push_basetype_def vary_def)
  qed
  then show ?plain by blast
  show ?start using pr ty by (intro start_variable [OF assms(1)]) simp_all
qed

lemma variable_ends:
  assumes "takes_vars p" "var_type t" "D4type_name t = Inr tn"
  shows "dmr_end_element env tn None dap_ns (vary l x n at (var_open (state_of t) v p)) = Inr (vary l x n at (add_decl v p))"
proof -
  note ty = var_type_names [OF assms(2,3)]
  have close: "close_variable add tn pop_state (vary l x n at (var_open s v p)) = Inr (vary l x n at (add_decl v p))"
    if "\<And>b t ms. add v (Constructor_Decl b t ms) = Inr (Constructor_add_var_nocopy v (Constructor_Decl b t ms))" for add s
    using assms(1) that
    by (cases p; cases "ps_btps p"; cases "ps_groups p")
      (auto simp: close_variable_def takes_vars_def top_basetype_def pop_basetype_def pop_attributes_def empty_stack_def top_group_def
        on_top_def add_decl_def pop_state_def vary_def var_open_def push_state_def push_attributes_def push_basetype_def on_group_def the_root_def)
  show ?thesis
  proof (cases "is_simple_type t")
    case True
    then have "end_simple_type env tn (vary l x n at (var_open inside_simple_type v p)) = Inr (vary l x n at (add_decl v p))"
      using ty by (simp add: end_simple_type_def close add_to_prototype_def decl_add_var_nocopy_def)
    then show ?thesis using True by (simp add: dmr_end_element_def get_state_def state_of_def)
  next
    case False
    then have n: "(tn \<noteq> ''Structure'' \<and> tn \<noteq> ''Sequence'') = False" using assms(2) constructor_names [OF _ assms(3)] by (simp add: var_type_def)
    have "end_constructor env tn (vary l x n at (var_open inside_constructor v p)) = Inr (vary l x n at (add_decl v p))"
      unfolding end_constructor_def n by (simp add: close decl_add_var_nocopy_def)
    then show ?thesis using False by (simp add: dmr_end_element_def get_state_def state_of_def)
  qed
qed

section \<open>A variable of any shape\<close>

definition starts_element :: "xml_event list \<Rightarrow> bool" where
  "starts_element evs \<longleftrightarrow> evs = [] \<or> (\<exists>n r. evs = StartElement n # r)"

lemma starts_element_simps [simp]: "starts_element []" "starts_element (xml_element n as inner)" "starts_element (xml_element n as inner @ r)"
  "starts_element x \<Longrightarrow> starts_element y \<Longrightarrow> starts_element (x @ y)"
  by (auto simp: starts_element_def xml_element_def)

lemma starts_first: "starts_element evs \<Longrightarrow> no_attr_first (evs @ [EndElement])"
  by (auto simp: starts_element_def no_attr_first_def)

lemma starts_all: "print_all f xs = Inr evs \<Longrightarrow> (\<And>x e. x \<in> set xs \<Longrightarrow> f x = Inr e \<Longrightarrow> starts_element e) \<Longrightarrow> starts_element evs"
  by (induction xs arbitrary: evs) (force simp: andthen_Inr)+

lemma starts_attributes: "attributes_dap4 as = Inr evs \<Longrightarrow> starts_element evs"
proof (induction as arbitrary: evs)
  case (Cons a as)
  then show ?case by (cases a) (auto split: sum.splits if_splits option.splits)
qed simp

lemma starts_decl: "print_decl et dt False v = Inr evs \<Longrightarrow> starts_element evs"
  by (cases v) (auto simp: andthen_Inr)

lemma starts_maps: "starts_element (concat (map print_map ms))"
  by (induction ms) (simp_all add: print_map_def)

lemma decl_element:
  assumes "takes_vars p" "var_type t" "D4type_name t = Inr tn" "name_ok n" "tables_agree sc et dt" "in_sight sc (the_root p)"
    and "if t = dods_enum_c then (\<exists>a. e = Some a \<and> enum_declared sc a \<and> andthen (enum_path et e) (\<lambda>s. Inr [(''enum'', s)]) = Inr ea) else e = None \<and> ea = []"
    and "starts_element inner"
    and "triple env ((tn, dap_ns) # (m, dap_ns) # st) (here (var_open (state_of t) (new_decl n t e) p)) inner (here (var_open (state_of t) v p))"
  shows "triple env ((m, dap_ns) # st) (here p) (xml_element tn (name_attr n @ ea) inner) (here (add_decl v p))"
proof (rule triple_element [OF _ starts_first [OF assms(8)] _ _ _ assms(9)])
  note started = variable_started [OF assms(1-7)]
  show "list_all plain_attr (name_attr n @ ea)" by (rule started(1))
  obtain s ss where "ps_states p = s # ss" "s \<in> {inside_dataset, inside_group, inside_constructor}"
    using assms(1) by (auto simp: takes_vars_def split: list.splits)
  then show "ignores_blanks (here p)" using ignores_blanks_here [of p s ss] by auto
  show "ignores_blanks (here (var_open (state_of t) v p))"
    using ignores_blanks_here [of "var_open (state_of t) v p" "state_of t" "ps_states p"] by (simp add: state_of_def)
  show "\<exists>q'. dmr_start_element env tn None dap_ns [] (sax_of (name_attr n @ ea)) (q\<lparr>ps_line := l\<rparr>) = Inr q' \<and>
      here (var_open (state_of t) (new_decl n t e) p) q'" if "here p q" for q l
    using that started(2) by (auto simp: here_def) blast
  show "\<exists>q'. dmr_end_element env tn None dap_ns (q\<lparr>ps_line := l\<rparr>) = Inr q' \<and> here (add_decl v p) q'" if "here (var_open (state_of t) v p) q" for q l
    using that variable_ends [OF assms(1-3)] by (auto simp: here_def) blast
qed

text \<open>The parts of an array, in the order they are written.\<close>

definition with_dims :: "int \<Rightarrow> dimension list \<Rightarrow> decl \<Rightarrow> decl" where
  "with_dims junk ds v = foldl (\<lambda>v d. on_shape (append_dimension d) (as_array junk v)) v ds"

definition with_maps :: "int \<Rightarrow> d4map list \<Rightarrow> decl \<Rightarrow> decl" where
  "with_maps junk ms v = foldl (\<lambda>v m. add_map m (as_array junk v)) v ms"

lemma dims_triple:
  assumes "s \<in> var_states" "proper v" "\<forall>d \<in> set ds. dim_declared sc d" "tables_agree sc et dt" "in_sight sc (the_root p)"
    and "print_all (print_dim dt False) ds = Inr evs"
  shows "triple env ((m, dap_ns) # st) (here (var_open s v p)) evs (here (var_open s (with_dims (env_junk env) ds v) p))"
  using assms(2,3,6)
proof (induction ds arbitrary: v evs)
  case Nil
  then show ?case by (auto simp: with_dims_def intro: triple_nil)
next
  case (Cons d ds)
  obtain x y where e: "print_dim dt False d = Inr x" "print_all (print_dim dt False) ds = Inr y" "evs = x @ y"
    using Cons.prems(3) by (auto simp: andthen_Inr)
  show ?case unfolding e(3) with_dims_def foldl.simps
    using Cons.prems(2) Cons.IH [OF _ _ e(2), unfolded with_dims_def]
    by (intro triple_append [OF dim_triple [OF assms(1) Cons.prems(1) _ assms(4,5) e(1)]]) simp_all
qed

lemma maps_triple:
  assumes "s \<in> var_states" "proper v" "\<forall>m \<in> set ms. map_declared sc m" "in_sight sc (the_root p)"
  shows "triple env ((m, dap_ns) # st) (here (var_open s v p)) (concat (map print_map ms)) (here (var_open s (with_maps (env_junk env) ms v) p))"
  using assms(2,3)
proof (induction ms arbitrary: v)
  case Nil
  then show ?case by (auto simp: with_maps_def intro: triple_nil)
next
  case (Cons d ms)
  show ?case unfolding with_maps_def foldl.simps list.map concat.simps
    using Cons.prems(2) Cons.IH [unfolded with_maps_def]
    by (intro triple_append [OF map_triple [OF assms(1) Cons.prems(1) _ assms(4)]]) simp_all
qed

lemma base_facts: "d_name (BaseType_new n) = n" "d_attributes (BaseType_new n) = []" "(BaseType_new n)\<lparr>d_name := n\<rparr> = BaseType_new n"
  "(BaseType_new n)\<lparr>d_attributes := as, d_attributes := bs\<rparr> = (BaseType_new n)\<lparr>d_attributes := bs\<rparr>"
  "(BaseType_new n)\<lparr>d_attributes := []\<rparr> = BaseType_new n" "d_name ((BaseType_new n)\<lparr>d_attributes := as\<rparr>) = n"
  "d_attributes ((BaseType_new n)\<lparr>d_attributes := as\<rparr>) = as"
  by (simp_all add: BaseType_new_def make_scalar_def scalar.defs d4base.defs)

lemma map_base_simps [simp]: "decl_base (map_base f v) = f (decl_base v)" "map_base f (map_base g v) = map_base (\<lambda>b. f (g b)) v"
  "is_array_decl (map_base f v) = is_array_decl v"
  by (cases v; simp add: is_array_decl_def)+

lemma map_base_id: "f (decl_base v) = decl_base v \<Longrightarrow> map_base f v = v"
  by (cases v) simp_all

lemma set_name_simple: "\<not> is_array_decl v \<Longrightarrow> decl_set_name junk n v = map_base (\<lambda>b. b\<lparr>d_name := www2id_all junk n\<rparr>) v"
  by (cases v) (simp_all add: is_array_decl_def)

lemma to_array_new:
  assumes "decl_base v = (BaseType_new n)\<lparr>d_attributes := as\<rparr>" "\<not> is_array_decl v" "n \<noteq> []" "CHR ''%'' \<notin> set n"
  shows "to_array junk v = Array_Decl ((BaseType_new n)\<lparr>d_attributes := as\<rparr>) (set_attributes_nocopy [] v) no_shape []"
proof -
  have n: "decl_name v = n" "decl_attributes v = as" using assms(1) by (simp_all add: decl_name_def decl_attributes_def base_facts)
  let ?w = "set_attributes_nocopy [] v"
  have w: "decl_base ?w = BaseType_new n" "\<not> is_array_decl ?w" using assms(1,2) by (simp_all add: set_attributes_nocopy_def base_facts)
  have "decl_set_name junk n ?w = ?w"
    unfolding set_name_simple [OF w(2)] by (intro map_base_id) (simp add: w(1) www2id_plain [OF assms(4)] base_facts)
  then show ?thesis using w(1) assms(3)
    by (simp add: to_array_def NewArray_def Vector_add_var_nocopy_def decl_name_def n assms(1) www2id_plain [OF assms(4)] base_facts no_shape_def)
      (simp add: set_attributes_nocopy_def)
qed

lemma with_dims_array: "with_dims junk ds (Array_Decl b v s ms) = Array_Decl b v (foldl (\<lambda>s d. append_dimension d s) s ds) ms"
  by (induction ds arbitrary: s) (simp_all add: with_dims_def as_array_def is_array_decl_def)

lemma with_maps_array: "with_maps junk ks (Array_Decl b v s ms) = Array_Decl b v s (ms @ ks)"
  by (induction ks arbitrary: ms) (simp_all add: with_maps_def as_array_def is_array_decl_def)

lemma array_built:
  assumes "decl_base v = BaseType_new n" "\<not> is_array_decl v" "n \<noteq> []" "CHR ''%'' \<notin> set n" "ds \<noteq> [] \<or> ms \<noteq> []"
  shows "with_maps junk ms (on_attributes (\<lambda>x. x @ as) (with_dims junk ds v)) =
    Array_Decl ((BaseType_new n)\<lparr>d_attributes := as\<rparr>) v (foldl (\<lambda>s d. append_dimension d s) no_shape ds) ms"
proof -
  have v: "decl_base v = (BaseType_new n)\<lparr>d_attributes := []\<rparr>" "set_attributes_nocopy [] v = v"
    using assms(1) map_base_id [of "\<lambda>b. b\<lparr>d_attributes := []\<rparr>" v] by (simp_all add: base_facts set_attributes_nocopy_def)
  show ?thesis
  proof (cases ds)
    case (Cons d ds')
    have "with_dims junk ds v = Array_Decl (BaseType_new n) v (foldl (\<lambda>s d. append_dimension d s) no_shape ds) []"
      using with_dims_array to_array_new [OF v(1) assms(2-4)] assms(2) v(2) by (simp add: Cons with_dims_def as_array_def base_facts)
    then show ?thesis by (simp add: on_attributes_def set_attributes_nocopy_def decl_attributes_def base_facts with_maps_array)
  next
    case Nil
    then obtain m ms' where m: "ms = m # ms'" using assms(5) by (cases ms) auto
    let ?w = "on_attributes (\<lambda>x. x @ as) v"
    have w: "decl_base ?w = (BaseType_new n)\<lparr>d_attributes := as\<rparr>" "\<not> is_array_decl ?w" "set_attributes_nocopy [] ?w = v"
      using assms(1,2) v(2) by (simp_all add: on_attributes_def set_attributes_nocopy_def decl_attributes_def base_facts)
    show ?thesis using with_maps_array to_array_new [OF w(1,2) assms(3,4)] w
      by (simp add: Nil m with_dims_def with_maps_def as_array_def)
  qed
qed

lemma attributes_added: "v = map_base (\<lambda>b. b\<lparr>d_attributes := as\<rparr>) w \<Longrightarrow> decl_attributes w = [] \<Longrightarrow> on_attributes (\<lambda>x. x @ as) w = v"
  by (simp add: on_attributes_def set_attributes_nocopy_def)

text \<open>The members of a structure, when each of them is read back.\<close>

definition reads_back :: "environment \<Rightarrow> scope \<Rightarrow> d4enumdef table \<Rightarrow> d4dimension table \<Rightarrow> decl \<Rightarrow> bool" where
  "reads_back env sc et dt v \<longleftrightarrow> (\<forall>evs p m st. print_decl et dt False v = Inr evs \<longrightarrow> decl_ok sc v \<longrightarrow> takes_vars p \<longrightarrow>
     in_sight sc (the_root p) \<longrightarrow> triple env ((m, dap_ns) # st) (here p) evs (here (add_decl v p)))"

lemma members_triple:
  assumes "\<forall>v \<in> set vs. reads_back env sc et dt v" "\<forall>v \<in> set vs. decl_ok sc v" "print_all (print_decl et dt False) vs = Inr evs"
    and "ps_char_data p = []" "ps_groups p \<noteq> []" "in_sight sc (the_root p)"
  shows "triple env ((m, dap_ns) # st) (here (var_open inside_constructor (Constructor_Decl b t ms) p)) evs
    (here (var_open inside_constructor (Constructor_Decl b t (ms @ vs)) p))"
  using assms(1-3)
proof (induction vs arbitrary: ms evs)
  case Nil
  then show ?case by (auto intro: triple_nil)
next
  case (Cons v vs)
  obtain x y where e: "print_decl et dt False v = Inr x" "print_all (print_decl et dt False) vs = Inr y" "evs = x @ y"
    using Cons.prems(3) by (auto simp: andthen_Inr)
  let ?p = "var_open inside_constructor (Constructor_Decl b t ms) p"
  have t: "takes_vars ?p" using assms(4,5) by (simp add: takes_vars_def)
  have a: "add_decl v ?p = var_open inside_constructor (Constructor_Decl b t (ms @ [v])) p"
    by (simp add: add_decl_def Constructor_add_var_nocopy_def) (simp add: var_open_def push_state_def push_attributes_def push_basetype_def)
  have "triple env ((m, dap_ns) # st) (here ?p) x (here (add_decl v ?p))"
    using Cons.prems(1,2) e(1) t assms(6) by (simp add: reads_back_def)
  moreover have "triple env ((m, dap_ns) # st) (here (add_decl v ?p)) y (here (var_open inside_constructor (Constructor_Decl b t (ms @ v # vs)) p))"
    using Cons.IH [OF _ _ e(2), of "ms @ [v]"] Cons.prems(1,2) by (simp add: a)
  ultimately show ?case unfolding e(3) by (rule triple_append)
qed

lemma base_is: "base_ok b \<Longrightarrow> b = (BaseType_new (d_name b))\<lparr>d_attributes := d_attributes b\<rparr> \<and> name_ok (d_name b) \<and> attrs_ok (d_attributes b)"
  by (simp add: base_ok_def)

lemma takes_facts: "takes_vars p \<Longrightarrow> ps_char_data p = [] \<and> ps_groups p \<noteq> []"
  by (simp add: takes_vars_def)

lemma simple_reads_back:
  assumes "tables_agree sc et dt"
  shows "reads_back env sc et dt (Simple_Decl b t e)"
  unfolding reads_back_def
proof (intro allI impI)
  fix evs p m st
  assume a: "print_decl et dt False (Simple_Decl b t e) = Inr evs" "decl_ok sc (Simple_Decl b t e)" "takes_vars p" "in_sight sc (the_root p)"
  obtain tn ea as where e: "D4type_name t = Inr tn" "enum_attr et (Simple_Decl b t e) = Inr ea" "attributes_dap4 (d_attributes b) = Inr as"
    "evs = xml_element tn (name_attr (d_name b) @ ea) as" using a(1) by (auto simp: andthen_Inr)
  have b: "b = (BaseType_new (d_name b))\<lparr>d_attributes := d_attributes b\<rparr>" "name_ok (d_name b)" "attrs_ok (d_attributes b)" "is_simple_type t"
    using a(2) base_is [of b] by auto
  have s: "state_of t = inside_simple_type" "new_decl (d_name b) t e = Simple_Decl (BaseType_new (d_name b)) t e" using b(4) by (simp_all add: state_of_def new_decl_def)
  have v: "on_attributes (\<lambda>x. x @ d_attributes b) (Simple_Decl (BaseType_new (d_name b)) t e) = Simple_Decl b t e"
    using b(1) by (intro attributes_added) (simp_all add: decl_attributes_def base_facts)
  have "triple env ((tn, dap_ns) # (m, dap_ns) # st) (here (var_open inside_simple_type (Simple_Decl (BaseType_new (d_name b)) t e) p)) as
      (here (var_open inside_simple_type (Simple_Decl b t e) p))"
    using open_attributes [OF e(3) b(3), of inside_simple_type p "Simple_Decl (BaseType_new (d_name b)) t e"] takes_facts [OF a(3)]
    by (simp add: v var_states_def decl_attributes_def base_facts)
  then show "triple env ((m, dap_ns) # st) (here p) evs (here (add_decl (Simple_Decl b t e) p))"
    unfolding e(4) using a(2,3,4) e(1,2) b assms s starts_attributes [OF e(3)]
    by (intro decl_element [where e = e and sc = sc and et = et and dt = dt])
      (auto simp: var_type_def enum_attr_def split: if_splits option.splits)
qed

lemma constructor_type: "t \<in> {dods_structure_c, dods_sequence_c} \<Longrightarrow>
    \<not> is_simple_type t \<and> t \<noteq> dods_enum_c \<and> var_type t \<and> state_of t = inside_constructor \<and> new_decl n t e = Constructor_Decl (BaseType_new n) t []"
  by (auto simp: is_simple_type_def var_type_def state_of_def new_decl_def)

lemma constructor_reads_back:
  assumes "tables_agree sc et dt" "\<forall>v \<in> set vs. reads_back env sc et dt v"
  shows "reads_back env sc et dt (Constructor_Decl b t vs)"
  unfolding reads_back_def
proof (intro allI impI)
  fix evs p m st
  assume a: "print_decl et dt False (Constructor_Decl b t vs) = Inr evs" "decl_ok sc (Constructor_Decl b t vs)" "takes_vars p" "in_sight sc (the_root p)"
  let ?n = "d_name b"
  obtain tn ms as where e: "D4type_name t = Inr tn" "print_all (print_decl et dt False) vs = Inr ms" "attributes_dap4 (d_attributes b) = Inr as"
    "evs = xml_element tn (name_attr ?n) (ms @ as)" using a(1) by (auto simp: andthen_Inr)
  have b: "b = (BaseType_new ?n)\<lparr>d_attributes := d_attributes b\<rparr>" "name_ok ?n" "attrs_ok (d_attributes b)" "t \<in> {dods_structure_c, dods_sequence_c}"
    "\<forall>v \<in> set vs. decl_ok sc v" using a(2) base_is [of b] by auto
  have s: "\<not> is_simple_type t" "t \<noteq> dods_enum_c" "var_type t" "state_of t = inside_constructor" "new_decl ?n t None = Constructor_Decl (BaseType_new ?n) t []"
    using constructor_type [OF b(4)] by auto
  have v: "on_attributes (\<lambda>x. x @ d_attributes b) (Constructor_Decl (BaseType_new ?n) t vs) = Constructor_Decl b t vs"
    using b(1) by (intro attributes_added) (simp_all add: decl_attributes_def base_facts)
  have "triple env ((tn, dap_ns) # (m, dap_ns) # st) (here (var_open inside_constructor (Constructor_Decl (BaseType_new ?n) t []) p)) ms
      (here (var_open inside_constructor (Constructor_Decl (BaseType_new ?n) t vs) p))"
    using members_triple [OF assms(2) b(5) e(2), where ms = "[]"] takes_facts [OF a(3)] a(4) by simp
  then have "triple env ((tn, dap_ns) # (m, dap_ns) # st) (here (var_open inside_constructor (Constructor_Decl (BaseType_new ?n) t []) p)) (ms @ as)
      (here (var_open inside_constructor (Constructor_Decl b t vs) p))"
    using open_attributes [OF e(3) b(3), of inside_constructor p "Constructor_Decl (BaseType_new ?n) t vs"] takes_facts [OF a(3)]
    by (elim triple_append) (simp add: v var_states_def decl_attributes_def base_facts)
  then show "triple env ((m, dap_ns) # st) (here p) evs (here (add_decl (Constructor_Decl b t vs) p))"
    unfolding e(4) using a(3,4) e(1) b(2) assms(1) s starts_attributes [OF e(3)] starts_all [OF e(2) starts_decl]
      decl_element [where e = None and sc = sc and et = et and dt = dt and ea = "[]" and n = ?n and inner = "ms @ as"]
    by simp
qed

text \<open>The prototype of an array before the dimensions are read: the variable with its members.\<close>

lemma prototype_facts:
  assumes "decl_ok sc v" "decl_type v \<noteq> dods_array_c" "decl_base v = BaseType_new n"
  shows "\<exists>t e. decl_type v = t \<and> var_type t \<and> \<not> is_array_decl v \<and> proper v \<and> (case v of Simple_Decl b' t' e' \<Rightarrow> e = e' \<and> new_decl n t e = v |
    Constructor_Decl b' t' vs \<Rightarrow> e = None \<and> new_decl n t e = Constructor_Decl (BaseType_new n) t [] | _ \<Rightarrow> False)"
proof (cases v)
  case (Simple_Decl b t e)
  have "\<not> is_vector_type t" using assms(1) by (cases t) (simp_all add: Simple_Decl is_simple_type_def is_vector_type_def)
  then show ?thesis using assms
    by (simp add: Simple_Decl var_type_def new_decl_def is_array_decl_def proper_def decl_vector_def)
next
  case (Constructor_Decl b t vs)
  have "\<not> is_vector_type t" using assms(1) by (auto simp: Constructor_Decl is_vector_type_def)
  then show ?thesis using assms constructor_type [of t]
    by (simp add: Constructor_Decl is_array_decl_def proper_def decl_vector_def)
qed (use assms in simp)

lemma state_of_var [simp]: "state_of t \<in> var_states"
  by (simp add: state_of_def var_states_def)

lemma prototype_triple:
  assumes "decl_ok sc q" "decl_type q \<noteq> dods_array_c" "decl_base q = BaseType_new n" "\<forall>w \<in> set (decl_members q). reads_back env sc et dt w"
    and "(case q of Constructor_Decl b' t vs \<Rightarrow> print_all (print_decl et dt False) vs | _ \<Rightarrow> Inr []) = Inr ms"
    and "ps_char_data p = []" "ps_groups p \<noteq> []" "in_sight sc (the_root p)"
    and "case q of Simple_Decl b' t' e' \<Rightarrow> e = e' | _ \<Rightarrow> True"
  shows "triple env ((m, dap_ns) # st) (here (var_open (state_of (decl_type q)) (new_decl n (decl_type q) e) p)) ms (here (var_open (state_of (decl_type q)) q p))"
proof (cases q)
  case (Simple_Decl b t e')
  then have "ms = []" "new_decl n t e = q" using assms by (auto simp: new_decl_def)
  then show ?thesis by (auto simp: Simple_Decl intro: triple_nil)
next
  case (Constructor_Decl b t vs)
  then have "t \<in> {dods_structure_c, dods_sequence_c}" "b = BaseType_new n" using assms(1,3) by auto
  then show ?thesis
    using members_triple [of vs env sc et dt ms p m st b t "[]"] assms(1,4-8) constructor_type [of t n e] by (auto simp: Constructor_Decl)
qed (use assms(2) in simp)

lemma with_dims_attributes: "decl_base q = BaseType_new n \<Longrightarrow> \<not> is_array_decl q \<Longrightarrow> n \<noteq> [] \<Longrightarrow> CHR ''%'' \<notin> set n \<Longrightarrow> decl_attributes (with_dims junk ds q) = []"
proof (cases ds)
  case (Cons d ds')
  assume a: "decl_base q = BaseType_new n" "\<not> is_array_decl q" "n \<noteq> []" "CHR ''%'' \<notin> set n"
  have "to_array junk q = Array_Decl (BaseType_new n) (set_attributes_nocopy [] q) no_shape []"
    using to_array_new [where v = q and n = n and as = "[]"] a by (simp add: base_facts)
  then show ?thesis using a(2) with_dims_array
    by (simp add: Cons with_dims_def as_array_def decl_attributes_def base_facts)
qed (simp add: with_dims_def decl_attributes_def base_facts)

lemma with_dims_proper: "proper q \<Longrightarrow> proper (with_dims junk ds q)"
  by (induction ds arbitrary: q) (simp_all add: with_dims_def)

lemma array_reads_back:
  assumes "tables_agree sc et dt" "\<forall>w \<in> set (decl_members q). reads_back env sc et dt w"
  shows "reads_back env sc et dt (Array_Decl b q s maps)"
  unfolding reads_back_def
proof (intro allI impI)
  fix evs p and m :: string and st :: "(string \<times> string option) list"
  assume a: "print_decl et dt False (Array_Decl b q s maps) = Inr evs" "decl_ok sc (Array_Decl b q s maps)" "takes_vars p" "in_sight sc (the_root p)"
  let ?n = "d_name b" and ?t = "decl_type q" and ?ds = "a_shape s" and ?j = "env_junk env"
  let ?o = "\<lambda>v. here (var_open (state_of ?t) v p)" and ?st = "\<lambda>tn. (tn, dap_ns) # (m, dap_ns) # st"
  obtain tn ea ms ds as where pr: "D4type_name ?t = Inr tn" "enum_attr et q = Inr ea"
    "(case q of Constructor_Decl b' t vs \<Rightarrow> print_all (print_decl et dt False) vs | _ \<Rightarrow> Inr []) = Inr ms"
    "print_all (print_dim dt False) ?ds = Inr ds" "attributes_dap4 (d_attributes b) = Inr as"
    "evs = xml_element tn (name_attr ?n @ ea) (ms @ ds @ as @ concat (map print_map maps))" using a(1) by (auto simp: andthen_Inr)
  have b: "b = (BaseType_new ?n)\<lparr>d_attributes := d_attributes b\<rparr>" "name_ok ?n" "attrs_ok (d_attributes b)" "CHR ''%'' \<notin> set ?n" "?t \<noteq> dods_array_c"
    "decl_base q = BaseType_new ?n" "decl_ok sc q" "?ds \<noteq> [] \<or> maps \<noteq> []" "\<forall>d \<in> set ?ds. dim_declared sc d"
    "s = foldl (\<lambda>s d. append_dimension d s) no_shape ?ds" "\<forall>m \<in> set maps. map_declared sc m"
    using a(2) base_is [of b] by auto
  have n: "?n \<noteq> []" using b(2) by (simp add: name_ok_def)
  have q: "var_type ?t" "\<not> is_array_decl q" "proper q" using prototype_facts [OF b(7,5,6)] by auto
  define e where "e = (case q of Simple_Decl b' t' e' \<Rightarrow> e' | _ \<Rightarrow> None)"
  let ?v1 = "with_dims ?j ?ds q" let ?v2 = "on_attributes (\<lambda>x. x @ d_attributes b) ?v1"
  have v1: "proper ?v1" "decl_attributes ?v1 = []" using with_dims_proper [OF q(3)] with_dims_attributes [OF b(6) q(2) n b(4)] by auto
  have v2: "proper ?v2" using v1(1) by (cases ?v1) (simp_all add: proper_def on_attributes_def set_attributes_nocopy_def is_array_decl_def decl_vector_def)
  have built: "with_maps ?j maps ?v2 = Array_Decl b q s maps" using array_built [OF b(6) q(2) n b(4,8)] b(1,10) by simp
  note tk = takes_facts [OF a(3)]
  have "triple env (?st tn) (?o (new_decl ?n ?t e)) ms (?o q)"
    using b(5-7) assms(2) pr(3) tk a(4) by (intro prototype_triple) (auto simp: e_def split: decl.splits)
  moreover have "triple env (?st tn) (?o q) ds (?o ?v1)" by (rule dims_triple [OF _ q(3) b(9) assms(1) a(4) pr(4)]) simp
  moreover have "triple env (?st tn) (?o ?v1) as (?o ?v2)" using tk v1(2) by (intro open_attributes [OF pr(5) b(3)]) simp_all
  moreover have "triple env (?st tn) (?o ?v2) (concat (map print_map maps)) (?o (Array_Decl b q s maps))"
    using maps_triple [OF _ v2 b(11) a(4), where env = env] by (simp add: built)
  ultimately have "triple env (?st tn) (?o (new_decl ?n ?t e)) (ms @ ds @ as @ concat (map print_map maps)) (?o (Array_Decl b q s maps))"
    by (intro triple_append)
  moreover have "starts_element (ms @ ds @ as @ concat (map print_map maps))"
    using pr(3) by (intro starts_element_simps(4) starts_maps starts_attributes [OF pr(5)] starts_all [OF pr(4)])
      (auto simp: print_dim_def andthen_Inr split: decl.splits intro: starts_all starts_decl)
  moreover have "if ?t = dods_enum_c then \<exists>a. e = Some a \<and> enum_declared sc a \<and> andthen (enum_path et e) (\<lambda>s. Inr [(''enum'', s)]) = Inr ea else e = None \<and> ea = []"
    using b(5,7) pr(2) by (cases q) (auto simp: e_def enum_attr_def split: option.splits if_splits)
  ultimately show "triple env ((m, dap_ns) # st) (here p) evs (here (add_decl (Array_Decl b q s maps) p))"
    unfolding pr(6) using decl_element [OF a(3) q(1) pr(1) b(2) assms(1) a(4)] by blast
qed

lemma decl_reads_back:
  assumes "tables_agree sc et dt"
  shows "reads_back env sc et dt v \<and> (\<forall>w \<in> set (decl_members v). reads_back env sc et dt w)"
proof (induction v)
  case (Array_Decl b q s ms)
  then show ?case using array_reads_back [OF assms] by simp
qed (use simple_reads_back [OF assms] constructor_reads_back [OF assms] in auto)

lemmas decl_triple = decl_reads_back [THEN conjunct1, unfolded reads_back_def, rule_format]

end
