(* ===== verification/DmrScope.thy ===== *)
theory DmrScope
  imports DmrDecls
begin

text \<open>
  Groups while a document is read: they grow, and what is found in them stays found.  Which documents can be carried is
  decided by a walk in the order of the document, which numbers the objects and collects what is in scope.
\<close>

section \<open>Groups grow\<close>

inductive grows_to :: "dmr_group \<Rightarrow> dmr_group \<Rightarrow> bool" where
  grow: "d_name b = d_name b' \<Longrightarrow> list_all2 grows_to gs hs \<Longrightarrow>
    grows_to (Group b ds es vs gs) (Group b' (ds @ ds') (es @ es') (vs @ vs') (hs @ hs'))"
  monos list_all2_mono

lemma grows_to_refl: "grows_to g g"
proof (induction g)
  case (Group b ds es vs gs)
  have "list_all2 grows_to gs gs" using Group by (simp add: list_all2_same)
  from grow [OF refl this, where ds = ds and ds' = "[]" and es = es and es' = "[]" and vs = vs and vs' = "[]" and hs' = "[]"] show ?case by simp
qed

lemma grows_parts: "grows_to g h \<Longrightarrow> gname g = gname h \<and> (\<exists>ds es vs gs hs. dims h = dims g @ ds \<and> enum_defs h = enum_defs g @ es \<and>
    vars h = vars g @ vs \<and> groups h = gs @ hs \<and> list_all2 grows_to (groups g) gs)"
  by (cases rule: grows_to.cases, assumption) auto

lemma found_before: "find P xs = Some x \<Longrightarrow> find P (xs @ ys) = Some x"
  by (induction xs) (auto split: if_splits)

lemma find_grows: "list_all2 grows_to gs hs \<Longrightarrow> find (\<lambda>h. gname h = n) gs = Some g \<Longrightarrow> \<exists>h. find (\<lambda>h. gname h = n) hs = Some h \<and> grows_to g h"
  by (induction rule: list_all2_induct) (auto dest: grows_parts split: if_splits)

lemma child_grows: "grows_to g h \<Longrightarrow> find_child_grp n g = Some c \<Longrightarrow> \<exists>k. find_child_grp n h = Some k \<and> grows_to c k"
proof -
  assume a: "grows_to g h" "find_child_grp n g = Some c"
  obtain gs hs where h: "groups h = gs @ hs" "list_all2 grows_to (groups g) gs" using grows_parts [OF a(1)] by blast
  obtain k where "find (\<lambda>h. gname h = n) gs = Some k" "grows_to c k" using find_grows [OF h(2)] a(2) unfolding find_child_grp_def by blast
  then show ?thesis using found_before [of "\<lambda>h. gname h = n" gs k hs] by (auto simp: find_child_grp_def h(1))
qed

lemma local_path_grows: "grows_to g h \<Longrightarrow> local_path h p = local_path g p"
  using grows_parts [of g h] by (simp add: local_path_def)

lemma find_path_grows:
  assumes "\<And>g h n x. grows_to g h \<Longrightarrow> leaf g n = Some x \<Longrightarrow> leaf h n = Some x"
  shows "grows_to g h \<Longrightarrow> find_path leaf g s = Inr (Some x) \<Longrightarrow> find_path leaf h s = Inr (Some x)"
proof (induction "length s" arbitrary: g h s rule: less_induct)
  case less
  obtain p where p: "local_path g s = Inr p" using less.prems(2) by (auto simp: find_path.simps [of leaf g] split: sum.splits)
  show ?case
  proof (cases "split_slash p")
    case None
    then show ?thesis using less.prems assms by (simp add: find_path.simps [of leaf g] find_path.simps [of leaf h] p local_path_grows [OF less.prems(1)])
  next
    case (Some nr)
    obtain n r where nr: "nr = (n, r)" by (cases nr)
    have len: "length r < length s" using split_slash_shorter [OF Some [unfolded nr]] local_path_length [OF p] by simp
    obtain c where c: "find_child_grp n g = Some c" "find_path leaf c r = Inr (Some x)"
      using less.prems(2) Some by (auto simp: find_path.simps [of leaf g] p nr split: option.splits)
    obtain k where "find_child_grp n h = Some k" "grows_to c k" using child_grows [OF less.prems(1) c(1)] by blast
    then show ?thesis using Some less.hyps [OF len _ c(2)] by (simp add: find_path.simps [of leaf h] p nr local_path_grows [OF less.prems(1)])
  qed
qed

lemma find_shallow_grows:
  assumes "\<And>g h n x. grows_to g h \<Longrightarrow> leaf g n = Some x \<Longrightarrow> leaf h n = Some x" "grows_to g h" "find_shallow leaf g s = Inr (Some x)"
  shows "find_shallow leaf h s = Inr (Some x)"
  using assms child_grows [OF assms(2)] by (fastforce simp: find_shallow_def local_path_grows split: sum.splits option.splits prod.splits)

lemma leaves_grow: "grows_to g h \<Longrightarrow> find_dim n (dims g) = Some d \<Longrightarrow> find_dim n (dims h) = Some d"
  "grows_to g h \<Longrightarrow> find_enum_def n (enum_defs g) = Some e \<Longrightarrow> find_enum_def n (enum_defs h) = Some e"
  "grows_to g h \<Longrightarrow> named_var g n = Some v \<Longrightarrow> named_var h n = Some v"
  using grows_parts [of g h] found_before by (auto simp: find_dim_def find_enum_def_def named_var_def)

lemma lookups_grow:
  "grows_to g h \<Longrightarrow> D4Group_find_dim g s = Inr (Some d) \<Longrightarrow> D4Group_find_dim h s = Inr (Some d)"
  "grows_to g h \<Longrightarrow> D4Group_find_enum_def g s = Inr (Some e) \<Longrightarrow> D4Group_find_enum_def h s = Inr (Some e)"
  "grows_to g h \<Longrightarrow> find_shallow named_var g s = Inr (Some v) \<Longrightarrow> find_shallow named_var h s = Inr (Some v)"
  unfolding D4Group_find_dim_def D4Group_find_enum_def_def
  by (erule (1) find_path_grows [rotated], erule (1) leaves_grow) (erule find_shallow_grows [rotated], assumption, erule (1) leaves_grow)+

lemma in_sight_grows: "in_sight sc g \<Longrightarrow> grows_to g h \<Longrightarrow> in_sight sc h"
  unfolding in_sight_def Let_def using lookups_grow [of g h] by blast

lemma update_group_grows: "valid_path path r \<Longrightarrow> grows_to (f (group_at path r)) (h (group_at path r)) \<Longrightarrow>
    grows_to (update_group path f r) (update_group path h r)"
proof (induction path arbitrary: r)
  case (Cons i path)
  obtain b ds es vs gs where r: "r = Group b ds es vs gs" by (cases r)
  have "grows_to (update_group path f (gs ! i)) (update_group path h (gs ! i))" using Cons by (simp add: r)
  then have "list_all2 grows_to (gs[i := update_group path f (gs ! i)]) (gs[i := update_group path h (gs ! i)])"
    using Cons.prems by (auto simp: list_all2_conv_all_nth nth_list_update grows_to_refl r)
  from grow [OF refl this, where ds = ds and ds' = "[]" and es = es and es' = "[]" and vs = vs and vs' = "[]" and hs' = "[]"] show ?case by (simp add: r)
qed simp

section \<open>The walk over a document\<close>

text \<open>Dimensions and enumerations are numbered in the order of the document.\<close>

definition label_ok :: "string \<Rightarrow> bool" where
  "label_ok n \<longleftrightarrow> CHR ''/'' \<notin> set n \<and> NUL \<notin> set n"

fun dims_ok :: "nat \<Rightarrow> d4dimension list \<Rightarrow> bool" where
  "dims_ok k [] \<longleftrightarrow> True"
| "dims_ok k (d # ds) \<longleftrightarrow> d = D4Dimension k (dd_name d) (dd_size d) \<and> label_ok (dd_name d) \<and> dims_ok (k + 1) ds"

definition enum_ok :: "nat \<Rightarrow> d4enumdef \<Rightarrow> bool" where
  "enum_ok k e \<longleftrightarrow> e = (D4EnumDef k (ed_name e) (ed_type e))\<lparr>ed_tuples := ed_tuples e\<rparr> \<and> is_integer_type (ed_type e) \<and> label_ok (ed_name e) \<and>
     (\<forall>(n, v) \<in> set (ed_tuples e). NUL \<notin> set n \<and> is_valid_enum_value v e)"

fun enums_ok :: "nat \<Rightarrow> d4enumdef list \<Rightarrow> bool" where
  "enums_ok k [] \<longleftrightarrow> True" | "enums_ok k (e # es) \<longleftrightarrow> enum_ok k e \<and> enums_ok (k + 1) es"

definition scope_dims :: "string list \<Rightarrow> d4dimension list \<Rightarrow> scope \<Rightarrow> scope" where
  "scope_dims ns ds sc = sc\<lparr>sc_dims := sc_dims sc @ map (\<lambda>d. (dd_addr d, ns, d)) ds\<rparr>"

definition scope_enums :: "string list \<Rightarrow> d4enumdef list \<Rightarrow> scope \<Rightarrow> scope" where
  "scope_enums ns es sc = sc\<lparr>sc_enums := sc_enums sc @ map (\<lambda>e. (ed_addr e, ns, e)) es\<rparr>"

text \<open>Arrays of the root and of its child groups can be maps of what follows.\<close>

definition scope_var :: "string list \<Rightarrow> decl \<Rightarrow> scope \<Rightarrow> scope" where
  "scope_var ns v sc = (let n = fully_qualified_name (decl_name v) ns in
     if decl_type v = dods_array_c \<and> length ns \<le> 2 \<and> CHR ''/'' \<notin> set (decl_name v) \<and> CHR ''%'' \<notin> set n
     then sc\<lparr>sc_maps := sc_maps sc @ [n]\<rparr> else sc)"

fun vars_ok :: "string list \<Rightarrow> decl list \<Rightarrow> scope \<Rightarrow> scope option" where
  "vars_ok ns [] sc = Some sc"
| "vars_ok ns (v # vs) sc = (if decl_ok sc v then vars_ok ns vs (scope_var ns v sc) else None)"

fun group_ok :: "string list \<Rightarrow> dmr_group \<Rightarrow> scope \<Rightarrow> nat \<Rightarrow> (scope \<times> nat) option"
  and groups_ok :: "string list \<Rightarrow> dmr_group list \<Rightarrow> scope \<Rightarrow> nat \<Rightarrow> (scope \<times> nat) option" where
  "group_ok ns (Group b ds es vs gs) sc k =
     (let ms = d_name b # ns; sc1 = scope_enums ms es (scope_dims ms ds sc) in
      if base_ok b \<and> dims_ok k ds \<and> enums_ok (k + length ds) es \<and> distinct (map dd_name ds) \<and> distinct (map ed_name es) \<and>
         distinct (map decl_name vs) \<and> distinct (map gname gs)
      then (case vars_ok ms vs sc1 of None \<Rightarrow> None | Some sc2 \<Rightarrow> groups_ok ms gs sc2 (k + length ds + length es)) else None)"
| "groups_ok ns [] sc k = Some (sc, k)"
| "groups_ok ns (g # gs) sc k =
     (if CHR ''/'' \<in> set (gname g) then None
      else case group_ok ns g sc k of None \<Rightarrow> None | Some (sc1, k1) \<Rightarrow> groups_ok ns gs sc1 k1)"

section \<open>What the walk has collected is in sight\<close>

definition path_ok :: "nat list \<Rightarrow> dmr_group \<Rightarrow> bool" where
  "path_ok path r \<longleftrightarrow> gname r = ''/'' \<and> follows path r \<and> (\<forall>p \<in> set (child_names path r). NUL \<notin> set p)"

lemma follows_valid: "follows path r \<Longrightarrow> valid_path path r"
  by (induction path arbitrary: r) auto

lemma full_name:
  assumes "path_ok path r" "label_ok n"
  shows "fully_qualified_name n (names_at path r) = ''/'' @ relative_path (child_names path r) n" "NUL \<notin> set (fully_qualified_name n (names_at path r))"
proof -
  show e: "fully_qualified_name n (names_at path r) = ''/'' @ relative_path (child_names path r) n"
    using assms follows_names [of path r] by (simp add: path_ok_def names_at_child fully_qualified_name_path)
  show "NUL \<notin> set (fully_qualified_name n (names_at path r))"
    using assms by (auto simp: e relative_path_def path_ok_def label_ok_def)
qed

lemma dims_ok_members: "dims_ok k ds \<Longrightarrow> d \<in> set ds \<Longrightarrow> label_ok (dd_name d)"
  by (induction ds arbitrary: k) auto

lemma enums_ok_members: "enums_ok k es \<Longrightarrow> e \<in> set es \<Longrightarrow> label_ok (ed_name e)"
  by (induction es arbitrary: k) (auto simp: enum_ok_def)

lemma find_distinct: "distinct (map f xs) \<Longrightarrow> x \<in> set xs \<Longrightarrow> find (\<lambda>y. f y = f x) xs = Some x"
  by (induction xs) (auto simp: rev_image_eqI)

lemma map_of_added: "map_of (xs @ map (\<lambda>d. (f d, ns, d)) ds) a = Some (ms, d) \<Longrightarrow>
    map_of xs a = Some (ms, d) \<or> (ms = ns \<and> d \<in> set ds \<and> f d = a)"
  by (auto simp: map_add_def split: option.splits dest!: map_of_SomeD)

lemma in_sight_dims:
  assumes "in_sight sc r" "path_ok path r" "dims (group_at path r) = ds" "dims_ok k ds" "distinct (map dd_name ds)"
  shows "in_sight (scope_dims (names_at path r) ds sc) r"
proof -
  have new: "let s = fully_qualified_name (dd_name d) (names_at path r) in
      starts_with ''/'' s \<and> NUL \<notin> set s \<and> D4Group_find_dim r s = Inr (Some d)" if "d \<in> set ds" for d
  proof -
    have l: "label_ok (dd_name d)" using dims_ok_members [OF assms(4) that] .
    have "D4Group_find_dim r (fully_qualified_name (dd_name d) (names_at path r)) = Inr (find_dim (dd_name d) ds)"
      using dim_resolves(1) [of r path] assms(2,3) l by (simp add: path_ok_def label_ok_def)
    then show ?thesis using full_name [OF assms(2) l] find_distinct [OF assms(5) that] by (simp add: find_dim_def)
  qed
  show ?thesis using assms(1) new unfolding in_sight_def Let_def scope_dims_def
    by (auto simp del: map_of_append dest!: map_of_added)
qed

lemma shallow_name:
  assumes "path_ok path r" "label_ok n" "length path \<le> 1"
  shows "FQN (names_at path r) = Inr (''/'' @ relative_path (child_names path r) []) \<and>
    find_shallow leaf r (fully_qualified_name n (names_at path r)) = Inr (leaf (group_at path r) n) \<and>
    fully_qualified_name n (names_at path r) = (''/'' @ relative_path (child_names path r) []) @ n"
  using shallow_resolves [of r path n leaf] full_name [OF assms(1,2)] assms by (auto simp: path_ok_def label_ok_def relative_path_def)

lemma length_names_at [simp]: "length (names_at path r) = Suc (length path)"
  by (induction path arbitrary: r) auto

lemma in_sight_enums:
  assumes "in_sight sc r" "path_ok path r" "enum_defs (group_at path r) = es" "enums_ok k es" "distinct (map ed_name es)"
  shows "in_sight (scope_enums (names_at path r) es sc) r"
proof -
  have new: "\<exists>s. FQN (names_at path r) = Inr s \<and> starts_with ''/'' (s @ ed_name e) \<and> NUL \<notin> set (s @ ed_name e) \<and>
      D4Group_find_enum_def r (s @ ed_name e) = Inr (Some e)" if "e \<in> set es" "length (names_at path r) \<le> 2" for e
  proof -
    have l: "label_ok (ed_name e)" using enums_ok_members [OF assms(4) that(1)] .
    note sh = shallow_name [OF assms(2) l, of "\<lambda>g n. find_enum_def n (enum_defs g)"]
    show ?thesis
      by (rule exI [of _ "''/'' @ relative_path (child_names path r) []"])
        (use sh full_name(2) [OF assms(2) l] find_distinct [OF assms(5) that(1)] that(2) assms(3) in \<open>auto simp: find_enum_def_def D4Group_find_enum_def_def\<close>)
  qed
  show ?thesis using assms(1) new unfolding in_sight_def Let_def scope_enums_def
    by (auto simp del: map_of_append dest!: map_of_added)
qed

lemma in_sight_var:
  assumes "in_sight sc r" "path_ok path r" "v \<in> set (vars (group_at path r))" "distinct (map decl_name (vars (group_at path r)))" "NUL \<notin> set (decl_name v)"
  shows "in_sight (scope_var (names_at path r) v sc) r"
proof -
  let ?n = "fully_qualified_name (decl_name v) (names_at path r)"
  have "starts_with ''/'' ?n \<and> find_shallow named_var r ?n = Inr (Some v)" if "CHR ''/'' \<notin> set (decl_name v)" "length (names_at path r) \<le> 2"
  proof -
    have nv: "named_var (group_at path r) (decl_name v) = Some v" using find_distinct [OF assms(4,3)] by (simp add: named_var_def)
    have l: "label_ok (decl_name v)" "length path \<le> 1" using assms(5) that by (simp_all add: label_ok_def)
    from shallow_name [OF assms(2) l, of named_var] show ?thesis unfolding nv by (metis append_Cons append_Nil starts_slash)
  qed
  then show ?thesis using assms(1) by (auto simp: in_sight_def Let_def scope_var_def)
qed

end
