(* ===== verification/DmrGroups.thy ===== *)
theory DmrGroups
  imports DmrScope
begin

text \<open>
  The contents of a group are read back: dimensions, enumerations, variables, attributes and the groups inside, each where
  it was declared, with addresses in the order of the document.
\<close>

section \<open>The tables of the printing\<close>

lemma tables_agree_less:
  assumes "tables_agree sc' et dt" "sc_dims sc' = sc_dims sc @ xs" "sc_enums sc' = sc_enums sc @ ys"
  shows "tables_agree sc et dt"
  using assms unfolding tables_agree_def by simp

lemma vars_ok_tables: "vars_ok ns vs sc = Some sc' \<Longrightarrow> sc_dims sc' = sc_dims sc \<and> sc_enums sc' = sc_enums sc"
  by (induction vs arbitrary: sc) (auto simp: scope_var_def Let_def split: if_splits)

lemma group_ok_tables:
  "group_ok ns g sc k = Some (sc', k') \<Longrightarrow> sc_dims sc' = sc_dims sc @ dim_table ns g \<and> sc_enums sc' = sc_enums sc @ enum_table ns g"
  "groups_ok ns gs sc k = Some (sc', k') \<Longrightarrow> sc_dims sc' = sc_dims sc @ concat (map (dim_table ns) gs) \<and>
     sc_enums sc' = sc_enums sc @ concat (map (enum_table ns) gs)"
proof (induction ns g sc k and ns gs sc k arbitrary: sc' k' and sc' k' rule: group_ok_groups_ok.induct)
  case (1 ns b ds es vs gs sc k)
  let ?ms = "d_name b # ns" and ?c = "base_ok b \<and> dims_ok k ds \<and> enums_ok (k + length ds) es \<and> distinct (map dd_name ds) \<and> distinct (map ed_name es) \<and>
    distinct (map decl_name vs) \<and> distinct (map gname gs)"
  have c: ?c using 1(2) by (auto simp: Let_def split: if_splits)
  obtain sc2 where v: "vars_ok ?ms vs (scope_enums ?ms es (scope_dims ?ms ds sc)) = Some sc2"
    "groups_ok ?ms gs sc2 (k + length ds + length es) = Some (sc', k')" using 1(2) c by (auto simp: Let_def split: option.splits)
  show ?case using 1(1) [OF refl refl c v] vars_ok_tables [OF v(1)] by (simp add: scope_dims_def scope_enums_def)
next
  case (3 ns g gs sc k)
  obtain sc1 k1 where g: "CHR ''/'' \<notin> set (gname g)" "group_ok ns g sc k = Some (sc1, k1)" "groups_ok ns gs sc1 k1 = Some (sc', k')"
    using 3(3) by (auto split: if_splits option.splits prod.splits)
  show ?case using 3(1) [OF g(1,2)] 3(2) [OF g(1,2) refl g(3)] by simp
qed simp

section \<open>A group that is being read\<close>

text \<open>The parser \<open>p\<close> with \<open>g\<close> in place of the group at a path, and the next address.\<close>

definition holding :: "nat list \<Rightarrow> dmr_group \<Rightarrow> nat \<Rightarrow> parser \<Rightarrow> parser" where
  "holding path g k p = (on_group path (\<lambda>_. g) p)\<lparr>ps_next := k\<rparr>"

definition sits :: "nat list \<Rightarrow> parser \<Rightarrow> bool" where
  "sits path p \<longleftrightarrow> ps_btps p = [] \<and> ps_char_data p = [] \<and> (\<exists>rest. ps_groups p = path # rest) \<and> ps_enum_def p = None \<and>
     ps_dim_def p = None \<and> (\<exists>s ss. ps_states p = s # ss \<and> s \<in> {inside_dataset, inside_group}) \<and> path_ok path (the_root p)"

lemma holding_fields [simp]: "ps_states (holding path g k p) = ps_states p" "ps_btps (holding path g k p) = ps_btps p"
  "ps_groups (holding path g k p) = ps_groups p" "ps_char_data (holding path g k p) = ps_char_data p" "ps_next (holding path g k p) = k"
  "ps_enum_def (holding path g k p) = ps_enum_def p" "ps_dim_def (holding path g k p) = ps_dim_def p" "ps_attrs (holding path g k p) = ps_attrs p"
  "the_root (holding path g k p) = update_group path (\<lambda>_. g) (the_root p)"
  by (simp_all add: holding_def on_group_def the_root_def root_of_def)

lemma names_update: "gname g = gname (group_at path r) \<Longrightarrow> gname (update_group path (\<lambda>_. g) r) = gname r"
  by (cases path; cases r) simp_all

lemma child_names_update: "valid_path path r \<Longrightarrow> gname g = gname (group_at path r) \<Longrightarrow> child_names path (update_group path (\<lambda>_. g) r) = child_names path r"
proof (induction path arbitrary: r)
  case (Cons i path)
  then show ?case by (cases r) (simp add: names_update)
qed simp

lemma follows_update: "follows path r \<Longrightarrow> gname g = gname (group_at path r) \<Longrightarrow> follows path (update_group path (\<lambda>_. g) r)"
proof (induction path arbitrary: r)
  case (Cons i path)
  then show ?case by (cases r) (simp add: names_update)
qed simp

lemma path_ok_update: "path_ok path r \<Longrightarrow> gname g = gname (group_at path r) \<Longrightarrow> path_ok path (update_group path (\<lambda>_. g) r)"
  by (simp add: path_ok_def names_update child_names_update follows_valid follows_update)

lemma names_at_update: "path_ok path r \<Longrightarrow> gname g = gname (group_at path r) \<Longrightarrow> names_at path (update_group path (\<lambda>_. g) r) = names_at path r"
  by (simp add: names_at_child child_names_update names_update path_ok_def follows_valid)

lemma sits_valid [simp]: "sits path p \<Longrightarrow> valid_path path (the_root p)"
  by (simp add: sits_def path_ok_def follows_valid)

lemma sits_holding: "sits path p \<Longrightarrow> gname g = gname (group_at path (the_root p)) \<Longrightarrow> sits path (holding path g k p)"
  by (simp add: sits_def path_ok_update)

lemma holding_change: "on_group path f (holding path g k p) = holding path (f g) k p" "holding path g k (holding path h j p) = holding path g k p"
  "(holding path g k p)\<lparr>ps_next := j\<rparr> = holding path g j p"
  by (simp_all add: holding_def on_group_def the_root_def root_of_def)

lemma holding_top [simp]: "sits path p \<Longrightarrow> top_group (vary l x n t (holding path g k p)) = Inr path"
  by (auto simp: sits_def top_group_def)

lemma sits_state: "sits path p \<Longrightarrow> \<exists>s ss. ps_states p = s # ss \<and> (s = inside_dataset \<or> s = inside_group)"
  by (auto simp: sits_def)

lemma leaf_triple2:
  assumes "list_all plain_attr as" "ps_states p0 = s # ss" "s \<in> {inside_dataset, inside_group}"
    and pm: "ps_states pm = si # ss'" "si \<notin> {inside_attribute_value, inside_other_xml_attribute}"
    and start: "\<And>l x n t. dmr_start_element env nm None dap_ns [] (sax_of as) (vary l x n t p0) = Inr (vary l (sax_map as) n t pm)"
    and finish: "\<And>l x n t. dmr_end_element env nm None dap_ns (vary l x n t pm') = Inr (vary l x n t p1)"
    and inner: "starts_element inner" "triple env ((nm, dap_ns) # (m, dap_ns) # st) (here pm) inner (here pm')" "ps_states pm' = si # ss'"
  shows "triple env ((m, dap_ns) # st) (here p0) (xml_element nm as inner) (here p1)"
proof (rule triple_element [OF assms(1) starts_first [OF inner(1)] _ _ _ inner(2)])
  show "ignores_blanks (here p0)" using ignores_blanks_here [OF assms(2)] assms(3) by auto
  show "ignores_blanks (here pm')" using ignores_blanks_here [OF inner(3)] pm(2) by simp
  show "\<exists>q'. dmr_start_element env nm None dap_ns [] (sax_of as) (q\<lparr>ps_line := l\<rparr>) = Inr q' \<and> here pm q'" if "here p0 q" for q l
    using that start by (auto simp: here_def) blast
  show "\<exists>q'. dmr_end_element env nm None dap_ns (q\<lparr>ps_line := l\<rparr>) = Inr q' \<and> here p1 q'" if "here pm' q" for q l
    using that finish by (auto simp: here_def) blast
qed

section \<open>Dimensions\<close>

lemma get_ulong_show: "get_ulong (show_nat (unat (n :: u64))) = (False, n, [])"
proof -
  have "unat n < 2 ^ LENGTH(64)" by (rule unsigned_less)
  then show ?thesis
    by (auto simp: get_ulong_def Let_def starts_with_def show_nat_no_sign simp del: takeWhile_eq_all_conv)
qed

lemma dimension_triple:
  assumes "sits path p" "NUL \<notin> set n" "gname (Group b ds es vs gs) = gname (group_at path (the_root p))"
  shows "triple env ((m, dap_ns) # st) (here (holding path (Group b ds es vs gs) k p))
    (xml_element ''Dimension'' [(''name'', n), (''size'', show_nat (unat sz))] [])
    (here (holding path (Group b (ds @ [D4Dimension k n sz]) es vs gs) (k + 1) p))"
proof -
  obtain s ss where s: "ps_states p = s # ss" "s = inside_dataset \<or> s = inside_group" using sits_state [OF assms(1)] by blast
  let ?as = "[(''name'', n), (''size'', show_nat (unat sz))]" and ?g = "Group b ds es vs gs"
  let ?pm = "push_state inside_dim_def ((holding path ?g (k + 1) p)\<lparr>ps_dim_def := Some (D4Dimension k n sz)\<rparr>)"
  have nd: "ps_dim_def p = None" using assms(1) by (simp add: sits_def)
  have "process_dimension_def ''Dimension'' (sax_of ?as) (vary l x a t (holding path ?g k p)) =
      Inr (True, vary l (sax_map ?as) a t ((holding path ?g (k + 1) p)\<lparr>ps_dim_def := Some (D4Dimension k n sz)\<rparr>))" for l x a t
    using nd by (simp add: process_dimension_def_def xml_attr_defs dim_def_def set_size_text_def get_ulong_show set_size_def D4Dimension_def Let_def)
      (simp add: holding_def vary_def)
  then have start: "dmr_start_element env ''Dimension'' None dap_ns [] (sax_of ?as) (vary l x a t (holding path ?g k p)) = Inr (vary l (sax_map ?as) a t ?pm)" for l x a t
    using s by (auto simp: dmr_start_element_def get_state_def dap_ns_def only_if_def orelse_def process_enum_def_def push_vary)
  have fin: "((on_group path f (vary l x a t ((push_state inside_dim_def (q\<lparr>ps_dim_def := d\<rparr>)))))\<lparr>ps_dim_def := None, ps_states := ps_states q\<rparr>) =
      vary l x a t (on_group path f q)" if "ps_dim_def q = None" for l x a t f q d
    using that by (cases q) (simp add: vary_def push_state_def on_group_def the_root_def)
  have "dmr_end_element env ''Dimension'' None dap_ns (vary l x a t ?pm) = Inr (vary l x a t (holding path (Group b (ds @ [D4Dimension k n sz]) es vs gs) (k + 1) p))" for l x a t
  proof -
    have tg: "top_group (vary l x a t ?pm) = Inr path" using assms(1) by (auto simp: sits_def top_group_def push_state_def)
    have st: "ps_states (on_group path f (vary l x a t ?pm)) = inside_dim_def # ps_states (holding path ?g (k + 1) p)" for f by (simp add: on_group_def push_state_def)
    show ?thesis using tg fin [of "holding path ?g (k + 1) p"] nd st
      by (simp add: dmr_end_element_def get_state_def end_dim_def_def must_be_def only_if_def dim_def_def pop_state_def push_state_def holding_change add_dim_nocopy_def)
  qed
  then show ?thesis
    using start s assms(2) show_nat_no_NUL
    by (intro leaf_triple2 [where pm = ?pm and pm' = ?pm and si = inside_dim_def and ss' = "ps_states p" and s = s and ss = ss])
      (auto simp: plain_attr_def starts_with_def push_state_def intro: triple_nil)
qed

lemma starts_dims: "print_all print_dimension ds = Inr evs \<Longrightarrow> starts_element evs"
  by (rule starts_all) (auto simp: print_dimension_def split: if_splits)

lemma dims_read:
  assumes "sits path p" "d_name b = gname (group_at path (the_root p))" "dims_ok k ds" "print_all print_dimension ds = Inr evs"
  shows "triple env ((m, dap_ns) # st) (here (holding path (Group b ds0 es vs gs) k p)) evs
    (here (holding path (Group b (ds0 @ ds) es vs gs) (k + length ds) p))"
  using assms(3,4)
proof (induction ds arbitrary: ds0 k evs)
  case Nil
  then show ?case by (auto intro: triple_nil)
next
  case (Cons d ds)
  obtain x y where e: "print_dimension d = Inr x" "print_all print_dimension ds = Inr y" "evs = x @ y"
    using Cons.prems(2) by (auto simp: andthen_Inr)
  have d: "d = D4Dimension k (dd_name d) (dd_size d)" "NUL \<notin> set (dd_name d)" "dims_ok (k + 1) ds" using Cons.prems(1) by (simp_all add: label_ok_def)
  then have "\<not> dd_constrained d" by (metis D4Dimension_def d4dimension.select_convs(4))
  then have x: "x = xml_element ''Dimension'' [(''name'', dd_name d), (''size'', show_nat (unat (dd_size d)))] []" using e(1) by (simp add: print_dimension_def)
  have "triple env ((m, dap_ns) # st) (here (holding path (Group b ds0 es vs gs) k p)) x (here (holding path (Group b (ds0 @ [d]) es vs gs) (k + 1) p))"
    unfolding x using dimension_triple [OF assms(1) d(2), of b ds0 es vs gs env m st k "dd_size d"] assms(2) d(1) by simp
  then show ?case unfolding e(3)
    using Cons.IH [OF d(3) e(2), of "ds0 @ [d]"] by (elim triple_append) simp
qed

section \<open>Enumerations\<close>

lemma integer_names: "is_integer_type t \<Longrightarrow> D4type_name t = Inr tn \<Longrightarrow> get_type tn = t \<and> NUL \<notin> set tn"
  by (cases t; clarsimp simp: get_type_def type_table_def is_integer_type_def)

lemma const_triple:
  assumes "NUL \<notin> set n" "is_valid_enum_value v e"
  shows "triple env ((m, dap_ns) # st) (here (push_state inside_enum_def (q\<lparr>ps_enum_def := Some e\<rparr>))) (print_value (n, v))
    (here (push_state inside_enum_def (q\<lparr>ps_enum_def := Some (add_value n v e)\<rparr>)))"
proof -
  let ?as = "[(''name'', n), (''value'', show_int (sint v))]" and ?p = "\<lambda>e. push_state inside_enum_def (q\<lparr>ps_enum_def := Some e\<rparr>)"
  have v: "get_longlong (show_int (sint v)) = (False, sint v)" "of_int (sint v) = v"
    using sint_ge [of v] sint_lt [of v] by (simp_all add: get_longlong_show_int)
  have "process_enum_const ''EnumConst'' (sax_of ?as) (vary l x a t (?p e)) = Inr (True, vary l (sax_map ?as) a t (?p (add_value n v e)))" for l x a t
    using assms(2) by (simp add: process_enum_const_def xml_attr_defs v enum_def_def push_state_def) (simp add: vary_def)
  then have "dmr_start_element env ''EnumConst'' None dap_ns [] (sax_of ?as) (vary l x a t (?p e)) =
      Inr (push_state inside_enum_const (vary l (sax_map ?as) a t (?p (add_value n v e))))" for l x a t
    by (simp add: dmr_start_element_def get_state_def dap_ns_def only_if_def orelse_def push_state_def)
  then show ?thesis unfolding print_value_def fst_conv snd_conv
    using assms(1) end_array_part(3) show_int_no_NUL
    by (intro leaf_triple [where si = inside_enum_const and s = inside_enum_def and ss = "ps_states q"])
      (auto simp: plain_attr_def starts_with_def push_state_def)
qed

lemma consts_triple:
  assumes "\<forall>(n, v) \<in> set tvs. NUL \<notin> set n \<and> is_valid_enum_value v e"
  shows "triple env ((m, dap_ns) # st) (here (push_state inside_enum_def (q\<lparr>ps_enum_def := Some e\<rparr>))) (concat (map print_value tvs))
    (here (push_state inside_enum_def (q\<lparr>ps_enum_def := Some (e\<lparr>ed_tuples := ed_tuples e @ tvs\<rparr>)\<rparr>)))"
  using assms
proof (induction tvs arbitrary: e)
  case Nil
  then show ?case by (auto intro: triple_nil)
next
  case (Cons tv tvs)
  obtain n v where tv: "tv = (n, v)" by (cases tv)
  have "is_valid_enum_value w (add_value n v e) = is_valid_enum_value w e" for w
    by (simp add: add_value_def is_valid_enum_value_def)
  then have "triple env ((m, dap_ns) # st) (here (push_state inside_enum_def (q\<lparr>ps_enum_def := Some (add_value n v e)\<rparr>))) (concat (map print_value tvs))
      (here (push_state inside_enum_def (q\<lparr>ps_enum_def := Some (e\<lparr>ed_tuples := ed_tuples e @ tv # tvs\<rparr>)\<rparr>)))"
    using Cons.IH [of "add_value n v e"] Cons.prems by (simp add: add_value_def tv)
  then show ?case using Cons.prems unfolding list.map concat.simps tv
    by (intro triple_append [OF const_triple]) (auto simp: tv)
qed

lemma enum_triple:
  assumes "sits path p" "enum_ok k e" "print_enum e = Inr evs"
  shows "triple env ((m, dap_ns) # st) (here (holding path (Group b ds es vs gs) k p)) evs (here (holding path (Group b ds (es @ [e]) vs gs) (k + 1) p))"
proof -
  obtain s ss where s: "ps_states p = s # ss" "s = inside_dataset \<or> s = inside_group" using sits_state [OF assms(1)] by blast
  obtain tn where tn: "D4type_name (ed_type e) = Inr tn" "evs = xml_element ''Enumeration'' [(''name'', ed_name e), (''basetype'', tn)] (concat (map print_value (ed_tuples e)))"
    using assms(3) by (auto simp: print_enum_def andthen_Inr)
  have e: "e = (D4EnumDef k (ed_name e) (ed_type e))\<lparr>ed_tuples := ed_tuples e\<rparr>" "is_integer_type (ed_type e)" "label_ok (ed_name e)"
    "\<forall>(n, v) \<in> set (ed_tuples e). NUL \<notin> set n \<and> is_valid_enum_value v (D4EnumDef k (ed_name e) (ed_type e))"
    using assms(2) by (auto simp: enum_ok_def is_valid_enum_value_def D4EnumDef_def)
  note ty = integer_names [OF e(2) tn(1)]
  let ?as = "[(''name'', ed_name e), (''basetype'', tn)]" and ?g = "Group b ds es vs gs"
  let ?pm = "\<lambda>e. push_state inside_enum_def ((holding path ?g (k + 1) p)\<lparr>ps_enum_def := Some e\<rparr>)"
  let ?e0 = "D4EnumDef k (ed_name e) (ed_type e)"
  have nd: "ps_enum_def p = None" using assms(1) by (simp add: sits_def)
  have "process_enum_def ''Enumeration'' (sax_of ?as) (vary l x a t (holding path ?g k p)) =
      Inr (True, vary l (sax_map ?as) a t ((holding path ?g (k + 1) p)\<lparr>ps_enum_def := Some ?e0\<rparr>))" for l x a t
    using nd ty e(2) by (simp add: process_enum_def_def xml_attr_defs enum_def_def D4EnumDef_def Let_def) (simp add: holding_def vary_def)
  then have start: "dmr_start_element env ''Enumeration'' None dap_ns [] (sax_of ?as) (vary l x a t (holding path ?g k p)) = Inr (vary l (sax_map ?as) a t (?pm ?e0))" for l x a t
    using s by (auto simp: dmr_start_element_def get_state_def dap_ns_def only_if_def orelse_def push_vary)
  have fin: "((on_group path f (vary l x a t ((push_state inside_enum_def (q\<lparr>ps_enum_def := d\<rparr>)))))\<lparr>ps_enum_def := None, ps_states := ps_states q\<rparr>) =
      vary l x a t (on_group path f q)" if "ps_enum_def q = None" for l x a t f q d
    using that by (cases q) (simp add: vary_def push_state_def on_group_def the_root_def)
  have finish: "dmr_end_element env ''Enumeration'' None dap_ns (vary l x a t (?pm e)) = Inr (vary l x a t (holding path (Group b ds (es @ [e]) vs gs) (k + 1) p))" for l x a t
  proof -
    have tg: "top_group (vary l x a t (?pm e)) = Inr path" using assms(1) by (auto simp: sits_def top_group_def push_state_def)
    have st: "ps_states (on_group path f (vary l x a t (?pm e))) = inside_enum_def # ps_states (holding path ?g (k + 1) p)" for f by (simp add: on_group_def push_state_def)
    show ?thesis using tg fin [of "holding path ?g (k + 1) p"] nd st
      by (simp add: dmr_end_element_def get_state_def end_enum_def_def must_be_def only_if_def enum_def_def pop_state_def push_state_def holding_change add_enum_nocopy_def)
  qed
  have st: "starts_element (concat (map print_value xs))" for xs by (induction xs) (simp_all add: print_value_def)
  have "triple env ((''Enumeration'', dap_ns) # (m, dap_ns) # st) (here (?pm ?e0)) (concat (map print_value (ed_tuples e))) (here (?pm e))"
    using consts_triple [OF e(4)] e(1) by (simp add: D4EnumDef_def)
  then show ?thesis unfolding tn(2)
    using start s e(3) ty finish st
    by (intro leaf_triple2 [where pm = "?pm ?e0" and pm' = "?pm e" and si = inside_enum_def and ss' = "ps_states p" and s = s and ss = ss])
      (auto simp: plain_attr_def starts_with_def push_state_def label_ok_def)
qed

lemma starts_enums: "print_all print_enum es = Inr evs \<Longrightarrow> starts_element evs"
  by (rule starts_all) (auto simp: print_enum_def andthen_Inr)

lemma enums_read:
  assumes "sits path p" "enums_ok k es" "print_all print_enum es = Inr evs"
  shows "triple env ((m, dap_ns) # st) (here (holding path (Group b ds es0 vs gs) k p)) evs
    (here (holding path (Group b ds (es0 @ es) vs gs) (k + length es) p))"
  using assms(2,3)
proof (induction es arbitrary: es0 k evs)
  case Nil
  then show ?case by (auto intro: triple_nil)
next
  case (Cons e es)
  obtain x y where e: "print_enum e = Inr x" "print_all print_enum es = Inr y" "evs = x @ y" "enum_ok k e" "enums_ok (k + 1) es"
    using Cons.prems by (auto simp: andthen_Inr)
  show ?case unfolding e(3)
    using Cons.IH [OF e(5,2), of "es0 @ [e]"] by (intro triple_append [OF enum_triple [OF assms(1) e(4,1)]]) simp
qed

section \<open>Variables and attributes\<close>

lemma root_grows: "sits path p \<Longrightarrow> grows_to g h \<Longrightarrow> grows_to (the_root (holding path g k p)) (the_root (holding path h j p))"
  by (simp add: update_group_grows)

lemma same_names: "sits path p \<Longrightarrow> gname g = gname (group_at path (the_root p)) \<Longrightarrow>
    names_at path (the_root (holding path g k p)) = names_at path (the_root p) \<and> path_ok path (the_root (holding path g k p)) \<and>
    group_at path (the_root (holding path g k p)) = g"
  using sits_valid [of path p] by (auto simp: names_at_update path_ok_update sits_def)

lemma group_grows: "d_name b = d_name b' \<Longrightarrow> grows_to (Group b ds es vs gs) (Group b' (ds @ ds') (es @ es') (vs @ vs') (gs @ hs'))"
  by (intro grow) (auto simp: list_all2_same grows_to_refl)

lemma vars_read:
  assumes "sits path p" "d_name b = gname (group_at path (the_root p))"
    and "vars_ok (names_at path (the_root p)) vs sc = Some sc'" "tables_agree sc et dt" "print_all (print_decl et dt False) vs = Inr evs"
    and "in_sight sc (the_root (holding path (Group b ds es us []) k p))" "distinct (map decl_name (us @ vs))"
  shows "triple env ((m, dap_ns) # st) (here (holding path (Group b ds es us []) k p)) evs (here (holding path (Group b ds es (us @ vs) []) k p)) \<and>
    in_sight sc' (the_root (holding path (Group b ds es (us @ vs) []) k p))"
  using assms(3-7)
proof (induction vs arbitrary: us sc evs)
  case Nil
  then show ?case by (auto intro: triple_nil)
next
  case (Cons v vs)
  let ?p = "\<lambda>vs. holding path (Group b ds es vs []) k p" and ?sc = "scope_var (names_at path (the_root p)) v sc"
  obtain x y where e: "print_decl et dt False v = Inr x" "print_all (print_decl et dt False) vs = Inr y" "evs = x @ y" "decl_ok sc v"
    "vars_ok (names_at path (the_root p)) vs ?sc = Some sc'"
    using Cons.prems(1,3) by (auto simp: andthen_Inr split: if_splits)
  have t: "takes_vars (?p us)" using assms(1) by (auto simp: sits_def takes_vars_def)
  have a: "add_decl v (?p us) = ?p (us @ [v])"
    using assms(1) by (auto simp: sits_def add_decl_def holding_change map_vars_def)
  have nul: "NUL \<notin> set (decl_name v)" using e(4) by (cases v) (auto simp: decl_name_def base_ok_def name_ok_def)
  note same = same_names [OF assms(1), of "Group b ds es (us @ [v]) []" k]
  have "grows_to (the_root (?p us)) (the_root (?p (us @ [v])))"
    using group_grows [of b b ds es us "[]" "[]" "[]" "[v]" "[]"] by (intro root_grows [OF assms(1)]) simp
  then have "in_sight sc (the_root (?p (us @ [v])))" using in_sight_grows [OF Cons.prems(4)] by blast
  then have s: "in_sight ?sc (the_root (?p (us @ [v])))"
    using in_sight_var [of sc "the_root (?p (us @ [v]))" path v] same assms(2) Cons.prems(5) nul by simp
  have ta: "tables_agree ?sc et dt" using Cons.prems(2) by (auto simp: scope_var_def Let_def tables_agree_def)
  have "triple env ((m, dap_ns) # st) (here (?p us)) x (here (?p (us @ [v])))"
    using decl_triple [OF Cons.prems(2) e(1,4) t Cons.prems(4)] by (simp add: a)
  moreover have "triple env ((m, dap_ns) # st) (here (?p (us @ [v]))) y (here (?p (us @ v # vs))) \<and> in_sight sc' (the_root (?p (us @ v # vs)))"
    using Cons.IH [OF e(5) ta e(2) s] Cons.prems(5) by simp
  ultimately show ?case unfolding e(3) using triple_append by blast
qed

lemma attributes_read:
  assumes "sits path p" "ps_attrs p = (Of_Group path, []) # rest" "attributes_dap4 as = Inr evs" "attrs_ok as"
  shows "triple env ((m, dap_ns) # st) (here (holding path (Group (BaseType_new n) ds es vs gs) k p)) evs
    (here (holding path (Group ((BaseType_new n)\<lparr>d_attributes := as\<rparr>) ds es vs gs) k p))"
proof -
  let ?tos = "(Of_Group path, [])" and ?p = "holding path (Group (BaseType_new n) ds es vs gs) k p"
  have v: "valid_ptr ?tos ?p" using assms(1) by (simp add: valid_ptr_def owner_ok_def)
  have t: "takes_attributes ?tos ?p" using assms(1,2) v by (auto simp: takes_attributes_def sits_def attr_states_def)
  have r: "read_attrs ?tos ?p = []" using assms(1) by (simp add: read_attrs_def base_facts)
  have "append_attrs ?tos as ?p = holding path (Group ((BaseType_new n)\<lparr>d_attributes := as\<rparr>) ds es vs gs) k p"
    unfolding append_attrs_update [OF v]
    by (auto simp: update_attrs_def holding_change on_group_attributes_def map_group_base_def base_facts)
  then show ?thesis using attributes_triple [OF assms(3,4) t r, of env m st] by simp
qed

section \<open>Groups in a group\<close>

text \<open>The end of a group leaves its attributes on the stack.\<close>

definition about :: "parser \<Rightarrow> parser \<Rightarrow> bool" where
  "about p q \<longleftrightarrow> (\<exists>as. as \<noteq> [] \<and> here (p\<lparr>ps_attrs := as\<rparr>) q)"

lemma triple_about: "(\<And>as. as \<noteq> [] \<Longrightarrow> triple env st (here (p\<lparr>ps_attrs := as\<rparr>)) evs Q) \<Longrightarrow> triple env st (about p) evs Q"
  unfolding triple_def about_def by blast

lemma here_about: "ps_attrs p \<noteq> [] \<Longrightarrow> here p q \<Longrightarrow> about p q"
  unfolding about_def by (rule exI [of _ "ps_attrs p"]) simp

lemma triple_before: "ps_attrs p \<noteq> [] \<Longrightarrow> triple env st (about p) evs Q \<Longrightarrow> triple env st (here p) evs Q"
  unfolding triple_def using here_about by blast

lemma ignores_blanks_about: "ps_states p = s # ss \<Longrightarrow> s \<in> {inside_dataset, inside_group} \<Longrightarrow> ignores_blanks (about p)"
proof -
  assume "ps_states p = s # ss" "s \<in> {inside_dataset, inside_group}"
  then have "ignores_blanks (here (p\<lparr>ps_attrs := as\<rparr>))" for as using ignores_blanks_here [of "p\<lparr>ps_attrs := as\<rparr>" s ss] by auto
  then show ?thesis unfolding ignores_blanks_def about_def by blast
qed

definition child_of :: "nat list \<Rightarrow> nat \<Rightarrow> string \<Rightarrow> parser \<Rightarrow> parser" where
  "child_of path i n q = push_state inside_group (push_attributes (Of_Group (path @ [i]), []) (push_group (path @ [i]) (on_group path (add_group_nocopy (NewGroup n)) q)))"

lemma update_group_append: "update_group (path @ [i]) f r = update_group path (update_group [i] f) r"
  by (induction path arbitrary: r) (auto, case_tac r, simp)

lemma group_at_append: "group_at (path @ [i]) r = groups (group_at path r) ! i"
  by (induction path arbitrary: r) auto

lemma names_at_append: "names_at (path @ [i]) r = gname (groups (group_at path r) ! i) # names_at path r"
  by (induction path arbitrary: r) auto

lemma child_names_append: "child_names (path @ [i]) r = child_names path r @ [gname (groups (group_at path r) ! i)]"
  by (induction path arbitrary: r) auto

lemma follows_append: "follows (path @ [i]) r \<longleftrightarrow> follows path r \<and> follows [i] (group_at path r)"
  by (induction path arbitrary: r) auto

lemma group_started:
  assumes "sits path p" "NUL \<notin> set n"
  shows "dmr_start_element env ''Group'' None dap_ns [] (sax_of [(''name'', n)]) (vary l x a t (holding path (Group b ds es vs gs) k p)) =
    Inr (vary l (sax_map [(''name'', n)]) a t (child_of path (length gs) n (holding path (Group b ds es vs gs) k p)))"
proof -
  obtain s ss where s: "ps_states p = s # ss" "s = inside_dataset \<or> s = inside_group" using sits_state [OF assms(1)] by blast
  have "process_group ''Group'' (sax_of [(''name'', n)]) (vary l x a t (holding path (Group b ds es vs gs) k p)) =
    Inr (True, push_attributes (Of_Group (path @ [length gs]), []) (push_group (path @ [length gs])
      (on_group path (add_group_nocopy (NewGroup n)) (vary l (sax_map [(''name'', n)]) a t (holding path (Group b ds es vs gs) k p)))))"
    using assms(1) by (simp add: process_group_def xml_attr_defs Let_def)
  then show ?thesis using s
    by (auto simp: dmr_start_element_def get_state_def dap_ns_def only_if_def orelse_def process_enum_def_def process_dimension_def_def)
      (simp_all add: child_of_def push_state_def push_attributes_def push_group_def vary_def on_group_def the_root_def)
qed

lemma child_sits:
  assumes "sits path p" "gname (Group b ds es vs gs) = gname (group_at path (the_root p))" "n \<noteq> []" "label_ok n" "n \<notin> gname ` set gs"
  shows "sits (path @ [length gs]) (child_of path (length gs) n (holding path (Group b ds es vs gs) k p))"
    "the_root (child_of path (length gs) n (holding path (Group b ds es vs gs) k p)) = update_group path (\<lambda>_. Group b ds es vs (gs @ [NewGroup n])) (the_root p)"
proof -
  let ?q = "child_of path (length gs) n (holding path (Group b ds es vs gs) k p)" and ?c = "path @ [length gs]"
  show r: "the_root ?q = update_group path (\<lambda>_. Group b ds es vs (gs @ [NewGroup n])) (the_root p)"
    by (simp add: child_of_def holding_change add_group_nocopy_def) (simp add: push_state_def push_attributes_def push_group_def the_root_def on_group_def holding_def root_of_def)
  have po: "path_ok path (the_root ?q)" "group_at path (the_root ?q) = Group b ds es vs (gs @ [NewGroup n])"
    unfolding r using assms(1,2) sits_valid [OF assms(1)] by (auto simp: path_ok_update sits_def)
  have "gname (gs ! j) \<noteq> n" if "j < length gs" for j using that assms(5) by (metis imageI nth_mem)
  then have "path_ok ?c (the_root ?q)"
    using po assms(3,4) by (auto simp: path_ok_def follows_append child_names_append nth_append NewGroup_def base_facts label_ok_def)
  then show "sits ?c ?q" using assms(1)
    by (auto simp: sits_def child_of_def push_state_def push_attributes_def push_group_def on_group_def the_root_def holding_def)
qed

lemma group_popped:
  "(holding (path @ [length gs]) g j (child_of path (length gs) n (holding path (Group b ds es vs gs) k p)))\<lparr>ps_attrs := as, ps_groups := ps_groups p, ps_states := ps_states p\<rparr> =
   (holding path (Group b ds es vs (gs @ [g])) j p)\<lparr>ps_attrs := as\<rparr>"
  by (cases p) (simp add: holding_def child_of_def push_state_def push_attributes_def push_group_def on_group_def the_root_def root_of_def
      update_group_append add_group_nocopy_def)

lemma group_ended:
  assumes "sits path p" "as \<noteq> []"
  shows "\<exists>q'. dmr_end_element env ''Group'' None dap_ns ((vary l x a t ((holding (path @ [length gs]) g j (child_of path (length gs) n
      (holding path (Group b ds es vs gs) k p)))\<lparr>ps_attrs := as\<rparr>))\<lparr>ps_line := l'\<rparr>) = Inr q' \<and>
    about (holding path (Group b ds es vs (gs @ [g])) j p) q'"
proof -
  let ?q = "holding (path @ [length gs]) g j (child_of path (length gs) n (holding path (Group b ds es vs gs) k p))"
  have q: "ps_states ?q = inside_group # ps_states p" "ps_btps ?q = []" "ps_groups ?q = (path @ [length gs]) # ps_groups p"
    using assms by (simp_all add: sits_def child_of_def push_state_def push_attributes_def push_group_def holding_def on_group_def)
  have "(vary l' x a t (?q\<lparr>ps_attrs := as\<rparr>))\<lparr>ps_groups := ps_groups p, ps_states := ps_states p\<rparr> =
      vary l' x a t ((holding path (Group b ds es vs (gs @ [g])) j p)\<lparr>ps_attrs := as\<rparr>)"
    unfolding group_popped [symmetric, where k = k and n = n] by (simp add: vary_def)
  then show ?thesis using q
    by (simp add: dmr_end_element_def get_state_def end_group_def must_be_def only_if_def empty_stack_def pop_group_def pop_state_def)
      (use assms(2) in \<open>unfold about_def here_def, blast\<close>)
qed

text \<open>What is printed inside a group.\<close>

definition print_inner :: "d4enumdef table \<Rightarrow> d4dimension table \<Rightarrow> dmr_group \<Rightarrow> xml_event list result" where
  "print_inner et dt g = andthen (print_all print_dimension (dims g)) (\<lambda>x1. andthen (print_all print_enum (enum_defs g)) (\<lambda>x2.
     andthen (print_all (print_decl et dt False) (vars g)) (\<lambda>x3. andthen (attributes_dap4 (d_attributes (base g))) (\<lambda>x4.
       andthen (print_all (print_group et dt False) (groups g)) (\<lambda>x5. Inr (x1 @ x2 @ x3 @ x4 @ x5))))))"

lemma print_group_inner: "print_group et dt False g = andthen (print_inner et dt g) (\<lambda>inner.
    Inr (if gname g \<noteq> [] \<and> gname g \<noteq> ''/'' then xml_element ''Group'' [(''name'', gname g)] inner else inner))"
  by (cases g) (simp add: print_inner_def print_dims_def print_enums_def Let_def andthen_def split: sum.splits)

lemma starts_groups: "print_all (print_group et dt False) gs = Inr evs \<Longrightarrow> \<forall>g \<in> set gs. gname g \<noteq> [] \<and> gname g \<noteq> ''/'' \<Longrightarrow> starts_element evs"
  by (rule starts_all, assumption) (auto simp: print_group_inner andthen_Inr)

lemma groups_ok_names: "groups_ok ns gs sc k = Some (sc', k') \<Longrightarrow> \<forall>g \<in> set gs. gname g \<noteq> [] \<and> label_ok (gname g)"
proof (induction gs arbitrary: sc k)
  case (Cons g gs)
  obtain sc1 k1 where g: "CHR ''/'' \<notin> set (gname g)" "group_ok ns g sc k = Some (sc1, k1)" "groups_ok ns gs sc1 k1 = Some (sc', k')"
    using Cons.prems by (auto split: if_splits option.splits prod.splits)
  have "name_ok (gname g)" using g(2) by (cases g) (auto simp: Let_def base_ok_def split: if_splits)
  then show ?case using g(1) Cons.IH [OF g(3)] by (auto simp: name_ok_def label_ok_def)
qed simp

section \<open>A group is read back\<close>

definition contents_read :: "environment \<Rightarrow> d4enumdef table \<Rightarrow> d4dimension table \<Rightarrow> string list \<Rightarrow> dmr_group \<Rightarrow> scope \<Rightarrow> nat \<Rightarrow> bool" where
  "contents_read env et dt ns g sc k \<longleftrightarrow> (\<forall>sc' k' path p rest inner m st. group_ok ns g sc k = Some (sc', k') \<longrightarrow> sits path p \<longrightarrow>
     ps_attrs p = (Of_Group path, []) # rest \<longrightarrow> gname g = gname (group_at path (the_root p)) \<longrightarrow> gname g # ns = names_at path (the_root p) \<longrightarrow>
     tables_agree sc' et dt \<longrightarrow> print_inner et dt g = Inr inner \<longrightarrow> in_sight sc (the_root (holding path (NewGroup (gname g)) k p)) \<longrightarrow>
     triple env ((m, dap_ns) # st) (here (holding path (NewGroup (gname g)) k p)) inner (about (holding path g k' p)) \<and>
     in_sight sc' (the_root (holding path g k' p)))"

definition groups_read :: "environment \<Rightarrow> d4enumdef table \<Rightarrow> d4dimension table \<Rightarrow> string list \<Rightarrow> dmr_group list \<Rightarrow> scope \<Rightarrow> nat \<Rightarrow> bool" where
  "groups_read env et dt ns gs sc k \<longleftrightarrow> (\<forall>sc' k' path p b ds es vs gs0 evs m st. groups_ok ns gs sc k = Some (sc', k') \<longrightarrow> sits path p \<longrightarrow>
     d_name b = gname (group_at path (the_root p)) \<longrightarrow> ns = names_at path (the_root p) \<longrightarrow> tables_agree sc' et dt \<longrightarrow>
     distinct (map gname (gs0 @ gs)) \<longrightarrow> print_all (print_group et dt False) gs = Inr evs \<longrightarrow>
     in_sight sc (the_root (holding path (Group b ds es vs gs0) k p)) \<longrightarrow>
     triple env ((m, dap_ns) # st) (about (holding path (Group b ds es vs gs0) k p)) evs (about (holding path (Group b ds es vs (gs0 @ gs)) k' p)) \<and>
     in_sight sc' (the_root (holding path (Group b ds es vs (gs0 @ gs)) k' p)))"

text \<open>One group in a group.\<close>

lemma group_element:
  assumes ih: "contents_read env et dt ns g sc k" and ok: "group_ok ns g sc k = Some (sc', k')" and p: "sits path p" and b: "d_name b = gname (group_at path (the_root p))"
    and ns: "ns = names_at path (the_root p)" and ta: "tables_agree sc' et dt" and n: "gname g \<noteq> []" "label_ok (gname g)" "gname g \<notin> gname ` set gs"
    and pr: "print_inner et dt g = Inr inner" "starts_element inner" and s: "in_sight sc (the_root (holding path (Group b ds es vs gs) k p))"
  shows "triple env ((m, dap_ns) # st) (about (holding path (Group b ds es vs gs) k p)) (xml_element ''Group'' [(''name'', gname g)] inner)
      (about (holding path (Group b ds es vs (gs @ [g])) k' p)) \<and> in_sight sc' (the_root (holding path (Group b ds es vs (gs @ [g])) k' p))"
proof -
  let ?G = "\<lambda>gs k. holding path (Group b ds es vs gs) k p" and ?c = "path @ [length gs]" and ?n = "gname g"
  let ?q = "\<lambda>as. child_of path (length gs) ?n ((?G gs k)\<lparr>ps_attrs := as\<rparr>)"
  have G: "(?G gs k)\<lparr>ps_attrs := as\<rparr> = holding path (Group b ds es vs gs) k (p\<lparr>ps_attrs := as\<rparr>)" for as
    by (simp add: holding_def on_group_def the_root_def)
  have p': "sits path (p\<lparr>ps_attrs := as\<rparr>)" "the_root (p\<lparr>ps_attrs := as\<rparr>) = the_root p" for as using p by (simp_all add: sits_def the_root_def)
  note child = child_sits [OF p'(1), where b = b and ds = ds and es = es and vs = vs and gs = gs and n = ?n]
  have cs: "sits ?c (?q as)" "the_root (?q as) = update_group path (\<lambda>_. Group b ds es vs (gs @ [NewGroup ?n])) (the_root p)" for as
    using child b n by (simp_all add: G p'(2))
  have at: "group_at ?c (the_root (?q as)) = NewGroup ?n" for as using p by (simp add: cs(2) group_at_append)
  have ng: "gname (NewGroup ?n) = ?n" by (simp add: NewGroup_def base_facts)
  have same: "holding ?c (NewGroup ?n) k (?q as) = ?q as" for as
    using p by (simp add: holding_def on_group_def child_of_def push_state_def push_attributes_def push_group_def the_root_def root_of_def
        update_group_append add_group_nocopy_def)
  have names: "?n # ns = names_at ?c (the_root (?q as))" for as
    using p b names_at_update [of path "the_root p" "Group b ds es vs (gs @ [NewGroup ?n])"] by (simp add: ns cs(2) names_at_append ng sits_def)
  have "grows_to (the_root (?G gs k)) (the_root (?q as))" for as
    using root_grows [OF p group_grows [of b b ds es vs gs "[]" "[]" "[]" "[NewGroup ?n]"]] by (simp add: cs(2))
  then have sight: "in_sight sc (the_root (holding ?c (NewGroup ?n) k (?q as)))" for as using in_sight_grows [OF s] by (simp add: same)
  have at2: "ps_attrs (?q as) = (Of_Group ?c, []) # as" for as
    by (simp add: child_of_def push_state_def push_attributes_def push_group_def on_group_def)
  have read: "triple env ((''Group'', dap_ns) # (m, dap_ns) # st) (here (?q as)) inner (about (holding ?c g k' (?q as))) \<and>
      in_sight sc' (the_root (holding ?c g k' (?q as)))" for as
    using ih [unfolded contents_read_def, rule_format, OF ok cs(1) at2 _ names ta pr(1) sight, of as] at by (simp add: same ng)
  have "the_root (holding ?c g k' (?q as)) = the_root (?G (gs @ [g]) k')" for as
    by (simp add: cs(2) update_group_append)
  then have s2: "in_sight sc' (the_root (?G (gs @ [g]) k'))" using read by metis
  have st: "ps_states (holding ?c g k' (?q as)) = inside_group # ps_states p" for as
    by (simp add: child_of_def push_state_def push_attributes_def push_group_def on_group_def)
  have "triple env ((m, dap_ns) # st) (here ((?G gs k)\<lparr>ps_attrs := as\<rparr>)) (xml_element ''Group'' [(''name'', ?n)] inner) (about (?G (gs @ [g]) k'))" for as
  proof (rule triple_element [OF _ starts_first [OF pr(2)] _ _ _ read [THEN conjunct1, of as]])
    show "list_all plain_attr [(''name'', ?n)]" using n(2) by (simp add: plain_attr_def starts_with_def label_ok_def)
    show "ignores_blanks (here ((?G gs k)\<lparr>ps_attrs := as\<rparr>))"
      using sits_state [OF p] ignores_blanks_here [of "(?G gs k)\<lparr>ps_attrs := as\<rparr>"] by auto
    show "ignores_blanks (about (holding ?c g k' (?q as)))" using ignores_blanks_about [OF st] by simp
    show "\<exists>q'. dmr_start_element env ''Group'' None dap_ns [] (sax_of [(''name'', ?n)]) (q\<lparr>ps_line := l\<rparr>) = Inr q' \<and> here (?q as) q'"
      if "here ((?G gs k)\<lparr>ps_attrs := as\<rparr>) q" for q l
      using that group_started [OF p'(1)] n(2) unfolding G by (auto simp: here_def label_ok_def) blast
    show "\<exists>q'. dmr_end_element env ''Group'' None dap_ns (q\<lparr>ps_line := l\<rparr>) = Inr q' \<and> about (?G (gs @ [g]) k') q'"
      if ab: "about (holding ?c g k' (?q as)) q" for q l
    proof -
      obtain bs l' x a t where q: "bs \<noteq> []" "q = vary l' x a t ((holding ?c g k' (?q as))\<lparr>ps_attrs := bs\<rparr>)" using ab by (auto simp: about_def here_def)
      obtain q' where "dmr_end_element env ''Group'' None dap_ns (q\<lparr>ps_line := l\<rparr>) = Inr q'" "about (holding path (Group b ds es vs (gs @ [g])) k' (p\<lparr>ps_attrs := as\<rparr>)) q'"
        using group_ended [OF p'(1) q(1)] unfolding q(2) G by blast
      moreover have "(holding path (Group b ds es vs (gs @ [g])) k' (p\<lparr>ps_attrs := as\<rparr>))\<lparr>ps_attrs := cs\<rparr> = (?G (gs @ [g]) k')\<lparr>ps_attrs := cs\<rparr>" for cs
        by (simp add: holding_def on_group_def the_root_def)
      ultimately show ?thesis by (auto simp: about_def)
    qed
  qed
  then show ?thesis using s2 triple_about by blast
qed

lemma contents_step:
  assumes ih: "\<And>ms sc2. ms = d_name b # ns \<Longrightarrow> vars_ok ms vs (scope_enums ms es (scope_dims ms ds sc)) = Some sc2 \<Longrightarrow>
      groups_read env et dt ms gs sc2 (k + length ds + length es)"
  shows "contents_read env et dt ns (Group b ds es vs gs) sc k"
  unfolding contents_read_def
proof (intro allI impI)
  fix sc' k' path p rest inner and m :: string and st :: "(string \<times> string option) list"
  let ?g = "Group b ds es vs gs" and ?n = "d_name b" and ?r = "the_root p" and ?st = "(m, dap_ns) # st"
  let ?ms = "?n # ns" and ?k1 = "k + length ds" and ?k2 = "k + length ds + length es"
  assume a: "group_ok ns ?g sc k = Some (sc', k')" "sits path p" "ps_attrs p = (Of_Group path, []) # rest" "gname ?g = gname (group_at path ?r)"
    "gname ?g # ns = names_at path ?r" "tables_agree sc' et dt" "print_inner et dt ?g = Inr inner" "in_sight sc (the_root (holding path (NewGroup (gname ?g)) k p))"
  have c: "base_ok b" "dims_ok k ds" "enums_ok ?k1 es" "distinct (map dd_name ds)" "distinct (map ed_name es)" "distinct (map decl_name vs)" "distinct (map gname gs)"
    using a(1) by (auto simp: Let_def split: if_splits)
  let ?sc1 = "scope_dims ?ms ds sc" let ?sc2 = "scope_enums ?ms es ?sc1"
  obtain sc3 where v: "vars_ok ?ms vs ?sc2 = Some sc3" "groups_ok ?ms gs sc3 ?k2 = Some (sc', k')"
    using a(1) c by (auto simp: Let_def split: option.splits)
  obtain x1 x2 x3 x4 x5 where pr: "print_all print_dimension ds = Inr x1" "print_all print_enum es = Inr x2" "print_all (print_decl et dt False) vs = Inr x3"
    "attributes_dap4 (d_attributes b) = Inr x4" "print_all (print_group et dt False) gs = Inr x5" "inner = x1 @ x2 @ x3 @ x4 @ x5"
    using a(7) by (auto simp: print_inner_def andthen_Inr)
  have b: "b = (BaseType_new ?n)\<lparr>d_attributes := d_attributes b\<rparr>" "attrs_ok (d_attributes b)" using base_is [OF c(1)] by blast+
  have n: "?n = gname (group_at path ?r)" "?ms = names_at path ?r" "d_name (BaseType_new ?n) = gname (group_at path ?r)" using a(4,5) by (simp_all add: base_facts)
  let ?G = "\<lambda>b ds es vs gs k. holding path (Group b ds es vs gs) k p" and ?b = "BaseType_new ?n"
  have same: "names_at path (the_root (?G b' ds es vs gs k)) = ?ms \<and> path_ok path (the_root (?G b' ds es vs gs k)) \<and> group_at path (the_root (?G b' ds es vs gs k)) = Group b' ds es vs gs"
    if "d_name b' = ?n" for b' ds es vs gs k using same_names [OF a(2), of "Group b' ds es vs gs" k] that n by simp
  have grow: "grows_to (the_root (?G b1 ds es vs gs i)) (the_root (?G b2 (ds @ ds') (es @ es') (vs @ vs') (gs @ gs') j))" if "d_name b1 = d_name b2" for b1 b2 ds ds' es es' vs vs' gs gs' i j
    by (rule root_grows [OF a(2) group_grows [OF that]])
  have bn: "d_name ?b = ?n" "d_name ?b = d_name b" by (simp_all add: base_facts)
  have s0: "in_sight sc (the_root (?G ?b [] [] [] [] k))" using a(8) by (simp add: NewGroup_def)
  have s1: "in_sight ?sc1 (the_root (?G ?b ds [] [] [] ?k1))"
    using in_sight_dims [OF in_sight_grows [OF s0 grow [OF refl, where ds = "[]" and ds' = ds and es = "[]" and es' = "[]" and vs = "[]" and vs' = "[]" and gs = "[]" and gs' = "[]" and j = ?k1]], of path ds k] same [OF bn(1)] c(2,4) by simp
  have s2: "in_sight ?sc2 (the_root (?G ?b ds es [] [] ?k2))"
    using in_sight_enums [OF in_sight_grows [OF s1 grow [OF refl, where ds = ds and ds' = "[]" and es = "[]" and es' = es and vs = "[]" and vs' = "[]" and gs = "[]" and gs' = "[]" and j = ?k2]], of path es ?k1] same [OF bn(1)] c(3,5) by simp
  have t3: "tables_agree ?sc2 et dt"
    using tables_agree_less [OF a(6)] group_ok_tables(2) [OF v(2)] vars_ok_tables [OF v(1)] by auto
  have t1: "triple env ?st (here (?G ?b [] [] [] [] k)) x1 (here (?G ?b ds [] [] [] ?k1))"
    using dims_read [OF a(2) n(3) c(2) pr(1), of env m st "[]"] by simp
  have t2: "triple env ?st (here (?G ?b ds [] [] [] ?k1)) x2 (here (?G ?b ds es [] [] ?k2))"
    using enums_read [OF a(2) c(3) pr(2), of env m st ?b ds "[]"] by simp
  have tv: "triple env ?st (here (?G ?b ds es [] [] ?k2)) x3 (here (?G ?b ds es vs [] ?k2)) \<and> in_sight sc3 (the_root (?G ?b ds es vs [] ?k2))"
    using vars_read [OF a(2) n(3) v(1) [unfolded n(2)] _ pr(3), where ds = ds and es = es and us = "[]" and k = ?k2] s2 t3 c(6) n(2) by simp
  have t4: "triple env ?st (here (?G ?b ds es vs [] ?k2)) x4 (here (?G b ds es vs [] ?k2))"
    using attributes_read [OF a(2,3) pr(4) b(2), of env m st ?n ds es vs "[]" ?k2] b(1) by simp
  have s4: "in_sight sc3 (the_root (?G b ds es vs [] ?k2))"
    using in_sight_grows [OF tv [THEN conjunct2] grow [OF bn(2), where ds = ds and ds' = "[]" and es = es and es' = "[]" and vs = vs and vs' = "[]" and gs = "[]" and gs' = "[]" and i = ?k2 and j = ?k2]] by simp
  have "triple env ?st (about (?G b ds es vs [] ?k2)) x5 (about (?G b ds es vs ([] @ gs) k')) \<and> in_sight sc' (the_root (?G b ds es vs ([] @ gs) k'))"
    using ih [OF refl v(1), unfolded groups_read_def, rule_format, OF v(2) a(2) n(1,2) a(6) _ pr(5) s4] c(7) by simp
  then show "triple env ?st (here (holding path (NewGroup (gname ?g)) k p)) inner (about (holding path ?g k' p)) \<and> in_sight sc' (the_root (holding path ?g k' p))"
    unfolding pr(6) using t1 t2 tv t4 triple_before [of "?G b ds es vs [] ?k2" env ?st x5] a(3) by (auto simp: NewGroup_def intro!: triple_append)
qed

lemma groups_step:
  assumes c: "contents_read env et dt ns g sc k"
    and ih: "\<And>sc1 k1. CHR ''/'' \<notin> set (gname g) \<Longrightarrow> group_ok ns g sc k = Some (sc1, k1) \<Longrightarrow> groups_read env et dt ns gs sc1 k1"
  shows "groups_read env et dt ns (g # gs) sc k"
  unfolding groups_read_def
proof (intro allI impI)
  fix sc' k' path p b ds es vs us evs and m :: string and st :: "(string \<times> string option) list"
  assume a: "groups_ok ns (g # gs) sc k = Some (sc', k')" "sits path p" "d_name b = gname (group_at path (the_root p))" "ns = names_at path (the_root p)"
    "tables_agree sc' et dt" "distinct (map gname (us @ g # gs))" "print_all (print_group et dt False) (g # gs) = Inr evs"
    "in_sight sc (the_root (holding path (Group b ds es vs us) k p))"
  let ?G = "\<lambda>gs k. holding path (Group b ds es vs gs) k p" and ?st = "(m, dap_ns) # st"
  obtain sc1 k1 where g: "CHR ''/'' \<notin> set (gname g)" "group_ok ns g sc k = Some (sc1, k1)" "groups_ok ns gs sc1 k1 = Some (sc', k')"
    using a(1) by (auto split: if_splits option.splits prod.splits)
  have names: "gname g \<noteq> []" "label_ok (gname g)" using groups_ok_names [OF a(1)] by auto
  then have "gname g \<noteq> ''/''" using g(1) by auto
  then obtain inner y where pr: "print_inner et dt g = Inr inner" "print_all (print_group et dt False) gs = Inr y"
    "evs = xml_element ''Group'' [(''name'', gname g)] inner @ y"
    using a(7) names(1) by (auto simp: andthen_Inr print_group_inner)
  have "\<forall>h \<in> set (groups g). gname h \<noteq> [] \<and> gname h \<noteq> ''/''"
  proof (cases g)
    case (Group b' ds' es' vs' hs)
    have "\<exists>ms sc2 j. groups_ok ms hs sc2 j = Some (sc1, k1)" using g(2) by (auto simp: Group Let_def split: if_splits option.splits)
    then show ?thesis using groups_ok_names by (fastforce simp: Group label_ok_def)
  qed
  then have st: "starts_element inner"
    using pr(1) by (auto simp: print_inner_def andthen_Inr intro!: starts_element_simps(4) intro: starts_dims starts_enums starts_attributes starts_groups
        starts_all [OF _ starts_decl])
  have t: "tables_agree sc1 et dt" using tables_agree_less [OF a(5)] group_ok_tables(2) [OF g(3)] by blast
  have fresh: "gname g \<notin> gname ` set us" "distinct (map gname ((us @ [g]) @ gs))" using a(6) by auto
  have one: "triple env ?st (about (?G us k)) (xml_element ''Group'' [(''name'', gname g)] inner) (about (?G (us @ [g]) k1)) \<and>
      in_sight sc1 (the_root (?G (us @ [g]) k1))"
    by (rule group_element [OF c g(2) a(2,3,4) t names fresh(1) pr(1) st a(8)])
  have "triple env ?st (about (?G (us @ [g]) k1)) y (about (?G ((us @ [g]) @ gs) k')) \<and> in_sight sc' (the_root (?G ((us @ [g]) @ gs) k'))"
    using ih [OF g(1,2), unfolded groups_read_def, rule_format, OF g(3) a(2,3,4,5) fresh(2) pr(2) one [THEN conjunct2]] .
  then show "triple env ?st (about (?G us k)) evs (about (?G (us @ g # gs) k')) \<and> in_sight sc' (the_root (?G (us @ g # gs) k'))"
    unfolding pr(3) using one triple_append by auto
qed

lemma group_reads:
  "contents_read env et dt ns g sc k"
  "groups_read env et dt ns gs sc k"
proof (induction ns g sc k and ns gs sc k rule: group_ok_groups_ok.induct)
  case (1 ns b ds es vs gs sc k)
  let ?ms = "d_name b # ns"
  show ?case
  proof (cases "base_ok b \<and> dims_ok k ds \<and> enums_ok (k + length ds) es \<and> distinct (map dd_name ds) \<and> distinct (map ed_name es) \<and>
      distinct (map decl_name vs) \<and> distinct (map gname gs)")
    case True
    show ?thesis by (rule contents_step) (use 1 [OF refl refl True] in simp)
  next
    case False
    then have "group_ok ns (Group b ds es vs gs) sc k = None" unfolding group_ok.simps Let_def by (rule if_not_P)
    then show ?thesis by (simp add: contents_read_def del: group_ok.simps)
  qed
next
  case (2 ns sc k)
  show ?case by (auto simp: groups_read_def intro: triple_nil)
next
  case (3 ns g gs sc k)
  show ?case
  proof (cases "CHR ''/'' \<in> set (gname g)")
    case False
    show ?thesis by (rule groups_step [OF 3(1) [OF False]]) (use 3(2) [OF False] in simp)
  qed (simp add: groups_read_def)
qed

end
