(* ===== verification/DmrRoundTrip.thy ===== *)
theory DmrRoundTrip
  imports DmrGroups
begin

text \<open>
  A DMR is printed as a document and read back: printing succeeds, and the parser makes the same DMR of every sequence of
  call-backs that libxml2 may report for the document.
\<close>

section \<open>Printing succeeds\<close>

lemma print_all_succeeds: "\<forall>x \<in> set xs. \<exists>y. f x = Inr y \<Longrightarrow> \<exists>evs. print_all f xs = Inr evs"
  by (induction xs) (auto simp: andthen_def)

lemma attribute_prints: "attr_ok a \<Longrightarrow> \<exists>evs. attribute_dap4 a = Inr evs"
proof (induction a)
  case (Attribute n t sub vs)
  have all: "\<exists>evs. attributes_dap4 as = Inr evs" if "\<forall>a \<in> set as. \<exists>evs. attribute_dap4 a = Inr evs" for as
    using that by (induction as) auto
  show ?case using Attribute all by (cases sub) (fastforce split: if_splits)+
qed

lemma attributes_print: "attrs_ok as \<Longrightarrow> \<exists>evs. attributes_dap4 as = Inr evs"
proof -
  assume "attrs_ok as"
  then have "\<forall>a \<in> set as. \<exists>evs. attribute_dap4 a = Inr evs" using attribute_prints by (auto simp: attrs_ok_def)
  then show ?thesis by (induction as) auto
qed

definition fqn_ok :: "scope \<Rightarrow> bool" where
  "fqn_ok sc \<longleftrightarrow> (\<forall>(a, ns, e) \<in> set (sc_enums sc). \<exists>s. FQN ns = Inr s)"

lemma type_prints: "var_type t \<Longrightarrow> \<exists>tn. D4type_name t = Inr tn"
  by (cases t; simp add: var_type_def is_simple_type_def)

lemma integer_prints: "is_integer_type t \<Longrightarrow> \<exists>tn. D4type_name t = Inr tn"
  by (cases t; simp add: is_integer_type_def)

lemma enum_attr_prints:
  assumes "tables_agree sc et dt" "fqn_ok sc" "decl_ok sc v"
  shows "\<exists>ea. enum_attr et v = Inr ea"
proof (cases v)
  case (Simple_Decl b t e)
  show ?thesis
  proof (cases "t = dods_enum_c")
    case True
    then obtain a ns d where a: "e = Some a" "map_of (sc_enums sc) a = Some (ns, d)"
      using assms(3) by (auto simp: Simple_Decl enum_declared_def split: option.splits)
    then obtain s where "FQN ns = Inr s" using assms(2) by (force simp: fqn_ok_def dest: map_of_SomeD)
    moreover have "et a = Some (ns, d)" using a(2) assms(1) by (simp add: tables_agree_def)
    ultimately show ?thesis by (simp add: Simple_Decl True enum_attr_def enum_path_def a(1))
  qed (simp add: Simple_Decl enum_attr_def)
qed (simp_all add: enum_attr_def)

lemma dims_print:
  assumes "tables_agree sc et dt" "\<forall>d \<in> set ds. dim_declared sc d"
  shows "\<exists>evs. print_all (print_dim dt False) ds = Inr evs"
  using assms by (intro print_all_succeeds) (fastforce simp: print_dim_def dim_attr_def dim_declared_def tables_agree_def split: option.splits)

lemma decl_prints:
  assumes "tables_agree sc et dt" "fqn_ok sc"
  shows "decl_ok sc v \<Longrightarrow> (\<exists>evs. print_decl et dt False v = Inr evs) \<and> (\<forall>b t vs. v = Constructor_Decl b t vs \<longrightarrow> (\<exists>evs. print_all (print_decl et dt False) vs = Inr evs))"
proof (induction v)
  case (Simple_Decl b t e)
  have t: "var_type t" "attrs_ok (d_attributes b)" using Simple_Decl base_is [of b] by (simp_all add: var_type_def)
  show ?case using type_prints [OF t(1)] enum_attr_prints [OF assms Simple_Decl] attributes_print [OF t(2)] by (elim exE) simp
next
  case (Constructor_Decl b t vs)
  have t: "var_type t" "attrs_ok (d_attributes b)" "\<forall>v \<in> set vs. decl_ok sc v" using Constructor_Decl.prems base_is [of b] by (simp_all add: var_type_def)
  have "\<exists>ms. print_all (print_decl et dt False) vs = Inr ms" using Constructor_Decl.IH t(3) by (intro print_all_succeeds) blast
  then show ?case using type_prints [OF t(1)] attributes_print [OF t(2)] by (elim exE) simp
next
  case (Array_Decl b q s maps)
  have q: "var_type (decl_type q)" "decl_ok sc q" using Array_Decl.prems by (cases q; simp add: var_type_def)+
  have t: "attrs_ok (d_attributes b)" "\<forall>d \<in> set (a_shape s). dim_declared sc d" using Array_Decl.prems base_is [of b] by simp_all
  obtain ms where "(case q of Constructor_Decl b' t vs \<Rightarrow> print_all (print_decl et dt False) vs | _ \<Rightarrow> Inr []) = Inr ms"
    using Array_Decl.IH q(2) by (cases q) auto
  then show ?case
    using type_prints [OF q(1)] enum_attr_prints [OF assms q(2)] attributes_print [OF t(1)] dims_print [OF assms(1) t(2)] by (elim exE) simp
qed

lemma vars_print:
  assumes "vars_ok ns vs sc = Some sc'" "tables_agree sc et dt" "fqn_ok sc"
  shows "\<exists>evs. print_all (print_decl et dt False) vs = Inr evs"
  using assms
proof (induction vs arbitrary: sc)
  case (Cons v vs)
  have ok: "decl_ok sc v" "vars_ok ns vs (scope_var ns v sc) = Some sc'" using Cons.prems(1) by (auto split: if_splits)
  have "tables_agree (scope_var ns v sc) et dt" "fqn_ok (scope_var ns v sc)"
    using Cons.prems(2,3) by (auto simp: scope_var_def Let_def tables_agree_def fqn_ok_def)
  then show ?case using Cons.IH [OF ok(2)] decl_prints [OF Cons.prems(2,3) ok(1)] by auto
qed simp

lemma dims_inner_print: "dims_ok k ds \<Longrightarrow> \<exists>evs. print_all print_dimension ds = Inr evs"
proof (induction ds arbitrary: k)
  case (Cons d ds)
  have "d = D4Dimension k (dd_name d) (dd_size d)" using Cons.prems by simp
  then have "\<not> dd_constrained d" by (metis D4Dimension_def d4dimension.select_convs(4))
  then show ?case using Cons.IH [of "k + 1"] Cons.prems by (auto simp: print_dimension_def)
qed simp

lemma enums_inner_print: "enums_ok k es \<Longrightarrow> \<exists>evs. print_all print_enum es = Inr evs"
proof (induction es arbitrary: k)
  case (Cons e es)
  obtain tn where "D4type_name (ed_type e) = Inr tn" using Cons.prems integer_prints [of "ed_type e"] by (auto simp: enum_ok_def)
  then show ?case using Cons.IH [of "k + 1"] Cons.prems by (auto simp: print_enum_def)
qed simp

lemma group_prints:
  "group_ok ns g sc k = Some (sc', k') \<Longrightarrow> tables_agree sc' et dt \<Longrightarrow> fqn_ok sc \<Longrightarrow> \<exists>s. FQN (gname g # ns) = Inr s \<Longrightarrow>
     (\<exists>inner. print_inner et dt g = Inr inner) \<and> fqn_ok sc'"
  "groups_ok ns gs sc k = Some (sc', k') \<Longrightarrow> tables_agree sc' et dt \<Longrightarrow> fqn_ok sc \<Longrightarrow> \<exists>s. FQN ns = Inr s \<Longrightarrow>
     (\<exists>evs. print_all (print_group et dt False) gs = Inr evs) \<and> fqn_ok sc'"
proof (induction ns g sc k and ns gs sc k arbitrary: sc' k' and sc' k' rule: group_ok_groups_ok.induct)
  case (1 ns b ds es vs gs sc k)
  let ?ms = "d_name b # ns" and ?c = "base_ok b \<and> dims_ok k ds \<and> enums_ok (k + length ds) es \<and> distinct (map dd_name ds) \<and> distinct (map ed_name es) \<and>
    distinct (map decl_name vs) \<and> distinct (map gname gs)"
  let ?sc2 = "scope_enums ?ms es (scope_dims ?ms ds sc)"
  have c: ?c using 1(2) by (auto simp: Let_def split: if_splits)
  obtain sc3 where v: "vars_ok ?ms vs ?sc2 = Some sc3" "groups_ok ?ms gs sc3 (k + length ds + length es) = Some (sc', k')"
    using 1(2) c by (auto simp: Let_def split: option.splits)
  have t: "tables_agree ?sc2 et dt" using tables_agree_less [OF 1(3)] group_ok_tables(2) [OF v(2)] vars_ok_tables [OF v(1)] by auto
  have fq: "\<exists>s. FQN ?ms = Inr s" using 1(5) by simp
  have f: "fqn_ok ?sc2" using 1(4) fq by (auto simp: fqn_ok_def scope_enums_def scope_dims_def)
  have "fqn_ok sc3" using f vars_ok_tables [OF v(1)] by (simp add: fqn_ok_def)
  note inside = 1(1) [OF refl refl c v 1(3) this fq]
  obtain x1 x2 x3 x4 x5 where "print_all print_dimension ds = Inr x1" "print_all print_enum es = Inr x2" "print_all (print_decl et dt False) vs = Inr x3"
    "attributes_dap4 (d_attributes b) = Inr x4" "print_all (print_group et dt False) gs = Inr x5"
    using dims_inner_print enums_inner_print vars_print [OF v(1) t f] attributes_print [of "d_attributes b"] base_is [of b] c inside by blast
  then show ?case using inside by (simp add: print_inner_def)
next
  case (3 ns g gs sc k)
  obtain sc1 k1 where g: "CHR ''/'' \<notin> set (gname g)" "group_ok ns g sc k = Some (sc1, k1)" "groups_ok ns gs sc1 k1 = Some (sc', k')"
    using 3(3) by (auto split: if_splits option.splits prod.splits)
  have t: "tables_agree sc1 et dt" using tables_agree_less [OF 3(4)] group_ok_tables(2) [OF g(3)] by blast
  have "\<exists>s. FQN (gname g # ns) = Inr s" using 3(6) by auto
  then obtain inner where i: "print_inner et dt g = Inr inner" "fqn_ok sc1" using 3(1) [OF g(1,2) t 3(5)] by blast
  show ?case using 3(2) [OF g(1,2) refl g(3) 3(4) i(2) 3(6)] i(1) by (auto simp: print_group_inner)
qed auto

section \<open>A document\<close>

text \<open>What a DMR has to be for a document to carry it; the objects are numbered from \<open>k\<close>.\<close>

definition no_scope :: scope where "no_scope = \<lparr>sc_dims = [], sc_enums = [], sc_maps = []\<rparr>"

definition dmr_ok :: "environment \<Rightarrow> nat \<Rightarrow> DMR \<Rightarrow> bool" where
  "dmr_ok env k d \<longleftrightarrow> (case d_root d of None \<Rightarrow> False | Some g \<Rightarrow> gname g = ''/'' \<and> group_ok [] g no_scope k \<noteq> None) \<and>
     parse_dap_version (env_dot env) (d_dap_version d) = (d_dap_major d, CHR ''.'', d_dap_minor d) \<and>
     d_dap_major d \<noteq> -1 \<and> d_dap_minor d \<noteq> -1 \<and> d_namespace d = c_dap40_namespace \<and>
     NUL \<notin> set (d_dap_version d) \<and> NUL \<notin> set (d_dmr_version d) \<and> NUL \<notin> set (d_dmr_name d) \<and> NUL \<notin> set (d_request_xml_base d)"

definition dataset_attrs :: "DMR \<Rightarrow> (string \<times> string) list" where
  "dataset_attrs d = (''xmlns'', d_namespace d) # (if d_request_xml_base d \<noteq> [] then [(''xml:base'', d_request_xml_base d)] else []) @
     [(''dapVersion'', d_dap_version d), (''dmrVersion'', d_dmr_version d), (''name'', d_dmr_name d)]"

lemma dmr_printed:
  assumes "dmr_ok env k d" "d_root d = Some g"
  shows "\<exists>inner. print_inner (map_of (enum_table [] g)) (map_of (dim_table [] g)) g = Inr inner \<and>
    print_dmr False d = Inr (xml_element ''Dataset'' (dataset_attrs d) inner, d)"
proof -
  obtain sc' k' where ok: "gname g = ''/''" "group_ok [] g no_scope k = Some (sc', k')" using assms by (auto simp: dmr_ok_def)
  have "tables_agree sc' (map_of (enum_table [] g)) (map_of (dim_table [] g))"
    using group_ok_tables(1) [OF ok(2)] by (simp add: tables_agree_def no_scope_def)
  then obtain inner where i: "print_inner (map_of (enum_table [] g)) (map_of (dim_table [] g)) g = Inr inner"
    using group_prints(1) [OF ok(2)] ok(1) by (force simp: fqn_ok_def no_scope_def)
  have "root_of d = g" "with_root d = d" using assms(2) by (simp_all add: root_of_def with_root_def)
  then show ?thesis using i ok(1) by (simp add: print_dmr_def Let_def print_group_inner dataset_attrs_def)
qed

section \<open>A document is read\<close>

text \<open>The parser when the start of the document, and then of the dataset, has been read.\<close>

definition doc_started :: "DMR \<Rightarrow> nat \<Rightarrow> parser" where
  "doc_started d k = push_attributes (Of_Group [], []) (push_state parser_start (D4ParserSax2_new (with_root d) k))"

definition read_into :: "DMR \<Rightarrow> DMR" where
  "read_into d = d\<lparr>d_filename := [], d_max_response_size := 0\<rparr>"

definition dataset_started :: "DMR \<Rightarrow> nat \<Rightarrow> parser" where
  "dataset_started d k = push_state inside_dataset (push_group [] ((doc_started (DMR_new []) k)
     \<lparr>ps_root_ns := c_dap40_namespace, ps_dmr := (read_into d)\<lparr>d_root := Some (NewGroup ''/'')\<rparr>\<rparr>))"

lemma dataset_lookup: "map_of (sax_attrs (dataset_attrs d)) a = map_of ((if d_request_xml_base d \<noteq> []
    then [(''base'', \<lparr>xa_prefix = ''xml'', xa_uri = xml_ns, xa_value = d_request_xml_base d\<rparr>)] else []) @
    sax_of [(''dapVersion'', d_dap_version d), (''dmrVersion'', d_dmr_version d), (''name'', d_dmr_name d)]) a"
  by (simp add: dataset_attrs_def sax_of_def starts_with_def)

lemma transfer_dataset: "transfer_xml_attrs as p = p\<lparr>xml_attrs := foldl (\<lambda>m kv. map_insert kv m) [] as\<rparr>"
  by (simp add: transfer_xml_attrs_def)

lemma dataset_fields:
  assumes tr: "\<And>p. transfer_xml_attrs as p = p\<lparr>xml_attrs := m\<rparr>"
    and look: "map_of m ''name'' = Some nm" "map_of m ''dapVersion'' = Some dv" "map_of m ''dmrVersion'' = Some mv" "map_of m ''base'' = bs"
    and ver: "\<And>e. set_dap_version (env_dot env) (xa_value dv) e = Inr (f e)" and c: "c \<noteq> []"
  shows "start_dataset env ''Dataset'' (Some c) as q = Inr (push_state inside_dataset (push_group [] (q\<lparr>ps_root_ns := c, xml_attrs := m,
    ps_dmr := with_root ((case bs of None \<Rightarrow> \<lambda>e. e | Some b \<Rightarrow> \<lambda>e. e\<lparr>d_request_xml_base := xa_value b\<rparr>)
      ((f ((ps_dmr q)\<lparr>d_dmr_name := xa_value nm\<rparr>))\<lparr>d_dmr_version := xa_value mv\<rparr>)\<lparr>d_namespace := c\<rparr>)\<rparr>)))"
proof -
  have x: "check_attribute a (q\<lparr>ps_root_ns := c, xml_attrs := m, ps_dmr := e\<rparr>) = (map_of m a \<noteq> None)"
    "xattr a (q\<lparr>ps_root_ns := c, xml_attrs := m, ps_dmr := e\<rparr>) = (case map_of m a of None \<Rightarrow> [] | Some x \<Rightarrow> xa_value x)"
    "check_attribute a (q\<lparr>ps_root_ns := c, xml_attrs := m\<rparr>) = (map_of m a \<noteq> None)"
    "xattr a (q\<lparr>ps_root_ns := c, xml_attrs := m\<rparr>) = (case map_of m a of None \<Rightarrow> [] | Some x \<Rightarrow> xa_value x)" for a e
    by (simp_all add: check_attribute_def xattr_def)
  show ?thesis
    by (cases bs) (simp_all add: start_dataset_def only_if_def tr check_required_attribute_def x look on_dmr_def ver c Let_def)
qed

lemma dataset_start:
  assumes "dmr_ok env k d"
  shows "\<exists>x'. dmr_start_element env ''Dataset'' None dap_ns nss (sax_attrs (dataset_attrs d)) (vary l x a t (doc_started (DMR_new n) k)) =
    Inr (vary l x' a t (dataset_started d k))"
proof -
  let ?m = "foldl (\<lambda>m kv. map_insert kv m) [] (sax_attrs (dataset_attrs d))" and ?q = "vary l x a t (doc_started (DMR_new n) k)"
  let ?x = "\<lambda>v. \<lparr>xa_prefix = [], xa_uri = [], xa_value = v\<rparr>"
  have m: "map_of ?m y = map_of (sax_attrs (dataset_attrs d)) y" for y by (simp add: map_of_inserts)
  let ?f = "\<lambda>e. e\<lparr>d_dap_version := d_dap_version d, d_dap_major := d_dap_major d,
      d_dap_minor := d_dap_minor d, d_namespace := (if d_dap_major d = 4 then c_dap40_namespace else [])\<rparr>"
  let ?b = "if d_request_xml_base d \<noteq> [] then Some \<lparr>xa_prefix = ''xml'', xa_uri = xml_ns, xa_value = d_request_xml_base d\<rparr> else None"
  have look: "map_of ?m ''name'' = Some (?x (d_dmr_name d))" "map_of ?m ''dapVersion'' = Some (?x (d_dap_version d))"
    "map_of ?m ''dmrVersion'' = Some (?x (d_dmr_version d))" "map_of ?m ''base'' = ?b"
    by (simp_all add: m dataset_lookup sax_of_def)
  have ver: "set_dap_version (env_dot env) (xa_value (?x (d_dap_version d))) e = Inr (?f e)" for e
    using assms by (simp add: set_dap_version_def dmr_ok_def)
  have ns: "c_dap40_namespace \<noteq> []" "d_namespace d = c_dap40_namespace" using assms by (simp_all add: c_dap40_namespace_def dmr_ok_def)
  have r: "start_dataset env ''Dataset'' (Some c_dap40_namespace) (sax_attrs (dataset_attrs d)) ?q = Inr (vary l ?m a t (dataset_started d k))"
    using ns(2)
    by (cases "d_request_xml_base d", simp_all add: dataset_fields [OF transfer_dataset look ver ns(1)])
      (simp_all add: vary_def dataset_started_def doc_started_def push_state_def push_attributes_def push_group_def with_root_def root_of_def DMR_new_def
        read_into_def D4ParserSax2_new_def)
  have st: "ps_states (doc_started (DMR_new n) k) = [parser_start]" by (simp add: doc_started_def push_attributes_def push_state_def D4ParserSax2_new_def)
  have "dmr_start_element env ''Dataset'' None dap_ns nss (sax_attrs (dataset_attrs d)) ?q = Inr (vary l ?m a t (dataset_started d k))"
    unfolding dmr_start_element_def using r by (simp add: get_state_def st dap_ns_def only_if_def)
  then show ?thesis by blast
qed

lemma dataset_started_fields [simp]: "ps_states (dataset_started d k) = [inside_dataset, parser_start]" "ps_btps (dataset_started d k) = []"
  "ps_groups (dataset_started d k) = [[]]" "ps_attrs (dataset_started d k) = [(Of_Group [], [])]" "ps_next (dataset_started d k) = k"
  "the_root (dataset_started d k) = NewGroup ''/''" "ps_dmr (dataset_started d k) = (read_into d)\<lparr>d_root := Some (NewGroup ''/'')\<rparr>"
  by (simp_all add: dataset_started_def doc_started_def push_state_def push_attributes_def push_group_def D4ParserSax2_new_def the_root_def root_of_def)

lemma dataset_sits: "sits [] (dataset_started d k)"
  by (simp add: sits_def path_ok_def) (simp add: dataset_started_def doc_started_def push_state_def push_attributes_def push_group_def D4ParserSax2_new_def
      NewGroup_def base_facts)

lemma holding_dataset: "holding [] (NewGroup ''/'') k (dataset_started d k) = dataset_started d k"
  "ps_dmr (holding [] g j (dataset_started d k)) = (read_into d)\<lparr>d_root := Some g\<rparr>"
proof -
  have "p\<lparr>ps_dmr := (ps_dmr p)\<lparr>d_root := Some (NewGroup ''/'')\<rparr>\<rparr> = p" if "d_root (ps_dmr p) = Some (NewGroup ''/'')" for p
    using that by (cases p; cases "ps_dmr p") simp
  then show "holding [] (NewGroup ''/'') k (dataset_started d k) = dataset_started d k"
    by (simp add: holding_def on_group_def)
  show "ps_dmr (holding [] g j (dataset_started d k)) = (read_into d)\<lparr>d_root := Some g\<rparr>"
    by (simp add: holding_def on_group_def)
qed

lemma contents_of_dataset:
  assumes "dmr_ok env k d" "d_root d = Some g" "print_inner (map_of (enum_table [] g)) (map_of (dim_table [] g)) g = Inr inner"
  shows "\<exists>k'. triple env [(''Dataset'', dap_ns)] (here (dataset_started d k)) inner (about (holding [] g k' (dataset_started d k)))"
proof -
  obtain sc' k' where ok: "gname g = ''/''" "group_ok [] g no_scope k = Some (sc', k')" using assms(1,2) by (auto simp: dmr_ok_def)
  have t: "tables_agree sc' (map_of (enum_table [] g)) (map_of (dim_table [] g))"
    using group_ok_tables(1) [OF ok(2)] by (simp add: tables_agree_def no_scope_def)
  have n: "gname (NewGroup ''/'') = ''/''" by (simp add: NewGroup_def base_facts)
  have s: "in_sight no_scope r" for r by (simp add: in_sight_def no_scope_def)
  have a: "ps_attrs (dataset_started d k) = (Of_Group [], []) # []" by simp
  show ?thesis
    using group_reads(1) [of env "map_of (enum_table [] g)" "map_of (dim_table [] g)" "[]" g no_scope k, unfolded contents_read_def, rule_format,
      OF ok(2) dataset_sits a _ _ t assms(3) s] n by (auto simp: ok(1) holding_dataset(1))
qed

text \<open>The end of the dataset and of the document.\<close>

lemma document_ends:
  assumes "about (holding [] g k' (dataset_started d k)) p"
  shows "\<exists>q r. dmr_end_element env ''Dataset'' None dap_ns (p\<lparr>ps_line := l\<rparr>) = Inr q \<and> dmr_end_document (q\<lparr>ps_line := l'\<rparr>) = Inr r \<and>
    ps_states r = [parser_end] \<and> ps_dmr r = (read_into d)\<lparr>d_root := Some g\<rparr>"
proof -
  obtain as l0 x n t where p: "p = vary l0 x n t ((holding [] g k' (dataset_started d k))\<lparr>ps_attrs := as\<rparr>)" "as \<noteq> []"
    using assms by (auto simp: about_def here_def)
  let ?q = "push_state parser_end ((p\<lparr>ps_line := l\<rparr>)\<lparr>ps_states := []\<rparr>)"
  have e: "dmr_end_element env ''Dataset'' None dap_ns (p\<lparr>ps_line := l\<rparr>) = Inr ?q"
    by (simp add: p dmr_end_element_def get_state_def end_dataset_def must_be_def only_if_def pop_state_def)
  have f: "ps_states (?q\<lparr>ps_line := l'\<rparr>) = [parser_end]" "ps_btps (?q\<lparr>ps_line := l'\<rparr>) = []" "ps_groups (?q\<lparr>ps_line := l'\<rparr>) = [[]]" "ps_attrs (?q\<lparr>ps_line := l'\<rparr>) = as"
    "ps_dmr (?q\<lparr>ps_line := l'\<rparr>) = (read_into d)\<lparr>d_root := Some g\<rparr>"
    using holding_dataset(2) [of g k' d k] by (simp_all add: p push_state_def)
  obtain a as' where "as = a # as'" using p(2) by (cases as) auto
  then have "dmr_end_document (?q\<lparr>ps_line := l'\<rparr>) = Inr ((?q\<lparr>ps_line := l'\<rparr>)\<lparr>ps_groups := [], ps_attrs := as'\<rparr>)"
    using f by (simp add: dmr_end_document_def get_state_def empty_stack_def pop_group_def pop_attributes_def)
  then show ?thesis using e f by (intro exI conjI) (assumption+, simp_all)
qed

lemma document_opens: "dispatch env Start_Document ((push_state parser_start (D4ParserSax2_new (DMR_new n) k))\<lparr>ps_line := l\<rparr>) =
    Inr (vary l [] [] [] (doc_started (DMR_new n) k))"
  by (simp add: dispatch_def dmr_start_document_def doc_started_def) (simp add: vary_def push_state_def push_attributes_def on_dmr_def D4ParserSax2_new_def)

lemma dataset_attrs_written:
  assumes "dmr_ok env k d"
  shows "map (\<lambda>(a, v). WriteAttribute a (c_str v)) (dataset_attrs d) = map (\<lambda>(a, v). WriteAttribute a v) (dataset_attrs d)"
    "default_ns (dataset_attrs d) None = dap_ns"
  using assms by (auto simp: dataset_attrs_def dmr_ok_def c_str_plain default_ns_def dap_ns_def c_dap40_namespace_def)

lemma inner_starts:
  assumes "dmr_ok env k d" "d_root d = Some g" "print_inner et dt g = Inr inner"
  shows "starts_element inner"
proof -
  have "\<forall>h \<in> set (groups g). gname h \<noteq> [] \<and> gname h \<noteq> ''/''"
  proof (cases g)
    case (Group b ds es vs hs)
    obtain sc' k' where "group_ok [] g no_scope k = Some (sc', k')" using assms(1,2) by (auto simp: dmr_ok_def)
    then have "\<exists>ms sc2 j. groups_ok ms hs sc2 j = Some (sc', k')" by (auto simp: Group Let_def split: if_splits option.splits)
    then show ?thesis using groups_ok_names by (fastforce simp: Group label_ok_def)
  qed
  then show ?thesis
    using assms(3) by (auto simp: print_inner_def andthen_Inr intro!: starts_element_simps(4) intro: starts_dims starts_enums starts_attributes starts_groups
        starts_all [OF _ starts_decl])
qed

lemma document_run:
  assumes "dmr_ok env k d" "d_root d = Some g" "print_inner (map_of (enum_table [] g)) (map_of (dim_table [] g)) g = Inr inner"
    and "document_reported (xml_element ''Dataset'' (dataset_attrs d) inner) cs"
  shows "\<exists>r. run_callbacks env cs (push_state parser_start (D4ParserSax2_new (DMR_new n) k)) = Inr r \<and>
    ps_states r = [parser_end] \<and> ps_dmr r = (read_into d)\<lparr>d_root := Some g\<rparr>"
proof -
  let ?as = "dataset_attrs d" and ?P = "doc_started (DMR_new n) k"
  obtain l0 body l9 where cs: "cs = (l0, Start_Document) # body @ [(l9, End_Document)]"
    "reported False [] (StartElement ''Dataset'' # map (\<lambda>(a, v). WriteAttribute a v) ?as @ inner @ [EndElement]) body"
    using assms(4) by (auto simp: document_reported_def xml_element_def dataset_attrs_written [OF assms(1)])
  have w: "written_attrs (map (\<lambda>(a, v). WriteAttribute a v) ?as @ inner @ [EndElement]) = (?as, inner @ [EndElement])"
    by (rule written_attrs_append [OF starts_first [OF inner_starts [OF assms(1-3)]]])
  obtain ws l c1 where c1: "blanks ws" "body = ws @ (l, Start_Element ''Dataset'' None dap_ns (namespaces ?as) (sax_attrs ?as)) # c1"
    "reported False [(''Dataset'', dap_ns)] (inner @ [EndElement]) c1"
    using reported_start [OF cs(2) refl] by (auto simp: w dataset_attrs_written(2) [OF assms(1)])
  have "ps_states ?P = [parser_start]" by (simp add: doc_started_def push_state_def push_attributes_def D4ParserSax2_new_def)
  then have ib: "ignores_blanks (here ?P)" using ignores_blanks_here by fastforce
  have "here ?P (vary l0 [] [] [] ?P)" by (auto simp: here_def)
  then obtain p1 where p1: "here ?P p1" "run_callbacks env body (vary l0 [] [] [] ?P) =
      run_callbacks env ((l, Start_Element ''Dataset'' None dap_ns (namespaces ?as) (sax_attrs ?as)) # c1) p1"
    using run_blanks [OF c1(1) ib] c1(2) by blast
  obtain p2 where p2: "dmr_start_element env ''Dataset'' None dap_ns (namespaces ?as) (sax_attrs ?as) (p1\<lparr>ps_line := l\<rparr>) = Inr p2" "here (dataset_started d k) p2"
    using p1(1) dataset_start [OF assms(1)] unfolding here_def by (metis vary_simps(1))
  obtain k' where "triple env [(''Dataset'', dap_ns)] (here (dataset_started d k)) inner (about (holding [] g k' (dataset_started d k)))"
    using contents_of_dataset [OF assms(1-3)] by blast
  then obtain a3 c3 p3 where p3: "about (holding [] g k' (dataset_started d k)) p3" "reported a3 [(''Dataset'', dap_ns)] [EndElement] c3"
    "run_callbacks env c1 p2 = run_callbacks env c3 p3"
    using p2(2) c1(3) unfolding triple_def by blast
  obtain ws' l' c4 where c4: "blanks ws'" "c3 = ws' @ (l', End_Element ''Dataset'' None dap_ns) # c4" "reported True [] [] c4"
    using reported_end [OF p3(2) refl] by auto
  have "c4 = []" using c4(3) by (cases rule: reported_nilE) auto
  have "ps_states (holding [] g k' (dataset_started d k)) = inside_dataset # [parser_start]" by simp
  then have ib2: "ignores_blanks (about (holding [] g k' (dataset_started d k)))" by (rule ignores_blanks_about) simp
  obtain p4 where p4: "about (holding [] g k' (dataset_started d k)) p4" "run_callbacks env c3 p3 = run_callbacks env [(l', End_Element ''Dataset'' None dap_ns)] p4"
    using run_blanks [OF c4(1) ib2 p3(1)] c4(2) \<open>c4 = []\<close> by blast
  obtain q r where r: "dmr_end_element env ''Dataset'' None dap_ns (p4\<lparr>ps_line := l'\<rparr>) = Inr q" "dmr_end_document (q\<lparr>ps_line := l9\<rparr>) = Inr r"
    "ps_states r = [parser_end]" "ps_dmr r = (read_into d)\<lparr>d_root := Some g\<rparr>"
    using document_ends [OF p4(1)] by blast
  have "run_callbacks env body (vary l0 [] [] [] ?P) = Inr q"
    using p1(2) p2(1) p3(3) p4(2) r(1) by (simp add: dispatch_def)
  then have "run_callbacks env cs (push_state parser_start (D4ParserSax2_new (DMR_new n) k)) = Inr r"
    using r(2) by (simp add: cs(1) document_opens run_append) (simp add: dispatch_def)
  then show ?thesis using r(3,4) by blast
qed

section \<open>Call-backs of a document\<close>

text \<open>One sequence of call-backs for what was written: without white space, every text in one piece.\<close>

lemma written_attrs_shorter: "length (snd (written_attrs evs)) \<le> length evs"
  by (induction evs rule: written_attrs.induct) (auto split: prod.splits)

function plain_calls :: "(string \<times> string option) list \<Rightarrow> xml_event list \<Rightarrow> callbacks option" where
  "plain_calls st [] = (if st = [] then Some [] else None)"
| "plain_calls st (StartElement n # evs) = (case written_attrs evs of (as, rest) \<Rightarrow>
     let u = default_ns as (case st of [] \<Rightarrow> None | (m, u) # st' \<Rightarrow> u) in
     if CHR '':'' \<notin> set n \<and> distinct (map fst as) \<and> (\<forall>(a, v) \<in> set as. prefix_ok a \<and> xml_text v)
     then map_option (\<lambda>cs. (1, Start_Element n None u (namespaces as) (sax_attrs as)) # cs) (plain_calls ((n, u) # st) rest) else None)"
| "plain_calls st (WriteString s # evs) =
     (if xml_text s then map_option (\<lambda>cs. (1, Characters s) # cs) (plain_calls st evs) else None)"
| "plain_calls st (EndElement # evs) = (case st of [] \<Rightarrow> None | (n, u) # st' \<Rightarrow>
     map_option (\<lambda>cs. (1, End_Element n None u) # cs) (plain_calls st' evs))"
| "plain_calls st (WriteAttribute a v # evs) = None"
| "plain_calls st (WriteRaw s # evs) = None"
  by pat_completeness auto

termination
  by (relation "measure (\<lambda>(st, evs). length evs)")
    (auto, metis written_attrs_shorter snd_conv le_imp_less_Suc)

lemma plain_calls_reported: "plain_calls st evs = Some cs \<Longrightarrow> reported after st evs cs"
proof (induction st evs arbitrary: cs after rule: plain_calls.induct)
  case (1 st)
  then show ?case by (auto intro: r_nil split: if_splits)
next
  case (2 st n evs)
  obtain as rest where w: "written_attrs evs = (as, rest)" by (cases "written_attrs evs")
  let ?ns = "case st of [] \<Rightarrow> None | (m, u) # st' \<Rightarrow> u"
  obtain ds where ds: "plain_calls ((n, default_ns as ?ns) # st) rest = Some ds" "CHR '':'' \<notin> set n" "distinct (map fst as)"
    "\<forall>(a, v) \<in> set as. prefix_ok a \<and> xml_text v" "cs = (1, Start_Element n None (default_ns as ?ns) (namespaces as) (sax_attrs as)) # ds"
    using 2(2) by (auto simp: w Let_def split: if_splits)
  show ?case unfolding ds(5) using ds(1-4) w
    by (intro r_start [OF w refl]) (auto intro!: 2(1) [OF w [symmetric] refl])
next
  case (3 st s evs)
  then obtain ds where ds: "xml_text s" "plain_calls st evs = Some ds" "cs = (1, Characters s) # ds" by (auto split: if_splits)
  have "reported after st (WriteString s # evs) (map (\<lambda>(l, w). (l, Characters w)) (zip [1] [s]) @ ds)"
    by (rule r_text) (use ds 3(1) in auto)
  then show ?case by (simp add: ds(3))
next
  case (4 st evs)
  then show ?case by (auto split: list.splits intro: r_end)
qed auto

definition plain_document :: "xml_event list \<Rightarrow> callbacks option" where
  "plain_document evs = map_option (\<lambda>cs. (1, Start_Document) # cs @ [(1, End_Document)]) (plain_calls [] evs)"

lemma plain_document_reported: "plain_document evs = Some cs \<Longrightarrow> document_reported evs cs"
  unfolding plain_document_def document_reported_def by (auto intro: plain_calls_reported)

section \<open>Property\<close>

text \<open>C3: A DMR that a document can carry is printed, and whatever call-backs libxml2 reports for the document, the parser
  reads them without an error into an equal DMR; only the name of the file and the limit of the response, which are not
  printed, are those of a new DMR.\<close>

theorem dmr_round_trip:
  assumes "dmr_ok env k d"
  shows "\<exists>evs. print_dmr False d = Inr (evs, d) \<and> (\<forall>cs sax buf e. document_reported evs cs \<longrightarrow> buf \<noteq> [] \<longrightarrow>
    sax buf = \<lparr>sr_callbacks = cs, sr_well_formed = True, sr_valid = True\<rparr> \<longrightarrow>
    (\<exists>q. intern_buffer env sax buf (D4ParserSax2_new e k) (Some (DMR_new n)) = Inr q \<and>
      ps_dmr q = d\<lparr>d_filename := [], d_max_response_size := 0\<rparr>))"
proof -
  obtain g where g: "d_root d = Some g" using assms by (auto simp: dmr_ok_def split: option.splits)
  obtain inner where i: "print_inner (map_of (enum_table [] g)) (map_of (dim_table [] g)) g = Inr inner"
    "print_dmr False d = Inr (xml_element ''Dataset'' (dataset_attrs d) inner, d)" using dmr_printed [OF assms g] by blast
  have root: "(read_into d)\<lparr>d_root := Some g\<rparr> = d\<lparr>d_filename := [], d_max_response_size := 0\<rparr>"
    using g by (cases d) (simp add: read_into_def)
  have "\<exists>q. intern_buffer env sax buf (D4ParserSax2_new e k) (Some (DMR_new n)) = Inr q \<and> ps_dmr q = d\<lparr>d_filename := [], d_max_response_size := 0\<rparr>"
    if cs: "document_reported (xml_element ''Dataset'' (dataset_attrs d) inner) cs" "buf \<noteq> []"
      "sax buf = \<lparr>sr_callbacks = cs, sr_well_formed = True, sr_valid = True\<rparr>" for cs sax buf e
  proof -
    obtain r where r: "run_callbacks env cs (push_state parser_start (D4ParserSax2_new (DMR_new n) k)) = Inr r" "ps_states r = [parser_end]"
      "ps_dmr r = d\<lparr>d_filename := [], d_max_response_size := 0\<rparr>"
      using document_run [OF assms g i(1) cs(1), of n] root by auto
    have "(D4ParserSax2_new e k)\<lparr>ps_dmr := DMR_new n\<rparr> = D4ParserSax2_new (DMR_new n) k" by (simp add: D4ParserSax2_new_def)
    then show ?thesis using r cs(2,3) by (simp add: intern_buffer_def intern_text_def cleanup_parse_def get_state_def Let_def)
  qed
  then show ?thesis using i(2) by blast
qed

section \<open>Witness\<close>

text \<open>A dataset with a dimension, an array with an attribute and a map, and a group with an enumeration and a structure.\<close>

definition demo_dim :: d4dimension where "demo_dim = D4Dimension 1 ''x'' 3"

definition demo_base :: "string \<Rightarrow> attribute list \<Rightarrow> d4base" where
  "demo_base n as = (BaseType_new n)\<lparr>d_attributes := as\<rparr>"

definition demo_array :: "string \<Rightarrow> attribute list \<Rightarrow> d4map list \<Rightarrow> decl" where
  "demo_array n as ms = Array_Decl (demo_base n as) (Simple_Decl (BaseType_new n) dods_float32_c None)
     (append_dimension (dimension_of_dim demo_dim) no_shape) ms"

definition demo_inner :: dmr_group where
  "demo_inner = Group (demo_base ''g'' []) [] [(D4EnumDef 2 ''colour'' dods_byte_c)\<lparr>ed_tuples := [(''red'', 1), (''blue'', 2)]\<rparr>]
     [Constructor_Decl (demo_base ''s'' []) dods_structure_c [Simple_Decl (demo_base ''c'' []) dods_enum_c (Some 2)]] []"

definition demo_dmr :: DMR where
  "demo_dmr = (DMR_new ''demo'')\<lparr>d_root := Some (Group (demo_base ''/'' [Attribute ''meta'' attr_container_c (Some [Attribute ''by'' attr_str_c None [''us'']]) []])
     [demo_dim] [] [demo_array ''x'' [Attribute ''units'' attr_str_c None [''m'', ''km'']] [], demo_array ''t'' [] [\<lparr>mp_name = ''/x'', mp_array = True\<rparr>]]
     [demo_inner])\<rparr>"

definition demo_env :: environment where "demo_env = \<lparr>env_junk = 0, env_dot = CHR ''?''\<rparr>"

lemma demo_ok: "dmr_ok demo_env 1 demo_dmr"
  by code_simp

lemma demo_document: "case print_dmr False demo_dmr of Inl e \<Rightarrow> False | Inr (evs, d) \<Rightarrow> plain_document evs \<noteq> None"
  by code_simp

lemma demo_unlimited: "demo_dmr\<lparr>d_filename := [], d_max_response_size := 0\<rparr> = demo_dmr"
  by (simp add: demo_dmr_def DMR_new_def)

theorem dmr_round_trip_witness: "case print_dmr False demo_dmr of Inl e \<Rightarrow> False | Inr (evs, d) \<Rightarrow> (case plain_document evs of None \<Rightarrow> False | Some cs \<Rightarrow>
    (case intern_buffer demo_env (\<lambda>_. \<lparr>sr_callbacks = cs, sr_well_formed = True, sr_valid = True\<rparr>) ''x'' (D4ParserSax2_new demo_dmr 1) (Some (DMR_new [])) of
       Inl e \<Rightarrow> False | Inr q \<Rightarrow> ps_dmr q = demo_dmr))"
proof -
  obtain evs where e: "print_dmr False demo_dmr = Inr (evs, demo_dmr)"
    "\<forall>cs sax buf e. document_reported evs cs \<longrightarrow> buf \<noteq> [] \<longrightarrow> sax buf = \<lparr>sr_callbacks = cs, sr_well_formed = True, sr_valid = True\<rparr> \<longrightarrow>
      (\<exists>q. intern_buffer demo_env sax buf (D4ParserSax2_new e 1) (Some (DMR_new [])) = Inr q \<and> ps_dmr q = demo_dmr)"
    using dmr_round_trip [OF demo_ok, of "[]"] unfolding demo_unlimited by blast
  obtain cs where cs: "plain_document evs = Some cs" using demo_document e(1) by auto
  let ?sax = "\<lambda>_ :: string. \<lparr>sr_callbacks = cs, sr_well_formed = True, sr_valid = True\<rparr>"
  obtain q where "intern_buffer demo_env ?sax ''x'' (D4ParserSax2_new demo_dmr 1) (Some (DMR_new [])) = Inr q" "ps_dmr q = demo_dmr"
    using e(2) [rule_format, OF plain_document_reported [OF cs], of "''x''" ?sax demo_dmr] by auto
  then show ?thesis by (simp add: e(1) cs)
qed

end
