(* ===== verification/DmrErrors.thy ===== *)
theory DmrErrors
  imports DmrAttributes
begin

text \<open>
  The errors of the DMR parser: one that is noted at the start of an element stays until the document is rejected; one
  that is noted at the end of an element is taken off the stack of states again, and what follows is read as if nothing
  had happened.
\<close>

section \<open>Errors that stay\<close>

lemma error_top: "ps_states p = parser_error # ss \<Longrightarrow> (\<And>m. c \<noteq> Reader_Fatal_Error m) \<Longrightarrow>
    \<exists>q ss'. dispatch env c (p\<lparr>ps_line := l\<rparr>) = Inr q \<and> ps_states q = parser_error # ss'"
  by (cases c) (auto simp: dispatch_def dmr_start_document_def dmr_end_document_def dmr_start_element_def dmr_end_element_def dmr_get_characters_def
      dmr_ignoreable_whitespace_def dmr_get_cdata_def get_state_def only_if_def push_attributes_def on_dmr_def dmr_error_def push_state_def Let_def)

lemma error_run:
  assumes "ps_states p = parser_error # ss" "\<forall>(l, c) \<in> set cs. \<forall>m. c \<noteq> Reader_Fatal_Error m"
  shows "\<exists>q ss'. run_callbacks env cs p = Inr q \<and> ps_states q = parser_error # ss'"
  using assms
proof (induction cs arbitrary: p ss)
  case (Cons lc cs)
  obtain l c where lc: "lc = (l, c)" by (cases lc)
  have nf: "c \<noteq> Reader_Fatal_Error m" for m using Cons.prems(2) by (simp add: lc)
  obtain q ss' where q: "dispatch env c (p\<lparr>ps_line := l\<rparr>) = Inr q" "ps_states q = parser_error # ss'"
    using error_top [OF Cons.prems(1) nf] by blast
  have "\<forall>(l, c) \<in> set cs. \<forall>m. c \<noteq> Reader_Fatal_Error m" using Cons.prems(2) by simp
  then show ?case using Cons.IH [OF q(2)] q(1) by (simp add: lc)
qed simp

lemma error_cleanup: "ps_states q = parser_error # ss \<Longrightarrow> \<exists>e. cleanup_parse formed valid q = Inl e"
  by (cases formed; cases valid) (simp_all add: cleanup_parse_def get_state_def Let_def)

section \<open>Errors that are forgotten\<close>

definition add_dim_to :: "d4dimension \<Rightarrow> dmr_group \<Rightarrow> dmr_group" where
  "add_dim_to d g = (case g of Group b ds es vs hs \<Rightarrow> Group b (add_dim_nocopy d ds) es vs hs)"

lemma dims_add [simp]: "dims (add_dim_to d g) = dims g @ [d]"
  by (cases g) (simp add: add_dim_to_def add_dim_nocopy_def)

lemma dimension_end:
  assumes "ps_states q = inside_dim_def # ss" "ps_groups q = path # gs" "ps_dim_def q = None"
  shows "dmr_end_element env ''Dimension'' pre uri q = Inr ((on_group path (add_dim_to (D4Dimension (ps_next q) [] 0))
    (q\<lparr>ps_dim_def := Some (D4Dimension (ps_next q) [] 0), ps_next := ps_next q + 1\<rparr>))\<lparr>ps_dim_def := None, ps_states := ss\<rparr>)"
  using assms by (simp add: dmr_end_element_def get_state_def end_dim_def_def must_be_def only_if_def top_group_def dim_def_def pop_state_def
      on_group_def Let_def add_dim_to_def [abs_def])

section \<open>Properties\<close>

text \<open>C15: Once an error has been noted and the state of the parser is that of an error, no call-back other than a fatal
  error of the reader changes the state or throws, whatever the document goes on with, and the document is rejected,
  whether it is well formed and valid or not.\<close>

theorem noted_error_rejects:
  assumes "run_callbacks env before p = Inr r" "ps_states r = parser_error # ss"
    and "\<forall>(l, c) \<in> set rest. \<forall>m. c \<noteq> Reader_Fatal_Error m"
  shows "\<exists>q ss' e. run_callbacks env (before @ rest) p = Inr q \<and> ps_states q = parser_error # ss' \<and> cleanup_parse formed valid q = Inl e"
proof -
  obtain q ss' where q: "run_callbacks env rest r = Inr q" "ps_states q = parser_error # ss'" using error_run [OF assms(2,3)] by blast
  then show ?thesis using error_cleanup [OF q(2)] assms(1) by (auto simp: run_append)
qed

text \<open>C26: An element inside a dimension is accepted: its end adds the dimension to the group and takes only the noted error
  off the stack, so the end of the dimension adds another one, without a name and of size zero, and the parser goes on as after any
  dimension.\<close>

theorem element_in_dimension_accepted:
  assumes "ps_states p = inside_dim_def # ss" "ps_groups p = path # gs" "valid_path path (the_root p)" "ps_dim_def p = Some d" "n \<noteq> ''Dimension''"
  shows "\<exists>q. run_callbacks env [(l1, Start_Element n pre (Some c_dap40_namespace) nss as), (l2, End_Element n pre (Some c_dap40_namespace)),
      (l3, End_Element ''Dimension'' None (Some c_dap40_namespace))] p = Inr q \<and> ps_states q = ss \<and> ps_dim_def q = None \<and>
    dims (group_at path (the_root q)) = dims (group_at path (the_root p)) @ [d, D4Dimension (ps_next p) [] 0]"
proof -
  let ?p1 = "dmr_error (quoted (''Expected an end '' @ ''Dimension tag;'' @ '' found '') n '' instead.'') (p\<lparr>ps_line := l1, ps_line := l2\<rparr>)"
  let ?q1 = "(on_group path (add_dim_to d) ?p1)\<lparr>ps_dim_def := None, ps_states := ps_states p\<rparr>" and ?e = "D4Dimension (ps_next p) [] 0"
  have s: "dmr_start_element env n pre (Some c_dap40_namespace) nss as (p\<lparr>ps_line := l1\<rparr>) = Inr (p\<lparr>ps_line := l1\<rparr>)"
    using assms(1) by (simp add: dmr_start_element_def get_state_def only_if_def)
  have e1: "dmr_end_element env n pre (Some c_dap40_namespace) (p\<lparr>ps_line := l1, ps_line := l2\<rparr>) = Inr ?q1"
    using assms by (simp add: dmr_end_element_def get_state_def end_dim_def_def must_be_def only_if_def top_group_def dim_def_def pop_state_def
        dmr_error_def push_state_def on_group_def the_root_def add_dim_to_def [abs_def])
  have f: "ps_states (?q1\<lparr>ps_line := l3\<rparr>) = inside_dim_def # ss" "ps_groups (?q1\<lparr>ps_line := l3\<rparr>) = path # gs" "ps_dim_def (?q1\<lparr>ps_line := l3\<rparr>) = None"
    "ps_next ?q1 = ps_next p" "the_root ?q1 = update_group path (add_dim_to d) (the_root p)"
    using assms(1,2) by (simp_all add: on_group_def dmr_error_def push_state_def the_root_def root_of_def)
  let ?q2 = "(on_group path (add_dim_to ?e) (?q1\<lparr>ps_line := l3, ps_dim_def := Some ?e, ps_next := ps_next p + 1\<rparr>))\<lparr>ps_dim_def := None, ps_states := ss\<rparr>"
  have e2: "dmr_end_element env ''Dimension'' None (Some c_dap40_namespace) (?q1\<lparr>ps_line := l3\<rparr>) = Inr ?q2"
    using dimension_end [OF f(1-3), of env None "Some c_dap40_namespace"] f(4) by simp
  have "the_root ?q2 = update_group path (add_dim_to ?e) (update_group path (add_dim_to d) (the_root p))"
    using f(5) by (simp add: on_group_def the_root_def root_of_def)
  then have "dims (group_at path (the_root ?q2)) = dims (group_at path (the_root p)) @ [d, ?e]" using assms(3) by simp
  moreover have "run_callbacks env [(l1, Start_Element n pre (Some c_dap40_namespace) nss as), (l2, End_Element n pre (Some c_dap40_namespace)),
      (l3, End_Element ''Dimension'' None (Some c_dap40_namespace))] p = Inr ?q2"
    unfolding run_callbacks.simps dispatch_def callback.case s andthen_simps e1 e2 ..
  ultimately show ?thesis by (intro exI [of _ ?q2]) simp
qed

section \<open>Witnesses\<close>

definition err_env :: environment where "err_env = \<lparr>env_junk = 0, env_dot = CHR ''.''\<rparr>"

definition err_start :: parser where "err_start = push_state parser_start (D4ParserSax2_new (DMR_new []) 1)"

definition err_before :: callbacks where
  "err_before = [(1, Start_Document),
     (2, Start_Element ''Dataset'' None (Some c_dap40_namespace) [] [(''name'', \<lparr>xa_prefix = [], xa_uri = [], xa_value = ''d''\<rparr>)]),
     (3, Start_Element ''Foo'' None (Some c_dap40_namespace) [] [])]"

definition err_rest :: callbacks where
  "err_rest = [(3, End_Element ''Foo'' None (Some c_dap40_namespace)), (4, End_Element ''Dataset'' None (Some c_dap40_namespace)), (4, End_Document)]"

lemma err_noted: "case run_callbacks err_env err_before err_start of Inl e \<Rightarrow> False | Inr r \<Rightarrow> ps_states r = [parser_error, inside_dataset, parser_start]"
  by code_simp

theorem noted_error_rejects_witness: "\<exists>q ss' e. run_callbacks err_env (err_before @ err_rest) err_start = Inr q \<and> ps_states q = parser_error # ss' \<and>
    cleanup_parse True True q = Inl e"
proof -
  obtain r where r: "run_callbacks err_env err_before err_start = Inr r" "ps_states r = [parser_error, inside_dataset, parser_start]"
    using err_noted by (cases "run_callbacks err_env err_before err_start") auto
  have "\<forall>(l, c) \<in> set err_rest. \<forall>m. c \<noteq> Reader_Fatal_Error m" by (simp add: err_rest_def)
  then show ?thesis by (rule noted_error_rejects [OF r])
qed

definition in_dimension :: parser where
  "in_dimension = (D4ParserSax2_new (with_root (DMR_new [])) 7)\<lparr>ps_states := [inside_dim_def, inside_dataset, parser_start], ps_groups := [[]],
     ps_dim_def := Some (D4Dimension 6 ''x'' 3)\<rparr>"

theorem element_in_dimension_accepted_witness:
  "\<exists>q. run_callbacks err_env [(1, Start_Element ''Foo'' None (Some c_dap40_namespace) [] []), (1, End_Element ''Foo'' None (Some c_dap40_namespace)),
      (1, End_Element ''Dimension'' None (Some c_dap40_namespace))] in_dimension = Inr q \<and> ps_states q = [inside_dataset, parser_start] \<and>
    ps_dim_def q = None \<and> dims (the_root q) = [D4Dimension 6 ''x'' 3, D4Dimension 7 [] 0]"
proof -
  have p: "ps_states in_dimension = inside_dim_def # [inside_dataset, parser_start]" "ps_groups in_dimension = [] # []" "ps_dim_def in_dimension = Some (D4Dimension 6 ''x'' 3)"
    "ps_next in_dimension = 7" "dims (the_root in_dimension) = []"
    by (simp_all add: in_dimension_def D4ParserSax2_new_def the_root_def root_of_def with_root_def DMR_new_def NewGroup_def)
  show ?thesis using element_in_dimension_accepted [OF p(1,2) _ p(3), of "''Foo''" err_env 1 None "[]" "[]" 1 1] p(4,5) by simp
qed

end
