(* ===== verification/Spec2Isabelle.thy ===== *)
theory Spec2Isabelle
  imports Escaping HttpCacheTable ParserUtil WriterThread Filters DmrRoundTrip DmrErrors
begin

text \<open>
  A verification development for libdap, the C++ implementation of the DAP2 and DAP4 data access
  protocols.

  \<^bold>\<open>The program.\<close>  A server holds variables and attributes, evaluates a constraint, and sends a
  response; a client reads it, and may keep it in a cache on disk.  Names and attribute values pass
  through escaping routines on their way into URLs, DAS and DDX documents and back
  (\<open>escaping.cc\<close>).  What a DAP4 dataset holds is declared in a DMR document, which \<open>print_dap4\<close> writes and
  \<open>D4ParserSax2\<close> reads.  A DAP4 response is a sequence of values followed by checksums, written by
  \<open>D4StreamMarshaller\<close> and read by \<open>D4StreamUnMarshaller\<close> (with the CRC of \<open>crc.h\<close>), and it travels
  in chunks: \<open>chunked_ostream\<close> cuts what is written into chunks with a header, and
  \<open>chunked_istream\<close> puts them together again and tells the reader whether to swap bytes.  The
  client cache keeps an index of responses in \<open>HTTPCacheTable\<close>; the HTTP dates it compares are read
  and printed by \<open>util_mit.cc\<close>.  The parsers of attribute documents check numbers with
  \<open>parser-util.cc\<close>; \<open>util.cc\<close> holds what all of them share.

  \<^bold>\<open>The theories.\<close>
  \<^item> \<open>Prelude\<close>: exceptions as values (\<open>exn\<close>, \<open>result\<close>), the search-and-replace loops that the
    sources write again and again, and two locales with the law under which such a loop decodes an encoding.
  \<^item> \<open>CLib\<close>: what the sources use of the C library (integer conversions, character classes,
    \<open>strtol\<close> and \<open>strtoul\<close>, decimal printing).
  \<^item> \<open>Escaping\<close>: \<open>escaping.cc\<close>, one definition per function; round trips of each encoder with its
    decoder, rejection of characters without an entity, and where the decoders fail.
  \<^item> \<open>ChunkFormat\<close>, \<open>ChunkedOut\<close>, \<open>ChunkedIn\<close>: headers and chunks as bytes; the stream buffers
    \<open>chunked_outbuf\<close> and \<open>chunked_inbuf\<close> as records, one definition per member function and per
    loop step; the output stream, with the \<open>badbit\<close> of its \<open>ostream\<close>, refines an abstract stream of chunks, the input buffer an
    abstract reader, and together they are the identity on bytes for blocks of less than 2 GiB.
  \<^item> \<open>Crc\<close>: the table and the class \<open>Crc32\<close>; equivalence with a serial shift register, and what changes
    the checksum detects.
  \<^item> \<open>D4Marshal\<close>: the put and get operations over an abstract stream (locales \<open>byte_sink\<close>,
    \<open>byte_source\<close>, \<open>byte_channel\<close>, interpreted on the library's streams and on the chunked
    streams); responses survive the transport between hosts of the same byte order, and of different ones if no value has a
    length prefix, which the reader does not swap.
  \<^item> \<open>WriterThread\<close>: the main thread, the writer threads, their mutex, condition variable and counter
    (\<open>MarshallerThread.cc\<close>) as a step relation; order, mutual exclusion, progress and termination, and
    what a failing thread creation and a wait without a signal do.
  \<^item> \<open>HttpDate\<close>: \<open>parse_time\<close> and \<open>date_time_str\<close> on a broken-down time; a date printed is read back.
  \<^item> \<open>HttpCacheTable\<close>: the table of entries with its locks, functors, index file and headers; an
    accounting invariant that every operation preserves, exact effects of the garbage collections
    (locale \<open>collector\<close>, one proof for five functors), and the lock protocol as a step relation.
  \<^item> \<open>Floats\<close>: the IEEE formats as far as the sources use them (comparison, conversion, \<open>strtod\<close>) and the
    floating point checks of \<open>parser-util.cc\<close>.
  \<^item> \<open>Scalars\<close>: the variables that hold one value, one record and one group of operations per class
    (\<open>Byte.cc\<close> to \<open>Float64.cc\<close>, \<open>Str.cc\<close>, \<open>D4Opaque.cc\<close>, \<open>D4Enum.cc\<close>), with their DAP4
    \<open>serialize\<close> and \<open>deserialize\<close>; a \<open>Byte\<close> carries its type, which the DAP4 factory sets to \<open>Char\<close> or \<open>UInt8\<close>.
  \<^item> \<open>Relops\<close>: the templates of \<open>Operators.h\<close> with the conversions of C++ written out, and \<open>ops\<close> and
    \<open>d4_ops\<close> of every class; when the comparison of two integers is the one of mathematics.
  \<^item> \<open>Filters\<close>: server functions, clauses and selections of DAP2 (\<open>Clause.cc\<close>,
    \<open>ConstraintEvaluator.cc\<close>) and filters of DAP4 (\<open>D4RValue.cc\<close>, \<open>D4FilterClause.cc\<close>); a selection is the
    conjunction of disjunctions it is written as, and what a filter with a numeric constant selects.
  \<^item> \<open>Arrays\<close>: shared dimensions and enumeration definitions, and the shape of an array with its slices
    (\<open>D4Dimensions.cc\<close>, \<open>D4EnumDefs.cc\<close>, \<open>Array.cc\<close>); the length invariant, what a slice selects, and the text of
    an array.
  \<^item> \<open>Vectors\<close>: the memory of an array (\<open>Vector.cc\<close>): buffers of bytes, setting and getting values, slices, and the
    places where the sizes do not fit.
  \<^item> \<open>Variables\<close>, \<open>VarIO\<close>, \<open>VarTransfer\<close>: trees of variables (\<open>Constructor.cc\<close>, \<open>D4Sequence.cc\<close>, \<open>Vector.cc\<close>) with
    flags, members and lookup; \<open>serialize\<close> and \<open>deserialize\<close> as partial functions; round trip of a variable of any
    shape (with the same condition on byte orders), preservation of its class, and termination of the reading of a sequence.
  \<^item> \<open>D4Group\<close>: the groups of a dataset (\<open>D4Group.cc\<close>): fully qualified names resolve, and the response of a
    whole dataset with its checksums arrives.
  \<^item> \<open>Xml\<close>: the events of an XML writer and the call-backs of libxml2; \<open>reported\<close> relates a document that was written to
    every sequence of call-backs that may be reported for it (white space, text in pieces, any line numbers).
  \<^item> \<open>D4Attributes\<close>, \<open>Dmr\<close>: trees of attributes (\<open>D4Attributes.cc\<close>); the declarations of a dataset, the factory, the
    document and all of \<open>print_dap4\<close> (\<open>DMR.cc\<close>, \<open>D4Group.cc\<close>, \<open>Array.cc\<close>, \<open>Constructor.cc\<close>, \<open>BaseType.cc\<close>, \<open>D4Enum.cc\<close>,
    \<open>D4Dimensions.cc\<close>, \<open>D4EnumDefs.cc\<close>, \<open>D4Maps.cc\<close>, \<open>D4BaseTypeFactory.cc\<close>).
  \<^item> \<open>D4Parser\<close>, \<open>DmrSax\<close>: the SAX parser (\<open>D4ParserSax2.cc\<close>) as a record of stacks with one definition per member function
    and per call-back.
  \<^item> \<open>DmrDocument\<close>, \<open>DmrAttributes\<close>, \<open>DmrVariables\<close>, \<open>DmrDecls\<close>, \<open>DmrScope\<close>, \<open>DmrGroups\<close>, \<open>DmrRoundTrip\<close>: assertions
    about the parser before and after a piece of a document (\<open>triple\<close>), one per construct from values to groups; names
    resolve in the groups read so far, which only grow; a DMR that passes the walk \<open>dmr_ok\<close> is printed and read back.
  \<^item> \<open>DmrErrors\<close>: which errors of the parser stay, and which are forgotten.
  \<^item> \<open>StringUtil\<close>, \<open>ParserUtil\<close>: type names and classes, numbers as text, duplicate names, and the
    number checks of the attribute parsers.

  \<^bold>\<open>Conventions.\<close>  A class is a record and a member function takes and returns it.  A fallible function
  returns \<open>exn + 'a\<close>; a loop or a stream operation that may not return has an option around that.
  Integers have the width of the source where it matters (\<open>u8\<close> to \<open>u64\<close>), and are \<open>int\<close> with
  explicit conversions (\<open>to_int\<close>, \<open>to_uint\<close>) where it does not.  The byte order of the host, the
  current time and uninitialised memory are parameters; so are the virtual \<open>read\<close> of a variable, the filter clauses of a sequence
  (which may read variables), the functions a server registers and the regular expressions of the system.  Where variables are shared by pointer
  (\<open>Relops\<close>, \<open>Filters\<close>) a heap maps addresses to variables.

  \<^bold>\<open>Loops and bounds.\<close>  The loops of the chunked streams are \<open>while_option\<close>, and it is proved that they
  end.  \<open>serialize_var\<close>, \<open>deserialize_var\<close> and the loops that read a sequence from a server are
  \<open>partial_function (option)\<close>: the round trips prove that the first two return, \<open>read_sequence_returns\<close> that the last do.  The replace loops terminate by the length of the unread rest.  Bounds in theorems are
  those at which the code changes behaviour: 4 GiB for one block write to the buffer (a 32-bit counter), 2 GiB for one block write to
  the stream, one block read and one value (the \<open>int\<close> that \<open>not_eof\<close> returns), 4 GiB for the memory of an array (an \<open>unsigned int\<close>).

  \<^bold>\<open>Not modelled.\<close>  Files, sockets, libcurl, libxml2 and the XDR library appear only as parameters, as the
  relation \<open>reported\<close> or not at all (the calls of the XML writer are taken to succeed); the flex and bison grammars have no generated parser in the repository; gnulib, the ports
  and the regular expressions of GNU are not code of this program.  Of the program itself these
  parts remain: the DAP2 side of a dataset (attribute tables, \<open>DDS\<close>, \<open>DAS\<close>, sequences and grids, the conversions between
  DAP2 and DAP4, the parser of DDX documents), MIME headers, the configuration reader, the caches of responses on disk
  and the signal handlers.
\<close>

end
